(* ===== verification/DT_Prelude.thy ===== *)
theory DT_Prelude
  imports Main "HOL-Library.Word" "HOL-Library.Monad_Syntax"
begin

text \<open>
  Shared ground of the development: C integers, byte memory, loads and the C string
  functions the sources call.

  \<^item> A C \<open>int\<close> or \<open>uint32_t\<close> of libfdt is a HOL \<open>int\<close>; every place where C reduces
    or reinterprets a value carries the reduction explicitly: \<open>u32\<close>, \<open>u64\<close> (unsigned
    wrap-around) and \<open>s32\<close> (conversion to \<open>int\<close>, two's complement).
  \<^item> Memory is a partial map from addresses to bytes. Every function that reads memory
    returns an option: \<open>None\<close> is undefined behaviour of the C code (a read of memory that
    is not there, a division by zero) or a C string scan that never ends. A theorem that a
    function never yields \<open>None\<close> is a memory-safety theorem.
  \<^item> A pointer is its address, NULL is 0.
\<close>

named_theorems wrap_simps \<open>reductions of the machine integers that are already in range\<close>
named_theorems safe_intros \<open>a read-only operation on a valid blob is free of undefined behaviour\<close>

section \<open>Machine integers\<close>

definition u32 :: "int \<Rightarrow> int" where
  "u32 x = x mod 4294967296"

definition u64 :: "int \<Rightarrow> int" where
  "u64 x = x mod 18446744073709551616"

definition s32 :: "int \<Rightarrow> int" where
  "s32 x = (x + 2147483648) mod 4294967296 - 2147483648"

definition c_int :: "int \<Rightarrow> bool" where
  "c_int x \<longleftrightarrow> - 2147483648 \<le> x \<and> x \<le> 2147483647"

abbreviation (input) INT_MAX :: int where "INT_MAX \<equiv> 2147483647"

lemma u32_id [wrap_simps]: "0 \<le> x \<Longrightarrow> x < 4294967296 \<Longrightarrow> u32 x = x"
  by (simp add: u32_def)

lemma u64_id [wrap_simps]: "0 \<le> x \<Longrightarrow> x < 18446744073709551616 \<Longrightarrow> u64 x = x"
  by (simp add: u64_def)

lemma s32_id [wrap_simps]: "- 2147483648 \<le> x \<Longrightarrow> x \<le> 2147483647 \<Longrightarrow> s32 x = x"
  by (simp add: s32_def)

lemma u32_nonneg [simp]: "0 \<le> u32 x"
  unfolding u32_def by (rule pos_mod_sign) simp

lemma u32_less [simp]: "u32 x < 4294967296"
  unfolding u32_def by (rule pos_mod_bound) simp

lemma u64_nonneg [simp]: "0 \<le> u64 x"
  unfolding u64_def by (rule pos_mod_sign) simp

lemma u64_less [simp]: "u64 x < 18446744073709551616"
  unfolding u64_def by (rule pos_mod_bound) simp

lemma c_int_s32 [simp]: "c_int (s32 x)"
proof -
  have "0 \<le> (x + 2147483648) mod 4294967296" by (rule pos_mod_sign) simp
  moreover have "(x + 2147483648) mod 4294967296 < 4294967296" by (rule pos_mod_bound) simp
  ultimately show ?thesis unfolding c_int_def s32_def by linarith
qed

lemma s32_range: "- 2147483648 \<le> s32 x" "s32 x \<le> 2147483647"
  using c_int_s32 [of x] by (simp_all add: c_int_def)

text \<open>The conversion to \<open>int\<close> of a value that exceeds its range by less than \<open>2\<^sup>3\<^sup>1\<close>.\<close>

lemma s32_over:
  assumes "2147483648 \<le> x" and "x < 6442450944"
  shows "s32 x = x - 4294967296"
proof -
  have "(x + 2147483648) mod 4294967296 = (x + 2147483648 - 4294967296) mod 4294967296"
    by (rule minus_mod_self2 [symmetric])
  also have "\<dots> = x + 2147483648 - 4294967296"
    using assms by (intro mod_pos_pos_trivial) linarith+
  finally show ?thesis by (simp add: s32_def)
qed

lemma u32_of_neg:
  assumes "- 4294967296 \<le> x" and "x < 0"
  shows "u32 x = x + 4294967296"
proof -
  have "x mod 4294967296 = (x + 4294967296) mod 4294967296"
    by (rule mod_add_self2 [symmetric])
  also have "\<dots> = x + 4294967296" using assms by (intro mod_pos_pos_trivial) linarith+
  finally show ?thesis by (simp add: u32_def)
qed

section \<open>Bytes, words and memory\<close>

type_synonym byte = "8 word"
type_synonym addr = int
type_synonym mem = "int \<Rightarrow> byte option"

abbreviation (input) NULL :: int where "NULL \<equiv> 0"

definition rd :: "mem \<Rightarrow> addr \<Rightarrow> int option" where
  "rd m a = map_option uint (m a)"

text \<open>Big-endian loads: \<open>fdtN_ld\<close>, and \<open>fdtN_to_cpu\<close> of an object in memory.\<close>

definition fdt16_ld :: "mem \<Rightarrow> addr \<Rightarrow> int option" where
  "fdt16_ld m p = do { b0 \<leftarrow> rd m p; b1 \<leftarrow> rd m (p + 1); Some (b0 * 256 + b1) }"

definition fdt32_ld :: "mem \<Rightarrow> addr \<Rightarrow> int option" where
  "fdt32_ld m p = do {
     b0 \<leftarrow> rd m p; b1 \<leftarrow> rd m (p + 1); b2 \<leftarrow> rd m (p + 2); b3 \<leftarrow> rd m (p + 3);
     Some (b0 * 16777216 + b1 * 65536 + b2 * 256 + b3) }"

definition fdt64_ld :: "mem \<Rightarrow> addr \<Rightarrow> int option" where
  "fdt64_ld m p = do {
     h \<leftarrow> fdt32_ld m p; l \<leftarrow> fdt32_ld m (p + 4);
     Some (h * 4294967296 + l) }"

text \<open>Loads of a native object (the supported targets are little-endian).\<close>

definition ld16_le :: "mem \<Rightarrow> addr \<Rightarrow> int option" where
  "ld16_le m p = do { b0 \<leftarrow> rd m p; b1 \<leftarrow> rd m (p + 1); Some (b0 + b1 * 256) }"

definition ld32_le :: "mem \<Rightarrow> addr \<Rightarrow> int option" where
  "ld32_le m p = do { l \<leftarrow> ld16_le m p; h \<leftarrow> ld16_le m (p + 2); Some (l + h * 65536) }"

definition ld64_le :: "mem \<Rightarrow> addr \<Rightarrow> int option" where
  "ld64_le m p = do { l \<leftarrow> ld32_le m p; h \<leftarrow> ld32_le m (p + 4); Some (l + h * 4294967296) }"

definition mapped :: "mem \<Rightarrow> addr \<Rightarrow> int \<Rightarrow> bool" where
  "mapped m a n \<longleftrightarrow> (\<forall>x. a \<le> x \<and> x < a + n \<longrightarrow> m x \<noteq> None)"

text \<open>The bytes of a buffer, in order.\<close>

fun rd_bytes :: "mem \<Rightarrow> addr \<Rightarrow> nat \<Rightarrow> byte list option" where
  "rd_bytes m a 0 = Some []"
| "rd_bytes m a (Suc n) = do { b \<leftarrow> m a; bs \<leftarrow> rd_bytes m (a + 1) n; Some (b # bs) }"

text \<open>\<open>fdt64_to_cpu\<close> of a value in a register: its bytes in the opposite order.\<close>

definition extract_byte :: "int \<Rightarrow> nat \<Rightarrow> int" where
  "extract_byte x n = x div 256 ^ n mod 256"

definition fdt64_to_cpu :: "int \<Rightarrow> int" where
  "fdt64_to_cpu x =
     extract_byte x 0 * 256 ^ 7 + extract_byte x 1 * 256 ^ 6 + extract_byte x 2 * 256 ^ 5 +
     extract_byte x 3 * 256 ^ 4 + extract_byte x 4 * 256 ^ 3 + extract_byte x 5 * 256 ^ 2 +
     extract_byte x 6 * 256 + extract_byte x 7"

text \<open>A memory that holds one object.\<close>

definition mem_of :: "addr \<Rightarrow> byte list \<Rightarrow> mem" where
  "mem_of a bs = (\<lambda>x. if a \<le> x \<and> x < a + int (length bs) then Some (bs ! nat (x - a)) else None)"

lemma rd_range: "rd m a = Some b \<Longrightarrow> 0 \<le> b \<and> b < 256"
  using uint_lt2p [where ?'a = 8] by (auto simp: rd_def)

lemma rd_eq_None [simp]: "rd m a = None \<longleftrightarrow> m a = None"
  by (simp add: rd_def)

lemma extract_byte_0:
  "0 \<le> b \<Longrightarrow> b < 256 \<Longrightarrow> extract_byte (b + 256 * y) 0 = b"
  by (simp add: extract_byte_def)

lemma extract_byte_Suc:
  "0 \<le> b \<Longrightarrow> b < 256 \<Longrightarrow> extract_byte (b + 256 * y) (Suc n) = extract_byte y n"
  by (simp add: extract_byte_def zdiv_zmult2_eq)

text \<open>Swapping two native words, low word first, is a big-endian load of eight bytes.\<close>

lemma ld32_le_bytes:
  assumes "ld32_le m p = Some v"
  shows "\<exists>b0 b1 b2 b3. rd m p = Some b0 \<and> rd m (p + 1) = Some b1 \<and> rd m (p + 2) = Some b2 \<and>
    rd m (p + 3) = Some b3 \<and> v = b0 + b1 * 256 + (b2 + b3 * 256) * 65536"
  using assms by (simp add: ld32_le_def ld16_le_def bind_eq_Some_conv add.assoc) blast

lemma fdt64_to_cpu_words:
  assumes "ld32_le m p = Some lo" and "ld32_le m (p + 4) = Some hi"
  shows "fdt64_ld m p = Some (fdt64_to_cpu (lo + hi * 4294967296))"
proof -
  from ld32_le_bytes [OF assms(1)] ld32_le_bytes [OF assms(2)] obtain b0 b1 b2 b3 b4 b5 b6 b7 where
    rd: "rd m p = Some b0" "rd m (p + 1) = Some b1" "rd m (p + 2) = Some b2" "rd m (p + 3) = Some b3"
      "rd m (p + 4) = Some b4" "rd m (p + 4 + 1) = Some b5" "rd m (p + 4 + 2) = Some b6"
      "rd m (p + 4 + 3) = Some b7"
    and lo: "lo = b0 + b1 * 256 + (b2 + b3 * 256) * 65536"
    and hi: "hi = b4 + b5 * 256 + (b6 + b7 * 256) * 65536"
    by blast
  note r = rd [THEN rd_range]
  let ?x = "b0 + 256 * (b1 + 256 * (b2 + 256 * (b3 + 256 * (b4 + 256 * (b5 + 256 * (b6 + 256 * (b7 + 256 * 0)))))))"
  have x: "lo + hi * 4294967296 = ?x" by (simp add: lo hi)
  have e: "extract_byte ?x 0 = b0" "extract_byte ?x 1 = b1" "extract_byte ?x 2 = b2"
    "extract_byte ?x 3 = b3" "extract_byte ?x 4 = b4" "extract_byte ?x 5 = b5"
    "extract_byte ?x 6 = b6" "extract_byte ?x 7 = b7"
    using r by (simp_all only: extract_byte_0 extract_byte_Suc One_nat_def numeral_nat)
  have "fdt64_to_cpu (lo + hi * 4294967296) =
      b0 * 256 ^ 7 + b1 * 256 ^ 6 + b2 * 256 ^ 5 + b3 * 256 ^ 4 + b4 * 256 ^ 3 + b5 * 256 ^ 2 +
      b6 * 256 + b7"
    unfolding fdt64_to_cpu_def x e ..
  with rd show ?thesis by (simp add: fdt64_ld_def fdt32_ld_def)
qed

lemma mapped_rd: "mapped m a n \<Longrightarrow> a \<le> x \<Longrightarrow> x < a + n \<Longrightarrow> \<exists>b. rd m x = Some b"
  by (force simp: mapped_def rd_def)

lemma mapped_sub: "mapped m a n \<Longrightarrow> a \<le> a' \<Longrightarrow> a' + n' \<le> a + n \<Longrightarrow> mapped m a' n'"
  by (auto simp: mapped_def)

lemma fdt16_ld_range: "fdt16_ld m p = Some v \<Longrightarrow> 0 \<le> v \<and> v < 65536"
  by (auto simp: fdt16_ld_def bind_eq_Some_conv dest!: rd_range)

lemma fdt32_ld_range: "fdt32_ld m p = Some v \<Longrightarrow> 0 \<le> v \<and> v < 4294967296"
  by (auto simp: fdt32_ld_def bind_eq_Some_conv dest!: rd_range)

lemma fdt64_ld_range: "fdt64_ld m p = Some v \<Longrightarrow> 0 \<le> v \<and> v < 18446744073709551616"
  by (auto simp: fdt64_ld_def bind_eq_Some_conv dest!: fdt32_ld_range)

lemma fdt16_ld_ex:
  assumes "mapped m p 2"
  shows "\<exists>v. fdt16_ld m p = Some v"
proof -
  from assms obtain b0 b1 where "rd m p = Some b0" "rd m (p + 1) = Some b1"
    using mapped_rd [of m p 2 p] mapped_rd [of m p 2 "p + 1"] by auto
  then show ?thesis by (simp add: fdt16_ld_def)
qed

lemma fdt32_ld_ex:
  assumes "mapped m p 4"
  shows "\<exists>v. fdt32_ld m p = Some v"
proof -
  from assms obtain b0 b1 b2 b3 where "rd m p = Some b0" "rd m (p + 1) = Some b1"
    "rd m (p + 2) = Some b2" "rd m (p + 3) = Some b3"
    using mapped_rd [of m p 4 p] mapped_rd [of m p 4 "p + 1"] mapped_rd [of m p 4 "p + 2"]
      mapped_rd [of m p 4 "p + 3"] by auto
  then show ?thesis by (simp add: fdt32_ld_def)
qed

lemma fdt64_ld_ex:
  assumes "mapped m p 8"
  shows "\<exists>v. fdt64_ld m p = Some v"
proof -
  from assms have "mapped m p 4" "mapped m (p + 4) 4" by (auto simp: mapped_def)
  then obtain h l where "fdt32_ld m p = Some h" "fdt32_ld m (p + 4) = Some l"
    using fdt32_ld_ex by blast
  then show ?thesis by (simp add: fdt64_ld_def)
qed

lemma rd_bytes_ex: "mapped m a (int n) \<Longrightarrow> \<exists>bs. rd_bytes m a n = Some bs"
proof (induction n arbitrary: a)
  case (Suc n)
  from Suc.prems have "m a \<noteq> None" and "mapped m (a + 1) (int n)"
    by (auto simp: mapped_def)
  with Suc.IH [of "a + 1"] show ?case by (auto simp: bind_eq_Some_conv)
qed simp

lemma rd_bytes_length: "rd_bytes m a n = Some bs \<Longrightarrow> length bs = n"
  by (induction n arbitrary: a bs) (auto simp: bind_eq_Some_conv)

lemma rd_bytes_nth: "rd_bytes m a n = Some bs \<Longrightarrow> i < n \<Longrightarrow> m (a + int i) = Some (bs ! i)"
proof (induction n arbitrary: a bs i)
  case (Suc n)
  then show ?case
    by (cases i) (auto simp: bind_eq_Some_conv add.commute add.left_commute dest: Suc.IH)
qed simp

section \<open>C strings\<close>

text \<open>
  Names and paths passed by callers are the characters of the C string without its
  terminator; \<open>chars\<close> turns a literal into bytes.
\<close>

definition chars :: "string \<Rightarrow> byte list" where
  "chars s = map of_char s"

partial_function (option) c_strlen :: "mem \<Rightarrow> addr \<Rightarrow> int option" where
  "c_strlen m p = do {
     c \<leftarrow> rd m p;
     if c = 0 then Some 0 else do { n \<leftarrow> c_strlen m (p + 1); Some (n + 1) } }"

declare c_strlen.simps [code]

text \<open>\<open>memchr (p, c, n)\<close>: the address of the first \<open>c\<close> in \<open>n\<close> bytes, or NULL.\<close>

fun c_memchr :: "mem \<Rightarrow> addr \<Rightarrow> int \<Rightarrow> nat \<Rightarrow> addr option" where
  "c_memchr m p c 0 = Some NULL"
| "c_memchr m p c (Suc n) = do {
     b \<leftarrow> rd m p;
     if b = c then Some p else c_memchr m (p + 1) c n }"

text \<open>\<open>memcmp (p, s, length s) == 0\<close> with \<open>s\<close> a caller's string.\<close>

definition c_memeq :: "mem \<Rightarrow> addr \<Rightarrow> byte list \<Rightarrow> bool option" where
  "c_memeq m p s = do { bs \<leftarrow> rd_bytes m p (length s); Some (bs = s) }"

text \<open>The characters of the C string at \<open>p\<close>.\<close>

definition c_str :: "mem \<Rightarrow> addr \<Rightarrow> byte list option" where
  "c_str m p = do { n \<leftarrow> c_strlen m p; rd_bytes m p (nat n) }"

text \<open>\<open>k\<close> is the distance from \<open>p\<close> to the terminator of the string there.\<close>

definition str_end :: "mem \<Rightarrow> addr \<Rightarrow> nat \<Rightarrow> bool" where
  "str_end m p k \<longleftrightarrow> m (p + int k) = Some 0 \<and> (\<forall>i < k. \<exists>b. m (p + int i) = Some b \<and> b \<noteq> 0)"

lemma str_end_0 [simp]: "str_end m p 0 \<longleftrightarrow> m p = Some 0"
  by (simp add: str_end_def)

lemma str_end_Suc:
  "str_end m p (Suc k) \<longleftrightarrow> (\<exists>b. m p = Some b \<and> b \<noteq> 0) \<and> str_end m (p + 1) k"
  by (auto simp: str_end_def All_less_Suc2 ac_simps)

lemma uint_eq_0 [simp]: "uint (b :: byte) = 0 \<longleftrightarrow> b = 0"
  by (simp add: uint_0_iff)

lemma c_strlen_str_end: "str_end m p k \<Longrightarrow> c_strlen m p = Some (int k)"
proof (induction k arbitrary: p)
  case 0
  then show ?case by (simp add: c_strlen.simps [of m p] rd_def)
next
  case (Suc k)
  then have "c_strlen m (p + 1) = Some (int k)" by (simp add: str_end_Suc)
  with Suc.prems show ?case by (auto simp: c_strlen.simps [of m p] rd_def str_end_Suc)
qed

lemma str_end_mapped: "str_end m p k \<Longrightarrow> mapped m p (int k + 1)"
  unfolding mapped_def
proof (intro allI impI)
  fix x
  assume *: "str_end m p k" "p \<le> x \<and> x < p + (int k + 1)"
  define i where "i = nat (x - p)"
  from * have x: "x = p + int i" and "i \<le> k" by (auto simp: i_def)
  show "m x \<noteq> None"
  proof (cases "i = k")
    case True
    with * show ?thesis by (simp add: str_end_def x)
  next
    case False
    with \<open>i \<le> k\<close> have "i < k" by simp
    with * show ?thesis by (auto simp: str_end_def x)
  qed
qed

lemma str_end_unique: "str_end m p k \<Longrightarrow> str_end m p k' \<Longrightarrow> k = k'"
  by (metis c_strlen_str_end of_nat_eq_iff option.inject)

lemma c_memchr_0:
  "mapped m p (int n) \<Longrightarrow>
     (\<exists>k < n. str_end m p k \<and> c_memchr m p 0 n = Some (p + int k)) \<or>
     (c_memchr m p 0 n = Some NULL \<and> (\<forall>i < n. \<exists>b. m (p + int i) = Some b \<and> b \<noteq> 0))"
proof (induction n arbitrary: p)
  case 0
  then show ?case by simp
next
  case (Suc n)
  from Suc.prems obtain b where b: "m p = Some b" by (auto simp: mapped_def)
  show ?case
  proof (cases "b = 0")
    case True
    with b show ?thesis by (auto simp: rd_def intro!: exI [of _ 0])
  next
    case False
    from Suc.prems have "mapped m (p + 1) (int n)" by (auto simp: mapped_def)
    from Suc.IH [OF this] show ?thesis
    proof
      assume "\<exists>k<n. str_end m (p + 1) k \<and> c_memchr m (p + 1) 0 n = Some (p + 1 + int k)"
      then obtain k where "k < n" "str_end m (p + 1) k"
        "c_memchr m (p + 1) 0 n = Some (p + 1 + int k)" by blast
      with b False show ?thesis by (intro disjI1 exI [of _ "Suc k"]) (simp add: rd_def str_end_Suc)
    next
      assume "c_memchr m (p + 1) 0 n = Some NULL \<and>
        (\<forall>i<n. \<exists>b. m (p + 1 + int i) = Some b \<and> b \<noteq> 0)"
      with b False show ?thesis
        by (intro disjI2) (auto simp: rd_def All_less_Suc2 ac_simps)
    qed
  qed
qed

text \<open>The NUL-terminated strings of a list of bytes.\<close>

function (sequential) c_strings :: "byte list \<Rightarrow> byte list list" where
  "c_strings [] = []"
| "c_strings l = takeWhile (\<lambda>c. c \<noteq> 0) l # c_strings (drop (length (takeWhile (\<lambda>c. c \<noteq> 0) l) + 1) l)"
  by pat_completeness auto

termination c_strings
  by (relation "measure length") auto

declare c_strings.simps(2) [simp del]

lemma c_strings_unfold:
  "l \<noteq> [] \<Longrightarrow> c_strings l = takeWhile (\<lambda>c. c \<noteq> 0) l # c_strings (drop (length (takeWhile (\<lambda>c. c \<noteq> 0) l) + 1) l)"
  by (cases l) (simp_all add: c_strings.simps(2))

text \<open>Pairs of bounded numbers, packed into one, compare lexicographically.\<close>

lemma uint_lex:
  fixes a c :: "'a::len word" and b d :: "'b::len word"
  assumes "uint b < k" and "uint d < k"
  shows "(uint a * k + uint b \<le> uint c * k + uint d) = (a < c \<or> a = c \<and> b \<le> d)"
proof -
  consider "uint a < uint c" | "uint a = uint c" | "uint c < uint a" by linarith
  then show ?thesis
  proof cases
    case 1
    then have "(uint a + 1) * k \<le> uint c * k" using assms uint_ge_0 [of b] by (intro mult_right_mono) linarith+
    then have "uint a * k + k \<le> uint c * k" by (simp add: distrib_right)
    then have "uint a * k + uint b \<le> uint c * k + uint d"
      using assms uint_ge_0 [of d] by linarith
    with 1 show ?thesis by (simp add: word_less_def)
  next
    case 2
    then show ?thesis by (simp add: word_le_def word_uint_eq_iff word_less_def)
  next
    case 3
    then have "(uint c + 1) * k \<le> uint a * k" using assms uint_ge_0 [of b] by (intro mult_right_mono) linarith+
    then have "uint c * k + k \<le> uint a * k" by (simp add: distrib_right)
    then have "\<not> uint a * k + uint b \<le> uint c * k + uint d"
      using assms uint_ge_0 [of b] by linarith
    with 3 show ?thesis by (auto simp: word_less_def)
  qed
qed

end
