(* ===== verification/Fdt_Core.thy ===== *)
theory Fdt_Core
  imports DT_Prelude
begin

text \<open>
  \<^verbatim>\<open>libs/libfdt/fdt.c\<close>: the header checks and the tag walk every other part rests on.
  \<open>fdt\<close> is the address of a blob. The checks \<open>can_assume (...)\<close> are those of a build
  with the default \<open>FDT_ASSUME_MASK\<close> of 0: no assumption is made and every check runs.
\<close>

section \<open>Constants\<close>

abbreviation (input) FDT_MAGIC :: int where "FDT_MAGIC \<equiv> 3490578157"
abbreviation (input) FDT_SW_MAGIC :: int where "FDT_SW_MAGIC \<equiv> 804389138"
abbreviation (input) FDT_TAGSIZE :: int where "FDT_TAGSIZE \<equiv> 4"
abbreviation (input) FDT_BEGIN_NODE :: int where "FDT_BEGIN_NODE \<equiv> 1"
abbreviation (input) FDT_END_NODE :: int where "FDT_END_NODE \<equiv> 2"
abbreviation (input) FDT_PROP :: int where "FDT_PROP \<equiv> 3"
abbreviation (input) FDT_NOP :: int where "FDT_NOP \<equiv> 4"
abbreviation (input) FDT_END :: int where "FDT_END \<equiv> 9"

abbreviation (input) FDT_FIRST_SUPPORTED_VERSION :: int where "FDT_FIRST_SUPPORTED_VERSION \<equiv> 2"
abbreviation (input) FDT_LAST_SUPPORTED_VERSION :: int where "FDT_LAST_SUPPORTED_VERSION \<equiv> 17"

abbreviation (input) FDT_ERR_NOTFOUND :: int where "FDT_ERR_NOTFOUND \<equiv> 1"
abbreviation (input) FDT_ERR_EXISTS :: int where "FDT_ERR_EXISTS \<equiv> 2"
abbreviation (input) FDT_ERR_NOSPACE :: int where "FDT_ERR_NOSPACE \<equiv> 3"
abbreviation (input) FDT_ERR_BADOFFSET :: int where "FDT_ERR_BADOFFSET \<equiv> 4"
abbreviation (input) FDT_ERR_BADPATH :: int where "FDT_ERR_BADPATH \<equiv> 5"
abbreviation (input) FDT_ERR_BADPHANDLE :: int where "FDT_ERR_BADPHANDLE \<equiv> 6"
abbreviation (input) FDT_ERR_BADSTATE :: int where "FDT_ERR_BADSTATE \<equiv> 7"
abbreviation (input) FDT_ERR_TRUNCATED :: int where "FDT_ERR_TRUNCATED \<equiv> 8"
abbreviation (input) FDT_ERR_BADMAGIC :: int where "FDT_ERR_BADMAGIC \<equiv> 9"
abbreviation (input) FDT_ERR_BADVERSION :: int where "FDT_ERR_BADVERSION \<equiv> 10"
abbreviation (input) FDT_ERR_BADSTRUCTURE :: int where "FDT_ERR_BADSTRUCTURE \<equiv> 11"
abbreviation (input) FDT_ERR_BADLAYOUT :: int where "FDT_ERR_BADLAYOUT \<equiv> 12"
abbreviation (input) FDT_ERR_INTERNAL :: int where "FDT_ERR_INTERNAL \<equiv> 13"
abbreviation (input) FDT_ERR_BADNCELLS :: int where "FDT_ERR_BADNCELLS \<equiv> 14"
abbreviation (input) FDT_ERR_BADVALUE :: int where "FDT_ERR_BADVALUE \<equiv> 15"
abbreviation (input) FDT_ERR_NOPHANDLES :: int where "FDT_ERR_NOPHANDLES \<equiv> 17"
abbreviation (input) FDT_ERR_ALIGNMENT :: int where "FDT_ERR_ALIGNMENT \<equiv> 19"

section \<open>The header\<close>

definition fdt_magic :: "mem \<Rightarrow> addr \<Rightarrow> int option" where
  "fdt_magic m fdt = fdt32_ld m fdt"

definition fdt_totalsize :: "mem \<Rightarrow> addr \<Rightarrow> int option" where
  "fdt_totalsize m fdt = fdt32_ld m (fdt + 4)"

definition fdt_off_dt_struct :: "mem \<Rightarrow> addr \<Rightarrow> int option" where
  "fdt_off_dt_struct m fdt = fdt32_ld m (fdt + 8)"

definition fdt_off_dt_strings :: "mem \<Rightarrow> addr \<Rightarrow> int option" where
  "fdt_off_dt_strings m fdt = fdt32_ld m (fdt + 12)"

definition fdt_off_mem_rsvmap :: "mem \<Rightarrow> addr \<Rightarrow> int option" where
  "fdt_off_mem_rsvmap m fdt = fdt32_ld m (fdt + 16)"

definition fdt_version :: "mem \<Rightarrow> addr \<Rightarrow> int option" where
  "fdt_version m fdt = fdt32_ld m (fdt + 20)"

definition fdt_last_comp_version :: "mem \<Rightarrow> addr \<Rightarrow> int option" where
  "fdt_last_comp_version m fdt = fdt32_ld m (fdt + 24)"

definition fdt_size_dt_strings :: "mem \<Rightarrow> addr \<Rightarrow> int option" where
  "fdt_size_dt_strings m fdt = fdt32_ld m (fdt + 32)"

definition fdt_size_dt_struct :: "mem \<Rightarrow> addr \<Rightarrow> int option" where
  "fdt_size_dt_struct m fdt = fdt32_ld m (fdt + 36)"

text \<open>The field \<open>size_dt_struct\<close>, which only version 17 and later headers have.\<close>

definition struct_size_v17 :: "mem \<Rightarrow> addr \<Rightarrow> int \<Rightarrow> int option" where
  "struct_size_v17 m fdt version = (if version \<ge> 17 then fdt_size_dt_struct m fdt else Some 0)"

text \<open>The minimal check of a read-only tree: the total size, or an error code.\<close>

definition fdt_ro_probe :: "mem \<Rightarrow> addr \<Rightarrow> int option" where
  "fdt_ro_probe m fdt = do {
     totalsize \<leftarrow> fdt_totalsize m fdt;
     if fdt mod 8 \<noteq> 0 then Some (- FDT_ERR_ALIGNMENT)
     else do {
       magic \<leftarrow> fdt_magic m fdt;
       let sized = (if totalsize < INT_MAX then Some totalsize else Some (- FDT_ERR_TRUNCATED));
       if magic = FDT_MAGIC then do {
         version \<leftarrow> fdt_version m fdt;
         last_comp \<leftarrow> fdt_last_comp_version m fdt;
         if version < FDT_FIRST_SUPPORTED_VERSION then Some (- FDT_ERR_BADVERSION)
         else if last_comp > FDT_LAST_SUPPORTED_VERSION then Some (- FDT_ERR_BADVERSION)
         else sized }
       else if magic = FDT_SW_MAGIC then do {
         struct_size \<leftarrow> fdt_size_dt_struct m fdt;
         if struct_size = 0 then Some (- FDT_ERR_BADSTATE) else sized }
       else Some (- FDT_ERR_BADMAGIC) } }"

definition check_off :: "int \<Rightarrow> int \<Rightarrow> int \<Rightarrow> bool" where
  "check_off hdrsize totalsize off \<longleftrightarrow> off \<ge> hdrsize \<and> off \<le> totalsize"

definition check_block :: "int \<Rightarrow> int \<Rightarrow> int \<Rightarrow> int \<Rightarrow> bool" where
  "check_block hdrsize totalsize base bsize \<longleftrightarrow>
     (if \<not> check_off hdrsize totalsize base then False
      else if u32 (base + bsize) < base then False
      else if \<not> check_off hdrsize totalsize (u32 (base + bsize)) then False
      else True)"

definition fdt_header_size_of :: "int \<Rightarrow> int" where
  "fdt_header_size_of version =
     (if version \<le> 1 then 28 else if version \<le> 2 then 32 else if version \<le> 3 then 36
      else if version \<le> 16 then 36 else 40)"

definition fdt_header_size :: "mem \<Rightarrow> addr \<Rightarrow> int option" where
  "fdt_header_size m fdt = do { version \<leftarrow> fdt_version m fdt; Some (fdt_header_size_of version) }"

text \<open>The bounds checks of the blocks, on the header fields.\<close>

definition check_blocks :: "int \<Rightarrow> int \<Rightarrow> int \<Rightarrow> int \<Rightarrow> int \<Rightarrow> int \<Rightarrow> int \<Rightarrow> int \<Rightarrow> int" where
  "check_blocks version hdrsize totalsize rsvmap off_struct size_struct off_strings size_strings =
     (if totalsize < hdrsize \<or> totalsize > INT_MAX then - FDT_ERR_TRUNCATED
      else if \<not> check_off hdrsize totalsize rsvmap then - FDT_ERR_TRUNCATED
      else if version < 17 \<and> \<not> check_off hdrsize totalsize off_struct then - FDT_ERR_TRUNCATED
      else if \<not> version < 17 \<and> \<not> check_block hdrsize totalsize off_struct size_struct
        then - FDT_ERR_TRUNCATED
      else if \<not> check_block hdrsize totalsize off_strings size_strings then - FDT_ERR_TRUNCATED
      else 0)"

definition fdt_check_header :: "mem \<Rightarrow> addr \<Rightarrow> int option" where
  "fdt_check_header m fdt =
     (if fdt mod 8 \<noteq> 0 then Some (- FDT_ERR_ALIGNMENT)
      else do {
        magic \<leftarrow> fdt_magic m fdt;
        if magic \<noteq> FDT_MAGIC then Some (- FDT_ERR_BADMAGIC)
        else do {
          version \<leftarrow> fdt_version m fdt;
          last_comp \<leftarrow> fdt_last_comp_version m fdt;
          if version < FDT_FIRST_SUPPORTED_VERSION \<or> last_comp > FDT_LAST_SUPPORTED_VERSION
          then Some (- FDT_ERR_BADVERSION)
          else if version < last_comp then Some (- FDT_ERR_BADVERSION)
          else do {
            hdrsize \<leftarrow> fdt_header_size m fdt;
            totalsize \<leftarrow> fdt_totalsize m fdt;
            rsvmap \<leftarrow> fdt_off_mem_rsvmap m fdt;
            off_struct \<leftarrow> fdt_off_dt_struct m fdt;
            size_struct \<leftarrow> struct_size_v17 m fdt version;
            off_strings \<leftarrow> fdt_off_dt_strings m fdt;
            size_strings \<leftarrow> fdt_size_dt_strings m fdt;
            Some (check_blocks version hdrsize totalsize rsvmap off_struct size_struct
                    off_strings size_strings) } } })"

section \<open>The tag walk\<close>

text \<open>
  The address of \<open>len\<close> bytes at \<open>offset\<close> of the structure block, NULL when they are not all
  in the blob. The first line only says that \<open>offset\<close> is a C \<open>int\<close>.
\<close>

definition fdt_offset_ptr :: "mem \<Rightarrow> addr \<Rightarrow> int \<Rightarrow> int \<Rightarrow> addr option" where
  "fdt_offset_ptr m fdt offset len =
     (if \<not> c_int offset then None
      else do {
        off_struct \<leftarrow> fdt_off_dt_struct m fdt;
        let uoffset = u32 offset;
        let absoffset = u32 (offset + off_struct);
        if offset < 0 then Some NULL
        else do {
          totalsize \<leftarrow> fdt_totalsize m fdt;
          if absoffset < uoffset \<or> u32 (absoffset + len) < absoffset \<or>
             u32 (absoffset + len) > totalsize
          then Some NULL
          else do {
            version \<leftarrow> fdt_version m fdt;
            struct_size \<leftarrow> struct_size_v17 m fdt version;
            if version \<ge> 17 \<and> (u32 (uoffset + len) < uoffset \<or> u32 (offset + len) > struct_size)
            then Some NULL
            else Some (fdt + off_struct + offset) } } })"

text \<open>\<open>FDT_TAGALIGN\<close>, in \<open>size_t\<close> arithmetic and converted back to \<open>int\<close>.\<close>

definition FDT_TAGALIGN :: "int \<Rightarrow> int" where
  "FDT_TAGALIGN x = s32 ((x + 3) div 4 * 4)"

text \<open>The loop \<open>do { p = fdt_offset_ptr (fdt, offset++, 1); } while (p && *p)\<close>.\<close>

lemma fdt_offset_ptr_nonneg:
  "fdt_offset_ptr m fdt offset len = Some p \<Longrightarrow> p \<noteq> NULL \<Longrightarrow> 0 \<le> offset \<and> offset \<le> INT_MAX"
  by (auto simp: fdt_offset_ptr_def c_int_def bind_eq_Some_conv Let_def split: if_splits)

function (sequential) skip_name :: "mem \<Rightarrow> addr \<Rightarrow> int \<Rightarrow> (addr \<times> int) option" where
  "skip_name m fdt offset = do {
     p \<leftarrow> fdt_offset_ptr m fdt offset 1;
     if p = NULL then Some (p, s32 (offset + 1))
     else do {
       c \<leftarrow> rd m p;
       if c \<noteq> 0 then skip_name m fdt (s32 (offset + 1)) else Some (p, s32 (offset + 1)) } }"
  by pat_completeness auto

lemma s32_Suc:
  "0 \<le> x \<Longrightarrow> x \<le> INT_MAX \<Longrightarrow> s32 (x + 1) = x + 1 \<or> (x = INT_MAX \<and> s32 (x + 1) = - 2147483648)"
  using s32_over [of "x + 1"] s32_id [of "x + 1"] by fastforce

termination skip_name
proof (relation "measure (\<lambda>(m, fdt, x). if x < 0 then 0 else nat (2147483648 - x))")
  fix m fdt offset p c
  assume "fdt_offset_ptr m fdt offset 1 = Some p" "p \<noteq> NULL"
  then have "0 \<le> offset" "offset \<le> INT_MAX" by (auto dest: fdt_offset_ptr_nonneg)
  then show "((m, fdt, s32 (offset + 1)), m, fdt, offset)
      \<in> measure (\<lambda>(m, fdt, x). if x < 0 then 0 else nat (2147483648 - x))"
    using s32_Suc [of offset] by auto
qed simp

declare skip_name.simps [simp del]

text \<open>The common tail of \<open>fdt_next_tag\<close>: the whole item must be in the structure block.\<close>

definition next_tag_end :: "mem \<Rightarrow> addr \<Rightarrow> int \<Rightarrow> int \<Rightarrow> int \<Rightarrow> (int \<times> int) option" where
  "next_tag_end m fdt startoffset tag offset = do {
     p \<leftarrow> fdt_offset_ptr m fdt startoffset (u32 (offset - startoffset));
     if p = NULL then Some (FDT_END, - FDT_ERR_BADSTRUCTURE)
     else Some (tag, FDT_TAGALIGN offset) }"

text \<open>
  The case \<open>FDT_PROP\<close>: the offset behind the value of the property whose length word is at
  \<open>offset\<close>, \<open>None\<close> where the code returns at a premature end.
\<close>

definition skip_prop :: "mem \<Rightarrow> addr \<Rightarrow> int \<Rightarrow> int option option" where
  "skip_prop m fdt offset = do {
     lenp \<leftarrow> fdt_offset_ptr m fdt offset 4;
     if lenp = NULL then Some None
     else do {
       len \<leftarrow> fdt32_ld m lenp;
       let sum = u32 (len + offset);
       if INT_MAX \<le> sum \<or> sum < u32 offset then Some None
       else do {
         let offset = s32 (offset + (12 - FDT_TAGSIZE + len));
         version \<leftarrow> fdt_version m fdt;
         Some (Some
           (if version < 16 \<and> len \<ge> 8 \<and> u32 (offset - len) mod 8 \<noteq> 0
            then s32 (offset + 4) else offset)) } } }"

text \<open>The tag at \<open>startoffset\<close> and \<open>*nextoffset\<close>: the next tag's offset or an error code.\<close>

definition fdt_next_tag :: "mem \<Rightarrow> addr \<Rightarrow> int \<Rightarrow> (int \<times> int) option" where
  "fdt_next_tag m fdt startoffset = do {
     tagp \<leftarrow> fdt_offset_ptr m fdt startoffset FDT_TAGSIZE;
     if tagp = NULL then Some (FDT_END, - FDT_ERR_TRUNCATED)
     else do {
       tag \<leftarrow> fdt32_ld m tagp;
       let offset = s32 (startoffset + FDT_TAGSIZE);
       if tag = FDT_BEGIN_NODE then do {
         (p, offset) \<leftarrow> skip_name m fdt offset;
         if p = NULL then Some (FDT_END, - FDT_ERR_BADSTRUCTURE)
         else next_tag_end m fdt startoffset tag offset }
       else if tag = FDT_PROP then do {
         e \<leftarrow> skip_prop m fdt offset;
         case e of
           None \<Rightarrow> Some (FDT_END, - FDT_ERR_BADSTRUCTURE)
         | Some offset \<Rightarrow> next_tag_end m fdt startoffset tag offset }
       else if tag = FDT_END \<or> tag = FDT_END_NODE \<or> tag = FDT_NOP
       then next_tag_end m fdt startoffset tag offset
       else Some (FDT_END, - FDT_ERR_BADSTRUCTURE) } }"

definition fdt_check_node_offset :: "mem \<Rightarrow> addr \<Rightarrow> int \<Rightarrow> int option" where
  "fdt_check_node_offset m fdt offset =
     (if offset < 0 \<or> offset mod FDT_TAGSIZE \<noteq> 0 then Some (- FDT_ERR_BADOFFSET)
      else do {
        (tag, nextoffset) \<leftarrow> fdt_next_tag m fdt offset;
        if tag \<noteq> FDT_BEGIN_NODE then Some (- FDT_ERR_BADOFFSET) else Some nextoffset })"

definition fdt_check_prop_offset :: "mem \<Rightarrow> addr \<Rightarrow> int \<Rightarrow> int option" where
  "fdt_check_prop_offset m fdt offset =
     (if offset < 0 \<or> offset mod FDT_TAGSIZE \<noteq> 0 then Some (- FDT_ERR_BADOFFSET)
      else do {
        (tag, nextoffset) \<leftarrow> fdt_next_tag m fdt offset;
        if tag \<noteq> FDT_PROP then Some (- FDT_ERR_BADOFFSET) else Some nextoffset })"

section \<open>Every step of the walk moves forward\<close>

lemma FDT_TAGALIGN_range: "c_int (FDT_TAGALIGN x)"
  by (simp add: FDT_TAGALIGN_def)

lemma FDT_TAGALIGN_ge:
  assumes "- 2147483648 \<le> x" and "x \<le> INT_MAX"
  shows "x \<le> FDT_TAGALIGN x \<or> FDT_TAGALIGN x = - 2147483648"
proof (cases "x \<le> 2147483644")
  case True
  then have "(x + 3) div 4 * 4 \<le> 2147483647" "x \<le> (x + 3) div 4 * 4" by linarith+
  moreover from this assms have "s32 ((x + 3) div 4 * 4) = (x + 3) div 4 * 4"
    by (intro s32_id) linarith+
  ultimately show ?thesis by (simp add: FDT_TAGALIGN_def)
next
  case False
  with assms have "536870912 \<le> (x + 3) div 4" "(x + 3) div 4 < 536870913"
    by simp_all
  then have "(x + 3) div 4 * 4 = 2147483648" by simp
  moreover have "s32 2147483648 = - 2147483648" by (simp add: s32_over)
  ultimately show ?thesis by (simp add: FDT_TAGALIGN_def)
qed

lemma skip_name_forward:
  "skip_name m fdt offset = Some (p, next) \<Longrightarrow> p \<noteq> NULL \<Longrightarrow>
     0 \<le> offset \<and> (offset < next \<and> next \<le> INT_MAX \<or> next = - 2147483648)"
proof (induction m fdt offset rule: skip_name.induct)
  case (1 m fdt offset)
  from "1.prems" obtain q where q: "fdt_offset_ptr m fdt offset 1 = Some q" "q \<noteq> NULL"
    by (subst (asm) skip_name.simps) (auto simp: bind_eq_Some_conv split: if_splits)
  then have range: "0 \<le> offset" "offset \<le> INT_MAX" by (auto dest: fdt_offset_ptr_nonneg)
  from "1.prems" q obtain c where c: "rd m q = Some c"
    by (subst (asm) skip_name.simps) (auto simp: bind_eq_Some_conv)
  show ?case
  proof (cases "c = 0")
    case True
    with "1.prems" q c have "next = s32 (offset + 1)" by (subst (asm) skip_name.simps) auto
    with range show ?thesis
      using s32_Suc [of offset] s32_range [of "offset + 1"] by auto
  next
    case False
    with "1.prems" q c have rec: "skip_name m fdt (s32 (offset + 1)) = Some (p, next)"
      by (subst (asm) skip_name.simps) auto
    from "1.IH" [OF q(1) q(2) c False rec "1.prems"(2)] range s32_Suc [of offset]
    show ?thesis by auto
  qed
qed

lemma next_tag_end_Some:
  "next_tag_end m fdt start tag offset = Some (tag', next) \<Longrightarrow> tag' \<noteq> FDT_END \<Longrightarrow>
     tag' = tag \<and> next = FDT_TAGALIGN offset"
  by (auto simp: next_tag_end_def bind_eq_Some_conv split: if_splits)

lemma align_forward:
  assumes "c_int x" and "start < x \<or> x \<le> - 1000"
  shows "c_int (FDT_TAGALIGN x) \<and> (start < FDT_TAGALIGN x \<or> FDT_TAGALIGN x < 0)"
proof -
  from assms(1) have x: "- 2147483648 \<le> x" "x \<le> INT_MAX" by (simp_all add: c_int_def)
  from assms(2) show ?thesis
  proof
    assume "start < x"
    with FDT_TAGALIGN_ge [OF x] show ?thesis by (auto simp: FDT_TAGALIGN_range)
  next
    assume "x \<le> - 1000"
    then have "(x + 3) div 4 * 4 < 0" "- 2147483648 \<le> (x + 3) div 4 * 4" using x by linarith+
    then have "s32 ((x + 3) div 4 * 4) < 0" by (subst s32_id) simp_all
    then show ?thesis by (simp add: FDT_TAGALIGN_def)
  qed
qed

text \<open>The offset after a property header and its value, with the realignment of old versions.\<close>

lemma prop_end_forward:
  assumes offset: "0 \<le> offset" "offset \<le> INT_MAX" and len: "0 \<le> len" "len < 4294967296"
    and sum: "\<not> (INT_MAX \<le> u32 (len + offset) \<or> u32 (len + offset) < u32 offset)"
  shows "offset < s32 (offset + (8 + len)) \<or> s32 (offset + (8 + len)) \<le> - 2147483640"
    and "\<lbrakk>b\<rbrakk> \<Longrightarrow> offset < s32 (s32 (offset + (8 + len)) + 4) \<or> s32 (s32 (offset + (8 + len)) + 4) \<le> - 2147483630"
proof -
  have "len + offset < INT_MAX"
  proof (rule ccontr)
    assume "\<not> ?thesis"
    then have ge: "INT_MAX \<le> len + offset" by simp
    show False
    proof (cases "len + offset < 4294967296")
      case True
      with sum ge show False by (simp add: u32_id)
    next
      case False
      then have "u32 (len + offset) = len + offset - 4294967296"
        using offset len unfolding u32_def
        by (subst minus_mod_self2 [symmetric], intro mod_pos_pos_trivial) linarith+
      with sum len offset show False by (simp add: u32_id)
    qed
  qed
  then have le: "offset + (8 + len) \<le> 2147483654" by simp
  then have *: "s32 (offset + (8 + len)) = offset + (8 + len) \<or>
      s32 (offset + (8 + len)) \<le> - 2147483640"
    using offset len s32_id [of "offset + (8 + len)"] s32_over [of "offset + (8 + len)"]
    by linarith
  then show "offset < s32 (offset + (8 + len)) \<or> s32 (offset + (8 + len)) \<le> - 2147483640"
    using len by linarith
  show "offset < s32 (s32 (offset + (8 + len)) + 4) \<or> s32 (s32 (offset + (8 + len)) + 4) \<le> - 2147483630"
    if b
  proof (cases "offset + (8 + len) \<le> INT_MAX - 4")
    case True
    with offset len show ?thesis by (simp add: s32_id)
  next
    case False
    have "s32 (s32 y + 4) = s32 (y + 4)" for y
      unfolding s32_def by (simp add: mod_simps algebra_simps)
    then have "s32 (s32 (offset + (8 + len)) + 4) = s32 (offset + (8 + len) + 4)" .
    also have "\<dots> = offset + (8 + len) + 4 - 4294967296"
      using False le by (intro s32_over) linarith+
    finally show ?thesis using le by linarith
  qed
qed

lemma skip_prop_forward:
  assumes "skip_prop m fdt offset = Some (Some e)"
  shows "0 \<le> offset \<and> c_int e \<and> (offset < e \<or> e \<le> - 2147483630)"
proof -
  from assms obtain lenp len where lenp: "fdt_offset_ptr m fdt offset 4 = Some lenp" "lenp \<noteq> NULL"
    and len: "fdt32_ld m lenp = Some len"
    and sum: "\<not> (INT_MAX \<le> u32 (len + offset) \<or> u32 (len + offset) < u32 offset)"
    and e: "e = s32 (offset + (8 + len)) \<or> e = s32 (s32 (offset + (8 + len)) + 4)"
    by (auto simp: skip_prop_def bind_eq_Some_conv Let_def split: if_splits)
  from lenp have range: "0 \<le> offset" "offset \<le> INT_MAX" by (auto dest: fdt_offset_ptr_nonneg)
  moreover from len have len': "0 \<le> len" "len < 4294967296" by (auto dest: fdt32_ld_range)
  ultimately show ?thesis
    using e prop_end_forward(1) [OF range len' sum] prop_end_forward(2) [OF range len' sum TrueI]
    by auto
qed

lemma fdt_next_tag_forward:
  assumes "fdt_next_tag m fdt start = Some (tag, next)" and "tag \<noteq> FDT_END"
  shows "0 \<le> start \<and> start \<le> INT_MAX \<and> c_int next \<and> (start < next \<or> next < 0)"
proof -
  from assms obtain tagp t where tagp: "fdt_offset_ptr m fdt start FDT_TAGSIZE = Some tagp"
    "tagp \<noteq> NULL" "fdt32_ld m tagp = Some t"
    by (auto simp: fdt_next_tag_def bind_eq_Some_conv split: if_splits)
  then have start: "0 \<le> start" "start \<le> INT_MAX" by (auto dest: fdt_offset_ptr_nonneg)
  let ?o = "s32 (start + FDT_TAGSIZE)"
  have o: "?o = start + 4 \<or> ?o \<le> - 2147483600"
    using start s32_id [of "start + 4"] s32_over [of "start + 4"] by linarith
  have simple: "c_int (FDT_TAGALIGN ?o) \<and> (start < FDT_TAGALIGN ?o \<or> FDT_TAGALIGN ?o < 0)"
    by (rule align_forward) (use o in auto)
  note eq = assms(1)[unfolded fdt_next_tag_def, simplified tagp Let_def, simplified]
  show ?thesis
  proof (cases "t = FDT_BEGIN_NODE")
    case True
    with eq assms(2) tagp obtain p x where "skip_name m fdt ?o = Some (p, x)" "p \<noteq> NULL"
      "next = FDT_TAGALIGN x"
      by (auto simp: bind_eq_Some_conv split: if_splits dest!: next_tag_end_Some)
    then have "next = FDT_TAGALIGN x" and x: "0 \<le> ?o"
      "?o < x \<and> x \<le> INT_MAX \<or> x = - 2147483648"
      by (auto dest: skip_name_forward)
    moreover have "c_int (FDT_TAGALIGN x) \<and> (start < FDT_TAGALIGN x \<or> FDT_TAGALIGN x < 0)"
      using x o start by (intro align_forward) (auto simp: c_int_def)
    ultimately show ?thesis using start by simp
  next
    case not_begin: False
    show ?thesis
    proof (cases "t = FDT_PROP")
      case True
      from True eq assms(2) tagp obtain e where "skip_prop m fdt ?o = Some (Some e)"
        and nx: "next = FDT_TAGALIGN e"
        by (auto simp: bind_eq_Some_conv split: option.splits dest!: next_tag_end_Some)
      then have e: "0 \<le> ?o" "c_int e" "?o < e \<or> e \<le> - 2147483630"
        by (auto dest: skip_prop_forward)
      with o have "start < e \<or> e \<le> - 1000" by linarith
      with e(2) align_forward nx start show ?thesis by blast
    next
      case False
      with not_begin eq assms(2) tagp have "next = FDT_TAGALIGN ?o"
        by (auto split: if_splits dest!: next_tag_end_Some)
      with simple start show ?thesis by simp
    qed
  qed
qed

section \<open>Nodes\<close>

text \<open>
  The loop of \<open>fdt_next_node\<close>. \<open>depth\<close> is \<open>None\<close> for a NULL pointer and otherwise the
  value of \<open>*depth\<close>; the result is the node's offset or an error, with \<open>*depth\<close>.
\<close>

function (sequential) next_node_loop :: "mem \<Rightarrow> addr \<Rightarrow> int \<Rightarrow> int option \<Rightarrow> (int \<times> int option) option" where
  "next_node_loop m fdt offset depth = do {
     (tag, nextoffset) \<leftarrow> fdt_next_tag m fdt offset;
     if tag = FDT_BEGIN_NODE then Some (offset, map_option (\<lambda>d. d + 1) depth)
     else if tag = FDT_END_NODE then
       (case depth of
          None \<Rightarrow> next_node_loop m fdt nextoffset None
        | Some d \<Rightarrow>
            if d - 1 < 0 then Some (nextoffset, Some (d - 1))
            else next_node_loop m fdt nextoffset (Some (d - 1)))
     else if tag = FDT_END then
       (if nextoffset \<ge> 0 \<or> (nextoffset = - FDT_ERR_TRUNCATED \<and> depth = None)
        then Some (- FDT_ERR_NOTFOUND, depth) else Some (nextoffset, depth))
     else next_node_loop m fdt nextoffset depth }"
  by pat_completeness auto

abbreviation (input) walk_measure :: "int \<Rightarrow> nat" where
  "walk_measure x \<equiv> (if x < 0 then 0 else nat (2147483648 - x))"

lemma walk_step:
  "fdt_next_tag m fdt offset = Some (tag, next) \<Longrightarrow> tag \<noteq> FDT_END \<Longrightarrow>
     walk_measure next < walk_measure offset"
  using fdt_next_tag_forward [of m fdt offset tag "next"] by (auto simp: c_int_def)

termination next_node_loop
  by (relation "measure (\<lambda>(m, fdt, x, d). walk_measure x)") (auto dest: walk_step)

declare next_node_loop.simps [simp del]

definition fdt_next_node :: "mem \<Rightarrow> addr \<Rightarrow> int \<Rightarrow> int option \<Rightarrow> (int \<times> int option) option" where
  "fdt_next_node m fdt offset depth =
     (if offset \<ge> 0 then do {
        nextoffset \<leftarrow> fdt_check_node_offset m fdt offset;
        if nextoffset < 0 then Some (nextoffset, depth)
        else next_node_loop m fdt nextoffset depth }
      else next_node_loop m fdt 0 depth)"

lemma fdt_next_tag_neg:
  "offset < 0 \<Longrightarrow> fdt_next_tag m fdt offset = Some (tag, nx) \<Longrightarrow>
     tag = FDT_END \<and> nx = - FDT_ERR_TRUNCATED"
  by (auto simp: fdt_next_tag_def fdt_offset_ptr_def bind_eq_Some_conv Let_def split: if_splits)

lemma next_node_loop_neg:
  assumes "next_node_loop m fdt offset depth = Some (r, depth')" and "0 \<le> r"
  shows "0 \<le> offset"
proof (rule ccontr)
  assume "\<not> 0 \<le> offset"
  moreover obtain tag nx where "fdt_next_tag m fdt offset = Some (tag, nx)"
    using assms(1) by (subst (asm) next_node_loop.simps) (auto simp: bind_eq_Some_conv)
  ultimately have "fdt_next_tag m fdt offset = Some (FDT_END, - FDT_ERR_TRUNCATED)"
    using fdt_next_tag_neg [of offset m fdt tag nx] by simp
  with assms show False by (subst (asm) next_node_loop.simps) (auto split: if_splits)
qed

text \<open>
  A non-negative result lies ahead; unless the walk left the enclosing node (depth below 0)
  there is a node at it.
\<close>

lemma next_node_loop_forward:
  "next_node_loop m fdt offset depth = Some (r, depth') \<Longrightarrow> 0 \<le> r \<Longrightarrow>
     offset \<le> r \<and> r \<le> INT_MAX \<and>
     ((\<exists>d. depth' = Some d \<and> d < 0) \<or> (\<exists>nx. fdt_next_tag m fdt r = Some (FDT_BEGIN_NODE, nx)))"
proof (induction m fdt offset depth rule: next_node_loop.induct)
  case (1 m fdt offset depth)
  from "1.prems"(1) obtain tag nx where t: "fdt_next_tag m fdt offset = Some (tag, nx)"
    by (subst (asm) next_node_loop.simps) (auto simp: bind_eq_Some_conv)
  note unf = next_node_loop.simps [of m fdt offset]
  show ?case
  proof (cases "tag = FDT_END")
    case True
    with t "1.prems" show ?thesis by (auto simp: unf split: if_splits)
  next
    case False
    note fwd = fdt_next_tag_forward [OF t False]
    let ?P = "\<lambda>x. x \<le> r \<and> r \<le> INT_MAX \<and>
      ((\<exists>d. depth' = Some d \<and> d < 0) \<or> (\<exists>nx. fdt_next_tag m fdt r = Some (FDT_BEGIN_NODE, nx)))"
    have rec: ?thesis if "next_node_loop m fdt nx d = Some (r, depth')" "?P nx" for d
      using that fwd next_node_loop_neg [OF that(1) "1.prems"(2)] by auto
    consider "tag = FDT_BEGIN_NODE" | "tag = FDT_END_NODE \<and> depth = None"
      | d where "tag = FDT_END_NODE" "depth = Some d" "d - 1 < 0"
      | d where "tag = FDT_END_NODE" "depth = Some d" "\<not> d - 1 < 0"
      | "tag \<noteq> FDT_BEGIN_NODE \<and> tag \<noteq> FDT_END_NODE" by (cases depth) force+
    then show ?thesis
    proof cases
      case 1
      with t fwd "1.prems" show ?thesis by (auto simp: unf)
    next
      case 2
      with t "1.prems" have *: "next_node_loop m fdt nx None = Some (r, depth')" by (simp add: unf)
      from "1.IH"(1) [OF t refl] 2 * "1.prems"(2) have "?P nx" by simp
      with * show ?thesis by (rule rec)
    next
      case 3
      with t fwd "1.prems" show ?thesis by (auto simp: unf c_int_def)
    next
      case 4
      with t "1.prems" have *: "next_node_loop m fdt nx (Some (d - 1)) = Some (r, depth')"
        by (simp add: unf)
      from "1.IH"(2) [OF t refl] 4 * "1.prems"(2) have "?P nx" by simp
      with * show ?thesis by (rule rec)
    next
      case 5
      with False t "1.prems" have *: "next_node_loop m fdt nx depth = Some (r, depth')"
        by (simp add: unf)
      from "1.IH"(3) [OF t refl] 5 False * "1.prems"(2) have "?P nx" by simp
      with * show ?thesis by (rule rec)
    qed
  qed
qed

lemma next_node_loop_depth:
  "next_node_loop m fdt offset depth = Some (r, depth') \<Longrightarrow> (depth' = None) = (depth = None)"
proof (induction m fdt offset depth rule: next_node_loop.induct)
  case (1 m fdt offset depth)
  from "1.prems" obtain tag nx where t: "fdt_next_tag m fdt offset = Some (tag, nx)"
    by (subst (asm) next_node_loop.simps) (auto simp: bind_eq_Some_conv)
  with "1.prems" show ?case
    using "1.IH" [OF t refl]
    by (subst (asm) next_node_loop.simps) (auto split: if_splits option.splits)
qed

lemma fdt_check_node_offset_Some:
  "fdt_check_node_offset m fdt offset = Some r \<Longrightarrow> 0 \<le> r \<Longrightarrow>
     0 \<le> offset \<and> offset < r \<and> r \<le> INT_MAX \<and> offset mod 4 = 0 \<and>
     fdt_next_tag m fdt offset = Some (FDT_BEGIN_NODE, r)"
  using fdt_next_tag_forward [of m fdt offset FDT_BEGIN_NODE r]
  by (auto simp: fdt_check_node_offset_def bind_eq_Some_conv c_int_def split: if_splits)

lemma fdt_check_prop_offset_Some:
  "fdt_check_prop_offset m fdt offset = Some r \<Longrightarrow> 0 \<le> r \<Longrightarrow>
     0 \<le> offset \<and> offset < r \<and> r \<le> INT_MAX \<and> offset mod 4 = 0 \<and>
     fdt_next_tag m fdt offset = Some (FDT_PROP, r)"
  using fdt_next_tag_forward [of m fdt offset FDT_PROP r]
  by (auto simp: fdt_check_prop_offset_def bind_eq_Some_conv c_int_def split: if_splits)

lemma fdt_next_node_forward:
  "fdt_next_node m fdt offset depth = Some (r, depth') \<Longrightarrow> 0 \<le> r \<Longrightarrow>
     offset < r \<and> r \<le> INT_MAX \<or> (offset < 0 \<and> r = 0)"
  by (auto simp: fdt_next_node_def bind_eq_Some_conv split: if_splits
      dest!: next_node_loop_forward fdt_check_node_offset_Some)

lemma fdt_next_node_step:
  "fdt_next_node m fdt offset depth = Some (r, depth') \<Longrightarrow> 0 \<le> offset \<Longrightarrow> 0 \<le> r \<Longrightarrow>
     walk_measure r < walk_measure offset"
  using fdt_next_node_forward [of m fdt offset depth r depth'] by auto

text \<open>The node walk sees nodes: a result with a depth of at least 0 is the offset of a node.\<close>

lemma fdt_next_node_is_node:
  "fdt_next_node m fdt offset depth = Some (r, depth') \<Longrightarrow> 0 \<le> r \<Longrightarrow>
     depth' = None \<or> 0 \<le> the depth' \<Longrightarrow> \<exists>nx. fdt_next_tag m fdt r = Some (FDT_BEGIN_NODE, nx)"
  by (auto simp: fdt_next_node_def bind_eq_Some_conv split: if_splits
      dest!: next_node_loop_forward)

definition fdt_first_subnode :: "mem \<Rightarrow> addr \<Rightarrow> int \<Rightarrow> int option" where
  "fdt_first_subnode m fdt offset = do {
     (offset, depth) \<leftarrow> fdt_next_node m fdt offset (Some 0);
     if offset < 0 \<or> depth \<noteq> Some 1 then Some (- FDT_ERR_NOTFOUND) else Some offset }"

text \<open>The loop of \<open>fdt_next_subnode\<close>: skip the deeper nodes.\<close>

function (sequential) next_subnode_loop :: "mem \<Rightarrow> addr \<Rightarrow> int \<Rightarrow> int option \<Rightarrow> int option" where
  "next_subnode_loop m fdt offset depth = do {
     (offset', depth') \<leftarrow> fdt_next_node m fdt offset depth;
     if offset' < 0 \<or> depth' = None \<or> the depth' < 1 then Some (- FDT_ERR_NOTFOUND)
     else if the depth' > 1 then next_subnode_loop m fdt offset' depth'
     else Some offset' }"
  by pat_completeness auto

abbreviation (input) node_measure :: "int \<Rightarrow> nat" where
  "node_measure x \<equiv> (if x < 0 then 2147483649 else nat (2147483648 - x))"

lemma fdt_next_node_measure:
  "fdt_next_node m fdt offset depth = Some (r, depth') \<Longrightarrow> 0 \<le> r \<Longrightarrow>
     node_measure r < node_measure offset"
  using fdt_next_node_forward [of m fdt offset depth r depth'] by auto

termination next_subnode_loop
  by (relation "measure (\<lambda>(m, fdt, x, d). node_measure x)") (auto dest!: fdt_next_node_measure)

declare next_subnode_loop.simps [simp del]

definition fdt_next_subnode :: "mem \<Rightarrow> addr \<Rightarrow> int \<Rightarrow> int option" where
  "fdt_next_subnode m fdt offset = next_subnode_loop m fdt offset (Some 1)"

lemma next_subnode_loop_forward:
  "next_subnode_loop m fdt offset depth = Some r \<Longrightarrow> 0 \<le> r \<Longrightarrow>
     (offset < r \<or> offset < 0) \<and> r \<le> INT_MAX \<and> (\<exists>nx. fdt_next_tag m fdt r = Some (FDT_BEGIN_NODE, nx))"
proof (induction m fdt offset depth rule: next_subnode_loop.induct)
  case (1 m fdt offset depth)
  from "1.prems"(1) obtain x d where n: "fdt_next_node m fdt offset depth = Some (x, d)"
    by (subst (asm) next_subnode_loop.simps) (auto simp: bind_eq_Some_conv)
  note unf = next_subnode_loop.simps [of m fdt offset depth]
  from n "1.prems" have ok: "\<not> (x < 0 \<or> d = None \<or> the d < 1)" by (auto simp: unf split: if_splits)
  then have x: "offset < x \<and> x \<le> INT_MAX \<or> offset < 0 \<and> x = 0"
    using fdt_next_node_forward [OF n] by auto
  show ?case
  proof (cases "the d > 1")
    case True
    with n ok "1.prems" have "next_subnode_loop m fdt x d = Some r" by (auto simp: unf)
    from "1.IH" [OF n refl ok True this "1.prems"(2)] x ok show ?thesis by auto
  next
    case False
    with n ok "1.prems" have "r = x" by (auto simp: unf)
    with x fdt_next_node_is_node [OF n] ok show ?thesis by auto
  qed
qed

lemma fdt_next_subnode_measure:
  "fdt_next_subnode m fdt offset = Some r \<Longrightarrow> 0 \<le> r \<Longrightarrow> node_measure r < node_measure offset"
  unfolding fdt_next_subnode_def using next_subnode_loop_forward [of m fdt offset "Some 1" r] 
  by (auto simp: fdt_next_node_def)

lemma fdt_first_subnode_node:
  "fdt_first_subnode m fdt offset = Some r \<Longrightarrow> 0 \<le> r \<Longrightarrow>
     r \<le> INT_MAX \<and> (\<exists>nx. fdt_next_tag m fdt r = Some (FDT_BEGIN_NODE, nx))"
  by (auto simp: fdt_first_subnode_def bind_eq_Some_conv split: if_splits
      dest: fdt_next_node_is_node fdt_next_node_forward)

text \<open>
  \<open>fdt_find_string_len_\<close>: the first place in the string table that holds \<open>s\<close> and a NUL,
  or NULL. \<open>tab\<close> counts the start positions left, \<open>last - strtab + 1\<close>.
\<close>

fun find_string_from :: "mem \<Rightarrow> addr \<Rightarrow> nat \<Rightarrow> byte list \<Rightarrow> addr option" where
  "find_string_from m p 0 s = Some NULL"
| "find_string_from m p (Suc tab) s = do {
     eq \<leftarrow> c_memeq m p s;
     if \<not> eq then find_string_from m (p + 1) tab s
     else do {
       c \<leftarrow> rd m (p + int (length s));
       if c = 0 then Some p else find_string_from m (p + 1) tab s } }"

definition fdt_find_string_len :: "mem \<Rightarrow> addr \<Rightarrow> int \<Rightarrow> byte list \<Rightarrow> addr option" where
  "fdt_find_string_len m strtab tabsize s =
     find_string_from m strtab (nat (tabsize - (int (length s) + 1) + 1)) s"

section \<open>Memory safety\<close>

text \<open>
  A valid blob: its header passes \<open>fdt_check_header\<close> and its \<open>totalsize\<close> bytes are there.
  Nothing is assumed about the content of the blocks.
\<close>

definition valid_blob :: "mem \<Rightarrow> addr \<Rightarrow> bool" where
  "valid_blob m fdt \<longleftrightarrow> 0 < fdt \<and> fdt_check_header m fdt = Some 0 \<and>
     (case fdt_totalsize m fdt of None \<Rightarrow> False | Some n \<Rightarrow> mapped m fdt n)"

text \<open>The address range lies in the blob.\<close>

definition in_blob :: "mem \<Rightarrow> addr \<Rightarrow> addr \<Rightarrow> int \<Rightarrow> bool" where
  "in_blob m fdt p len \<longleftrightarrow> 0 \<le> len \<and> fdt \<le> p \<and>
     (case fdt_totalsize m fdt of None \<Rightarrow> False | Some n \<Rightarrow> p + len \<le> fdt + n)"

lemma in_blob_mapped: "valid_blob m fdt \<Longrightarrow> in_blob m fdt p len \<Longrightarrow> mapped m p len"
  by (auto simp: valid_blob_def in_blob_def split: option.splits intro: mapped_sub)

lemma in_blob_sub: "in_blob m fdt p len \<Longrightarrow> p \<le> q \<Longrightarrow> q + k \<le> p + len \<Longrightarrow> 0 \<le> k \<Longrightarrow> in_blob m fdt q k"
  by (auto simp: in_blob_def split: option.splits)

lemma check_block_le:
  assumes "check_block h n base bsize" and "0 \<le> base" "base < 4294967296" "0 \<le> bsize" "bsize < 4294967296"
  shows "h \<le> base \<and> base + bsize \<le> n"
proof -
  from assms(1) have c: "h \<le> base" "base \<le> u32 (base + bsize)" "u32 (base + bsize) \<le> n"
    by (auto simp: check_block_def check_off_def split: if_splits)
  have "u32 (base + bsize) = base + bsize"
  proof (cases "base + bsize < 4294967296")
    case False
    have "u32 (base + bsize) = (base + bsize - 4294967296) mod 4294967296"
      unfolding u32_def by (rule minus_mod_self2 [symmetric])
    also have "\<dots> = base + bsize - 4294967296"
      using False assms by (intro mod_pos_pos_trivial) linarith+
    finally show ?thesis using c assms by linarith
  qed (use assms in \<open>simp add: u32_id\<close>)
  with c show ?thesis by simp
qed

text \<open>What a passed header check says about the header fields.\<close>

lemma valid_blob_header:
  assumes "valid_blob m fdt"
  obtains v n os ss ot st rs lc where
    "fdt_magic m fdt = Some FDT_MAGIC" "fdt_version m fdt = Some v" "2 \<le> v"
    "fdt_last_comp_version m fdt = Some lc" "lc \<le> 17" "lc \<le> v"
    "fdt_totalsize m fdt = Some n" "32 \<le> n" "n \<le> INT_MAX" "mapped m fdt n"
    "fdt_off_mem_rsvmap m fdt = Some rs" "32 \<le> rs" "rs \<le> n"
    "fdt_off_dt_struct m fdt = Some os" "32 \<le> os" "os \<le> n"
    "17 \<le> v \<Longrightarrow> fdt_size_dt_struct m fdt = Some ss" "17 \<le> v \<Longrightarrow> 0 \<le> ss \<and> os + ss \<le> n"
    "17 \<le> v \<Longrightarrow> 40 \<le> n"
    "fdt_off_dt_strings m fdt = Some ot" "32 \<le> ot" "fdt_size_dt_strings m fdt = Some st"
    "0 \<le> st" "ot + st \<le> n" "fdt mod 8 = 0" "0 < fdt"
proof -
  from assms obtain n where n: "fdt_totalsize m fdt = Some n" "mapped m fdt n" "0 < fdt"
    and hdr: "fdt_check_header m fdt = Some 0"
    by (auto simp: valid_blob_def split: option.splits)
  from hdr n obtain v lc rs os ss ot st where *: "fdt mod 8 = 0" "fdt_magic m fdt = Some FDT_MAGIC"
    "fdt_version m fdt = Some v" "fdt_last_comp_version m fdt = Some lc" "\<not> v < 2" "\<not> lc > 17" "\<not> v < lc"
    "fdt_off_mem_rsvmap m fdt = Some rs" "fdt_off_dt_struct m fdt = Some os"
    "struct_size_v17 m fdt v = Some ss"
    "fdt_off_dt_strings m fdt = Some ot" "fdt_size_dt_strings m fdt = Some st"
    and cb: "check_blocks v (fdt_header_size_of v) n rs os ss ot st = 0"
    by (auto simp: fdt_check_header_def fdt_header_size_def bind_eq_Some_conv split: if_splits)
  have rng: "0 \<le> os" "os < 4294967296" "0 \<le> ot" "ot < 4294967296" "0 \<le> st" "st < 4294967296"
    using * fdt32_ld_range unfolding fdt_off_dt_struct_def fdt_off_dt_strings_def fdt_size_dt_strings_def
    by blast+
  have ss: "17 \<le> v \<Longrightarrow> fdt_size_dt_struct m fdt = Some ss \<and> 0 \<le> ss \<and> ss < 4294967296"
    using * fdt32_ld_range unfolding fdt_size_dt_struct_def struct_size_v17_def by auto
  have h: "32 \<le> fdt_header_size_of v" "17 \<le> v \<Longrightarrow> fdt_header_size_of v = 40"
    using *(5) by (auto simp: fdt_header_size_of_def)
  from cb have cb': "fdt_header_size_of v \<le> n" "n \<le> INT_MAX" "check_off (fdt_header_size_of v) n rs"
    "v < 17 \<Longrightarrow> check_off (fdt_header_size_of v) n os"
    "17 \<le> v \<Longrightarrow> check_block (fdt_header_size_of v) n os ss"
    "check_block (fdt_header_size_of v) n ot st"
    by (auto simp: check_blocks_def split: if_splits)
  note st = check_block_le [OF cb'(6) rng(3-6)]
  have n40: "17 \<le> v \<Longrightarrow> 40 \<le> n" using cb'(1) h(2) by simp
  have "32 \<le> os \<and> os \<le> n \<and> (17 \<le> v \<longrightarrow> os + ss \<le> n)"
  proof (cases "v < 17")
    case True
    with cb'(4) h(1) show ?thesis by (auto simp: check_off_def)
  next
    case False
    then have "17 \<le> v" by simp
    with check_block_le [OF cb'(5) rng(1,2)] ss h(1) show ?thesis by auto
  qed
  then show thesis
    using that [of v lc n rs os ss ot st] * n n40 ss st rng h cb' by (auto simp: check_off_def)
qed

lemma fdt_offset_ptr_safe [safe_intros]:
  assumes "valid_blob m fdt" and "c_int offset"
  shows "\<exists>p. fdt_offset_ptr m fdt offset len = Some p"
proof -
  from assms(1) obtain n os v ss where h: "fdt_totalsize m fdt = Some n"
    "fdt_off_dt_struct m fdt = Some os" "fdt_version m fdt = Some v"
    "17 \<le> v \<Longrightarrow> fdt_size_dt_struct m fdt = Some ss"
    by (rule valid_blob_header) blast
  with assms(2) show ?thesis
    by (cases "17 \<le> v") (auto simp: fdt_offset_ptr_def struct_size_v17_def Let_def)
qed

lemma fdt_offset_ptr_in_blob:
  assumes "valid_blob m fdt" and "fdt_offset_ptr m fdt offset len = Some p" and "p \<noteq> NULL"
    and "0 \<le> len" "len < 4294967296"
  shows "in_blob m fdt p len"
proof -
  from assms(1) obtain n os v ss where h: "fdt_totalsize m fdt = Some n"
    "fdt_off_dt_struct m fdt = Some os" "32 \<le> os" "os \<le> n" "n \<le> INT_MAX" "fdt_version m fdt = Some v"
    by (rule valid_blob_header) blast
  from assms(2,3) h have off: "0 \<le> offset" "offset \<le> INT_MAX" and p: "p = fdt + os + offset"
    and chk: "\<not> u32 (u32 (offset + os) + len) < u32 (offset + os)" "\<not> u32 (u32 (offset + os) + len) > n"
    by (auto simp: fdt_offset_ptr_def c_int_def bind_eq_Some_conv Let_def split: if_splits)
  have "u32 (offset + os) = offset + os" using off h by (intro u32_id) linarith+
  with chk have chk': "offset + os \<le> u32 (offset + os + len)" "u32 (offset + os + len) \<le> n" by simp_all
  have "u32 (offset + os + len) = offset + os + len"
  proof (cases "offset + os + len < 4294967296")
    case False
    have "u32 (offset + os + len) = (offset + os + len - 4294967296) mod 4294967296"
      unfolding u32_def by (rule minus_mod_self2 [symmetric])
    also have "\<dots> = offset + os + len - 4294967296"
      using False assms off h by (intro mod_pos_pos_trivial) linarith+
    finally show ?thesis using chk' assms by linarith
  qed (use off h assms in \<open>simp add: u32_id\<close>)
  with chk' p h off assms(4) show ?thesis by (simp add: in_blob_def)
qed

lemma fdt_offset_ptr_rd:
  assumes "valid_blob m fdt" and "fdt_offset_ptr m fdt offset 1 = Some p" and "p \<noteq> NULL"
  shows "\<exists>c. rd m p = Some c"
proof -
  have "in_blob m fdt p 1" by (rule fdt_offset_ptr_in_blob [OF assms]) simp_all
  with assms(1) have "mapped m p 1" by (rule in_blob_mapped)
  then show ?thesis using mapped_rd [of m p 1 p] by simp
qed

lemma fdt_offset_ptr_ld32:
  assumes "valid_blob m fdt" and "fdt_offset_ptr m fdt offset 4 = Some p" and "p \<noteq> NULL"
  shows "\<exists>v. fdt32_ld m p = Some v"
proof -
  have "in_blob m fdt p 4" by (rule fdt_offset_ptr_in_blob [OF assms]) simp_all
  with assms(1) have "mapped m p 4" by (rule in_blob_mapped)
  then show ?thesis by (rule fdt32_ld_ex)
qed

lemma fdt_offset_ptr_addr:
  "fdt_offset_ptr m fdt offset len = Some p \<Longrightarrow> p \<noteq> NULL \<Longrightarrow>
     fdt_off_dt_struct m fdt = Some os \<Longrightarrow> p = fdt + os + offset"
  by (auto simp: fdt_offset_ptr_def bind_eq_Some_conv Let_def split: if_splits)

lemma skip_name_safe [safe_intros]:
  assumes "valid_blob m fdt" and "c_int offset"
  shows "\<exists>p x. skip_name m fdt offset = Some (p, x)"
  using assms
proof (induction m fdt offset rule: skip_name.induct)
  case (1 m fdt offset)
  from fdt_offset_ptr_safe [OF "1.prems"] obtain p where p: "fdt_offset_ptr m fdt offset 1 = Some p"
    by blast
  show ?case
  proof (cases "p = NULL")
    case True
    with p show ?thesis by (subst skip_name.simps) simp
  next
    case False
    from fdt_offset_ptr_rd [OF "1.prems"(1) p False] obtain c where "rd m p = Some c" by blast
    with p False "1.IH" [OF p False this] "1.prems" show ?thesis
      by (subst skip_name.simps) auto
  qed
qed

text \<open>A skipped name is a C string that lies in the blob, and \<open>*nextoffset\<close> is behind it.\<close>

lemma skip_name_str:
  assumes "valid_blob m fdt" and "skip_name m fdt offset = Some (p, x)" and "p \<noteq> NULL"
    and "fdt_off_dt_struct m fdt = Some os"
  shows "\<exists>k. p = fdt + os + offset + int k \<and> str_end m (fdt + os + offset) k \<and>
    in_blob m fdt (fdt + os + offset) (int k + 1) \<and> x = s32 (offset + int k + 1)"
  using assms
proof (induction m fdt offset rule: skip_name.induct)
  case (1 m fdt offset)
  from "1.prems"(2,3) obtain q c where q: "fdt_offset_ptr m fdt offset 1 = Some q" "q \<noteq> NULL"
    and c: "rd m q = Some c"
    by (subst (asm) skip_name.simps) (auto simp: bind_eq_Some_conv split: if_splits)
  have qa: "q = fdt + os + offset" using q "1.prems"(4) by (rule fdt_offset_ptr_addr)
  have inb: "in_blob m fdt q 1"
    by (rule fdt_offset_ptr_in_blob [OF "1.prems"(1) q]) simp_all
  note range = fdt_offset_ptr_nonneg [OF q]
  note unf = skip_name.simps [of m fdt offset]
  show ?case
  proof (cases "c = 0")
    case True
    with q c "1.prems" have "p = q" "x = s32 (offset + 1)" by (simp_all add: unf)
    moreover from c True have "m q = Some 0" by (auto simp: rd_def)
    ultimately show ?thesis using qa inb by (intro exI [of _ 0]) simp
  next
    case False
    with q c "1.prems"(2) have rec: "skip_name m fdt (s32 (offset + 1)) = Some (p, x)"
      by (simp add: unf)
    have "0 \<le> s32 (offset + 1)" using skip_name_forward [OF rec "1.prems"(3)] by simp
    with range s32_Suc [of offset] have s: "s32 (offset + 1) = offset + 1" by auto
    from "1.IH" [OF q c False "1.prems"(1) rec "1.prems"(3,4)] obtain k
      where k: "p = fdt + os + (offset + 1) + int k" "str_end m (fdt + os + (offset + 1)) k"
        "in_blob m fdt (fdt + os + (offset + 1)) (int k + 1)" "x = s32 (offset + 1 + int k + 1)"
      unfolding s by blast
    from c False have "\<exists>b. m q = Some b \<and> b \<noteq> 0" by (auto simp: rd_def)
    with k(2) have "str_end m q (Suc k)" by (simp add: str_end_Suc qa ac_simps)
    moreover have "in_blob m fdt q (int (Suc k) + 1)"
      using k(3) inb by (auto simp: in_blob_def qa split: option.splits)
    ultimately show ?thesis using k(1,4) qa by (intro exI [of _ "Suc k"]) (auto simp: ac_simps)
  qed
qed

lemma next_tag_end_safe:
  "valid_blob m fdt \<Longrightarrow> c_int start \<Longrightarrow> \<exists>tag nx. next_tag_end m fdt start t offset = Some (tag, nx)"
  using fdt_offset_ptr_safe [of m fdt start "u32 (offset - start)"]
  by (auto simp: next_tag_end_def)

lemma skip_prop_safe [safe_intros]:
  assumes v: "valid_blob m fdt" and off: "c_int offset"
  shows "\<exists>e. skip_prop m fdt offset = Some e"
proof -
  from fdt_offset_ptr_safe [OF v off, of 4] obtain p where p: "fdt_offset_ptr m fdt offset 4 = Some p"
    by blast
  moreover have "p \<noteq> NULL \<Longrightarrow> \<exists>l. fdt32_ld m p = Some l" by (rule fdt_offset_ptr_ld32 [OF v p])
  moreover from v obtain ver where "fdt_version m fdt = Some ver" by (rule valid_blob_header) blast
  ultimately show ?thesis by (cases "p = NULL") (auto simp: skip_prop_def Let_def)
qed

lemma fdt_next_tag_safe [safe_intros]:
  assumes v: "valid_blob m fdt" and off: "c_int offset"
  shows "\<exists>tag nx. fdt_next_tag m fdt offset = Some (tag, nx)"
proof -
  from fdt_offset_ptr_safe [OF v off, of 4] obtain tagp where
    tagp: "fdt_offset_ptr m fdt offset 4 = Some tagp" by blast
  show ?thesis
  proof (cases "tagp = NULL")
    case True
    with tagp show ?thesis by (simp add: fdt_next_tag_def)
  next
    case False
    let ?o = "s32 (offset + 4)"
    from fdt_offset_ptr_ld32 [OF v tagp False] obtain tag where tag: "fdt32_ld m tagp = Some tag"
      by blast
    from skip_name_safe [OF v c_int_s32] obtain np no where np: "skip_name m fdt ?o = Some (np, no)"
      by blast
    from skip_prop_safe [OF v c_int_s32] obtain e where e: "skip_prop m fdt ?o = Some e" by blast
    from tagp False tag np e next_tag_end_safe [OF v off] show ?thesis
      by (auto simp: fdt_next_tag_def Let_def split: option.splits)
  qed
qed

lemma c_int_errors [simp]: "c_int (- 1)" "c_int (- 4)" "c_int (- 8)" "c_int (- 11)"
  by (simp_all add: c_int_def)

lemma next_tag_end_c_int: "next_tag_end m fdt start t offset = Some (tag, nx) \<Longrightarrow> c_int nx"
  by (auto simp: next_tag_end_def bind_eq_Some_conv FDT_TAGALIGN_range split: if_splits)

lemma fdt_next_tag_c_int: "fdt_next_tag m fdt offset = Some (tag, nx) \<Longrightarrow> c_int nx"
  unfolding fdt_next_tag_def Let_def
  by (auto simp: bind_eq_Some_conv split: if_splits option.splits dest: next_tag_end_c_int)

lemma fdt_check_node_offset_safe [safe_intros]:
  "valid_blob m fdt \<Longrightarrow> c_int offset \<Longrightarrow> \<exists>r. fdt_check_node_offset m fdt offset = Some r"
  using fdt_next_tag_safe [of m fdt offset] by (auto simp: fdt_check_node_offset_def)

lemma fdt_check_prop_offset_safe [safe_intros]:
  "valid_blob m fdt \<Longrightarrow> c_int offset \<Longrightarrow> \<exists>r. fdt_check_prop_offset m fdt offset = Some r"
  using fdt_next_tag_safe [of m fdt offset] by (auto simp: fdt_check_prop_offset_def)

lemma next_node_loop_safe:
  "valid_blob m fdt \<Longrightarrow> c_int offset \<Longrightarrow> \<exists>r d. next_node_loop m fdt offset depth = Some (r, d)"
proof (induction m fdt offset depth rule: next_node_loop.induct)
  case (1 m fdt offset depth)
  from fdt_next_tag_safe [OF "1.prems"] obtain tag nx
    where t: "fdt_next_tag m fdt offset = Some (tag, nx)" by blast
  from t have c: "c_int nx" by (rule fdt_next_tag_c_int)
  show ?case
    using "1.IH" [OF t refl] "1.prems"(1) c t
    by (subst next_node_loop.simps) (auto split: option.splits)
qed

lemma fdt_check_node_offset_c_int: "fdt_check_node_offset m fdt offset = Some r \<Longrightarrow> c_int r"
  by (auto simp: fdt_check_node_offset_def bind_eq_Some_conv c_int_def split: if_splits
      dest!: fdt_next_tag_c_int)

lemma fdt_check_prop_offset_c_int: "fdt_check_prop_offset m fdt offset = Some r \<Longrightarrow> c_int r"
  by (auto simp: fdt_check_prop_offset_def bind_eq_Some_conv c_int_def split: if_splits
      dest!: fdt_next_tag_c_int)

lemma fdt_next_node_safe [safe_intros]:
  assumes "valid_blob m fdt" and "c_int offset"
  shows "\<exists>r d. fdt_next_node m fdt offset depth = Some (r, d)"
proof -
  from fdt_check_node_offset_safe [OF assms] obtain n where
    n: "fdt_check_node_offset m fdt offset = Some n" by blast
  with next_node_loop_safe [OF assms(1), of n depth] next_node_loop_safe [OF assms(1), of 0 depth]
    fdt_check_node_offset_c_int [OF n]
  show ?thesis by (auto simp: fdt_next_node_def c_int_def)
qed

lemma next_node_loop_c_int: "next_node_loop m fdt offset depth = Some (r, d) \<Longrightarrow> c_int offset \<Longrightarrow> c_int r"
proof (induction m fdt offset depth rule: next_node_loop.induct)
  case (1 m fdt offset depth)
  from "1.prems"(1) obtain tag nx where t: "fdt_next_tag m fdt offset = Some (tag, nx)"
    by (subst (asm) next_node_loop.simps) (auto simp: bind_eq_Some_conv)
  from t have c: "c_int nx" by (rule fdt_next_tag_c_int)
  show ?case
    using "1.IH" [OF t refl] "1.prems" c t
    by (subst (asm) next_node_loop.simps)
      (auto simp: c_int_def split: option.splits if_splits)
qed

lemma fdt_next_node_c_int: "fdt_next_node m fdt offset depth = Some (r, d) \<Longrightarrow> c_int r"
  by (auto simp: fdt_next_node_def bind_eq_Some_conv split: if_splits
      dest!: fdt_check_node_offset_c_int next_node_loop_c_int) (auto simp: c_int_def)

lemma fdt_first_subnode_safe [safe_intros]:
  "valid_blob m fdt \<Longrightarrow> c_int offset \<Longrightarrow> \<exists>r. fdt_first_subnode m fdt offset = Some r"
  using fdt_next_node_safe [of m fdt offset "Some 0"] by (auto simp: fdt_first_subnode_def)

lemma next_subnode_loop_safe:
  "valid_blob m fdt \<Longrightarrow> c_int offset \<Longrightarrow> \<exists>r. next_subnode_loop m fdt offset depth = Some r"
proof (induction m fdt offset depth rule: next_subnode_loop.induct)
  case (1 m fdt offset depth)
  from fdt_next_node_safe [OF "1.prems"] obtain x d
    where n: "fdt_next_node m fdt offset depth = Some (x, d)" by blast
  from n have c: "c_int x" by (rule fdt_next_node_c_int)
  show ?case
    using "1.IH" [OF n refl] "1.prems"(1) c n by (subst next_subnode_loop.simps) auto
qed

lemma fdt_next_subnode_safe [safe_intros]:
  "valid_blob m fdt \<Longrightarrow> c_int offset \<Longrightarrow> \<exists>r. fdt_next_subnode m fdt offset = Some r"
  by (simp add: fdt_next_subnode_def next_subnode_loop_safe)

end
