(* ===== verification/Fdt_Ro.thy ===== *)
theory Fdt_Ro
  imports Fdt_Core
begin

text \<open>
  \<^verbatim>\<open>libs/libfdt/fdt_ro.c\<close>: names, strings, properties, paths and phandles of a blob.
  A function that returns a pointer and stores a length (or an error) through \<open>lenp\<close> returns
  the pair; the pointer is NULL where the code returns NULL.
\<close>

section \<open>Names and strings\<close>

partial_function (option) c_strrchr :: "mem \<Rightarrow> addr \<Rightarrow> int \<Rightarrow> addr option" where
  "c_strrchr m p c = do {
     b \<leftarrow> rd m p;
     if b = 0 then Some NULL
     else do {
       r \<leftarrow> c_strrchr m (p + 1) c;
       Some (if r \<noteq> NULL then r else if b = c then p else NULL) } }"

declare c_strrchr.simps [code]

definition fdt_get_name :: "mem \<Rightarrow> addr \<Rightarrow> int \<Rightarrow> (addr \<times> int) option" where
  "fdt_get_name m fdt nodeoffset = do {
     err \<leftarrow> fdt_ro_probe m fdt;
     if err < 0 then Some (NULL, err)
     else do {
       err \<leftarrow> fdt_check_node_offset m fdt nodeoffset;
       if err < 0 then Some (NULL, err)
       else do {
         off_struct \<leftarrow> fdt_off_dt_struct m fdt;
         let nameptr = fdt + off_struct + nodeoffset + 4;
         version \<leftarrow> fdt_version m fdt;
         if version < 16 then do {
           leaf \<leftarrow> c_strrchr m nameptr 47;
           if leaf = NULL then Some (NULL, - FDT_ERR_BADSTRUCTURE)
           else do { len \<leftarrow> c_strlen m (leaf + 1); Some (leaf + 1, s32 len) } }
         else do { len \<leftarrow> c_strlen m nameptr; Some (nameptr, s32 len) } } } }"

definition fdt_nodename_eq :: "mem \<Rightarrow> addr \<Rightarrow> int \<Rightarrow> byte list \<Rightarrow> bool option" where
  "fdt_nodename_eq m fdt offset s = do {
     (p, olen) \<leftarrow> fdt_get_name m fdt offset;
     if p = NULL \<or> olen < int (length s) then Some False
     else do {
       eq \<leftarrow> c_memeq m p s;
       if \<not> eq then Some False
       else do {
         c \<leftarrow> rd m (p + int (length s));
         if c = 0 then Some True
         else Some (64 \<notin> set s \<and> c = 64) } } }"

definition fdt_get_string :: "mem \<Rightarrow> addr \<Rightarrow> int \<Rightarrow> (addr \<times> int) option" where
  "fdt_get_string m fdt stroffset = do {
     totalsize \<leftarrow> fdt_ro_probe m fdt;
     if totalsize < 0 then Some (NULL, totalsize)
     else do {
       off_strings \<leftarrow> fdt_off_dt_strings m fdt;
       let absoffset = u32 (stroffset + off_strings);
       if absoffset \<ge> u32 totalsize then Some (NULL, - FDT_ERR_BADOFFSET)
       else do {
         let len = totalsize - absoffset;
         magic \<leftarrow> fdt_magic m fdt;
         version \<leftarrow> fdt_version m fdt;
         size_strings \<leftarrow> fdt_size_dt_strings m fdt;
         let tail = (\<lambda>len. do {
           let s = fdt + absoffset;
           n \<leftarrow> c_memchr m s 0 (nat len);
           if n = NULL then Some (NULL, - FDT_ERR_TRUNCATED) else Some (s, n - s) });
         if magic = FDT_MAGIC then
           (if stroffset < 0 then Some (NULL, - FDT_ERR_BADOFFSET)
            else if version \<ge> 17 then
              (if u32 stroffset \<ge> size_strings then Some (NULL, - FDT_ERR_BADOFFSET)
               else if u32 (size_strings - stroffset) < len then tail (u32 (size_strings - stroffset))
               else tail len)
            else tail len)
         else if magic = FDT_SW_MAGIC then
           (let sw_stroffset = u32 (- stroffset)
            in if stroffset \<ge> 0 \<or> sw_stroffset > size_strings then Some (NULL, - FDT_ERR_BADOFFSET)
               else if sw_stroffset < len then tail sw_stroffset else tail len)
         else Some (NULL, - FDT_ERR_INTERNAL) } } }"

definition fdt_string_eq :: "mem \<Rightarrow> addr \<Rightarrow> int \<Rightarrow> byte list \<Rightarrow> bool option" where
  "fdt_string_eq m fdt stroffset s = do {
     (p, slen) \<leftarrow> fdt_get_string m fdt stroffset;
     if p \<noteq> NULL \<and> slen = int (length s) then c_memeq m p s else Some False }"

section \<open>Properties\<close>

text \<open>\<open>nextprop_\<close>: the first property from \<open>offset\<close> on, skipping NOPs.\<close>

function (sequential) nextprop :: "mem \<Rightarrow> addr \<Rightarrow> int \<Rightarrow> int option" where
  "nextprop m fdt offset = do {
     (tag, nextoffset) \<leftarrow> fdt_next_tag m fdt offset;
     if tag = FDT_END then
       Some (if nextoffset \<ge> 0 then - FDT_ERR_BADSTRUCTURE else nextoffset)
     else if tag = FDT_PROP then Some offset
     else if tag = FDT_NOP then nextprop m fdt nextoffset
     else Some (- FDT_ERR_NOTFOUND) }"
  by pat_completeness auto

termination nextprop
  by (relation "measure (\<lambda>(m, fdt, x). walk_measure x)") (auto dest: walk_step)

declare nextprop.simps [simp del]

definition fdt_first_property_offset :: "mem \<Rightarrow> addr \<Rightarrow> int \<Rightarrow> int option" where
  "fdt_first_property_offset m fdt nodeoffset = do {
     offset \<leftarrow> fdt_check_node_offset m fdt nodeoffset;
     if offset < 0 then Some offset else nextprop m fdt offset }"

definition fdt_next_property_offset :: "mem \<Rightarrow> addr \<Rightarrow> int \<Rightarrow> int option" where
  "fdt_next_property_offset m fdt offset = do {
     offset \<leftarrow> fdt_check_prop_offset m fdt offset;
     if offset < 0 then Some offset else nextprop m fdt offset }"

text \<open>The address of the property header at \<open>offset\<close> and the property's length.\<close>

definition get_property_by_offset :: "mem \<Rightarrow> addr \<Rightarrow> int \<Rightarrow> (addr \<times> int) option" where
  "get_property_by_offset m fdt offset = do {
     err \<leftarrow> fdt_check_prop_offset m fdt offset;
     if err < 0 then Some (NULL, err)
     else do {
       off_struct \<leftarrow> fdt_off_dt_struct m fdt;
       let p = fdt + off_struct + offset;
       len \<leftarrow> fdt32_ld m (p + 4);
       Some (p, s32 len) } }"

definition fdt_get_property_by_offset :: "mem \<Rightarrow> addr \<Rightarrow> int \<Rightarrow> (addr \<times> int) option" where
  "fdt_get_property_by_offset m fdt offset = do {
     version \<leftarrow> fdt_version m fdt;
     if version < 16 then Some (NULL, - FDT_ERR_BADVERSION)
     else get_property_by_offset m fdt offset }"

lemma nextprop_forward:
  "nextprop m fdt offset = Some r \<Longrightarrow> 0 \<le> r \<Longrightarrow>
     0 \<le> offset \<and> offset \<le> r \<and> (\<exists>nx. fdt_next_tag m fdt r = Some (FDT_PROP, nx))"
proof (induction m fdt offset rule: nextprop.induct)
  case (1 m fdt offset)
  from "1.prems"(1) obtain tag nx where t: "fdt_next_tag m fdt offset = Some (tag, nx)"
    by (subst (asm) nextprop.simps) (auto simp: bind_eq_Some_conv)
  show ?case
  proof (cases "tag = FDT_NOP")
    case True
    with t "1.prems" have "nextprop m fdt nx = Some r" by (subst (asm) nextprop.simps) auto
    with "1.IH" [OF t refl] True "1.prems"(2) have "0 \<le> nx \<and> nx \<le> r \<and>
        (\<exists>nx. fdt_next_tag m fdt r = Some (FDT_PROP, nx))" by simp
    moreover have "0 \<le> offset \<and> (offset < nx \<or> nx < 0)"
      using fdt_next_tag_forward [OF t] True by simp
    ultimately show ?thesis by auto
  next
    case False
    with t "1.prems" have "tag = FDT_PROP" "r = offset"
      by (subst (asm) nextprop.simps, force split: if_splits)+
    with t "1.prems"(2) show ?thesis by auto
  qed
qed

lemma fdt_next_property_forward:
  "fdt_next_property_offset m fdt offset = Some r \<Longrightarrow> 0 \<le> r \<Longrightarrow>
     0 \<le> offset \<and> offset < r \<and> offset \<le> INT_MAX"
  by (auto simp: fdt_next_property_offset_def bind_eq_Some_conv split: if_splits
      dest!: nextprop_forward fdt_check_prop_offset_Some)

lemma fdt_next_property_step:
  "fdt_next_property_offset m fdt offset = Some r \<Longrightarrow> 0 \<le> r \<Longrightarrow>
     walk_measure r < walk_measure offset"
  using fdt_next_property_forward [of m fdt offset r] by auto

text \<open>
  The search loop of \<open>fdt_get_property_namelen_\<close>, from the property at \<open>offset\<close> on: the
  header's address, the length or error for \<open>*lenp\<close>, and \<open>*poffset\<close>.
\<close>

function (sequential) find_property :: "mem \<Rightarrow> addr \<Rightarrow> int \<Rightarrow> byte list \<Rightarrow> (addr \<times> int \<times> int) option" where
  "find_property m fdt offset name =
     (if offset < 0 then Some (NULL, offset, 0)
      else do {
        (prop, len) \<leftarrow> get_property_by_offset m fdt offset;
        if prop = NULL then Some (NULL, - FDT_ERR_INTERNAL, 0)
        else do {
          nameoff \<leftarrow> fdt32_ld m (prop + 8);
          eq \<leftarrow> fdt_string_eq m fdt (s32 nameoff) name;
          if eq then Some (prop, len, offset)
          else do {
            offset' \<leftarrow> fdt_next_property_offset m fdt offset;
            if offset' < 0 then Some (NULL, offset', 0)
            else find_property m fdt offset' name } } })"
  by pat_completeness auto

termination find_property
  by (relation "measure (\<lambda>(m, fdt, x, n). walk_measure x)")
    (auto dest!: fdt_next_property_step simp del: in_measure simp: in_measure)

declare find_property.simps [simp del]

definition get_property_namelen :: "mem \<Rightarrow> addr \<Rightarrow> int \<Rightarrow> byte list \<Rightarrow> (addr \<times> int \<times> int) option" where
  "get_property_namelen m fdt offset name = do {
     offset \<leftarrow> fdt_first_property_offset m fdt offset;
     find_property m fdt offset name }"

definition fdt_get_property :: "mem \<Rightarrow> addr \<Rightarrow> int \<Rightarrow> byte list \<Rightarrow> (addr \<times> int) option" where
  "fdt_get_property m fdt nodeoffset name = do {
     version \<leftarrow> fdt_version m fdt;
     if version < 16 then Some (NULL, - FDT_ERR_BADVERSION)
     else do {
       (prop, len, poffset) \<leftarrow> get_property_namelen m fdt nodeoffset name;
       Some (prop, len) } }"

text \<open>The value's address: blobs of version below 16 may pad an 8-byte value by 4 bytes.\<close>

definition prop_data :: "int \<Rightarrow> int \<Rightarrow> int \<Rightarrow> addr \<Rightarrow> addr" where
  "prop_data version poffset len prop =
     (if version < 16 \<and> (poffset + 12) mod 8 \<noteq> 0 \<and> len \<ge> 8 then prop + 12 + 4 else prop + 12)"

definition fdt_getprop :: "mem \<Rightarrow> addr \<Rightarrow> int \<Rightarrow> byte list \<Rightarrow> (addr \<times> int) option" where
  "fdt_getprop m fdt nodeoffset name = do {
     (prop, lenp, poffset) \<leftarrow> get_property_namelen m fdt nodeoffset name;
     if prop = NULL then Some (NULL, lenp)
     else do {
       version \<leftarrow> fdt_version m fdt;
       len \<leftarrow> fdt32_ld m (prop + 4);
       Some (prop_data version poffset len prop, lenp) } }"

text \<open>\<open>fdt_getprop_by_offset\<close> with a name pointer: the value, \<open>*namep\<close> and \<open>*lenp\<close>.\<close>

definition fdt_getprop_by_offset :: "mem \<Rightarrow> addr \<Rightarrow> int \<Rightarrow> (addr \<times> addr \<times> int) option" where
  "fdt_getprop_by_offset m fdt offset = do {
     (prop, lenp) \<leftarrow> get_property_by_offset m fdt offset;
     if prop = NULL then Some (NULL, NULL, lenp)
     else do {
       nameoff \<leftarrow> fdt32_ld m (prop + 8);
       (name, namelen) \<leftarrow> fdt_get_string m fdt (s32 nameoff);
       if name = NULL then Some (NULL, NULL, namelen)
       else do {
         version \<leftarrow> fdt_version m fdt;
         len \<leftarrow> fdt32_ld m (prop + 4);
         Some (prop_data version offset len prop, name, lenp) } } }"

definition fdt_get_phandle :: "mem \<Rightarrow> addr \<Rightarrow> int \<Rightarrow> int option" where
  "fdt_get_phandle m fdt nodeoffset = do {
     (php, len) \<leftarrow> fdt_getprop m fdt nodeoffset (chars ''phandle'');
     if php = NULL \<or> len \<noteq> 4 then do {
       (php, len) \<leftarrow> fdt_getprop m fdt nodeoffset (chars ''linux,phandle'');
       if php = NULL \<or> len \<noteq> 4 then Some 0 else fdt32_ld m php }
     else fdt32_ld m php }"

section \<open>Nodes by name and path\<close>

text \<open>
  The loop of \<open>fdt_subnode_offset_namelen\<close>: from \<open>offset\<close>, which has the given depth below
  the parent, to the first node of depth 1 with the name.
\<close>

function (sequential) subnode_search :: "mem \<Rightarrow> addr \<Rightarrow> int \<Rightarrow> int \<Rightarrow> byte list \<Rightarrow> int option" where
  "subnode_search m fdt offset depth name =
     (if offset \<ge> 0 \<and> depth \<ge> 0 then do {
        hit \<leftarrow> (if depth = 1 then fdt_nodename_eq m fdt offset name else Some False);
        if hit then Some offset
        else do {
          (offset', depth') \<leftarrow> fdt_next_node m fdt offset (Some depth);
          case depth' of None \<Rightarrow> None | Some d \<Rightarrow> subnode_search m fdt offset' d name } }
      else if depth < 0 then Some (- FDT_ERR_NOTFOUND)
      else Some offset)"
  by pat_completeness auto

lemma subnode_search_step:
  "fdt_next_node m fdt offset depth = Some (r, depth') \<Longrightarrow> 0 \<le> offset \<Longrightarrow>
     (if r < 0 then 0 else Suc (nat (2147483648 - r))) < (if offset < 0 then 0 else Suc (nat (2147483648 - offset)))"
  using fdt_next_node_forward [of m fdt offset depth r depth'] by auto

termination subnode_search
  by (relation "measure (\<lambda>(m, fdt, x, d, n). if x < 0 then 0 else Suc (nat (2147483648 - x)))")
    (auto dest!: subnode_search_step simp del: in_measure simp: in_measure)

declare subnode_search.simps [simp del]

definition fdt_subnode_offset_namelen :: "mem \<Rightarrow> addr \<Rightarrow> int \<Rightarrow> byte list \<Rightarrow> int option" where
  "fdt_subnode_offset_namelen m fdt offset name = do {
     err \<leftarrow> fdt_ro_probe m fdt;
     if err < 0 then Some err else subnode_search m fdt offset 0 name }"

definition fdt_subnode_offset :: "mem \<Rightarrow> addr \<Rightarrow> int \<Rightarrow> byte list \<Rightarrow> int option" where
  "fdt_subnode_offset m fdt parentoffset name = fdt_subnode_offset_namelen m fdt parentoffset name"

text \<open>The loop over the components of a path; a component is what lies between slashes.\<close>

function (sequential) path_walk :: "mem \<Rightarrow> addr \<Rightarrow> int \<Rightarrow> byte list \<Rightarrow> int option" where
  "path_walk m fdt offset p =
     (if p = [] then Some offset
      else
        let p = dropWhile (\<lambda>c. c = 47) p
        in if p = [] then Some offset
           else do {
             offset' \<leftarrow> fdt_subnode_offset_namelen m fdt offset (takeWhile (\<lambda>c. c \<noteq> 47) p);
             if offset' < 0 then Some offset'
             else path_walk m fdt offset' (dropWhile (\<lambda>c. c \<noteq> 47) p) })"
  by pat_completeness auto

lemma path_walk_shorter:
  assumes "dropWhile (\<lambda>c. c = 47) p \<noteq> ([] :: byte list)"
  shows "length (dropWhile (\<lambda>c. c \<noteq> 47) (dropWhile (\<lambda>c. c = 47) p)) < length p"
proof -
  let ?q = "dropWhile (\<lambda>c. c = 47) p"
  from hd_dropWhile [OF assms] assms have "dropWhile (\<lambda>c. c \<noteq> 47) ?q = dropWhile (\<lambda>c. c \<noteq> 47) (tl ?q)"
    by (cases ?q) auto
  also have "length \<dots> \<le> length (tl ?q)" by (rule length_dropWhile_le)
  also have "\<dots> < length ?q" using assms by (cases ?q) auto
  also have "\<dots> \<le> length p" by (rule length_dropWhile_le)
  finally show ?thesis .
qed

termination path_walk
  by (relation "measure (\<lambda>(m, fdt, x, p). length p)") (auto intro: path_walk_shorter)

declare path_walk.simps [simp del]

text \<open>
  \<open>fdt_path_offset\<close> of a path that starts with a slash. The code's recursion through
  \<open>fdt_get_alias_namelen\<close> only ever asks for such paths (\<open>/aliases\<close>, and an alias whose
  first character was checked), so this function breaks the cycle; \<open>path_offset_abs\<close> below
  shows that it is the full function on them.
\<close>

definition fdt_path_offset_abs :: "mem \<Rightarrow> addr \<Rightarrow> byte list \<Rightarrow> int option" where
  "fdt_path_offset_abs m fdt path = do {
     err \<leftarrow> fdt_ro_probe m fdt;
     if err < 0 then Some err
     else if path = [] then Some (- FDT_ERR_BADPATH)
     else path_walk m fdt 0 path }"

definition path_getprop_namelen :: "mem \<Rightarrow> addr \<Rightarrow> byte list \<Rightarrow> byte list \<Rightarrow> (addr \<times> int) option" where
  "path_getprop_namelen m fdt path propname = do {
     offset \<leftarrow> fdt_path_offset_abs m fdt path;
     if offset < 0 then Some (NULL, 0) else fdt_getprop m fdt offset propname }"

definition fdt_get_alias_namelen :: "mem \<Rightarrow> addr \<Rightarrow> byte list \<Rightarrow> addr option" where
  "fdt_get_alias_namelen m fdt name = do {
     (alias, len) \<leftarrow> path_getprop_namelen m fdt (chars ''/aliases'') name;
     if alias = NULL \<or> len \<le> 0 then Some NULL
     else do {
       last \<leftarrow> rd m (alias + len - 1);
       if last \<noteq> 0 then Some NULL
       else do {
         first \<leftarrow> rd m alias;
         Some (if first = 47 then alias else NULL) } } }"

definition fdt_get_symbol_namelen :: "mem \<Rightarrow> addr \<Rightarrow> byte list \<Rightarrow> addr option" where
  "fdt_get_symbol_namelen m fdt name = do {
     (p, len) \<leftarrow> path_getprop_namelen m fdt (chars ''/__symbols__'') name;
     Some p }"

definition fdt_path_offset :: "mem \<Rightarrow> addr \<Rightarrow> byte list \<Rightarrow> int option" where
  "fdt_path_offset m fdt path = do {
     err \<leftarrow> fdt_ro_probe m fdt;
     if err < 0 then Some err
     else if path = [] then Some (- FDT_ERR_BADPATH)
     else if hd path \<noteq> 47 then do {
       p \<leftarrow> fdt_get_alias_namelen m fdt (takeWhile (\<lambda>c. c \<noteq> 47) path);
       if p = NULL then Some (- FDT_ERR_BADPATH)
       else do {
         s \<leftarrow> c_str m p;
         offset \<leftarrow> fdt_path_offset_abs m fdt s;
         path_walk m fdt offset (dropWhile (\<lambda>c. c \<noteq> 47) path) } }
     else path_walk m fdt 0 path }"

lemma path_offset_abs:
  "path = [] \<or> hd path = 47 \<Longrightarrow> fdt_path_offset m fdt path = fdt_path_offset_abs m fdt path"
  by (auto simp: fdt_path_offset_def fdt_path_offset_abs_def)

section \<open>Walks over all nodes\<close>

text \<open>
  \<open>for (offset = fdt_next_node (fdt, offset, NULL); offset >= 0; offset = ...)\<close> with a body
  that returns (\<open>Some r\<close>) or goes on (\<open>None\<close>); the end of the walk is the last offset.
\<close>

function (sequential) for_each_node ::
  "mem \<Rightarrow> addr \<Rightarrow> int \<Rightarrow> (int \<Rightarrow> int option option) \<Rightarrow> int option" where
  "for_each_node m fdt offset body = do {
     (offset', depth) \<leftarrow> fdt_next_node m fdt offset None;
     if offset' < 0 then Some offset'
     else do {
       r \<leftarrow> body offset';
       case r of Some x \<Rightarrow> Some x | None \<Rightarrow> for_each_node m fdt offset' body } }"
  by pat_completeness auto

termination for_each_node
  by (relation "measure (\<lambda>(m, fdt, x, b). node_measure x)")
    (auto dest!: fdt_next_node_measure simp del: in_measure simp: in_measure)

declare for_each_node.simps [simp del]

definition fdt_node_offset_by_phandle :: "mem \<Rightarrow> addr \<Rightarrow> int \<Rightarrow> int option" where
  "fdt_node_offset_by_phandle m fdt phandle =
     (if phandle = 0 \<or> phandle = 4294967295 then Some (- FDT_ERR_BADPHANDLE)
      else do {
        err \<leftarrow> fdt_ro_probe m fdt;
        if err < 0 then Some err
        else for_each_node m fdt (- 1) (\<lambda>offset. do {
          ph \<leftarrow> fdt_get_phandle m fdt offset;
          Some (if ph = phandle then Some offset else None) }) })"

definition fdt_node_offset_by_prop_value ::
  "mem \<Rightarrow> addr \<Rightarrow> int \<Rightarrow> byte list \<Rightarrow> byte list \<Rightarrow> int option" where
  "fdt_node_offset_by_prop_value m fdt startoffset propname propval = do {
     err \<leftarrow> fdt_ro_probe m fdt;
     if err < 0 then Some err
     else for_each_node m fdt startoffset (\<lambda>offset. do {
       (val, len) \<leftarrow> fdt_getprop m fdt offset propname;
       if val \<noteq> NULL \<and> len = int (length propval) then do {
         eq \<leftarrow> c_memeq m val propval;
         Some (if eq then Some offset else None) }
       else Some None }) }"

text \<open>\<open>fdt_find_max_phandle\<close>: an error code, or 0 and the largest phandle.\<close>

function (sequential) max_phandle_loop :: "mem \<Rightarrow> addr \<Rightarrow> int \<Rightarrow> int \<Rightarrow> (int \<times> int) option" where
  "max_phandle_loop m fdt offset mx = do {
     (offset', depth) \<leftarrow> fdt_next_node m fdt offset None;
     if offset' < 0 then Some (if offset' = - FDT_ERR_NOTFOUND then 0 else offset', mx)
     else do {
       v \<leftarrow> fdt_get_phandle m fdt offset';
       max_phandle_loop m fdt offset' (if v > mx then v else mx) } }"
  by pat_completeness auto

termination max_phandle_loop
  by (relation "measure (\<lambda>(m, fdt, x, b). node_measure x)")
    (auto dest!: fdt_next_node_measure simp del: in_measure simp: in_measure)

declare max_phandle_loop.simps [simp del]

definition fdt_find_max_phandle :: "mem \<Rightarrow> addr \<Rightarrow> (int \<times> int) option" where
  "fdt_find_max_phandle m fdt = max_phandle_loop m fdt (- 1) 0"

definition fdt_generate_phandle :: "mem \<Rightarrow> addr \<Rightarrow> (int \<times> int) option" where
  "fdt_generate_phandle m fdt = do {
     (err, mx) \<leftarrow> fdt_find_max_phandle m fdt;
     if err < 0 then Some (err, 0)
     else if mx = 4294967294 then Some (- FDT_ERR_NOPHANDLES, 0)
     else Some (0, u32 (mx + 1)) }"

text \<open>\<open>fdt_supernode_atdepth_offset\<close>: the result and \<open>*nodedepth\<close> (\<open>None\<close> when not stored).\<close>

function (sequential) supernode_loop ::
  "mem \<Rightarrow> addr \<Rightarrow> int \<Rightarrow> int \<Rightarrow> int \<Rightarrow> int \<Rightarrow> int \<Rightarrow> (int \<times> int option) option" where
  "supernode_loop m fdt nodeoffset supernodedepth offset depth supernodeoffset =
     (if offset \<ge> 0 \<and> offset \<le> nodeoffset then
        let supernodeoffset = (if depth = supernodedepth then offset else supernodeoffset)
        in if offset = nodeoffset then
             (if supernodedepth > depth then Some (- FDT_ERR_NOTFOUND, Some depth)
              else Some (supernodeoffset, Some depth))
           else do {
             (offset', depth') \<leftarrow> fdt_next_node m fdt offset (Some depth);
             case depth' of
               None \<Rightarrow> None
             | Some d \<Rightarrow> supernode_loop m fdt nodeoffset supernodedepth offset' d supernodeoffset }
      else if offset = - FDT_ERR_NOTFOUND \<or> offset \<ge> 0 then Some (- FDT_ERR_BADOFFSET, None)
      else if offset = - FDT_ERR_BADOFFSET then Some (- FDT_ERR_BADSTRUCTURE, None)
      else Some (offset, None))"
  by pat_completeness auto

termination supernode_loop
  by (relation "measure (\<lambda>(m, fdt, n, sd, x, d, so). if x < 0 then 0 else Suc (nat (2147483648 - x)))")
    (auto dest!: subnode_search_step simp del: in_measure simp: in_measure)

declare supernode_loop.simps [simp del]

definition fdt_supernode_atdepth_offset :: "mem \<Rightarrow> addr \<Rightarrow> int \<Rightarrow> int \<Rightarrow> (int \<times> int option) option" where
  "fdt_supernode_atdepth_offset m fdt nodeoffset supernodedepth = do {
     err \<leftarrow> fdt_ro_probe m fdt;
     if err < 0 then Some (err, None)
     else if supernodedepth < 0 then Some (- FDT_ERR_NOTFOUND, None)
     else supernode_loop m fdt nodeoffset supernodedepth 0 0 (- FDT_ERR_INTERNAL) }"

definition fdt_node_depth :: "mem \<Rightarrow> addr \<Rightarrow> int \<Rightarrow> int option" where
  "fdt_node_depth m fdt nodeoffset = do {
     (err, nodedepth) \<leftarrow> fdt_supernode_atdepth_offset m fdt nodeoffset 0;
     if err \<noteq> 0 then Some (if err < 0 then err else - FDT_ERR_INTERNAL) else nodedepth }"

definition fdt_parent_offset :: "mem \<Rightarrow> addr \<Rightarrow> int \<Rightarrow> int option" where
  "fdt_parent_offset m fdt nodeoffset = do {
     nodedepth \<leftarrow> fdt_node_depth m fdt nodeoffset;
     if nodedepth < 0 then Some nodedepth
     else do {
       (r, d) \<leftarrow> fdt_supernode_atdepth_offset m fdt nodeoffset (nodedepth - 1);
       Some r } }"

end
