(* ===== verification/Fdt_Safe.thy ===== *)
theory Fdt_Safe
  imports Fdt_Ro
begin

text \<open>
  Memory safety of the read-only functions: on a valid blob, whatever its blocks contain,
  they read nothing outside the blob, every loop ends, and the pointers they return point
  to strings and values inside the blob.
\<close>

section \<open>Layout of the items the tag walk accepts\<close>

lemma s32_mod8: "s32 x mod 8 = x mod 8"
proof -
  have "(x + 2147483648) mod 4294967296 mod 8 = (x + 2147483648) mod 8"
    by (rule mod_mod_cancel) simp
  then have "((x + 2147483648) mod 4294967296 - 2147483648) mod 8 = (x + 2147483648 - 2147483648) mod 8"
    by (metis mod_diff_left_eq)
  then show ?thesis by (simp add: s32_def)
qed

lemma fdt_next_tag_prop:
  assumes v: "valid_blob m fdt" and t: "fdt_next_tag m fdt off = Some (FDT_PROP, nx)" and nx: "0 \<le> nx"
    and os: "fdt_off_dt_struct m fdt = Some os" and ver: "fdt_version m fdt = Some ver"
  shows "\<exists>len. fdt32_ld m (fdt + os + off + 4) = Some len \<and> 0 \<le> len \<and> len \<le> INT_MAX \<and>
     in_blob m fdt (fdt + os + off)
       (12 + len + (if ver < 16 \<and> len \<ge> 8 \<and> (off + 12) mod 8 \<noteq> 0 then 4 else 0))"
proof -
  let ?o = "s32 (off + 4)"
  from t obtain e where e: "skip_prop m fdt ?o = Some (Some e)"
    and fin: "next_tag_end m fdt off FDT_PROP e = Some (FDT_PROP, nx)"
    by (auto simp: fdt_next_tag_def bind_eq_Some_conv Let_def next_tag_end_def
        split: if_splits option.splits)
  from fdt_next_tag_forward [OF t] have off: "0 \<le> off" "off \<le> INT_MAX" by simp_all
  from skip_prop_forward [OF e] have o0: "0 \<le> ?o" and ef: "c_int e" "?o < e \<or> e \<le> - 2147483630"
    by auto
  from o0 off have o: "?o = off + 4" using s32_id [of "off + 4"] s32_over [of "off + 4"] by linarith
  from fin have nxe: "nx = FDT_TAGALIGN e" by (auto dest: next_tag_end_Some)
  have "?o < e"
  proof (rule ccontr)
    assume "\<not> ?thesis"
    with ef have "e \<le> - 2147483630" by simp
    with ef(1) have "(e + 3) div 4 * 4 < 0" "- 2147483648 \<le> (e + 3) div 4 * 4"
      unfolding c_int_def by linarith+
    then have "nx < 0" by (simp add: nxe FDT_TAGALIGN_def s32_id)
    with nx show False by simp
  qed
  from e obtain lenp len where lenp: "fdt_offset_ptr m fdt ?o 4 = Some lenp" "lenp \<noteq> NULL"
    and len: "fdt32_ld m lenp = Some len"
    and sum: "\<not> (INT_MAX \<le> u32 (len + ?o) \<or> u32 (len + ?o) < u32 ?o)"
    and e_eq: "e = (if ver < 16 \<and> len \<ge> 8 \<and> u32 (s32 (?o + (8 + len)) - len) mod 8 \<noteq> 0
              then s32 (s32 (?o + (8 + len)) + 4) else s32 (?o + (8 + len)))"
    using ver by (auto simp: skip_prop_def bind_eq_Some_conv Let_def split: if_split_asm)
  from len have len0: "0 \<le> len" "len < 4294967296" by (auto dest: fdt32_ld_range)
  have sm: "len + ?o < INT_MAX"
  proof (cases "len + ?o < 4294967296")
    case True
    with sum o0 len0 show ?thesis by (simp add: u32_id)
  next
    case False
    then have "u32 (len + ?o) = len + ?o - 4294967296"
      using o0 len0 s32_range [of "off + 4"] unfolding u32_def
      by (subst minus_mod_self2 [symmetric], intro mod_pos_pos_trivial) linarith+
    with sum len0 o0 s32_range [of "off + 4"] show ?thesis by (simp add: u32_id)
  qed
  have mod8: "u32 (s32 (?o + (8 + len)) - len) mod 8 = (off + 12) mod 8"
  proof -
    have "s32 (?o + (8 + len)) mod 8 = (?o + (8 + len)) mod 8" by (rule s32_mod8)
    then have "(s32 (?o + (8 + len)) - len) mod 8 = (?o + (8 + len) - len) mod 8"
      by (metis mod_diff_left_eq)
    moreover have "u32 x mod 8 = x mod 8" for x
      unfolding u32_def by (rule mod_mod_cancel) simp
    ultimately show ?thesis by (simp add: o add.commute)
  qed
  let ?pad = "(if ver < 16 \<and> len \<ge> 8 \<and> (off + 12) mod 8 \<noteq> 0 then 4 else 0) :: int"
  have ev: "e = off + (12 + len + ?pad)"
  proof -
    have small: "s32 (?o + (8 + len)) = ?o + (8 + len) \<or> s32 (?o + (8 + len)) \<le> - 2147483640"
      using s32_id [of "?o + (8 + len)"] s32_over [of "?o + (8 + len)"] sm o0 len0 by linarith
    show ?thesis
    proof (cases "?pad = 4")
      case True
      then have c: "ver < 16 \<and> len \<ge> 8 \<and> (off + 12) mod 8 \<noteq> 0" by (auto split: if_splits)
      then have e2: "e = s32 (s32 (?o + (8 + len)) + 4)" using e_eq mod8 by simp
      from small show ?thesis
      proof
        assume eq: "s32 (?o + (8 + len)) = ?o + (8 + len)"
        have "s32 (?o + (8 + len) + 4) = ?o + (8 + len) + 4"
        proof (cases "?o + (8 + len) + 4 \<le> INT_MAX")
          case True
          then show ?thesis using o0 len0 by (intro s32_id) linarith+
        next
          case False
          then have "s32 (?o + (8 + len) + 4) = ?o + (8 + len) + 4 - 4294967296"
            using sm by (intro s32_over) linarith+
          moreover have "e = s32 (?o + (8 + len) + 4)" using e2 by (simp only: eq)
          ultimately show ?thesis using \<open>?o < e\<close> sm o0 by linarith
        qed
        with True e2 eq o show ?thesis by simp
      next
        assume "s32 (?o + (8 + len)) \<le> - 2147483640"
        then have "e \<le> - 2147483636" using e2 s32_range [of "?o + (8 + len)"]
          by (subst (asm) s32_id) linarith+
        with \<open>?o < e\<close> o0 show ?thesis by simp
      qed
    next
      case False
      then have p0: "?pad = 0" by (auto split: if_splits)
      then have "\<not> (ver < 16 \<and> len \<ge> 8 \<and> (off + 12) mod 8 \<noteq> 0)" by (auto split: if_splits)
      then have "e = s32 (?o + (8 + len))" using e_eq mod8 by auto
      with small \<open>?o < e\<close> o0 o p0 show ?thesis by auto
    qed
  qed
  from fin obtain p where p: "fdt_offset_ptr m fdt off (u32 (e - off)) = Some p" "p \<noteq> NULL"
    by (auto simp: next_tag_end_def bind_eq_Some_conv split: if_splits)
  define k where "k = 12 + len + ?pad"
  have k: "e = off + k" "0 \<le> k" "k < 4294967296"
    using ev len0 ef(1) off by (auto simp: k_def c_int_def)
  then have "u32 (e - off) = k" by (simp add: u32_id)
  with fdt_offset_ptr_in_blob [OF v p] fdt_offset_ptr_addr [OF p os]
  have "in_blob m fdt (fdt + os + off) k" using k by simp
  then have "in_blob m fdt (fdt + os + off) (12 + len + ?pad)" by (simp only: k_def)
  moreover have "lenp = fdt + os + off + 4" using fdt_offset_ptr_addr [OF lenp os] o by simp
  moreover have "len \<le> INT_MAX" using sm o0 by linarith
  ultimately show ?thesis using len len0 by blast
qed

lemma fdt_next_tag_node:
  assumes v: "valid_blob m fdt" and t: "fdt_next_tag m fdt off = Some (FDT_BEGIN_NODE, nx)"
    and os: "fdt_off_dt_struct m fdt = Some os"
  shows "\<exists>k. str_end m (fdt + os + off + 4) k \<and> in_blob m fdt (fdt + os + off + 4) (int k + 1)"
proof -
  let ?o = "s32 (off + 4)"
  from t obtain p x where s: "skip_name m fdt ?o = Some (p, x)" "p \<noteq> NULL"
    by (auto simp: fdt_next_tag_def bind_eq_Some_conv Let_def next_tag_end_def
        split: if_splits option.splits)
  from fdt_next_tag_forward [OF t] have off: "0 \<le> off" "off \<le> INT_MAX" by simp_all
  from skip_name_forward [OF s] have "0 \<le> ?o" by simp
  with off have o: "?o = off + 4" using s32_id [of "off + 4"] s32_over [of "off + 4"] by linarith
  from skip_name_str [OF v s os] show ?thesis by (auto simp: o ac_simps)
qed

section \<open>Names and strings\<close>

lemma c_str_ex:
  assumes "str_end m p k"
  shows "\<exists>s. c_str m p = Some s"
proof -
  from str_end_mapped [OF assms] have "mapped m p (int k)" by (rule mapped_sub) simp_all
  from rd_bytes_ex [OF this] assms show ?thesis by (auto simp: c_str_def c_strlen_str_end)
qed

lemma fdt_ro_probe_safe [safe_intros]:
  assumes "valid_blob m fdt"
  shows "\<exists>r. fdt_ro_probe m fdt = Some r"
proof -
  from assms obtain n v lc where "fdt_magic m fdt = Some FDT_MAGIC" "fdt_version m fdt = Some v"
    "fdt_last_comp_version m fdt = Some lc" "fdt_totalsize m fdt = Some n"
    by (rule valid_blob_header) blast
  then show ?thesis by (simp add: fdt_ro_probe_def Let_def)
qed

text \<open>A valid header passes the probe, but for a blob of exactly \<open>INT_MAX\<close> bytes.\<close>

lemma fdt_ro_probe_valid:
  assumes "valid_blob m fdt" and "fdt_totalsize m fdt = Some n"
  shows "fdt_ro_probe m fdt = Some (if n < INT_MAX then n else - FDT_ERR_TRUNCATED)"
proof -
  from assms(1) obtain v lc where "fdt_magic m fdt = Some FDT_MAGIC" "fdt_version m fdt = Some v"
    "2 \<le> v" "fdt_last_comp_version m fdt = Some lc" "lc \<le> 17" "fdt mod 8 = 0"
    by (rule valid_blob_header) metis
  with assms(2) show ?thesis by (simp add: fdt_ro_probe_def Let_def)
qed

lemma c_strrchr_str_end:
  "str_end m p k \<Longrightarrow> 0 < p \<Longrightarrow>
     \<exists>r. c_strrchr m p c = Some r \<and> (r = NULL \<or> (\<exists>i < k. r = p + int i))"
proof (induction k arbitrary: p)
  case 0
  then show ?case by (simp add: c_strrchr.simps [of m p] rd_def)
next
  case (Suc k)
  then have "str_end m (p + 1) k" "0 < p + 1" by (simp_all add: str_end_Suc)
  from Suc.IH [OF this] obtain r where r: "c_strrchr m (p + 1) c = Some r"
    "r = NULL \<or> (\<exists>i<k. r = p + 1 + int i)" by blast
  from Suc.prems obtain b where "m p = Some b" "b \<noteq> 0" by (auto simp: str_end_Suc)
  with r(1) have "c_strrchr m p c = Some (if r \<noteq> NULL then r else if uint b = c then p else NULL)"
    by (simp add: c_strrchr.simps [of m p] rd_def)
  moreover have "r \<noteq> NULL \<Longrightarrow> \<exists>i < Suc k. r = p + int i"
    using r(2) by (auto intro: exI [of _ "Suc _"])
  ultimately show ?case by (auto intro: exI [of _ 0])
qed

lemma str_end_suffix: "str_end m p k \<Longrightarrow> i \<le> k \<Longrightarrow> str_end m (p + int i) (k - i)"
  by (auto simp: str_end_def ac_simps simp flip: of_nat_add)

text \<open>
  \<open>fdt_get_name\<close> returns a string of the blob and its length, or NULL and an error.
\<close>

lemma fdt_get_name_ok:
  assumes v: "valid_blob m fdt" and off: "c_int off"
  shows "\<exists>p len. fdt_get_name m fdt off = Some (p, len) \<and>
    (p \<noteq> NULL \<longrightarrow> 0 \<le> len \<and> str_end m p (nat len) \<and> in_blob m fdt p (len + 1))"
proof -
  from fdt_ro_probe_safe [OF v] obtain e where e: "fdt_ro_probe m fdt = Some e" by blast
  from fdt_check_node_offset_safe [OF v off] obtain e2 where
    e2: "fdt_check_node_offset m fdt off = Some e2" by blast
  from v obtain n os ver where h: "fdt_off_dt_struct m fdt = Some os" "fdt_version m fdt = Some ver"
    "fdt_totalsize m fdt = Some n" "n \<le> INT_MAX" "0 < fdt" "32 \<le> os"
    by (rule valid_blob_header) blast
  show ?thesis
  proof (cases "e < 0 \<or> e2 < 0")
    case True
    with e e2 show ?thesis by (auto simp: fdt_get_name_def)
  next
    case False
    from fdt_check_node_offset_Some [OF e2] False have
      t: "fdt_next_tag m fdt off = Some (FDT_BEGIN_NODE, e2)" and off0: "0 \<le> off" by auto
    let ?p = "fdt + os + off + 4"
    from fdt_next_tag_node [OF v t h(1)] obtain k where k: "str_end m ?p k" "in_blob m fdt ?p (int k + 1)"
      by blast
    have fits: "s32 (int j) = int j" if "j \<le> k" for j
      using that k(2) h off0 by (intro s32_id) (auto simp: in_blob_def)
    have p0: "0 < ?p" using h off0 by simp
    show ?thesis
    proof (cases "ver < 16")
      case False
      with e e2 \<open>\<not> (e < 0 \<or> e2 < 0)\<close> h k fits show ?thesis
        by (auto simp: fdt_get_name_def Let_def c_strlen_str_end)
    next
      case True
      from c_strrchr_str_end [OF k(1) p0, of 47] obtain r where r: "c_strrchr m ?p 47 = Some r"
        "r = NULL \<or> (\<exists>i<k. r = ?p + int i)" by blast
      show ?thesis
      proof (cases "r = NULL")
        case True
        with r e e2 \<open>\<not> (e < 0 \<or> e2 < 0)\<close> h \<open>ver < 16\<close> show ?thesis
          by (auto simp: fdt_get_name_def Let_def)
      next
        case False
        with r obtain i where i: "i < k" "r = ?p + int i" by blast
        have s: "str_end m (r + 1) (k - Suc i)"
          using str_end_suffix [OF k(1), of "Suc i"] i by (simp add: ac_simps)
        have "in_blob m fdt (r + 1) (int (k - Suc i) + 1)"
          using i by (intro in_blob_sub [OF k(2)]) auto
        moreover have "fdt_get_name m fdt off = Some (r + 1, int (k - Suc i))"
          using s r False e e2 \<open>\<not> (e < 0 \<or> e2 < 0)\<close> h \<open>ver < 16\<close> fits [of "k - Suc i"]
          by (simp add: fdt_get_name_def Let_def c_strlen_str_end)
        ultimately show ?thesis using s by simp
      qed
    qed
  qed
qed

lemma in_blob_memeq:
  assumes "valid_blob m fdt" and "in_blob m fdt p n" and "int (length s) \<le> n"
  shows "\<exists>b. c_memeq m p s = Some b"
proof -
  have "mapped m p (int (length s))"
    using assms by (blast intro: in_blob_mapped mapped_sub order_refl add_left_mono)
  from rd_bytes_ex [OF this] show ?thesis by (auto simp: c_memeq_def)
qed

lemma in_blob_rd:
  assumes "valid_blob m fdt" and "in_blob m fdt p n" and "p \<le> q" and "q < p + n"
  shows "\<exists>b. rd m q = Some b"
  using in_blob_mapped [OF assms(1,2)] assms(3,4) by (rule mapped_rd)

lemma fdt_nodename_eq_safe [safe_intros]:
  assumes v: "valid_blob m fdt" and off: "c_int off"
  shows "\<exists>b. fdt_nodename_eq m fdt off s = Some b"
proof -
  from fdt_get_name_ok [OF v off] obtain p len where g: "fdt_get_name m fdt off = Some (p, len)"
    and ok: "p \<noteq> NULL \<Longrightarrow> 0 \<le> len \<and> in_blob m fdt p (len + 1)" by blast
  show ?thesis
  proof (cases "p = NULL \<or> len < int (length s)")
    case True
    with g show ?thesis by (auto simp: fdt_nodename_eq_def)
  next
    case False
    with ok have inb: "in_blob m fdt p (len + 1)" by simp
    from in_blob_memeq [OF v inb, of s] False obtain b where b: "c_memeq m p s = Some b" by auto
    from in_blob_rd [OF v inb, of "p + int (length s)"] False
    obtain c where "rd m (p + int (length s)) = Some c" by auto
    with b g False show ?thesis by (auto simp: fdt_nodename_eq_def)
  qed
qed

lemma memchr_tail:
  assumes v: "valid_blob m fdt" and inb: "in_blob m fdt p len"
  shows "\<exists>n. c_memchr m p 0 (nat len) = Some n \<and>
    (n \<noteq> NULL \<longrightarrow> 0 \<le> n - p \<and> str_end m p (nat (n - p)) \<and> in_blob m fdt p (n - p + 1))"
proof -
  have l: "0 \<le> len" using inb by (simp add: in_blob_def)
  with in_blob_mapped [OF v inb] have "mapped m p (int (nat len))" by simp
  from c_memchr_0 [OF this] show ?thesis
  proof
    assume "\<exists>k<nat len. str_end m p k \<and> c_memchr m p 0 (nat len) = Some (p + int k)"
    then obtain k where k: "k < nat len" "str_end m p k" "c_memchr m p 0 (nat len) = Some (p + int k)"
      by blast
    then have "in_blob m fdt p (int k + 1)" using l by (intro in_blob_sub [OF inb]) auto
    with k show ?thesis by simp
  qed simp
qed

lemma fdt_get_string_ok:
  assumes v: "valid_blob m fdt"
  shows "\<exists>p len. fdt_get_string m fdt stroffset = Some (p, len) \<and>
    (p \<noteq> NULL \<longrightarrow> 0 \<le> len \<and> str_end m p (nat len) \<and> in_blob m fdt p (len + 1))"
proof -
  from v obtain n ver ot st where h: "fdt_magic m fdt = Some FDT_MAGIC" "fdt_version m fdt = Some ver"
    "fdt_totalsize m fdt = Some n" "0 \<le> n" "n \<le> INT_MAX" "fdt_off_dt_strings m fdt = Some ot"
    "fdt_size_dt_strings m fdt = Some st"
    by (rule valid_blob_header) force
  note probe = fdt_ro_probe_valid [OF v h(3)]
  let ?a = "u32 (stroffset + ot)"
  let ?tail = "\<lambda>len. do { n \<leftarrow> c_memchr m (fdt + ?a) 0 (nat len);
    if n = NULL then Some (NULL, - FDT_ERR_TRUNCATED) else Some (fdt + ?a, n - (fdt + ?a)) }"
  let ?ok = "\<lambda>r. \<exists>p len. r = Some (p, len) \<and>
    (p \<noteq> NULL \<longrightarrow> 0 \<le> len \<and> str_end m p (nat len) \<and> in_blob m fdt p (len + 1))"
  have tail: "?ok (?tail len)" if "0 \<le> len" "len \<le> n - ?a" for len
  proof -
    have "in_blob m fdt (fdt + ?a) len" using that h by (simp add: in_blob_def)
    from memchr_tail [OF v this] show ?thesis by auto
  qed
  have nul: "?ok (Some (NULL, e))" for e by simp
  show ?thesis
  proof (cases "n < INT_MAX \<and> ?a < n")
    case False
    with probe h nul show ?thesis by (auto simp: fdt_get_string_def Let_def u32_id)
  next
    case True
    then have un: "u32 n = n" using h by (simp add: u32_id)
    let ?k = "u32 (st - stroffset)"
    have "fdt_get_string m fdt stroffset =
      (if stroffset < 0 then Some (NULL, - FDT_ERR_BADOFFSET)
       else if ver \<ge> 17 then
         (if u32 stroffset \<ge> st then Some (NULL, - FDT_ERR_BADOFFSET)
          else if ?k < n - ?a then ?tail ?k else ?tail (n - ?a))
       else ?tail (n - ?a))"
      using True probe h un by (simp add: fdt_get_string_def Let_def)
    moreover have "?ok (?tail (n - ?a))" using True by (intro tail) simp_all
    moreover have "?k < n - ?a \<Longrightarrow> ?ok (?tail ?k)" by (intro tail) simp_all
    ultimately show ?thesis using nul by (simp only: split: if_split) blast
  qed
qed

lemma fdt_string_eq_safe [safe_intros]:
  assumes v: "valid_blob m fdt"
  shows "\<exists>b. fdt_string_eq m fdt stroffset s = Some b"
proof -
  from fdt_get_string_ok [OF v] obtain p len where g: "fdt_get_string m fdt stroffset = Some (p, len)"
    and ok: "p \<noteq> NULL \<Longrightarrow> in_blob m fdt p (len + 1)" by blast
  show ?thesis
  proof (cases "p \<noteq> NULL \<and> len = int (length s)")
    case True
    with in_blob_memeq [OF v ok, of s] g show ?thesis by (auto simp: fdt_string_eq_def)
  next
    case False
    with g show ?thesis by (auto simp: fdt_string_eq_def)
  qed
qed

section \<open>Properties\<close>

lemma nextprop_safe:
  "valid_blob m fdt \<Longrightarrow> c_int off \<Longrightarrow> \<exists>r. nextprop m fdt off = Some r \<and> c_int r"
proof (induction m fdt off rule: nextprop.induct)
  case (1 m fdt off)
  from fdt_next_tag_safe [OF "1.prems"] obtain tag nx where
    t: "fdt_next_tag m fdt off = Some (tag, nx)" by blast
  note c = fdt_next_tag_c_int [OF t]
  show ?case
    using "1.IH" [OF t refl] "1.prems" c t by (subst nextprop.simps) auto
qed

lemma fdt_first_property_offset_safe [safe_intros]:
  assumes "valid_blob m fdt" and "c_int off"
  shows "\<exists>r. fdt_first_property_offset m fdt off = Some r \<and> c_int r"
proof -
  from fdt_check_node_offset_safe [OF assms] obtain x where x: "fdt_check_node_offset m fdt off = Some x"
    by blast
  note cx = fdt_check_node_offset_c_int [OF x]
  from nextprop_safe [OF assms(1) cx] cx x show ?thesis
    by (auto simp: fdt_first_property_offset_def)
qed

lemma fdt_next_property_offset_safe [safe_intros]:
  assumes "valid_blob m fdt" and "c_int off"
  shows "\<exists>r. fdt_next_property_offset m fdt off = Some r \<and> c_int r"
proof -
  from fdt_check_prop_offset_safe [OF assms] obtain x where x: "fdt_check_prop_offset m fdt off = Some x"
    by blast
  note cx = fdt_check_prop_offset_c_int [OF x]
  from nextprop_safe [OF assms(1) cx] cx x show ?thesis
    by (auto simp: fdt_next_property_offset_def)
qed

text \<open>A property header returned by offset lies in the blob, and so does the value behind it.\<close>

definition prop_at :: "mem \<Rightarrow> addr \<Rightarrow> int \<Rightarrow> addr \<Rightarrow> int \<Rightarrow> bool" where
  "prop_at m fdt off p len \<longleftrightarrow> fdt32_ld m (p + 4) = Some len \<and> 0 \<le> len \<and> len \<le> INT_MAX \<and>
     (\<exists>nameoff. fdt32_ld m (p + 8) = Some nameoff) \<and>
     (\<exists>ver. fdt_version m fdt = Some ver \<and> in_blob m fdt (prop_data ver off len p) len)"

lemma next_tag_prop_at:
  assumes v: "valid_blob m fdt" and t: "fdt_next_tag m fdt off = Some (FDT_PROP, e)" and e: "0 \<le> e"
    and os: "fdt_off_dt_struct m fdt = Some os"
  shows "\<exists>len. prop_at m fdt off (fdt + os + off) len"
proof -
  from v obtain ver where ver: "fdt_version m fdt = Some ver" by (rule valid_blob_header) blast
  let ?p = "fdt + os + off"
  from fdt_next_tag_prop [OF v t e os ver] obtain len where
    len: "fdt32_ld m (?p + 4) = Some len" "0 \<le> len" "len \<le> INT_MAX"
    and inb: "in_blob m fdt ?p
      (12 + len + (if ver < 16 \<and> len \<ge> 8 \<and> (off + 12) mod 8 \<noteq> 0 then 4 else 0))" by blast
  have "in_blob m fdt (?p + 8) 4" using len by (intro in_blob_sub [OF inb]) auto
  from fdt32_ld_ex [OF in_blob_mapped [OF v this]] have "\<exists>no. fdt32_ld m (?p + 8) = Some no" .
  moreover have "in_blob m fdt (prop_data ver off len ?p) len"
    using len by (intro in_blob_sub [OF inb]) (auto simp: prop_data_def)
  ultimately show ?thesis using len ver by (auto simp: prop_at_def)
qed

lemma get_property_by_offset_ok:
  assumes v: "valid_blob m fdt" and off: "c_int off"
  shows "\<exists>p len. get_property_by_offset m fdt off = Some (p, len) \<and>
     (p \<noteq> NULL \<longrightarrow> prop_at m fdt off p len)"
proof -
  from fdt_check_prop_offset_safe [OF v off] obtain e where
    e: "fdt_check_prop_offset m fdt off = Some e" by blast
  show ?thesis
  proof (cases "e < 0")
    case True
    with e show ?thesis by (simp add: get_property_by_offset_def)
  next
    case False
    from fdt_check_prop_offset_Some [OF e] False have
      t: "fdt_next_tag m fdt off = Some (FDT_PROP, e)" and e0: "0 \<le> e" by auto
    from v obtain os where h: "fdt_off_dt_struct m fdt = Some os" by (rule valid_blob_header) blast
    from next_tag_prop_at [OF v t e0 h] obtain len where p: "prop_at m fdt off (fdt + os + off) len" by blast
    with e False h show ?thesis by (simp add: get_property_by_offset_def prop_at_def s32_id)
  qed
qed

lemma find_property_ok:
  "valid_blob m fdt \<Longrightarrow> c_int off \<Longrightarrow>
     \<exists>p len po. find_property m fdt off name = Some (p, len, po) \<and> (p \<noteq> NULL \<longrightarrow> prop_at m fdt po p len)"
proof (induction m fdt off name rule: find_property.induct)
  case (1 m fdt off name)
  note unf = find_property.simps [of m fdt off name]
  show ?case
  proof (cases "off < 0")
    case True
    then show ?thesis by (simp add: unf)
  next
    case False
    from get_property_by_offset_ok [OF "1.prems"] obtain p len
      where g: "get_property_by_offset m fdt off = Some (p, len)"
        and pa: "p \<noteq> NULL \<Longrightarrow> prop_at m fdt off p len" by blast
    show ?thesis
    proof (cases "p = NULL")
      case True
      with g False show ?thesis by (simp add: unf)
    next
      case pn: False
      from pa [OF this] obtain no where no: "fdt32_ld m (p + 8) = Some no" by (auto simp: prop_at_def)
      from fdt_string_eq_safe [OF "1.prems"(1)] obtain eq
        where eq: "fdt_string_eq m fdt (s32 no) name = Some eq" by blast
      from fdt_next_property_offset_safe [OF "1.prems"] obtain off'
        where nx: "fdt_next_property_offset m fdt off = Some off'" "c_int off'" by blast
      show ?thesis
        using "1.IH" [OF False g refl pn no eq _ nx(1) _ "1.prems"(1) nx(2)] pa [OF pn] g False pn no eq nx
        by (auto simp: unf)
    qed
  qed
qed

lemma get_property_namelen_ok:
  assumes "valid_blob m fdt" and "c_int off"
  shows "\<exists>p len po. get_property_namelen m fdt off name = Some (p, len, po) \<and>
    (p \<noteq> NULL \<longrightarrow> prop_at m fdt po p len)"
  using fdt_first_property_offset_safe [OF assms] find_property_ok [OF assms(1)]
  by (force simp: get_property_namelen_def)

text \<open>\<open>fdt_getprop\<close> returns a value that lies in the blob, or NULL and an error.\<close>

lemma fdt_getprop_ok:
  assumes v: "valid_blob m fdt" and off: "c_int off"
  shows "\<exists>p len. fdt_getprop m fdt off name = Some (p, len) \<and>
    (p \<noteq> NULL \<longrightarrow> 0 \<le> len \<and> len \<le> INT_MAX \<and> in_blob m fdt p len)"
proof -
  from get_property_namelen_ok [OF assms] obtain p len po where
    g: "get_property_namelen m fdt off name = Some (p, len, po)"
    and pa: "p \<noteq> NULL \<Longrightarrow> prop_at m fdt po p len" by blast
  show ?thesis
  proof (cases "p = NULL")
    case True
    with g show ?thesis by (simp add: fdt_getprop_def)
  next
    case False
    with pa obtain ver where "fdt_version m fdt = Some ver" "fdt32_ld m (p + 4) = Some len"
      "0 \<le> len" "len \<le> INT_MAX" "in_blob m fdt (prop_data ver po len p) len"
      by (auto simp: prop_at_def)
    with g False show ?thesis by (simp add: fdt_getprop_def)
  qed
qed

lemma fdt_getprop_by_offset_ok:
  assumes v: "valid_blob m fdt" and off: "c_int off"
  shows "\<exists>p np len. fdt_getprop_by_offset m fdt off = Some (p, np, len) \<and>
    (p \<noteq> NULL \<longrightarrow> 0 \<le> len \<and> len \<le> INT_MAX \<and> in_blob m fdt p len \<and>
       np \<noteq> NULL \<and> (\<exists>k. str_end m np k \<and> in_blob m fdt np (int k + 1)))"
proof -
  from get_property_by_offset_ok [OF assms] obtain p len where
    g: "get_property_by_offset m fdt off = Some (p, len)"
    and pa: "p \<noteq> NULL \<Longrightarrow> prop_at m fdt off p len" by blast
  show ?thesis
  proof (cases "p = NULL")
    case True
    with g show ?thesis by (simp add: fdt_getprop_by_offset_def)
  next
    case False
    with pa obtain ver no where h: "fdt_version m fdt = Some ver" "fdt32_ld m (p + 4) = Some len"
      "fdt32_ld m (p + 8) = Some no" "0 \<le> len" "len \<le> INT_MAX"
      "in_blob m fdt (prop_data ver off len p) len"
      by (auto simp: prop_at_def)
    from fdt_get_string_ok [OF v] obtain np nl where np: "fdt_get_string m fdt (s32 no) = Some (np, nl)"
      "np \<noteq> NULL \<Longrightarrow> 0 \<le> nl \<and> str_end m np (nat nl) \<and> in_blob m fdt np (nl + 1)" by blast
    show ?thesis
    proof (cases "np = NULL")
      case True
      with g False h np show ?thesis by (simp add: fdt_getprop_by_offset_def)
    next
      case nn: False
      with np(2) have "str_end m np (nat nl) \<and> in_blob m fdt np (int (nat nl) + 1)" by simp
      with nn g False h np(1) show ?thesis by (auto simp: fdt_getprop_by_offset_def)
    qed
  qed
qed

lemma fdt_getprop_ld32:
  assumes "valid_blob m fdt" and "c_int off" and "fdt_getprop m fdt off name = Some (p, 4)" and "p \<noteq> NULL"
  shows "\<exists>v. fdt32_ld m p = Some v"
proof -
  from fdt_getprop_ok [OF assms(1,2), of name] assms(3,4) have "in_blob m fdt p 4" by simp
  with assms(1) show ?thesis by (blast intro: fdt32_ld_ex in_blob_mapped)
qed

lemma fdt_get_phandle_safe [safe_intros]:
  assumes "valid_blob m fdt" and "c_int off"
  shows "\<exists>v. fdt_get_phandle m fdt off = Some v"
proof -
  from fdt_getprop_ok [OF assms] obtain p l where 1: "fdt_getprop m fdt off (chars ''phandle'') = Some (p, l)"
    by blast
  from fdt_getprop_ok [OF assms] obtain q k where 2: "fdt_getprop m fdt off (chars ''linux,phandle'') = Some (q, k)"
    by blast
  show ?thesis
    using 1 2 fdt_getprop_ld32 [OF assms, of _ p] fdt_getprop_ld32 [OF assms, of _ q]
    by (auto simp: fdt_get_phandle_def)
qed

section \<open>Nodes and paths\<close>

lemma fdt_next_node_depth:
  "fdt_next_node m fdt off depth = Some (r, depth') \<Longrightarrow> (depth' = None) = (depth = None)"
  by (auto simp: fdt_next_node_def bind_eq_Some_conv split: if_splits dest: next_node_loop_depth)

lemma subnode_search_safe:
  "valid_blob m fdt \<Longrightarrow> c_int off \<Longrightarrow> \<exists>r. subnode_search m fdt off depth name = Some r \<and> c_int r"
proof (induction m fdt off depth name rule: subnode_search.induct)
  case (1 m fdt off depth name)
  from fdt_nodename_eq_safe [OF "1.prems"] obtain b where b: "fdt_nodename_eq m fdt off name = Some b"
    by blast
  from fdt_next_node_safe [OF "1.prems"] obtain x d' where
    n: "fdt_next_node m fdt off (Some depth) = Some (x, d')" by blast
  from fdt_next_node_depth [OF n] obtain d where d: "d' = Some d" by auto
  have cx: "c_int x" using n by (rule fdt_next_node_c_int)
  show ?case
  proof (cases "off \<ge> 0 \<and> depth \<ge> 0")
    case False
    then show ?thesis using "1.prems" by (subst subnode_search.simps) auto
  next
    case True
    let ?hit = "(if depth = 1 then b else False)"
    have hit: "(if depth = 1 then fdt_nodename_eq m fdt off name else Some False) = Some ?hit"
      using b by simp
    have "\<not> ?hit \<Longrightarrow> \<exists>r. subnode_search m fdt x d name = Some r \<and> c_int r"
      using "1.IH" [OF True hit _ n refl d "1.prems"(1) cx] by simp
    moreover have "subnode_search m fdt off depth name =
        (if ?hit then Some off else subnode_search m fdt x d name)"
      using True hit n d by (subst subnode_search.simps) simp
    ultimately show ?thesis using "1.prems"(2) by (cases ?hit) simp_all
  qed
qed

lemma fdt_ro_probe_c_int:
  assumes "fdt_ro_probe m fdt = Some r"
  shows "c_int r"
proof -
  from assms obtain n where n: "fdt_totalsize m fdt = Some n"
    by (auto simp: fdt_ro_probe_def bind_eq_Some_conv)
  then have "0 \<le> n" by (auto simp: fdt_totalsize_def dest: fdt32_ld_range)
  moreover from assms n have "r = n \<and> n < INT_MAX \<or> r = - FDT_ERR_TRUNCATED \<or> r = - FDT_ERR_ALIGNMENT \<or>
      r = - FDT_ERR_BADVERSION \<or> r = - FDT_ERR_BADSTATE \<or> r = - FDT_ERR_BADMAGIC"
    unfolding fdt_ro_probe_def Let_def by (auto simp: bind_eq_Some_conv split: if_splits)
  ultimately show ?thesis by (auto simp: c_int_def)
qed

lemma fdt_subnode_offset_namelen_safe [safe_intros]:
  assumes "valid_blob m fdt" and "c_int off"
  shows "\<exists>r. fdt_subnode_offset_namelen m fdt off name = Some r \<and> c_int r"
  using fdt_ro_probe_safe [OF assms(1)] subnode_search_safe [OF assms]
  by (auto simp: fdt_subnode_offset_namelen_def dest: fdt_ro_probe_c_int)

lemma path_walk_safe:
  "valid_blob m fdt \<Longrightarrow> c_int off \<Longrightarrow> \<exists>r. path_walk m fdt off p = Some r \<and> c_int r"
proof (induction m fdt off p rule: path_walk.induct)
  case (1 m fdt off p)
  let ?q = "dropWhile (\<lambda>c. c = 47) p"
  from fdt_subnode_offset_namelen_safe [OF "1.prems"] obtain x where
    x: "fdt_subnode_offset_namelen m fdt off (takeWhile (\<lambda>c. c \<noteq> 47) ?q) = Some x" "c_int x" by blast
  show ?case
  proof (cases "p = [] \<or> ?q = []")
    case True
    then show ?thesis using "1.prems" by (subst path_walk.simps) (auto simp: Let_def)
  next
    case False
    with x "1.IH" [OF _ refl _ x(1) _ "1.prems"(1) x(2)] show ?thesis
      by (subst path_walk.simps) (auto simp: Let_def)
  qed
qed

lemma fdt_path_offset_abs_safe [safe_intros]:
  assumes "valid_blob m fdt"
  shows "\<exists>r. fdt_path_offset_abs m fdt path = Some r \<and> c_int r"
proof -
  have "c_int 0" "c_int (- 5)" by (simp_all add: c_int_def)
  with fdt_ro_probe_safe [OF assms] path_walk_safe [OF assms, of 0 path] show ?thesis
    by (auto simp: fdt_path_offset_abs_def dest: fdt_ro_probe_c_int)
qed

lemma fdt_get_alias_namelen_ok:
  assumes v: "valid_blob m fdt"
  shows "\<exists>p. fdt_get_alias_namelen m fdt name = Some p \<and> (p \<noteq> NULL \<longrightarrow> (\<exists>k. str_end m p k))"
proof -
  from fdt_path_offset_abs_safe [OF v] obtain off
    where off: "fdt_path_offset_abs m fdt (chars ''/aliases'') = Some off" "c_int off" by blast
  from fdt_getprop_ok [OF v off(2), of name] obtain p len where
    g: "fdt_getprop m fdt off name = Some (p, len)"
    and ok: "p \<noteq> NULL \<Longrightarrow> 0 \<le> len \<and> len \<le> INT_MAX \<and> in_blob m fdt p len" by blast
  show ?thesis
  proof (cases "off < 0 \<or> p = NULL \<or> len \<le> 0")
    case True
    with off g show ?thesis by (auto simp: fdt_get_alias_namelen_def path_getprop_namelen_def)
  next
    case False
    with ok have inb: "in_blob m fdt p len" by simp
    from in_blob_rd [OF v inb, of p] in_blob_rd [OF v inb, of "p + len - 1"] False
    obtain a b where ab: "rd m p = Some a" "rd m (p + len - 1) = Some b" by force
    have "\<exists>k. str_end m p k" if "b = 0"
    proof -
      from in_blob_mapped [OF v inb] have "mapped m p (int (nat len))" using False by simp
      from c_memchr_0 [OF this] show ?thesis
      proof
        assume "c_memchr m p 0 (nat len) = Some NULL \<and> (\<forall>i<nat len. \<exists>b. m (p + int i) = Some b \<and> b \<noteq> 0)"
        then have "\<exists>c. m (p + int (nat len - 1)) = Some c \<and> c \<noteq> 0" using False by simp
        moreover have "int (nat len - 1) = len - 1" using False by linarith
        ultimately have "\<exists>c. m (p + (len - 1)) = Some c \<and> c \<noteq> 0" by simp
        moreover from ab(2) that have "m (p + (len - 1)) = Some 0"
          by (auto simp: rd_def algebra_simps)
        ultimately show ?thesis by simp
      qed blast
    qed
    with False off g ab show ?thesis
      by (auto simp: fdt_get_alias_namelen_def path_getprop_namelen_def)
  qed
qed

lemma fdt_path_offset_safe [safe_intros]:
  assumes v: "valid_blob m fdt"
  shows "\<exists>r. fdt_path_offset m fdt path = Some r \<and> c_int r"
proof -
  let ?a = "takeWhile (\<lambda>c. c \<noteq> 47) path"
  from fdt_ro_probe_safe [OF v] obtain e where e: "fdt_ro_probe m fdt = Some e" by blast
  have c: "c_int e" "c_int 0" "c_int (- 5)"
    using fdt_ro_probe_c_int [OF e] by (simp_all add: c_int_def)
  from fdt_get_alias_namelen_ok [OF v] obtain p where
    p: "fdt_get_alias_namelen m fdt ?a = Some p" "p \<noteq> NULL \<Longrightarrow> \<exists>k. str_end m p k" by blast
  show ?thesis
  proof (cases "e < 0 \<or> path = [] \<or> hd path = 47")
    case True
    with e c path_walk_safe [OF v c(2), of path] show ?thesis by (auto simp: fdt_path_offset_def)
  next
    case False
    show ?thesis
    proof (cases "p = NULL")
      case True
      with e c p(1) False show ?thesis by (auto simp: fdt_path_offset_def)
    next
      case pn: False
      from p(2) [OF this] c_str_ex obtain s where s: "c_str m p = Some s" by blast
      from fdt_path_offset_abs_safe [OF v] obtain off
        where off: "fdt_path_offset_abs m fdt s = Some off" "c_int off" by blast
      with path_walk_safe [OF v off(2)] e p(1) pn s False show ?thesis
        by (auto simp: fdt_path_offset_def)
    qed
  qed
qed

end
