(* ===== verification/Fdt_List.thy ===== *)
theory Fdt_List
  imports Fdt_Safe
begin

text \<open>
  More read access (\<open>fdt_ro.c\<close>, \<open>fdt_addresses.c\<close>): the memory reservation block, the path of a
  node, lists of strings, compatible nodes and cell counts.
\<close>

section \<open>Memory reservations\<close>

text \<open>The address of entry \<open>n\<close>; offsets are \<open>unsigned int\<close>, the difference with the size wraps.\<close>

definition fdt_mem_rsv :: "mem \<Rightarrow> addr \<Rightarrow> int \<Rightarrow> addr option" where
  "fdt_mem_rsv m fdt n = do {
     off_rsv \<leftarrow> fdt_off_mem_rsvmap m fdt;
     total \<leftarrow> fdt_totalsize m fdt;
     let offset = u32 (n * 16);
     let absoffset = u32 (off_rsv + offset);
     if absoffset < off_rsv then Some NULL
     else if absoffset > u64 (total - 16) then Some NULL
     else Some (fdt + off_rsv + n * 16) }"

definition fdt_get_mem_rsv :: "mem \<Rightarrow> addr \<Rightarrow> int \<Rightarrow> (int \<times> (int \<times> int) option) option" where
  "fdt_get_mem_rsv m fdt n = do {
     err \<leftarrow> fdt_ro_probe m fdt;
     if err < 0 then Some (err, None)
     else do {
       re \<leftarrow> fdt_mem_rsv m fdt n;
       if re = NULL then Some (- FDT_ERR_BADOFFSET, None)
       else do {
         address \<leftarrow> fdt64_ld m re;
         sz \<leftarrow> fdt64_ld m (re + 8);
         Some (0, Some (address, sz)) } } }"

text \<open>The loop over the entries; \<open>i++\<close> of the largest \<open>int\<close> is undefined.\<close>

function (sequential) num_mem_rsv_loop :: "mem \<Rightarrow> addr \<Rightarrow> int \<Rightarrow> int option" where
  "num_mem_rsv_loop m fdt i = do {
     re \<leftarrow> fdt_mem_rsv m fdt i;
     if re = NULL then Some (- FDT_ERR_TRUNCATED)
     else do {
       sz \<leftarrow> fdt64_ld m (re + 8);
       if sz = 0 then Some i
       else if i < INT_MAX then num_mem_rsv_loop m fdt (i + 1) else None } }"
  by pat_completeness auto

termination num_mem_rsv_loop
  by (relation "measure (\<lambda>(m, fdt, i). nat (2147483647 - i))") auto

declare num_mem_rsv_loop.simps [simp del]

definition fdt_num_mem_rsv :: "mem \<Rightarrow> addr \<Rightarrow> int option" where
  "fdt_num_mem_rsv m fdt = num_mem_rsv_loop m fdt 0"

section \<open>The path of a node\<close>

text \<open>
  The bytes written to the buffer so far, last first. \<open>do { p--; } while (buf[p - 1] != '/')\<close>
  drops the last component; it reads before the buffer when there is no separator left.
\<close>

fun pop_component :: "byte list \<Rightarrow> byte list option" where
  "pop_component [] = None"
| "pop_component [c] = None"
| "pop_component (c # d # rbuf) = (if d = 47 then Some (d # rbuf) else pop_component (d # rbuf))"

fun pop_components :: "nat \<Rightarrow> byte list \<Rightarrow> byte list option" where
  "pop_components 0 rbuf = Some rbuf"
| "pop_components (Suc k) rbuf = do { r \<leftarrow> pop_component rbuf; pop_components k r }"

text \<open>The components of the path, and the final path when the node is reached.\<close>

function (sequential) get_path_loop ::
  "mem \<Rightarrow> addr \<Rightarrow> int \<Rightarrow> int \<Rightarrow> int \<Rightarrow> int \<Rightarrow> int \<Rightarrow> byte list \<Rightarrow> (int \<times> byte list) option" where
  "get_path_loop m fdt nodeoffset buflen offset depth pdepth rbuf =
     (if offset \<ge> 0 \<and> offset \<le> nodeoffset then do {
        rbuf1 \<leftarrow> pop_components (nat (pdepth - depth)) rbuf;
        let pdepth1 = min pdepth depth;
        (name, namelen) \<leftarrow> (if pdepth1 \<ge> depth then fdt_get_name m fdt offset else Some (fdt, 0));
        if name = NULL then Some (namelen, [])
        else do {
          (rbuf2, pdepth2) \<leftarrow>
            (if pdepth1 \<ge> depth \<and> int (length rbuf1) + namelen + 1 \<le> buflen then do {
               bs \<leftarrow> rd_bytes m name (nat namelen);
               Some (47 # rev bs @ rbuf1, pdepth1 + 1) }
             else Some (rbuf1, pdepth1));
          if offset = nodeoffset then
            if pdepth2 < depth + 1 then Some (- FDT_ERR_NOSPACE, [])
            else Some (0, rev (if length rbuf2 > 1 then tl rbuf2 else rbuf2))
          else do {
            (offset', depth') \<leftarrow> fdt_next_node m fdt offset (Some depth);
            case depth' of
              None \<Rightarrow> None
            | Some d \<Rightarrow> get_path_loop m fdt nodeoffset buflen offset' d pdepth2 rbuf2 } } }
      else if offset = - FDT_ERR_NOTFOUND \<or> offset \<ge> 0 then Some (- FDT_ERR_BADOFFSET, [])
      else if offset = - FDT_ERR_BADOFFSET then Some (- FDT_ERR_BADSTRUCTURE, [])
      else Some (offset, []))"
  by pat_completeness auto

termination get_path_loop
  by (relation "measure (\<lambda>(m, fdt, n, l, x, d, pd, r). if x < 0 then 0 else Suc (nat (2147483648 - x)))")
    (auto dest!: subnode_search_step simp del: in_measure simp: in_measure)

declare get_path_loop.simps [simp del]

text \<open>\<open>fdt_get_path\<close>: the status and the string in the buffer.\<close>

definition fdt_get_path :: "mem \<Rightarrow> addr \<Rightarrow> int \<Rightarrow> int \<Rightarrow> (int \<times> byte list) option" where
  "fdt_get_path m fdt nodeoffset buflen = do {
     err \<leftarrow> fdt_ro_probe m fdt;
     if err < 0 then Some (err, [])
     else if buflen < 2 then Some (- FDT_ERR_NOSPACE, [])
     else get_path_loop m fdt nodeoffset buflen 0 0 0 [] }"

section \<open>Lists of strings\<close>

lemma c_memchr_range: "c_memchr m p c n = Some q \<Longrightarrow> q = NULL \<or> p \<le> q \<and> q < p + int n"
  by (induction n arbitrary: p) (force simp: bind_eq_Some_conv split: if_splits)+

text \<open>
  \<open>fdt_stringlist_contains\<close>: the comparison reads one byte more than the string, which may be the
  byte behind the list.
\<close>

function (sequential) fdt_stringlist_contains :: "mem \<Rightarrow> addr \<Rightarrow> int \<Rightarrow> byte list \<Rightarrow> int option" where
  "fdt_stringlist_contains m strlist listlen str =
     (if listlen \<ge> int (length str) then do {
        eq \<leftarrow> c_memeq m strlist (str @ [0]);
        if eq then Some 1
        else do {
          p \<leftarrow> c_memchr m strlist 0 (nat listlen);
          if p = NULL then Some 0
          else fdt_stringlist_contains m (p + 1) (listlen - (p - strlist + 1)) str } }
      else Some 0)"
  by pat_completeness auto

termination fdt_stringlist_contains
  by (relation "measure (\<lambda>(m, p, n, s). nat (n + 1))") (auto dest!: c_memchr_range)

declare fdt_stringlist_contains.simps [simp del]

text \<open>
  \<open>strnlen (list, end - list) + 1\<close>: one more than the distance to the terminator, or than the
  distance to the end when there is none.
\<close>

definition entry_length :: "mem \<Rightarrow> addr \<Rightarrow> addr \<Rightarrow> int option" where
  "entry_length m list lend = do {
     p \<leftarrow> c_memchr m list 0 (nat (lend - list));
     Some ((if p = NULL then lend - list else p - list) + 1) }"

lemma entry_length_pos: "entry_length m list lend = Some n \<Longrightarrow> list < lend \<Longrightarrow> 0 < n"
  by (auto simp: entry_length_def bind_eq_Some_conv dest!: c_memchr_range split: if_splits)

text \<open>
  The three functions on a list property share a loop over its strings. \<open>body\<close> gets the address
  and the length (with terminator) of a string, and returns (\<open>Inr\<close>) or goes on with a new state
  (\<open>Inl\<close>); \<open>bad\<close> is the result for a string without terminator.
\<close>

function (sequential) each_string ::
  "mem \<Rightarrow> addr \<Rightarrow> addr \<Rightarrow> (addr \<Rightarrow> int \<Rightarrow> 's \<Rightarrow> ('s + 'r) option) \<Rightarrow> 'r \<Rightarrow> 's \<Rightarrow> ('s + 'r) option" where
  "each_string m list lend body bad s =
     (if list < lend then do {
        n \<leftarrow> entry_length m list lend;
        if list + n > lend then Some (Inr bad)
        else do {
          r \<leftarrow> body list n s;
          case r of Inr x \<Rightarrow> Some (Inr x) | Inl s' \<Rightarrow> each_string m (list + n) lend body bad s' } }
      else Some (Inl s))"
  by pat_completeness auto

termination each_string
  by (relation "measure (\<lambda>(m, l, e, b, bad, s). nat (e - l))") (auto dest!: entry_length_pos)

declare each_string.simps [simp del]

definition fdt_stringlist_count :: "mem \<Rightarrow> addr \<Rightarrow> int \<Rightarrow> byte list \<Rightarrow> int option" where
  "fdt_stringlist_count m fdt nodeoffset property = do {
     (list, len) \<leftarrow> fdt_getprop m fdt nodeoffset property;
     if list = NULL then Some len
     else do {
       r \<leftarrow> each_string m list (list + len) (\<lambda>p n count. Some (Inl (count + 1))) (- FDT_ERR_BADVALUE) 0;
       Some (case r of Inl count \<Rightarrow> count | Inr e \<Rightarrow> e) } }"

definition fdt_stringlist_search :: "mem \<Rightarrow> addr \<Rightarrow> int \<Rightarrow> byte list \<Rightarrow> byte list \<Rightarrow> int option" where
  "fdt_stringlist_search m fdt nodeoffset property str = do {
     (list, len) \<leftarrow> fdt_getprop m fdt nodeoffset property;
     if list = NULL then Some len
     else do {
       r \<leftarrow> each_string m list (list + len)
         (\<lambda>p n idx. do {
            eq \<leftarrow> (if n = int (length str) + 1 then c_memeq m p (str @ [0]) else Some False);
            Some (if eq then Inr idx else Inl (idx + 1)) })
         (- FDT_ERR_BADVALUE) 0;
       Some (case r of Inl idx \<Rightarrow> - FDT_ERR_NOTFOUND | Inr x \<Rightarrow> x) } }"

text \<open>The address of string number \<open>idx\<close> and its length, or NULL and the error.\<close>

definition fdt_stringlist_get :: "mem \<Rightarrow> addr \<Rightarrow> int \<Rightarrow> byte list \<Rightarrow> int \<Rightarrow> (addr \<times> int) option" where
  "fdt_stringlist_get m fdt nodeoffset property idx0 = do {
     (list, len) \<leftarrow> fdt_getprop m fdt nodeoffset property;
     if list = NULL then Some (NULL, len)
     else do {
       r \<leftarrow> each_string m list (list + len)
         (\<lambda>p n idx. Some (if idx = 0 then Inr (p, n - 1) else Inl (idx - 1)))
         (NULL, - FDT_ERR_BADVALUE) idx0;
       Some (case r of Inl idx \<Rightarrow> (NULL, - FDT_ERR_NOTFOUND) | Inr x \<Rightarrow> x) } }"

section \<open>Compatible nodes\<close>

definition fdt_node_check_compatible :: "mem \<Rightarrow> addr \<Rightarrow> int \<Rightarrow> byte list \<Rightarrow> int option" where
  "fdt_node_check_compatible m fdt nodeoffset compatible = do {
     (prop, len) \<leftarrow> fdt_getprop m fdt nodeoffset (chars ''compatible'');
     if prop = NULL then Some len
     else do {
       r \<leftarrow> fdt_stringlist_contains m prop len compatible;
       Some (if r = 0 then 1 else 0) } }"

definition fdt_node_offset_by_compatible :: "mem \<Rightarrow> addr \<Rightarrow> int \<Rightarrow> byte list \<Rightarrow> int option" where
  "fdt_node_offset_by_compatible m fdt startoffset compatible = do {
     err \<leftarrow> fdt_ro_probe m fdt;
     if err < 0 then Some err
     else for_each_node m fdt startoffset (\<lambda>offset. do {
       err \<leftarrow> fdt_node_check_compatible m fdt offset compatible;
       Some (if err < 0 \<and> err \<noteq> - FDT_ERR_NOTFOUND then Some err
             else if err = 0 then Some offset else None) }) }"

section \<open>Cells\<close>

definition fdt_cells :: "mem \<Rightarrow> addr \<Rightarrow> int \<Rightarrow> byte list \<Rightarrow> int option" where
  "fdt_cells m fdt nodeoffset name = do {
     (c, len) \<leftarrow> fdt_getprop m fdt nodeoffset name;
     if c = NULL then Some len
     else if len \<noteq> 4 then Some (- FDT_ERR_BADNCELLS)
     else do {
       val \<leftarrow> fdt32_ld m c;
       Some (if val > 4 then - FDT_ERR_BADNCELLS else val) } }"

definition fdt_address_cells :: "mem \<Rightarrow> addr \<Rightarrow> int \<Rightarrow> int option" where
  "fdt_address_cells m fdt nodeoffset = do {
     val \<leftarrow> fdt_cells m fdt nodeoffset (chars ''#address-cells'');
     Some (if val = 0 then - FDT_ERR_BADNCELLS
           else if val = - FDT_ERR_NOTFOUND then 2
           else val) }"

definition fdt_size_cells :: "mem \<Rightarrow> addr \<Rightarrow> int \<Rightarrow> int option" where
  "fdt_size_cells m fdt nodeoffset = do {
     val \<leftarrow> fdt_cells m fdt nodeoffset (chars ''#size-cells'');
     Some (if val = - FDT_ERR_NOTFOUND then 1 else val) }"

section \<open>Lists of strings and their bytes\<close>

lemma takeWhile_at:
  assumes "(0 :: byte) \<in> set bs"
  shows "length (takeWhile (\<lambda>c. c \<noteq> 0) bs) < length bs" (is "?k < _")
    and "bs ! length (takeWhile (\<lambda>c. c \<noteq> 0) bs) = 0"
    and "i < length (takeWhile (\<lambda>c. c \<noteq> 0) bs) \<Longrightarrow> bs ! i \<noteq> 0"
proof -
  have "takeWhile (\<lambda>c. c \<noteq> 0) bs \<noteq> bs" using assms by (metis set_takeWhileD)
  then show k: "?k < length bs"
    using length_takeWhile_le [of "\<lambda>c. c \<noteq> 0" bs] takeWhile_eq_take [of "\<lambda>c. c \<noteq> 0" bs]
    by (metis le_neq_implies_less take_all_iff le_refl)
  then show "bs ! ?k = 0" using nth_length_takeWhile [of "\<lambda>c. c \<noteq> 0" bs] by auto
  show "i < ?k \<Longrightarrow> bs ! i \<noteq> 0"
    using nth_mem [of i "takeWhile (\<lambda>c. c \<noteq> 0) bs"] set_takeWhileD [of _ "\<lambda>c. c \<noteq> 0" bs]
    by (auto simp: takeWhile_nth)
qed

lemma str_end_takeWhile:
  assumes "rd_bytes m p (length bs) = Some bs" and "0 \<in> set bs"
  shows "str_end m p (length (takeWhile (\<lambda>c. c \<noteq> 0) bs))"
  unfolding str_end_def
proof (intro conjI allI impI)
  let ?k = "length (takeWhile (\<lambda>c. c \<noteq> 0) bs)"
  note k = takeWhile_at [OF assms(2)]
  show "m (p + int ?k) = Some 0" using rd_bytes_nth [OF assms(1) k(1)] k(2) by simp
  show "\<exists>b. m (p + int i) = Some b \<and> b \<noteq> 0" if "i < ?k" for i
    using rd_bytes_nth [OF assms(1), of i] k(1) k(3) [OF that] that by auto
qed

lemma memeq_string:
  assumes r: "rd_bytes m p (length bs) = Some bs" and z: "0 \<in> set bs" and s: "0 \<notin> set str"
    and "mapped m p (int (length str + 1))"
  shows "c_memeq m p (str @ [0]) = Some (takeWhile (\<lambda>c. c \<noteq> 0) bs = str)"
proof -
  let ?t = "takeWhile (\<lambda>c. c \<noteq> 0) bs"
  from rd_bytes_ex [OF assms(4)] obtain cs where cs: "rd_bytes m p (length str + 1) = Some cs" by blast
  note n = rd_bytes_nth [OF cs] and l = rd_bytes_length [OF cs]
  have "cs = str @ [0] \<longleftrightarrow> ?t = str"
  proof
    assume eq: "cs = str @ [0]"
    have "str_end m p (length str)"
      unfolding str_end_def
    proof (intro conjI allI impI)
      show "m (p + int (length str)) = Some 0" using n [of "length str"] eq by simp
      show "\<exists>b. m (p + int i) = Some b \<and> b \<noteq> 0" if "i < length str" for i
      proof -
        have "str ! i \<noteq> 0" using nth_mem [OF that] s by metis
        then show ?thesis using n [of i] eq that by (auto simp: nth_append)
      qed
    qed
    then have k: "length ?t = length str"
      using str_end_unique [OF _ str_end_takeWhile [OF r z]] by simp
    show "?t = str"
    proof (rule nth_equalityI [OF k])
      fix i
      assume i: "i < length ?t"
      then have "m (p + int i) = Some (bs ! i)" "m (p + int i) = Some (cs ! i)"
        using rd_bytes_nth [OF r, of i] takeWhile_at(1) [OF z] n [of i] k by auto
      then show "?t ! i = str ! i" using i k eq by (simp add: takeWhile_nth nth_append)
    qed
  next
    assume eq: "?t = str"
    show "cs = str @ [0]"
    proof (rule nth_equalityI)
      show "length cs = length (str @ [0])" using l by simp
      fix i
      assume "i < length cs"
      then have i: "i \<le> length str" using l by simp
      then have "i < length bs" using takeWhile_at(1) [OF z] eq by simp
      then have "m (p + int i) = Some (bs ! i)" "m (p + int i) = Some (cs ! i)"
        using rd_bytes_nth [OF r, of i] n [of i] i by auto
      then have ci: "cs ! i = bs ! i" by simp
      show "cs ! i = (str @ [0]) ! i"
      proof (cases "i = length str")
        case True
        then show ?thesis using ci takeWhile_at(2) [OF z] eq by simp
      next
        case False
        then have "i < length ?t" using i eq by simp
        then show ?thesis using ci eq takeWhile_nth [of i "\<lambda>c. c \<noteq> 0" bs] by (simp add: nth_append)
      qed
    qed
  qed
  with cs show ?thesis by (simp add: c_memeq_def)
qed

lemma rd_bytes_drop:
  "rd_bytes m p n = Some bs \<Longrightarrow> k \<le> n \<Longrightarrow> rd_bytes m (p + int k) (n - k) = Some (drop k bs)"
proof (induction k arbitrary: p n bs)
  case (Suc k)
  then obtain n' where n: "n = Suc n'" by (cases n) auto
  with Suc.prems obtain b bs' where b: "bs = b # bs'" "rd_bytes m (p + 1) n' = Some bs'"
    by (auto simp: bind_eq_Some_conv)
  from Suc.IH [OF b(2)] Suc.prems(2) n b(1) show ?case by (simp add: add.assoc)
qed simp

lemma c_strings_length: "s \<in> set (c_strings bs) \<Longrightarrow> length s \<le> length bs"
proof (induction bs rule: c_strings.induct)
  case (2 c cs)
  then show ?case
    using length_takeWhile_le [of "\<lambda>c. c \<noteq> 0" "c # cs"] by (auto simp: c_strings.simps(2) simp del: takeWhile.simps)
qed simp

text \<open>
  A list with a terminator at its end: the search finds a string that is not empty exactly when it
  is one of the list.
\<close>

lemma stringlist_contains_spec:
  assumes "rd_bytes m p (length bs) = Some bs" and "bs = [] \<or> last bs = 0" and "0 < p"
    and "mapped m p (int (length bs) + 1)" and "str \<noteq> []" and "0 \<notin> set str"
  shows "fdt_stringlist_contains m p (int (length bs)) str = Some (if str \<in> set (c_strings bs) then 1 else 0)"
  using assms(1-4)
proof (induction "length bs" arbitrary: p bs rule: less_induct)
  case less
  show ?case
  proof (cases "length bs < length str \<or> bs = []")
    case True
    have "str \<notin> set (c_strings bs)" if "length bs < length str"
      using c_strings_length [of str bs] that by auto
    with True assms(5) show ?thesis
      by (subst fdt_stringlist_contains.simps) auto
  next
    case False
    let ?k = "length (takeWhile (\<lambda>c. c \<noteq> 0) bs)"
    have z: "0 \<in> set bs" using less.prems(2) False by (metis last_in_set)
    note k = takeWhile_at(1) [OF z]
    have eq: "c_memeq m p (str @ [0]) = Some (takeWhile (\<lambda>c. c \<noteq> 0) bs = str)"
      using less.prems(4) False by (intro memeq_string [OF less.prems(1) z assms(6)]) (auto intro: mapped_sub)
    have "c_memchr m p 0 (length bs) = Some (p + int ?k)"
      using c_memchr_0 [of m p "length bs"] less.prems(4) str_end_unique [OF str_end_takeWhile [OF less.prems(1) z]]
        rd_bytes_nth [OF less.prems(1) k] takeWhile_at(2) [OF z] k by (fastforce intro: mapped_sub)
    moreover have "fdt_stringlist_contains m (p + int ?k + 1) (int (length bs) - (int ?k + 1)) str =
        Some (if str \<in> set (c_strings (drop (?k + 1) bs)) then 1 else 0)"
    proof -
      have d: "rd_bytes m (p + int (?k + 1)) (length (drop (?k + 1) bs)) = Some (drop (?k + 1) bs)"
        using rd_bytes_drop [OF less.prems(1), of "?k + 1"] k by simp
      have "length (drop (?k + 1) bs) < length bs" using k by simp
      moreover have "drop (?k + 1) bs = [] \<or> last (drop (?k + 1) bs) = 0"
        using less.prems(2) False by (cases "?k + 1 < length bs") (auto simp: last_drop)
      moreover have "mapped m (p + int (?k + 1)) (int (length (drop (?k + 1) bs)) + 1)"
        using k by (intro mapped_sub [OF less.prems(4)]) auto
      ultimately show ?thesis using less.hyps [OF _ d] less.prems(3) k by (simp add: ac_simps of_nat_diff)
    qed
    moreover have "c_strings bs = takeWhile (\<lambda>c. c \<noteq> 0) bs # c_strings (drop (?k + 1) bs)"
      using False by (simp add: c_strings_unfold)
    ultimately show ?thesis using eq False less.prems(3)
      by (subst fdt_stringlist_contains.simps) (auto simp: algebra_simps)
  qed
qed

end
