(* ===== verification/Fdt_Write.thy ===== *)
theory Fdt_Write
  imports Fdt_List
begin

text \<open>
  Writes to memory, the setters of the header (\<open>libfdt.h\<close>), \<open>fdt_move\<close> (\<open>fdt.c\<close>) and the
  operations that write in place (\<open>fdt_wip.c\<close>). An operation that writes returns its result and the
  new memory; a write to an address that is not mapped is undefined.
\<close>

named_theorems write_simps \<open>what is read after a write\<close>

section \<open>Stores\<close>

definition put_bytes :: "mem \<Rightarrow> addr \<Rightarrow> byte list \<Rightarrow> mem" where
  "put_bytes m p bs = (\<lambda>x. if p \<le> x \<and> x < p + int (length bs) then Some (bs ! nat (x - p)) else m x)"

text \<open>\<open>memcpy\<close> of the bytes \<open>bs\<close> to \<open>p\<close>.\<close>

definition wr :: "mem \<Rightarrow> addr \<Rightarrow> byte list \<Rightarrow> mem option" where
  "wr m p bs = (if rd_bytes m p (length bs) = None then None else Some (put_bytes m p bs))"

text \<open>\<open>memcpy (p, val, len)\<close> from an object that holds \<open>val\<close>.\<close>

definition copy_in :: "mem \<Rightarrow> addr \<Rightarrow> byte list \<Rightarrow> int \<Rightarrow> mem option" where
  "copy_in m p val len = (if 0 \<le> len \<and> len \<le> int (length val) then wr m p (take (nat len) val) else None)"

definition memmove :: "mem \<Rightarrow> addr \<Rightarrow> addr \<Rightarrow> int \<Rightarrow> mem option" where
  "memmove m dst src len = (if len < 0 then None else do { bs \<leftarrow> rd_bytes m src (nat len); wr m dst bs })"

definition be32 :: "int \<Rightarrow> byte list" where
  "be32 v = [word_of_int (v div 16777216), word_of_int (v div 65536), word_of_int (v div 256), word_of_int v]"

definition fdt32_st :: "mem \<Rightarrow> addr \<Rightarrow> int \<Rightarrow> mem option" where
  "fdt32_st m p v = wr m p (be32 v)"

definition fdt64_st :: "mem \<Rightarrow> addr \<Rightarrow> int \<Rightarrow> mem option" where
  "fdt64_st m p v = wr m p (be32 (v div 4294967296) @ be32 v)"

text \<open>The product or sum of C \<open>int\<close>s, undefined when it overflows.\<close>

definition int_res :: "int \<Rightarrow> int option" where
  "int_res x = (if c_int x then Some x else None)"

section \<open>The header\<close>

definition fdt_boot_cpuid_phys :: "mem \<Rightarrow> addr \<Rightarrow> int option" where
  "fdt_boot_cpuid_phys m fdt = fdt32_ld m (fdt + 28)"

definition fdt_set_magic :: "mem \<Rightarrow> addr \<Rightarrow> int \<Rightarrow> mem option" where
  "fdt_set_magic m fdt v = fdt32_st m fdt v"

definition fdt_set_totalsize :: "mem \<Rightarrow> addr \<Rightarrow> int \<Rightarrow> mem option" where
  "fdt_set_totalsize m fdt v = fdt32_st m (fdt + 4) v"

definition fdt_set_off_dt_struct :: "mem \<Rightarrow> addr \<Rightarrow> int \<Rightarrow> mem option" where
  "fdt_set_off_dt_struct m fdt v = fdt32_st m (fdt + 8) v"

definition fdt_set_off_dt_strings :: "mem \<Rightarrow> addr \<Rightarrow> int \<Rightarrow> mem option" where
  "fdt_set_off_dt_strings m fdt v = fdt32_st m (fdt + 12) v"

definition fdt_set_off_mem_rsvmap :: "mem \<Rightarrow> addr \<Rightarrow> int \<Rightarrow> mem option" where
  "fdt_set_off_mem_rsvmap m fdt v = fdt32_st m (fdt + 16) v"

definition fdt_set_version :: "mem \<Rightarrow> addr \<Rightarrow> int \<Rightarrow> mem option" where
  "fdt_set_version m fdt v = fdt32_st m (fdt + 20) v"

definition fdt_set_last_comp_version :: "mem \<Rightarrow> addr \<Rightarrow> int \<Rightarrow> mem option" where
  "fdt_set_last_comp_version m fdt v = fdt32_st m (fdt + 24) v"

definition fdt_set_boot_cpuid_phys :: "mem \<Rightarrow> addr \<Rightarrow> int \<Rightarrow> mem option" where
  "fdt_set_boot_cpuid_phys m fdt v = fdt32_st m (fdt + 28) v"

definition fdt_set_size_dt_strings :: "mem \<Rightarrow> addr \<Rightarrow> int \<Rightarrow> mem option" where
  "fdt_set_size_dt_strings m fdt v = fdt32_st m (fdt + 32) v"

definition fdt_set_size_dt_struct :: "mem \<Rightarrow> addr \<Rightarrow> int \<Rightarrow> mem option" where
  "fdt_set_size_dt_struct m fdt v = fdt32_st m (fdt + 36) v"

section \<open>Moving a blob\<close>

definition fdt_move :: "mem \<Rightarrow> addr \<Rightarrow> addr \<Rightarrow> int \<Rightarrow> (int \<times> mem) option" where
  "fdt_move m fdt buf bufsize =
     (if bufsize < 0 then Some (- FDT_ERR_NOSPACE, m)
      else do {
        err \<leftarrow> fdt_ro_probe m fdt;
        if err < 0 then Some (err, m)
        else do {
          total \<leftarrow> fdt_totalsize m fdt;
          if total > u32 bufsize then Some (- FDT_ERR_NOSPACE, m)
          else do {
            m \<leftarrow> memmove m buf fdt total;
            Some (0, m) } } })"

section \<open>Writes in place\<close>

definition fdt_setprop_inplace_namelen_partial ::
  "mem \<Rightarrow> addr \<Rightarrow> int \<Rightarrow> byte list \<Rightarrow> int \<Rightarrow> byte list \<Rightarrow> int \<Rightarrow> (int \<times> mem) option" where
  "fdt_setprop_inplace_namelen_partial m fdt nodeoffset name idx val len = do {
     (propval, proplen) \<leftarrow> fdt_getprop m fdt nodeoffset name;
     if propval = NULL then Some (proplen, m)
     else if u32 proplen < u32 (len + idx) then Some (- FDT_ERR_NOSPACE, m)
     else do {
       m \<leftarrow> copy_in m (propval + idx) val len;
       Some (0, m) } }"

definition fdt_setprop_inplace :: "mem \<Rightarrow> addr \<Rightarrow> int \<Rightarrow> byte list \<Rightarrow> byte list \<Rightarrow> int \<Rightarrow> (int \<times> mem) option" where
  "fdt_setprop_inplace m fdt nodeoffset name val len = do {
     (propval, proplen) \<leftarrow> fdt_getprop m fdt nodeoffset name;
     if propval = NULL then Some (proplen, m)
     else if proplen \<noteq> len then Some (- FDT_ERR_NOSPACE, m)
     else fdt_setprop_inplace_namelen_partial m fdt nodeoffset name 0 val len }"

fun nop_words :: "mem \<Rightarrow> addr \<Rightarrow> nat \<Rightarrow> mem option" where
  "nop_words m p 0 = Some m"
| "nop_words m p (Suc n) = do { m \<leftarrow> fdt32_st m p FDT_NOP; nop_words m (p + 4) n }"

definition fdt_nop_region :: "mem \<Rightarrow> addr \<Rightarrow> int \<Rightarrow> mem option" where
  "fdt_nop_region m start len = nop_words m start (nat ((len + 3) div 4))"

definition fdt_nop_property :: "mem \<Rightarrow> addr \<Rightarrow> int \<Rightarrow> byte list \<Rightarrow> (int \<times> mem) option" where
  "fdt_nop_property m fdt nodeoffset name = do {
     (prop, len) \<leftarrow> fdt_get_property m fdt nodeoffset name;
     if prop = NULL then Some (len, m)
     else do {
       m \<leftarrow> fdt_nop_region m prop (s32 (len + 12));
       Some (0, m) } }"

text \<open>The loop of \<open>fdt_node_end_offset_\<close>: past the tags of a node to where its depth ends.\<close>

function (sequential) node_end_loop :: "mem \<Rightarrow> addr \<Rightarrow> int \<Rightarrow> int option \<Rightarrow> int option" where
  "node_end_loop m fdt offset depth =
     (if 0 \<le> offset \<and> 0 \<le> the depth then do {
        (offset', depth') \<leftarrow> fdt_next_node m fdt offset depth;
        if offset' < 0 then Some offset' else node_end_loop m fdt offset' depth' }
      else Some offset)"
  by pat_completeness auto

termination node_end_loop
  by (relation "measure (\<lambda>(m, fdt, x, d). node_measure x)")
    (auto dest!: fdt_next_node_measure simp del: in_measure simp: in_measure)

declare node_end_loop.simps [simp del]

definition fdt_node_end_offset :: "mem \<Rightarrow> addr \<Rightarrow> int \<Rightarrow> int option" where
  "fdt_node_end_offset m fdt offset = node_end_loop m fdt offset (Some 0)"

definition fdt_nop_node :: "mem \<Rightarrow> addr \<Rightarrow> int \<Rightarrow> (int \<times> mem) option" where
  "fdt_nop_node m fdt nodeoffset = do {
     endoffset \<leftarrow> fdt_node_end_offset m fdt nodeoffset;
     if endoffset < 0 then Some (endoffset, m)
     else do {
       p \<leftarrow> fdt_offset_ptr m fdt nodeoffset 0;
       m \<leftarrow> fdt_nop_region m p (endoffset - nodeoffset);
       Some (0, m) } }"

end
