(* ===== verification/Fdt_Rw.thy ===== *)
theory Fdt_Rw
  imports Fdt_Write
begin

text \<open>
  Operations that change the size of the blocks of a tree (\<open>fdt_rw.c\<close>). Every operation returns its
  status and the memory, also when it fails.
\<close>

section \<open>Splicing\<close>

definition fdt_blocks_misordered :: "mem \<Rightarrow> addr \<Rightarrow> int \<Rightarrow> int \<Rightarrow> bool option" where
  "fdt_blocks_misordered m fdt mem_rsv_size struct_size = do {
     off_rsv \<leftarrow> fdt_off_mem_rsvmap m fdt;
     off_struct \<leftarrow> fdt_off_dt_struct m fdt;
     off_strings \<leftarrow> fdt_off_dt_strings m fdt;
     total \<leftarrow> fdt_totalsize m fdt;
     size_strings \<leftarrow> fdt_size_dt_strings m fdt;
     Some (off_rsv < 40 \<or> off_struct < u32 (off_rsv + mem_rsv_size) \<or>
       off_strings < u32 (off_struct + struct_size) \<or> total < u32 (off_strings + size_strings)) }"

text \<open>\<open>FDT_RW_PROBE\<close>: a version above 17 is set back to 17.\<close>

definition fdt_rw_probe :: "mem \<Rightarrow> addr \<Rightarrow> (int \<times> mem) option" where
  "fdt_rw_probe m fdt = do {
     err \<leftarrow> fdt_ro_probe m fdt;
     if err < 0 then Some (err, m)
     else do {
       version \<leftarrow> fdt_version m fdt;
       if version < 17 then Some (- FDT_ERR_BADVERSION, m)
       else do {
         size_struct \<leftarrow> fdt_size_dt_struct m fdt;
         bad \<leftarrow> fdt_blocks_misordered m fdt 16 (s32 size_struct);
         if bad then Some (- FDT_ERR_BADLAYOUT, m)
         else if version > 17 then do { m \<leftarrow> fdt_set_version m fdt 17; Some (0, m) }
         else Some (0, m) } } }"

definition fdt_data_size :: "mem \<Rightarrow> addr \<Rightarrow> int option" where
  "fdt_data_size m fdt = do {
     off_strings \<leftarrow> fdt_off_dt_strings m fdt;
     size_strings \<leftarrow> fdt_size_dt_strings m fdt;
     Some (u32 (off_strings + size_strings)) }"

definition fdt_splice :: "mem \<Rightarrow> addr \<Rightarrow> addr \<Rightarrow> int \<Rightarrow> int \<Rightarrow> (int \<times> mem) option" where
  "fdt_splice m fdt p oldlen newlen = do {
     dsize \<leftarrow> fdt_data_size m fdt;
     total \<leftarrow> fdt_totalsize m fdt;
     let soff = u64 (p - fdt);
     if oldlen < 0 \<or> u64 (soff + oldlen) < soff \<or> u64 (soff + oldlen) > dsize
     then Some (- FDT_ERR_BADOFFSET, m)
     else if p < fdt \<or> u32 (dsize + newlen) < u32 oldlen then Some (- FDT_ERR_BADOFFSET, m)
     else if u32 (dsize - oldlen + newlen) > total then Some (- FDT_ERR_NOSPACE, m)
     else do {
       m \<leftarrow> memmove m (p + newlen) (p + oldlen) (fdt + dsize - (p + oldlen));
       Some (0, m) } }"

definition fdt_splice_mem_rsv :: "mem \<Rightarrow> addr \<Rightarrow> addr \<Rightarrow> int \<Rightarrow> int \<Rightarrow> (int \<times> mem) option" where
  "fdt_splice_mem_rsv m fdt p oldn newn = do {
     let delta = s32 ((newn - oldn) * 16);
     (err, m) \<leftarrow> fdt_splice m fdt p (s32 (oldn * 16)) (s32 (newn * 16));
     if err \<noteq> 0 then Some (err, m)
     else do {
       off_struct \<leftarrow> fdt_off_dt_struct m fdt;
       m \<leftarrow> fdt_set_off_dt_struct m fdt (u32 (off_struct + delta));
       off_strings \<leftarrow> fdt_off_dt_strings m fdt;
       m \<leftarrow> fdt_set_off_dt_strings m fdt (u32 (off_strings + delta));
       Some (0, m) } }"

definition fdt_splice_struct :: "mem \<Rightarrow> addr \<Rightarrow> addr \<Rightarrow> int \<Rightarrow> int \<Rightarrow> (int \<times> mem) option" where
  "fdt_splice_struct m fdt p oldlen newlen = do {
     delta \<leftarrow> int_res (newlen - oldlen);
     (err, m) \<leftarrow> fdt_splice m fdt p oldlen newlen;
     if err \<noteq> 0 then Some (err, m)
     else do {
       size_struct \<leftarrow> fdt_size_dt_struct m fdt;
       m \<leftarrow> fdt_set_size_dt_struct m fdt (u32 (size_struct + delta));
       off_strings \<leftarrow> fdt_off_dt_strings m fdt;
       m \<leftarrow> fdt_set_off_dt_strings m fdt (u32 (off_strings + delta));
       Some (0, m) } }"

definition fdt_del_last_string :: "mem \<Rightarrow> addr \<Rightarrow> byte list \<Rightarrow> mem option" where
  "fdt_del_last_string m fdt s = do {
     size_strings \<leftarrow> fdt_size_dt_strings m fdt;
     fdt_set_size_dt_strings m fdt (u32 (size_strings - s32 (int (length s) + 1))) }"

definition fdt_splice_string :: "mem \<Rightarrow> addr \<Rightarrow> int \<Rightarrow> (int \<times> mem) option" where
  "fdt_splice_string m fdt newlen = do {
     off_strings \<leftarrow> fdt_off_dt_strings m fdt;
     size_strings \<leftarrow> fdt_size_dt_strings m fdt;
     (err, m) \<leftarrow> fdt_splice m fdt (fdt + off_strings + size_strings) 0 newlen;
     if err \<noteq> 0 then Some (err, m)
     else do {
       size_strings \<leftarrow> fdt_size_dt_strings m fdt;
       m \<leftarrow> fdt_set_size_dt_strings m fdt (u32 (size_strings + newlen));
       Some (0, m) } }"

text \<open>The offset of the name or an error, whether the name was added, and the memory.\<close>

definition fdt_find_add_string :: "mem \<Rightarrow> addr \<Rightarrow> byte list \<Rightarrow> (int \<times> bool \<times> mem) option" where
  "fdt_find_add_string m fdt s = do {
     off_strings \<leftarrow> fdt_off_dt_strings m fdt;
     size_strings \<leftarrow> fdt_size_dt_strings m fdt;
     let strtab = fdt + off_strings;
     p \<leftarrow> fdt_find_string_len m strtab (s32 size_strings) s;
     if p \<noteq> NULL then Some (s32 (p - strtab), False, m)
     else do {
       (err, m) \<leftarrow> fdt_splice_string m fdt (s32 (int (length s) + 1));
       if err \<noteq> 0 then Some (err, False, m)
       else do {
         m \<leftarrow> wr m (strtab + size_strings) (s @ [0]);
         Some (s32 size_strings, True, m) } } }"

section \<open>Memory reservations\<close>

text \<open>The count of the entries may be an error code; the code uses it as an index all the same.\<close>

definition fdt_add_mem_rsv :: "mem \<Rightarrow> addr \<Rightarrow> int \<Rightarrow> int \<Rightarrow> (int \<times> mem) option" where
  "fdt_add_mem_rsv m fdt address sz = do {
     (err, m) \<leftarrow> fdt_rw_probe m fdt;
     if err \<noteq> 0 then Some (err, m)
     else do {
       off_rsv \<leftarrow> fdt_off_mem_rsvmap m fdt;
       n \<leftarrow> fdt_num_mem_rsv m fdt;
       let re = fdt + off_rsv + 16 * n;
       (err, m) \<leftarrow> fdt_splice_mem_rsv m fdt re 0 1;
       if err \<noteq> 0 then Some (err, m)
       else do {
         m \<leftarrow> fdt64_st m re address;
         m \<leftarrow> fdt64_st m (re + 8) sz;
         Some (0, m) } } }"

definition fdt_del_mem_rsv :: "mem \<Rightarrow> addr \<Rightarrow> int \<Rightarrow> (int \<times> mem) option" where
  "fdt_del_mem_rsv m fdt n = do {
     off_rsv \<leftarrow> fdt_off_mem_rsvmap m fdt;
     let re = fdt + off_rsv + 16 * n;
     (err, m) \<leftarrow> fdt_rw_probe m fdt;
     if err \<noteq> 0 then Some (err, m)
     else do {
       num \<leftarrow> fdt_num_mem_rsv m fdt;
       if n \<ge> num then Some (- FDT_ERR_NOTFOUND, m)
       else fdt_splice_mem_rsv m fdt re 1 0 } }"

section \<open>Properties\<close>

text \<open>
  The status, the address of the property and the memory. Where the code takes a string and a
  length, the string is \<open>name\<close> and the length \<open>namelen\<close>; the rollback of \<open>fdt_add_property_\<close> takes the
  length of the whole string, not of the part that was added.
\<close>

definition fdt_resize_property :: "mem \<Rightarrow> addr \<Rightarrow> int \<Rightarrow> byte list \<Rightarrow> int \<Rightarrow> (int \<times> addr \<times> mem) option" where
  "fdt_resize_property m fdt nodeoffset name len = do {
     (prop, oldlen) \<leftarrow> fdt_get_property m fdt nodeoffset name;
     if prop = NULL then Some (oldlen, prop, m)
     else do {
       (err, m) \<leftarrow> fdt_splice_struct m fdt (prop + 12) (FDT_TAGALIGN oldlen) (FDT_TAGALIGN len);
       if err \<noteq> 0 then Some (err, prop, m)
       else do {
         m \<leftarrow> fdt32_st m (prop + 4) (u32 len);
         Some (0, prop, m) } } }"

definition fdt_add_property :: "mem \<Rightarrow> addr \<Rightarrow> int \<Rightarrow> byte list \<Rightarrow> nat \<Rightarrow> int \<Rightarrow> (int \<times> addr \<times> mem) option" where
  "fdt_add_property m fdt nodeoffset name namelen len = do {
     nextoffset \<leftarrow> fdt_check_node_offset m fdt nodeoffset;
     if nextoffset < 0 then Some (nextoffset, NULL, m)
     else do {
       (namestroff, allocated, m) \<leftarrow> fdt_find_add_string m fdt (take namelen name);
       if namestroff < 0 then Some (namestroff, NULL, m)
       else do {
         off_struct \<leftarrow> fdt_off_dt_struct m fdt;
         let prop = fdt + off_struct + nextoffset;
         let proplen = s32 (12 + (len + 3) div 4 * 4);
         (err, m) \<leftarrow> fdt_splice_struct m fdt prop 0 proplen;
         if err \<noteq> 0 then
           (if allocated then do { m \<leftarrow> fdt_del_last_string m fdt name; Some (err, prop, m) }
            else Some (err, prop, m))
         else do {
           m \<leftarrow> fdt32_st m prop FDT_PROP;
           m \<leftarrow> fdt32_st m (prop + 8) (u32 namestroff);
           m \<leftarrow> fdt32_st m (prop + 4) (u32 len);
           Some (0, prop, m) } } } }"

definition fdt_set_name :: "mem \<Rightarrow> addr \<Rightarrow> int \<Rightarrow> byte list \<Rightarrow> (int \<times> mem) option" where
  "fdt_set_name m fdt nodeoffset name = do {
     (err, m) \<leftarrow> fdt_rw_probe m fdt;
     if err \<noteq> 0 then Some (err, m)
     else do {
       (namep, oldlen) \<leftarrow> fdt_get_name m fdt nodeoffset;
       if namep = NULL then Some (oldlen, m)
       else do {
         let newlen = int (length name);
         (err, m) \<leftarrow> fdt_splice_struct m fdt namep (FDT_TAGALIGN (oldlen + 1)) (FDT_TAGALIGN (newlen + 1));
         if err \<noteq> 0 then Some (err, m)
         else do {
           m \<leftarrow> wr m namep (name @ [0]);
           Some (0, m) } } } }"

definition fdt_setprop_placeholder_namelen ::
  "mem \<Rightarrow> addr \<Rightarrow> int \<Rightarrow> byte list \<Rightarrow> nat \<Rightarrow> int \<Rightarrow> (int \<times> addr \<times> mem) option" where
  "fdt_setprop_placeholder_namelen m fdt nodeoffset name namelen len = do {
     (err, m) \<leftarrow> fdt_rw_probe m fdt;
     if err \<noteq> 0 then Some (err, NULL, m)
     else do {
       (err, prop, m) \<leftarrow> fdt_resize_property m fdt nodeoffset (take namelen name) len;
       (err, prop, m) \<leftarrow> (if err = - FDT_ERR_NOTFOUND
          then fdt_add_property m fdt nodeoffset name namelen len else Some (err, prop, m));
       if err \<noteq> 0 then Some (err, NULL, m)
       else Some (0, prop + 12, m) } }"

definition fdt_setprop_namelen ::
  "mem \<Rightarrow> addr \<Rightarrow> int \<Rightarrow> byte list \<Rightarrow> nat \<Rightarrow> byte list \<Rightarrow> int \<Rightarrow> (int \<times> mem) option" where
  "fdt_setprop_namelen m fdt nodeoffset name namelen val len = do {
     (err, prop_data, m) \<leftarrow> fdt_setprop_placeholder_namelen m fdt nodeoffset name namelen len;
     if err \<noteq> 0 then Some (err, m)
     else if len \<noteq> 0 then do {
       m \<leftarrow> copy_in m prop_data val len;
       Some (0, m) }
     else Some (0, m) }"

definition fdt_setprop :: "mem \<Rightarrow> addr \<Rightarrow> int \<Rightarrow> byte list \<Rightarrow> byte list \<Rightarrow> int \<Rightarrow> (int \<times> mem) option" where
  "fdt_setprop m fdt nodeoffset name val len = fdt_setprop_namelen m fdt nodeoffset name (length name) val len"

definition fdt_appendprop :: "mem \<Rightarrow> addr \<Rightarrow> int \<Rightarrow> byte list \<Rightarrow> byte list \<Rightarrow> int \<Rightarrow> (int \<times> mem) option" where
  "fdt_appendprop m fdt nodeoffset name val len = do {
     (err, m) \<leftarrow> fdt_rw_probe m fdt;
     if err \<noteq> 0 then Some (err, m)
     else do {
       (prop, oldlen) \<leftarrow> fdt_get_property m fdt nodeoffset name;
       if prop \<noteq> NULL then do {
         newlen \<leftarrow> int_res (len + oldlen);
         (err, m) \<leftarrow> fdt_splice_struct m fdt (prop + 12) (FDT_TAGALIGN oldlen) (FDT_TAGALIGN newlen);
         if err \<noteq> 0 then Some (err, m)
         else do {
           m \<leftarrow> fdt32_st m (prop + 4) (u32 newlen);
           m \<leftarrow> copy_in m (prop + 12 + oldlen) val len;
           Some (0, m) } }
       else do {
         (err, prop, m) \<leftarrow> fdt_add_property m fdt nodeoffset name (length name) len;
         if err \<noteq> 0 then Some (err, m)
         else do {
           m \<leftarrow> copy_in m (prop + 12) val len;
           Some (0, m) } } } }"

definition fdt_delprop :: "mem \<Rightarrow> addr \<Rightarrow> int \<Rightarrow> byte list \<Rightarrow> (int \<times> mem) option" where
  "fdt_delprop m fdt nodeoffset name = do {
     (err, m) \<leftarrow> fdt_rw_probe m fdt;
     if err \<noteq> 0 then Some (err, m)
     else do {
       (prop, len) \<leftarrow> fdt_get_property m fdt nodeoffset name;
       if prop = NULL then Some (len, m)
       else fdt_splice_struct m fdt prop (s32 (12 + (len + 3) div 4 * 4)) 0 } }"

section \<open>Nodes\<close>

text \<open>
  \<open>do { offset = nextoffset; tag = fdt_next_tag (...); } while (tag == FDT_PROP || tag == FDT_NOP)\<close>
\<close>

function (sequential) skip_properties :: "mem \<Rightarrow> addr \<Rightarrow> int \<Rightarrow> int option" where
  "skip_properties m fdt offset = do {
     (tag, nextoffset) \<leftarrow> fdt_next_tag m fdt offset;
     if tag = FDT_PROP \<or> tag = FDT_NOP then skip_properties m fdt nextoffset else Some offset }"
  by pat_completeness auto

termination skip_properties
  by (relation "measure (\<lambda>(m, fdt, x). walk_measure x)") (auto dest: walk_step)

declare skip_properties.simps [simp del]

definition fdt_add_subnode_namelen :: "mem \<Rightarrow> addr \<Rightarrow> int \<Rightarrow> byte list \<Rightarrow> (int \<times> mem) option" where
  "fdt_add_subnode_namelen m fdt parentoffset name = do {
     (err, m) \<leftarrow> fdt_rw_probe m fdt;
     if err \<noteq> 0 then Some (err, m)
     else do {
       offset \<leftarrow> fdt_subnode_offset_namelen m fdt parentoffset name;
       if offset \<ge> 0 then Some (- FDT_ERR_EXISTS, m)
       else if offset \<noteq> - FDT_ERR_NOTFOUND then Some (offset, m)
       else do {
         (tag, nextoffset) \<leftarrow> fdt_next_tag m fdt parentoffset;
         if tag \<noteq> FDT_BEGIN_NODE then Some (- FDT_ERR_INTERNAL, m)
         else do {
           offset \<leftarrow> skip_properties m fdt nextoffset;
           off_struct \<leftarrow> fdt_off_dt_struct m fdt;
           let nh = fdt + off_struct + offset;
           let aligned = (int (length name) + 1 + 3) div 4 * 4;
           let nodelen = s32 (4 + aligned + 4);
           (err, m) \<leftarrow> fdt_splice_struct m fdt nh 0 nodelen;
           if err \<noteq> 0 then Some (err, m)
           else do {
             m \<leftarrow> fdt32_st m nh FDT_BEGIN_NODE;
             m \<leftarrow> wr m (nh + 4) (replicate (nat aligned) 0);
             m \<leftarrow> wr m (nh + 4) name;
             m \<leftarrow> fdt32_st m (nh + nodelen - 4) FDT_END_NODE;
             Some (offset, m) } } } } }"

definition fdt_add_subnode :: "mem \<Rightarrow> addr \<Rightarrow> int \<Rightarrow> byte list \<Rightarrow> (int \<times> mem) option" where
  "fdt_add_subnode m fdt parentoffset name = fdt_add_subnode_namelen m fdt parentoffset name"

definition fdt_del_node :: "mem \<Rightarrow> addr \<Rightarrow> int \<Rightarrow> (int \<times> mem) option" where
  "fdt_del_node m fdt nodeoffset = do {
     (err, m) \<leftarrow> fdt_rw_probe m fdt;
     if err \<noteq> 0 then Some (err, m)
     else do {
       endoffset \<leftarrow> fdt_node_end_offset m fdt nodeoffset;
       if endoffset < 0 then Some (endoffset, m)
       else do {
         off_struct \<leftarrow> fdt_off_dt_struct m fdt;
         fdt_splice_struct m fdt (fdt + off_struct + nodeoffset) (endoffset - nodeoffset) 0 } } }"

section \<open>Packing and opening\<close>

definition fdt_packblocks :: "mem \<Rightarrow> addr \<Rightarrow> addr \<Rightarrow> int \<Rightarrow> int \<Rightarrow> int \<Rightarrow> mem option" where
  "fdt_packblocks m old new mem_rsv_size struct_size strings_size = do {
     let mem_rsv_off = 40;
     struct_off \<leftarrow> int_res (mem_rsv_off + mem_rsv_size);
     strings_off \<leftarrow> int_res (struct_off + struct_size);
     off_rsv \<leftarrow> fdt_off_mem_rsvmap m old;
     m \<leftarrow> memmove m (new + mem_rsv_off) (old + off_rsv) mem_rsv_size;
     m \<leftarrow> fdt_set_off_mem_rsvmap m new mem_rsv_off;
     off_struct \<leftarrow> fdt_off_dt_struct m old;
     m \<leftarrow> memmove m (new + struct_off) (old + off_struct) struct_size;
     m \<leftarrow> fdt_set_off_dt_struct m new (u32 struct_off);
     m \<leftarrow> fdt_set_size_dt_struct m new (u32 struct_size);
     off_strings \<leftarrow> fdt_off_dt_strings m old;
     m \<leftarrow> memmove m (new + strings_off) (old + off_strings) strings_size;
     m \<leftarrow> fdt_set_off_dt_strings m new (u32 strings_off);
     size_strings \<leftarrow> fdt_size_dt_strings m old;
     fdt_set_size_dt_strings m new size_strings }"

text \<open>\<open>while (fdt_next_tag (fdt, struct_size, &struct_size) != FDT_END);\<close>\<close>

function (sequential) struct_end :: "mem \<Rightarrow> addr \<Rightarrow> int \<Rightarrow> int option" where
  "struct_end m fdt offset = do {
     (tag, nextoffset) \<leftarrow> fdt_next_tag m fdt offset;
     if tag \<noteq> FDT_END then struct_end m fdt nextoffset else Some nextoffset }"
  by pat_completeness auto

termination struct_end
  by (relation "measure (\<lambda>(m, fdt, x). walk_measure x)") (auto dest: walk_step)

declare struct_end.simps [simp del]

text \<open>The part of \<open>fdt_open_into\<close> behind the computation of the sizes.\<close>

definition open_blocks :: "mem \<Rightarrow> addr \<Rightarrow> addr \<Rightarrow> int \<Rightarrow> addr \<Rightarrow> int \<Rightarrow> int \<Rightarrow> (int \<times> mem) option" where
  "open_blocks m fdt buf bufsize fdtend mem_rsv_size struct_size = do {
     misordered \<leftarrow> fdt_blocks_misordered m fdt mem_rsv_size struct_size;
     if \<not> misordered then do {
       (err, m) \<leftarrow> fdt_move m fdt buf bufsize;
       if err \<noteq> 0 then Some (err, m)
       else do {
         m \<leftarrow> fdt_set_version m buf 17;
         m \<leftarrow> fdt_set_size_dt_struct m buf (u32 struct_size);
         m \<leftarrow> fdt_set_totalsize m buf (u32 bufsize);
         Some (0, m) } }
     else do {
       size_strings \<leftarrow> fdt_size_dt_strings m fdt;
       let newsize = s32 (40 + mem_rsv_size + struct_size + size_strings);
       if bufsize < newsize then Some (- FDT_ERR_NOSPACE, m)
       else do {
         let overlaps = (buf + newsize > fdt \<and> buf < fdtend);
         let tmp = (if overlaps then fdtend else buf);
         if overlaps \<and> tmp + newsize > buf + bufsize then Some (- FDT_ERR_NOSPACE, m)
         else do {
           m \<leftarrow> fdt_packblocks m fdt tmp mem_rsv_size struct_size (s32 size_strings);
           m \<leftarrow> memmove m buf tmp newsize;
           m \<leftarrow> fdt_set_magic m buf FDT_MAGIC;
           m \<leftarrow> fdt_set_totalsize m buf (u32 bufsize);
           m \<leftarrow> fdt_set_version m buf 17;
           m \<leftarrow> fdt_set_last_comp_version m buf 16;
           cpuid \<leftarrow> fdt_boot_cpuid_phys m fdt;
           m \<leftarrow> fdt_set_boot_cpuid_phys m buf cpuid;
           Some (0, m) } } } }"

definition fdt_open_into :: "mem \<Rightarrow> addr \<Rightarrow> addr \<Rightarrow> int \<Rightarrow> (int \<times> mem) option" where
  "fdt_open_into m fdt buf bufsize = do {
     total \<leftarrow> fdt_totalsize m fdt;
     let fdtend = fdt + total;
     err \<leftarrow> fdt_ro_probe m fdt;
     if err < 0 then Some (err, m)
     else do {
       num \<leftarrow> fdt_num_mem_rsv m fdt;
       let mem_rsv_size = s32 ((num + 1) * 16);
       version \<leftarrow> fdt_version m fdt;
       if version \<ge> 17 then do {
         size_struct \<leftarrow> fdt_size_dt_struct m fdt;
         open_blocks m fdt buf bufsize fdtend mem_rsv_size (s32 size_struct) }
       else if version = 16 then do {
         struct_size \<leftarrow> struct_end m fdt 0;
         if struct_size < 0 then Some (struct_size, m)
         else open_blocks m fdt buf bufsize fdtend mem_rsv_size struct_size }
       else Some (- FDT_ERR_BADVERSION, m) } }"

definition fdt_pack :: "mem \<Rightarrow> addr \<Rightarrow> (int \<times> mem) option" where
  "fdt_pack m fdt = do {
     (err, m) \<leftarrow> fdt_rw_probe m fdt;
     if err \<noteq> 0 then Some (err, m)
     else do {
       num \<leftarrow> fdt_num_mem_rsv m fdt;
       let mem_rsv_size = s32 ((num + 1) * 16);
       size_struct \<leftarrow> fdt_size_dt_struct m fdt;
       size_strings \<leftarrow> fdt_size_dt_strings m fdt;
       m \<leftarrow> fdt_packblocks m fdt fdt mem_rsv_size (s32 size_struct) (s32 size_strings);
       dsize \<leftarrow> fdt_data_size m fdt;
       m \<leftarrow> fdt_set_totalsize m fdt dsize;
       Some (0, m) } }"

section \<open>Ranges of addresses\<close>

definition fdt_appendprop_addrrange ::
  "mem \<Rightarrow> addr \<Rightarrow> int \<Rightarrow> int \<Rightarrow> byte list \<Rightarrow> int \<Rightarrow> int \<Rightarrow> (int \<times> mem) option" where
  "fdt_appendprop_addrrange m fdt parent nodeoffset name address sz = do {
     addr_cells \<leftarrow> fdt_address_cells m fdt parent;
     if addr_cells < 0 then Some (addr_cells, m)
     else do {
       size_cells \<leftarrow> fdt_size_cells m fdt parent;
       if size_cells < 0 then Some (size_cells, m)
       else if addr_cells = 1 \<and> (address > 4294967295 \<or> 4294967296 - address < sz)
         then Some (- FDT_ERR_BADVALUE, m)
       else if addr_cells \<noteq> 1 \<and> addr_cells \<noteq> 2 then Some (- FDT_ERR_BADNCELLS, m)
       else if size_cells = 1 \<and> sz > 4294967295 then Some (- FDT_ERR_BADVALUE, m)
       else if size_cells \<noteq> 1 \<and> size_cells \<noteq> 2 then Some (- FDT_ERR_BADNCELLS, m)
       else do {
         let adata = (if addr_cells = 1 then be32 address else be32 (address div 4294967296) @ be32 address);
         let sdata = (if size_cells = 1 then be32 sz else be32 (sz div 4294967296) @ be32 sz);
         fdt_appendprop m fdt nodeoffset name (adata @ sdata) ((addr_cells + size_cells) * 4) } } }"

end
