(* ===== verification/Fdt_Layout.thy ===== *)
theory Fdt_Layout
  imports Fdt_Rw
begin

text \<open>
  The layout of a writable tree: its structure block and its block of strings as lists of bytes, and
  what the primitives of \<open>fdt_rw.c\<close> and the readers do on them.
\<close>

section \<open>Reading after writing\<close>

lemma rd_bytes_iff:
  "rd_bytes m p n = Some bs \<longleftrightarrow> length bs = n \<and> (\<forall>i < n. m (p + int i) = Some (bs ! i))"
proof (induction n arbitrary: p bs)
  case (Suc n)
  show ?case
    by (cases bs) (auto simp: bind_eq_Some_conv Suc.IH All_less_Suc2 ac_simps)
qed auto

lemma rd_bytes_sub:
  assumes "rd_bytes m p n = Some bs" and "j + c \<le> n"
  shows "rd_bytes m (p + int j) c = Some (take c (drop j bs))"
proof -
  from assms(1) have l: "length bs = n" and b: "m (p + int i) = Some (bs ! i)" if "i < n" for i
    using that by (auto simp: rd_bytes_iff)
  have l: "length bs = n" using assms(1) by (simp add: rd_bytes_iff)
  have "m (p + int j + int i) = Some (bs ! (j + i))" if "i < c" for i
    using b [of "j + i"] that assms(2) by (simp add: add.assoc)
  with assms(2) l show ?thesis by (simp add: rd_bytes_iff)
qed

lemma rd_bytes_append:
  assumes "rd_bytes m p a = Some xs" and "rd_bytes m (p + int a) b = Some ys"
  shows "rd_bytes m p (a + b) = Some (xs @ ys)"
proof -
  have "m (p + int i) = Some ((xs @ ys) ! i)" if "i < a + b" for i
  proof (cases "i < a")
    case True
    with assms(1) show ?thesis by (simp add: rd_bytes_iff nth_append)
  next
    case False
    with that have "i - a < b" "p + int a + int (i - a) = p + int i" by auto
    with assms False show ?thesis by (metis (no_types, lifting) nth_append rd_bytes_iff)
  qed
  with assms show ?thesis by (simp add: rd_bytes_iff)
qed

lemma put_bytes_at [write_simps]: "i < length bs \<Longrightarrow> put_bytes m p bs (p + int i) = Some (bs ! i)"
  by (simp add: put_bytes_def)

lemma put_bytes_other: "x < p \<or> p + int (length bs) \<le> x \<Longrightarrow> put_bytes m p bs x = m x"
  by (auto simp: put_bytes_def)

lemma put_bytes_mapped: "put_bytes m p bs x = None \<Longrightarrow> m x = None"
  by (auto simp: put_bytes_def split: if_splits)

lemma mapped_put_bytes [write_simps]: "mapped m q n \<Longrightarrow> mapped (put_bytes m p bs) q n"
  using put_bytes_mapped by (force simp: mapped_def)

lemma wr_ok: "mapped m p (int (length bs)) \<Longrightarrow> wr m p bs = Some (put_bytes m p bs)"
  using rd_bytes_ex [of m p "length bs"] by (auto simp: wr_def)

lemma rd_put_bytes_other:
  "q + int n \<le> p \<or> p + int (length bs) \<le> q \<Longrightarrow> rd_bytes (put_bytes m p bs) q n = rd_bytes m q n"
proof -
  assume "q + int n \<le> p \<or> p + int (length bs) \<le> q"
  then have "put_bytes m p bs (q + int i) = m (q + int i)" if "i < n" for i
    using that by (intro put_bytes_other) auto
  then have "rd_bytes (put_bytes m p bs) q n = Some cs \<longleftrightarrow> rd_bytes m q n = Some cs" for cs
    by (simp add: rd_bytes_iff)
  then show ?thesis by (cases "rd_bytes m q n"; cases "rd_bytes (put_bytes m p bs) q n") auto
qed

lemma rd_put_bytes: "rd_bytes (put_bytes m p bs) p (length bs) = Some bs"
  by (simp add: rd_bytes_iff write_simps)

lemma fdt32_ld_cong: "(\<And>i. i < 4 \<Longrightarrow> m' (q + int i) = m (q + int i)) \<Longrightarrow> fdt32_ld m' q = fdt32_ld m q"
proof -
  assume *: "\<And>i. i < 4 \<Longrightarrow> m' (q + int i) = m (q + int i)"
  show ?thesis using * [of 0] * [of 1] * [of 2] * [of 3] by (simp add: fdt32_ld_def rd_def)
qed

lemma fdt32_ld_put_other:
  "q + 4 \<le> p \<or> p + int (length bs) \<le> q \<Longrightarrow> fdt32_ld (put_bytes m p bs) q = fdt32_ld m q"
  by (intro fdt32_ld_cong put_bytes_other) auto

lemma length_be32 [simp]: "length (be32 v) = 4"
  by (simp add: be32_def)

lemma uint_byte: "uint (word_of_int x :: byte) = x mod 256"
  by (simp add: uint_word_of_int)

lemma be32_value:
  "v div 16777216 mod 256 * 16777216 + v div 65536 mod 256 * 65536 + v div 256 mod 256 * 256 + v mod 256 = u32 v"
proof -
  define a where "a = v div 256"
  define b where "b = a div 256"
  define c where "c = b div 256"
  have q: "v div 65536 = b" "v div 16777216 = c"
    using zdiv_zmult2_eq [of 256 v 256] zdiv_zmult2_eq [of 65536 v 256]
      zdiv_zmult2_eq [of 256 "v div 256" 256] by (simp_all add: a_def b_def c_def)
  let ?x = "c mod 256 * 16777216 + b mod 256 * 65536 + a mod 256 * 256 + v mod 256"
  have "v = 256 * a + v mod 256" "a = 256 * b + a mod 256" "b = 256 * c + b mod 256"
    "c = 256 * (c div 256) + c mod 256"
    unfolding a_def b_def c_def by (simp_all only: mult_div_mod_eq)
  then have "v = ?x + 4294967296 * (c div 256)" by linarith
  then have "v mod 4294967296 = ?x mod 4294967296" by (metis mod_mult_self2)
  moreover have "0 \<le> ?x \<and> ?x < 4294967296"
    using pos_mod_bound [of 256 c] pos_mod_bound [of 256 b] pos_mod_bound [of 256 a] pos_mod_bound [of 256 v]
      pos_mod_sign [of 256 c] pos_mod_sign [of 256 b] pos_mod_sign [of 256 a] pos_mod_sign [of 256 v] by linarith
  ultimately show ?thesis by (simp add: u32_def q a_def)
qed

lemma fdt32_ld_be32: "rd_bytes m p 4 = Some (be32 v) \<Longrightarrow> fdt32_ld m p = Some (u32 v)"
proof -
  assume "rd_bytes m p 4 = Some (be32 v)"
  then have *: "m (p + int i) = Some (be32 v ! i)" if "i < 4" for i using that by (simp add: rd_bytes_iff)
  show ?thesis using * [of 0] * [of 1] * [of 2] * [of 3]
    by (simp add: fdt32_ld_def rd_def be32_def uint_byte be32_value)
qed

lemma fdt32_ld_put: "fdt32_ld (put_bytes m p (be32 v)) p = Some (u32 v)"
  using rd_put_bytes [of m p "be32 v"] by (intro fdt32_ld_be32) simp

lemma fdt32_ld_mapped: "fdt32_ld m p = Some v \<Longrightarrow> mapped m p 4"
proof -
  assume "fdt32_ld m p = Some v"
  then have *: "m p \<noteq> None" "m (p + 1) \<noteq> None" "m (p + 2) \<noteq> None" "m (p + 3) \<noteq> None"
    by (auto simp: fdt32_ld_def rd_def bind_eq_Some_conv)
  have "x = p \<or> x = p + 1 \<or> x = p + 2 \<or> x = p + 3" if "p \<le> x" "x < p + 4" for x using that by linarith
  with * show ?thesis unfolding mapped_def by blast
qed

lemma fdt32_st_ok: "mapped m p 4 \<Longrightarrow> fdt32_st m p v = Some (put_bytes m p (be32 v))"
  by (simp add: fdt32_st_def wr_ok)

lemma memmove_ok:
  assumes "mapped m src (int n)" and "mapped m dst (int n)"
  shows "\<exists>bs. rd_bytes m src n = Some bs \<and> memmove m dst src (int n) = Some (put_bytes m dst bs)"
proof -
  from rd_bytes_ex [OF assms(1)] obtain bs where bs: "rd_bytes m src n = Some bs" by blast
  then have "length bs = n" by (rule rd_bytes_length)
  with assms(2) bs show ?thesis by (simp add: memmove_def wr_ok)
qed

section \<open>The layout\<close>

text \<open>
  \<open>S\<close> is the structure block at offset \<open>os\<close>, \<open>T\<close> the block of strings at offset \<open>ot\<close>, in the order
  that \<open>fdt_rw_probe_\<close> asks for.
\<close>

definition layout :: "mem \<Rightarrow> addr \<Rightarrow> int \<Rightarrow> int \<Rightarrow> int \<Rightarrow> byte list \<Rightarrow> byte list \<Rightarrow> bool" where
  "layout m fdt ts os ot S T \<longleftrightarrow>
     0 < fdt \<and> fdt mod 8 = 0 \<and> fdt_magic m fdt = Some FDT_MAGIC \<and> fdt_version m fdt = Some 17 \<and>
     (\<exists>lc. fdt_last_comp_version m fdt = Some lc \<and> lc \<le> 17) \<and>
     fdt_totalsize m fdt = Some ts \<and> fdt_off_dt_struct m fdt = Some os \<and>
     fdt_off_dt_strings m fdt = Some ot \<and> fdt_size_dt_struct m fdt = Some (int (length S)) \<and>
     fdt_size_dt_strings m fdt = Some (int (length T)) \<and>
     (\<exists>r. fdt_off_mem_rsvmap m fdt = Some r \<and> 40 \<le> r \<and> r + 16 \<le> os) \<and>
     os + int (length S) \<le> ot \<and> ot + int (length T) \<le> ts \<and> ts < INT_MAX \<and>
     rd_bytes m (fdt + os) (length S) = Some S \<and> rd_bytes m (fdt + ot) (length T) = Some T \<and>
     mapped m fdt ts"

lemma layout_fields:
  assumes "layout m fdt ts os ot S T"
  shows "0 < fdt" "fdt_magic m fdt = Some FDT_MAGIC" "fdt_version m fdt = Some 17"
    "fdt_totalsize m fdt = Some ts" "fdt_off_dt_struct m fdt = Some os" "fdt_off_dt_strings m fdt = Some ot"
    "fdt_size_dt_struct m fdt = Some (int (length S))" "fdt_size_dt_strings m fdt = Some (int (length T))"
    "56 \<le> os" "os + int (length S) \<le> ot" "ot + int (length T) \<le> ts" "ts < INT_MAX" "mapped m fdt ts"
    "rd_bytes m (fdt + os) (length S) = Some S" "rd_bytes m (fdt + ot) (length T) = Some T"
  using assms unfolding layout_def by auto

lemma layout_probe: "layout m fdt ts os ot S T \<Longrightarrow> fdt_ro_probe m fdt = Some ts"
  unfolding layout_def by (elim conjE exE) (simp add: fdt_ro_probe_def Let_def)

lemma layout_rw_probe:
  assumes "layout m fdt ts os ot S T"
  shows "fdt_rw_probe m fdt = Some (0, m)"
proof -
  note l = layout_fields [OF assms]
  from assms obtain r where r: "fdt_off_mem_rsvmap m fdt = Some r" "40 \<le> r" "r + 16 \<le> os"
    unfolding layout_def by blast
  have u: "s32 (int (length S)) = int (length S)" "u32 (r + 16) = r + 16"
    "u32 (os + int (length S)) = os + int (length S)" "u32 (ot + int (length T)) = ot + int (length T)"
    using l r by (auto intro!: s32_id u32_id)
  show ?thesis using l r u
    by (simp add: fdt_rw_probe_def layout_probe [OF assms] fdt_blocks_misordered_def)
qed

lemma layout_data_size: "layout m fdt ts os ot S T \<Longrightarrow> fdt_data_size m fdt = Some (ot + int (length T))"
  using layout_fields [of m fdt ts os ot S T] by (simp add: fdt_data_size_def u32_id)

text \<open>A piece of the structure block.\<close>

lemma layout_piece:
  assumes "layout m fdt ts os ot S T" and "S = pre @ bs @ post"
  shows "rd_bytes m (fdt + os + int (length pre)) (length bs) = Some bs"
proof -
  have "m (fdt + os + int (length pre) + int i) = Some (bs ! i)" if "i < length bs" for i
  proof -
    have "length pre + i < length S" using assms(2) that by simp
    with layout_fields(14) [OF assms(1)] have "m (fdt + os + int (length pre + i)) = Some (S ! (length pre + i))"
      unfolding rd_bytes_iff by blast
    with assms(2) that show ?thesis by (simp add: nth_append add.assoc)
  qed
  then show ?thesis by (simp add: rd_bytes_iff)
qed

lemma layout_string:
  assumes "layout m fdt ts os ot S T" and "T = pre @ bs @ post"
  shows "rd_bytes m (fdt + ot + int (length pre)) (length bs) = Some bs"
proof -
  have "m (fdt + ot + int (length pre) + int i) = Some (bs ! i)" if "i < length bs" for i
  proof -
    have "length pre + i < length T" using assms(2) that by simp
    with layout_fields(15) [OF assms(1)] have "m (fdt + ot + int (length pre + i)) = Some (T ! (length pre + i))"
      unfolding rd_bytes_iff by blast
    with assms(2) that show ?thesis by (simp add: nth_append add.assoc)
  qed
  then show ?thesis by (simp add: rd_bytes_iff)
qed

section \<open>Splicing\<close>

lemma put_rd_before:
  "rd_bytes m q n = Some cs \<Longrightarrow> q + int n \<le> p \<or> p + int (length bs) \<le> q \<Longrightarrow>
     rd_bytes (put_bytes m p bs) q n = Some cs"
  by (simp add: rd_put_bytes_other)

text \<open>
  The move of \<open>fdt_splice_\<close>: \<open>oldlen\<close> bytes at \<open>o\<close> of the structure block give way to \<open>newlen\<close>
  bytes, everything behind them moves.
\<close>

lemma splice_move:
  assumes l: "layout m fdt ts os ot S T" and o: "k + oldlen \<le> length S"
    and fits: "ot + int (length T) - int oldlen + int newlen \<le> ts" and small: "int newlen \<le> INT_MAX"
  shows "\<exists>bs. length bs = nat (ot + int (length T) - os) - k - oldlen \<and>
    fdt_splice m fdt (fdt + os + int k) (int oldlen) (int newlen) =
      Some (0, put_bytes m (fdt + os + int k + int newlen) bs) \<and>
    rd_bytes m (fdt + os + int k + int oldlen) (length bs) = Some bs"
proof -
  note l' = layout_fields [OF l]
  let ?p = "fdt + os + int k" and ?n = "nat (ot + int (length T) - os) - k - oldlen"
  have n: "int ?n = fdt + (ot + int (length T)) - (?p + int oldlen)" using l' o by simp
  have soff: "u64 (?p - fdt) = os + int k" "u64 (os + int k + int oldlen) = os + int k + int oldlen"
    using l' o by (auto intro!: u64_id)
  have u: "u32 (ot + int (length T) + int newlen) = ot + int (length T) + int newlen" "u32 (int oldlen) = int oldlen"
    "u32 (ot + int (length T) - int oldlen + int newlen) = ot + int (length T) - int oldlen + int newlen"
    using l' o fits small by (auto intro!: u32_id)
  have m1: "mapped m (?p + int oldlen) (int ?n)" using l' n o by (intro mapped_sub [OF l'(13)]) auto
  have m2: "mapped m (?p + int newlen) (int ?n)" using l' n o fits by (intro mapped_sub [OF l'(13)]) auto
  from memmove_ok [OF m1 m2] obtain bs where bs: "rd_bytes m (?p + int oldlen) ?n = Some bs"
    "memmove m (?p + int newlen) (?p + int oldlen) (int ?n) = Some (put_bytes m (?p + int newlen) bs)" by blast
  from rd_bytes_length [OF bs(1)] have len: "length bs = ?n" .
  have mv: "memmove m (?p + int newlen) (?p + int oldlen) (fdt + (ot + int (length T)) - (?p + int oldlen)) =
      Some (put_bytes m (?p + int newlen) bs)"
    using bs(2) by (simp only: n)
  have "fdt_splice m fdt ?p (int oldlen) (int newlen) = Some (0, put_bytes m (?p + int newlen) bs)"
    unfolding fdt_splice_def layout_data_size [OF l] Option.bind.simps l'(4) Let_def soff u
    using mv l' o fits by simp
  with bs(1) len show ?thesis by auto
qed

lemma splice_full:
  assumes l: "layout m fdt ts os ot S T" and o: "k + oldlen \<le> length S" and small: "int newlen \<le> INT_MAX"
    and full: "ot + int (length T) - int oldlen + int newlen > ts"
  shows "fdt_splice m fdt (fdt + os + int k) (int oldlen) (int newlen) = Some (- FDT_ERR_NOSPACE, m)"
proof -
  note l' = layout_fields [OF l]
  have soff: "u64 (fdt + os + int k - fdt) = os + int k" "u64 (os + int k + int oldlen) = os + int k + int oldlen"
    using l' o by (auto intro!: u64_id)
  have u: "u32 (ot + int (length T) + int newlen) = ot + int (length T) + int newlen" "u32 (int oldlen) = int oldlen"
    "u32 (ot + int (length T) - int oldlen + int newlen) = ot + int (length T) - int oldlen + int newlen"
    using l' o small by (auto intro!: u32_id)
  show ?thesis
    unfolding fdt_splice_def layout_data_size [OF l] Option.bind.simps l'(4) Let_def soff u
    using l' o full by simp
qed

text \<open>Nothing but the header and the bytes from the structure block on is written.\<close>

definition kept :: "mem \<Rightarrow> mem \<Rightarrow> addr \<Rightarrow> int \<Rightarrow> int \<Rightarrow> bool" where
  "kept m m' fdt os ts \<longleftrightarrow>
     (\<forall>x. x < fdt \<or> (fdt + 40 \<le> x \<and> x < fdt + os) \<or> fdt + ts \<le> x \<longrightarrow> m' x = m x)"

lemma kept_refl [simp]: "kept m m fdt os ts"
  by (simp add: kept_def)

lemma kept_trans: "kept m m' fdt os ts \<Longrightarrow> kept m' m'' fdt os ts \<Longrightarrow> kept m m'' fdt os ts"
  by (simp add: kept_def)

lemma kept_put:
  assumes "p \<ge> fdt" and "p + int (length bs) \<le> fdt + 40 \<or> fdt + os \<le> p" and "p + int (length bs) \<le> fdt + ts"
  shows "kept m (put_bytes m p bs) fdt os ts"
  unfolding kept_def using assms by (auto intro!: put_bytes_other)

lemma splice_struct_ok:
  assumes l: "layout m fdt ts os ot S T" and o: "k + oldlen \<le> length S"
    and fits: "ot + int (length T) - int oldlen + int newlen \<le> ts" and small: "int newlen \<le> INT_MAX"
  shows "\<exists>m' gap. length gap = newlen \<and> fdt_splice_struct m fdt (fdt + os + int k) (int oldlen) (int newlen) = Some (0, m') \<and>
    layout m' fdt ts os (ot - int oldlen + int newlen) (take k S @ gap @ drop (k + oldlen) S) T \<and> kept m m' fdt os ts \<and>
    rd_bytes m (fdt + os + int k) newlen = Some gap"
proof -
  note l' = layout_fields [OF l]
  let ?p = "fdt + os + int k" and ?d = "int newlen - int oldlen"
  from splice_move [OF assms] obtain bs where
    len: "length bs = nat (ot + int (length T) - os) - k - oldlen" and
    sp: "fdt_splice m fdt ?p (int oldlen) (int newlen) = Some (0, put_bytes m (?p + int newlen) bs)" and
    bs: "rd_bytes m (?p + int oldlen) (length bs) = Some bs" by blast
  have len': "int (length bs) = ot + int (length T) - os - int k - int oldlen" using len l' o by simp
  define m1 where "m1 = put_bytes m (?p + int newlen) bs"
  define m2 where "m2 = put_bytes m1 (fdt + 36) (be32 (u32 (int (length S) + ?d)))"
  define m3 where "m3 = put_bytes m2 (fdt + 12) (be32 (u32 (ot + ?d)))"
  have d: "c_int ?d" using l' o small fits by (auto simp: c_int_def)
  have mp: "mapped m1 fdt ts" "mapped m2 fdt ts" "mapped m3 fdt ts"
    using l'(13) by (auto simp: m1_def m2_def m3_def write_simps)
  have h: "fdt32_ld m1 (fdt + j) = fdt32_ld m (fdt + j)" if "0 \<le> j" "j \<le> 36" for j
    unfolding m1_def using that l' by (intro fdt32_ld_put_other) auto
  have h0: "fdt32_ld m1 fdt = fdt32_ld m fdt" using h [of 0] by simp
  have "fdt_splice_struct m fdt ?p (int oldlen) (int newlen) = Some (0, m3)"
  proof -
    have "fdt_size_dt_struct m1 fdt = Some (int (length S))" using l'(7) h by (simp add: fdt_size_dt_struct_def)
    moreover have "fdt_set_size_dt_struct m1 fdt (u32 (int (length S) + ?d)) = Some m2"
      unfolding m2_def fdt_set_size_dt_struct_def using l' by (intro fdt32_st_ok mapped_sub [OF mp(1)]) auto
    moreover have "fdt_off_dt_strings m2 fdt = Some ot"
      using l'(6) h by (simp add: fdt_off_dt_strings_def m2_def fdt32_ld_put_other)
    moreover have "fdt_set_off_dt_strings m2 fdt (u32 (ot + ?d)) = Some m3"
      unfolding m3_def fdt_set_off_dt_strings_def using l' by (intro fdt32_st_ok mapped_sub [OF mp(2)]) auto
    ultimately show ?thesis using sp d
      by (simp add: fdt_splice_struct_def int_res_def m1_def [symmetric])
  qed
  moreover
  have hdr: "fdt32_ld m3 (fdt + j) = fdt32_ld m (fdt + j)" if "j \<in> {4, 8, 16, 20, 24, 32}" for j
    using that h by (auto simp: m3_def m2_def fdt32_ld_put_other)
  have hdr0: "fdt32_ld m3 fdt = fdt32_ld m fdt" using h0 by (simp add: m3_def m2_def fdt32_ld_put_other)
  have new: "fdt32_ld m3 (fdt + 36) = Some (int (length S) + ?d)" "fdt32_ld m3 (fdt + 12) = Some (ot + ?d)"
    using l' o fits small by (auto simp: m3_def m2_def fdt32_ld_put_other fdt32_ld_put u32_id)
  have far: "rd_bytes m3 q n = rd_bytes m1 q n" if "fdt + 40 \<le> q" for q n
    using that by (simp add: m3_def m2_def rd_put_bytes_other)
  have mgap: "mapped m3 ?p (int newlen)" using l' o fits by (intro mapped_sub [OF mp(3)]) auto
  from rd_bytes_ex [OF mgap] obtain gap where gap: "rd_bytes m3 ?p newlen = Some gap" by blast
  have lgap: "length gap = newlen" by (rule rd_bytes_length [OF gap])
  have s1: "rd_bytes m3 (fdt + os) k = Some (take k S)"
  proof -
    have "rd_bytes m1 (fdt + os) k = rd_bytes m (fdt + os) k"
      unfolding m1_def by (intro rd_put_bytes_other) simp
    also have "\<dots> = Some (take k S)" using rd_bytes_sub [OF l'(14), of 0 k] o by simp
    finally show ?thesis using far [of "fdt + os" k] l' by simp
  qed
  have put: "rd_bytes m3 (?p + int newlen + int j) c = Some (take c (drop j bs))" if "j + c \<le> length bs" for j c
    using far [of "?p + int newlen + int j" c] l' rd_bytes_sub [OF rd_put_bytes that, of m "?p + int newlen"]
    by (simp add: m1_def)
  have old: "rd_bytes m (?p + int oldlen + int j) c = Some (take c (drop j bs))" if "j + c \<le> length bs" for j c
    by (rule rd_bytes_sub [OF bs that])
  have s3: "rd_bytes m3 (?p + int newlen) (length S - k - oldlen) = Some (drop (k + oldlen) S)"
  proof -
    have le: "0 + (length S - k - oldlen) \<le> length bs" using len' l' o by simp
    have "rd_bytes m (?p + int oldlen) (length S - k - oldlen) = Some (drop (k + oldlen) S)"
      using rd_bytes_sub [OF l'(14), of "k + oldlen" "length S - k - oldlen"] o by (simp add: add.assoc)
    with put [OF le] old [OF le] show ?thesis by simp
  qed
  have t: "rd_bytes m3 (fdt + (ot + ?d)) (length T) = Some T"
  proof -
    let ?j = "nat (ot - os) - k - oldlen"
    have le: "?j + length T \<le> length bs" using len' l' o by simp
    have e: "?p + int oldlen + int ?j = fdt + ot" "?p + int newlen + int ?j = fdt + (ot + ?d)" using l' o by simp_all
    from put [OF le] old [OF le] l'(15) show ?thesis unfolding e by simp
  qed
  have s: "rd_bytes m3 (fdt + os) (length (take k S @ gap @ drop (k + oldlen) S)) = Some (take k S @ gap @ drop (k + oldlen) S)"
  proof -
    have "rd_bytes m3 (fdt + os) (k + (newlen + (length S - k - oldlen))) = Some (take k S @ (gap @ drop (k + oldlen) S))"
      using s1 gap s3 by (intro rd_bytes_append) (simp_all add: add.assoc)
    with o lgap show ?thesis by simp
  qed
  have "layout m3 fdt ts os (ot - int oldlen + int newlen) (take k S @ gap @ drop (k + oldlen) S) T"
  proof -
    have e: "ot - int oldlen + int newlen = ot + ?d" by simp
    have n: "int (length (take k S @ gap @ drop (k + oldlen) S)) = int (length S) + ?d" using o lgap by simp
    show ?thesis using l s t hdr hdr0 new mp(3) l' o fits unfolding layout_def e n
      by (simp add: fdt_magic_def fdt_version_def fdt_totalsize_def fdt_last_comp_version_def fdt_off_dt_struct_def
          fdt_off_dt_strings_def fdt_size_dt_struct_def fdt_size_dt_strings_def fdt_off_mem_rsvmap_def)
  qed
  moreover have "kept m m3 fdt os ts"
  proof -
    have "kept m m1 fdt os ts" unfolding m1_def using l' o fits len' by (intro kept_put) auto
    moreover have "kept m1 m2 fdt os ts" unfolding m2_def using l' by (intro kept_put) auto
    moreover have "kept m2 m3 fdt os ts" unfolding m3_def using l' by (intro kept_put) auto
    ultimately show ?thesis by (blast intro: kept_trans)
  qed
  moreover have "rd_bytes m ?p newlen = Some gap"
  proof -
    have "rd_bytes m1 ?p newlen = rd_bytes m ?p newlen"
      unfolding m1_def by (intro rd_put_bytes_other) simp
    with gap far [of ?p newlen] l' show ?thesis by simp
  qed
  ultimately show ?thesis using lgap by blast
qed

lemma splice_struct_full:
  assumes l: "layout m fdt ts os ot S T" and o: "k + oldlen \<le> length S" and small: "int newlen \<le> INT_MAX"
    and full: "ot + int (length T) - int oldlen + int newlen > ts"
  shows "fdt_splice_struct m fdt (fdt + os + int k) (int oldlen) (int newlen) = Some (- FDT_ERR_NOSPACE, m)"
proof -
  note l' = layout_fields [OF l]
  have "c_int (int newlen - int oldlen)" using l' o small by (auto simp: c_int_def)
  with splice_full [OF assms] show ?thesis by (simp add: fdt_splice_struct_def int_res_def)
qed

section \<open>Names in the block of strings\<close>

definition name_at :: "byte list \<Rightarrow> nat \<Rightarrow> byte list \<Rightarrow> bool" where
  "name_at T k s \<longleftrightarrow> k + length s < length T \<and> take (length s + 1) (drop k T) = s @ [0] \<and> 0 \<notin> set s"

lemma name_at_append: "name_at T k s \<Longrightarrow> name_at (T @ T') k s"
  by (auto simp: name_at_def)

lemma name_at_last: "0 \<notin> set s \<Longrightarrow> name_at (T @ s @ [0]) (length T) s"
  by (simp add: name_at_def)

lemma name_at_bytes:
  assumes "layout m fdt ts os ot S T" and "name_at T k s"
  shows "rd_bytes m (fdt + ot + int k) (length s + 1) = Some (s @ [0])"
  using rd_bytes_sub [OF layout_fields(15) [OF assms(1)], of k "length s + 1"] assms(2)
  by (simp add: name_at_def)

lemma find_string_ok:
  assumes l: "layout m fdt ts os ot S T"
  shows "j + tab + length s \<le> length T \<Longrightarrow>
    \<exists>r. find_string_from m (fdt + ot + int j) tab s = Some r \<and>
      (r = NULL \<or> (\<exists>k. r = fdt + ot + int k \<and> k + length s < length T \<and> take (length s + 1) (drop k T) = s @ [0]))"
proof (induction tab arbitrary: j)
  case (Suc tab)
  note l' = layout_fields [OF l]
  let ?p = "fdt + ot + int j"
  have r: "rd_bytes m ?p (length s) = Some (take (length s) (drop j T))"
    using Suc.prems by (intro rd_bytes_sub [OF l'(15)]) simp
  have "j + length s < length T" using Suc.prems by simp
  then have c: "m (?p + int (length s)) = Some (T ! (j + length s))"
    using l'(15) unfolding rd_bytes_iff by (auto simp: add.assoc)
  from Suc.IH [of "Suc j"] Suc.prems have ih: "\<exists>r. find_string_from m (?p + 1) tab s = Some r \<and>
      (r = NULL \<or> (\<exists>k. r = fdt + ot + int k \<and> k + length s < length T \<and> take (length s + 1) (drop k T) = s @ [0]))"
    by (simp add: ac_simps)
  show ?case
  proof (cases "take (length s) (drop j T) = s \<and> T ! (j + length s) = 0")
    case True
    then have "take (length s + 1) (drop j T) = s @ [0]"
      using \<open>j + length s < length T\<close> by (simp add: take_Suc_conv_app_nth)
    then show ?thesis using True r c \<open>j + length s < length T\<close> by (auto simp: c_memeq_def rd_def)
  next
    case False
    then show ?thesis using ih r c by (auto simp: c_memeq_def rd_def)
  qed
qed simp

lemma splice_end:
  assumes l: "layout m fdt ts os ot S T" and small: "int newlen \<le> INT_MAX"
  shows "fdt_splice m fdt (fdt + ot + int (length T)) 0 (int newlen) =
    Some (if ot + int (length T) + int newlen > ts then - FDT_ERR_NOSPACE else 0, m)"
proof -
  note l' = layout_fields [OF l]
  have soff: "u64 (fdt + ot + int (length T) - fdt) = ot + int (length T)" "u64 (ot + int (length T) + 0) = ot + int (length T)"
    using l' by (auto intro!: u64_id)
  have u: "u32 (ot + int (length T) + int newlen) = ot + int (length T) + int newlen" "u32 0 = 0"
    "u32 (ot + int (length T) - 0 + int newlen) = ot + int (length T) + int newlen"
    using l' small by (auto intro!: u32_id)
  have "put_bytes m q [] = m" for q by (rule ext) (auto simp: put_bytes_def)
  then have mv: "memmove m q q' 0 = Some m" for q q' by (simp add: memmove_def wr_def)
  show ?thesis
    unfolding fdt_splice_def layout_data_size [OF l] Option.bind.simps l'(4) Let_def soff u
    using l' by (simp add: mv)
qed

text \<open>
  \<open>fdt_find_add_string_\<close>: the name is there or is appended, and nothing else changes; or there is no
  space for it.
\<close>

lemma find_add_string_ok:
  assumes l: "layout m fdt ts os ot S T" and s: "0 \<notin> set s" "int (length s) < INT_MAX"
  shows "(\<exists>k a m' T'. fdt_find_add_string m fdt s = Some (int k, a, m') \<and> layout m' fdt ts os ot S (T @ T') \<and>
      name_at (T @ T') k s \<and> int k \<le> INT_MAX \<and> length T' \<le> length s + 1 \<and> kept m m' fdt os ts \<and>
      (T' = (if a then s @ [0] else []))) \<or>
    fdt_find_add_string m fdt s = Some (- FDT_ERR_NOSPACE, False, m) \<and> ot + int (length T) + int (length s) + 1 > ts"
proof -
  note l' = layout_fields [OF l]
  have sz: "s32 (int (length T)) = int (length T)" using l' by (intro s32_id) auto
  have "\<exists>r. fdt_find_string_len m (fdt + ot) (int (length T)) s = Some r \<and>
      (r = NULL \<or> (\<exists>k. r = fdt + ot + int k \<and> k + length s < length T \<and> take (length s + 1) (drop k T) = s @ [0]))"
  proof (cases "length s < length T")
    case True
    then show ?thesis using find_string_ok [OF l, of 0 "length T - length s" s]
      by (simp add: fdt_find_string_len_def nat_diff_distrib)
  next
    case False
    then show ?thesis by (simp add: fdt_find_string_len_def)
  qed
  then obtain r where r: "fdt_find_string_len m (fdt + ot) (int (length T)) s = Some r"
    "r = NULL \<or> (\<exists>k. r = fdt + ot + int k \<and> k + length s < length T \<and> take (length s + 1) (drop k T) = s @ [0])" by blast
  show ?thesis
  proof (cases "r = NULL")
    case False
    with r obtain k where k: "r = fdt + ot + int k" "name_at T k s" using s by (auto simp: name_at_def)
    have "s32 (int k) = int k" using k(2) l' by (intro s32_id) (auto simp: name_at_def)
    with r(1) False k l' sz have "fdt_find_add_string m fdt s = Some (int k, False, m)"
      by (simp add: fdt_find_add_string_def Let_def)
    moreover have "int k \<le> INT_MAX" using k(2) l' by (auto simp: name_at_def)
    ultimately show ?thesis using l k(2)
      by (intro disjI1 exI [of _ k] exI [of _ False] exI [of _ m] exI [of _ "[]"]) simp
  next
    case True
    have n: "s32 (int (length s) + 1) = int (length s + 1)" using s(2) by (subst s32_id) auto
    note sp = splice_end [OF l, of "length s + 1"]
    show ?thesis
    proof (cases "ot + int (length T) + int (length s) + 1 > ts")
      case full: True
      then have "fdt_splice_string m fdt (int (length s + 1)) = Some (- FDT_ERR_NOSPACE, m)"
        using sp l' s(2) by (simp add: fdt_splice_string_def)
      with r(1) True l' sz n full show ?thesis by (simp add: fdt_find_add_string_def Let_def)
    next
      case fits: False
      define m1 where "m1 = put_bytes m (fdt + 32) (be32 (int (length T) + int (length s) + 1))"
      define m2 where "m2 = put_bytes m1 (fdt + ot + int (length T)) (s @ [0])"
      have u: "u32 (int (length T) + (int (length s) + 1)) = int (length T) + int (length s) + 1"
        using l' fits by (subst u32_id) auto
      have "fdt_splice_string m fdt (int (length s + 1)) = Some (0, m1)"
        using sp l' s(2) fits u mapped_sub [OF l'(13), of "fdt + 32" 4]
        by (simp add: fdt_splice_string_def fdt_set_size_dt_strings_def fdt32_st_ok m1_def ac_simps)
      moreover have "wr m1 (fdt + ot + int (length T)) (s @ [0]) = Some m2"
        unfolding m2_def m1_def using l' fits
        by (intro wr_ok mapped_put_bytes mapped_sub [OF l'(13)]) auto
      ultimately have f: "fdt_find_add_string m fdt s = Some (int (length T), True, m2)"
        using r(1) True l' sz n by (simp add: fdt_find_add_string_def Let_def)
      have hdr: "fdt32_ld m2 (fdt + j) = fdt32_ld m (fdt + j)" if "j \<in> {4, 8, 12, 16, 20, 24, 36}" for j
        using that l' by (auto simp: m2_def m1_def fdt32_ld_put_other)
      have hdr0: "fdt32_ld m2 fdt = fdt32_ld m fdt" using l' by (simp add: m2_def m1_def fdt32_ld_put_other)
      have new: "fdt32_ld m2 (fdt + 32) = Some (int (length (T @ s @ [0])))"
        using l' fits by (simp add: m2_def m1_def fdt32_ld_put_other fdt32_ld_put u32_id)
      have st: "rd_bytes m2 (fdt + os) (length S) = Some S"
        using l' by (simp add: m2_def m1_def rd_put_bytes_other)
      have "rd_bytes m2 (fdt + ot) (length T + length (s @ [0])) = Some (T @ s @ [0])"
      proof (rule rd_bytes_append)
        show "rd_bytes m2 (fdt + ot) (length T) = Some T"
          using l' by (simp add: m2_def m1_def rd_put_bytes_other)
        show "rd_bytes m2 (fdt + ot + int (length T)) (length (s @ [0])) = Some (s @ [0])"
          unfolding m2_def by (rule rd_put_bytes)
      qed
      then have t: "rd_bytes m2 (fdt + ot) (length (T @ s @ [0])) = Some (T @ s @ [0])" by simp
      have "layout m2 fdt ts os ot S (T @ s @ [0])"
        using l st t hdr hdr0 new l' fits unfolding layout_def
        by (simp add: fdt_magic_def fdt_version_def fdt_totalsize_def fdt_last_comp_version_def fdt_off_dt_struct_def
            fdt_off_dt_strings_def fdt_size_dt_struct_def fdt_size_dt_strings_def fdt_off_mem_rsvmap_def m2_def m1_def
            mapped_put_bytes)
      moreover have "kept m m2 fdt os ts"
      proof (rule kept_trans)
        show "kept m m1 fdt os ts" unfolding m1_def using l' by (intro kept_put) auto
        show "kept m1 m2 fdt os ts" unfolding m2_def using l' fits by (intro kept_put) auto
      qed
      moreover have "int (length T) \<le> INT_MAX" using l' by linarith
      ultimately show ?thesis using f name_at_last [OF s(1), of T]
        by (intro disjI1 exI [of _ "length T"] exI [of _ True] exI [of _ m2] exI [of _ "s @ [0]"]) simp
    qed
  qed
qed

end
