(* ===== verification/Fdt_Encode.thy ===== *)
theory Fdt_Encode
  imports Fdt_Layout
begin

text \<open>
  The tags of a structure block that is given as a list of bytes, and the properties of a node as a
  list of names and values: what the readers of libfdt find in it.
\<close>

section \<open>Tags\<close>

lemma layout_offset_ptr:
  assumes l: "layout m fdt ts os ot S T" and "k \<le> length S" and "0 \<le> n" and "n \<le> INT_MAX"
  shows "fdt_offset_ptr m fdt (int k) n = Some (if int k + n \<le> int (length S) then fdt + os + int k else NULL)"
proof -
  note l' = layout_fields [OF l]
  have c: "c_int (int k)" using assms(2) l' by (auto simp: c_int_def)
  have s: "struct_size_v17 m fdt 17 = Some (int (length S))" using l' by (simp add: struct_size_v17_def)
  have u: "u32 (int k) = int k" "u32 (int k + os) = int k + os" "u32 (int k + os + n) = int k + os + n"
    "u32 (int k + n) = int k + n"
    using assms(2-4) l' by (auto intro!: u32_id)
  show ?thesis
    unfolding fdt_offset_ptr_def using c s l' assms(2-4)
    by (simp add: Let_def u)
qed

definition talign :: "nat \<Rightarrow> nat" where
  "talign n = (n + 3) div 4 * 4"

lemma talign_mod [simp]: "talign n mod 4 = 0"
  by (simp add: talign_def)

lemma talign_id: "n mod 4 = 0 \<Longrightarrow> talign n = n"
  unfolding talign_def by presburger

lemma talign_bounds: "n \<le> talign n" "talign n < n + 4"
  unfolding talign_def by presburger+

lemma FDT_TAGALIGN_nat: "int n \<le> 2147483644 \<Longrightarrow> FDT_TAGALIGN (int n) = int (talign n)"
proof -
  assume "int n \<le> 2147483644"
  moreover have "(int n + 3) div 4 * 4 = int (talign n)" by (simp add: talign_def zdiv_int)
  moreover have "talign n < n + 4" by (rule talign_bounds)
  ultimately show ?thesis unfolding FDT_TAGALIGN_def by (subst s32_id) auto
qed

lemma layout_word:
  assumes l: "layout m fdt ts os ot S T" and S: "S = pre @ be32 v @ post"
  shows "fdt32_ld m (fdt + os + int (length pre)) = Some (u32 v)"
  using layout_piece [OF l S] by (intro fdt32_ld_be32) simp

lemma layout_next_tag_end:
  assumes l: "layout m fdt ts os ot S T" and "k \<le> e" and "e \<le> length S"
  shows "next_tag_end m fdt (int k) tag (int e) = Some (tag, int (talign e))"
proof -
  note l' = layout_fields [OF l]
  have u: "u32 (int e - int k) = int (e - k)" using assms(2,3) l' by (subst u32_id) auto
  have "fdt_offset_ptr m fdt (int k) (int (e - k)) = Some (fdt + os + int k)"
    using layout_offset_ptr [OF l, of k "int (e - k)"] assms(2,3) l' by simp
  moreover have "fdt + os + int k \<noteq> 0" using l' by linarith
  moreover have "FDT_TAGALIGN (int e) = int (talign e)" using assms(3) l' by (intro FDT_TAGALIGN_nat) linarith
  ultimately show ?thesis by (simp add: next_tag_end_def u)
qed

lemma next_tag_start:
  assumes l: "layout m fdt ts os ot S T" and S: "S = pre @ be32 tg @ post"
  shows "fdt_offset_ptr m fdt (int (length pre)) 4 = Some (fdt + os + int (length pre))"
    "fdt + os + int (length pre) \<noteq> 0" "s32 (int (length pre) + 4) = int (length pre + 4)"
  using layout_offset_ptr [OF l, of "length pre" 4] S layout_fields [OF l] by (auto intro!: s32_id)

lemma next_tag_simple:
  assumes l: "layout m fdt ts os ot S T" and S: "S = pre @ be32 tg @ post" and "tg \<in> {2, 4, 9}"
    and "length pre mod 4 = 0"
  shows "fdt_next_tag m fdt (int (length pre)) = Some (tg, int (length pre) + 4)"
proof -
  have "talign (length pre + 4) = length pre + 4" using assms(4) by (intro talign_id) simp
  then have "next_tag_end m fdt (int (length pre)) tg (int (length pre + 4)) = Some (tg, int (length pre) + 4)"
    using layout_next_tag_end [OF l, of "length pre" "length pre + 4"] S by simp
  moreover have "u32 tg = tg" using assms(3) by (auto simp: u32_id)
  ultimately show ?thesis using next_tag_start [OF l S] layout_word [OF l S] assms(3)
    by (auto simp: fdt_next_tag_def Let_def)
qed

lemma layout_byte:
  assumes l: "layout m fdt ts os ot S T" and S: "S = pre @ x # post"
  shows "m (fdt + os + int (length pre)) = Some x"
proof -
  have "S = pre @ [x] @ post" using S by simp
  from layout_piece [OF l this] show ?thesis unfolding rd_bytes_iff by simp
qed

lemma skip_name_layout:
  assumes l: "layout m fdt ts os ot S T"
  shows "S = pre @ nm @ [0] @ post \<Longrightarrow> 0 \<notin> set nm \<Longrightarrow>
    skip_name m fdt (int (length pre)) =
      Some (fdt + os + int (length pre + length nm), int (length pre + length nm + 1))"
proof (induction nm arbitrary: pre)
  case Nil
  note l' = layout_fields [OF l]
  have c: "rd m (fdt + os + int (length pre)) = Some 0"
    using layout_byte [OF l, of pre 0 post] Nil by (simp add: rd_def)
  have p: "fdt_offset_ptr m fdt (int (length pre)) 1 = Some (fdt + os + int (length pre))"
    using layout_offset_ptr [OF l, of "length pre" 1] Nil by simp
  have n: "fdt + os + int (length pre) \<noteq> 0" using l' by linarith
  have s: "s32 (int (length pre) + 1) = int (length pre) + 1"
    using l' Nil by (intro s32_id) auto
  show ?case by (subst skip_name.simps) (simp add: c p n s)
next
  case (Cons x nm)
  note l' = layout_fields [OF l]
  have c: "rd m (fdt + os + int (length pre)) = Some (uint x)"
    using layout_byte [OF l, of pre x "nm @ [0] @ post"] Cons.prems by (simp add: rd_def)
  have p: "fdt_offset_ptr m fdt (int (length pre)) 1 = Some (fdt + os + int (length pre))"
    using layout_offset_ptr [OF l, of "length pre" 1] Cons.prems by simp
  have n: "fdt + os + int (length pre) \<noteq> 0" using l' by linarith
  have s: "s32 (int (length pre) + 1) = int (length (pre @ [x]))"
    using l' Cons.prems by (subst s32_id) auto
  have x: "x \<noteq> 0" using Cons.prems(2) by simp
  from Cons.IH [of "pre @ [x]"] Cons.prems
  have "skip_name m fdt (int (length (pre @ [x]))) =
      Some (fdt + os + int (length pre + length (x # nm)), int (length pre + length (x # nm) + 1))"
    by (simp add: ac_simps)
  then show ?case by (subst skip_name.simps) (simp only: c p n s x Option.bind.simps uint_eq_0 if_False if_True not_False_eq_True)
qed

lemma next_tag_begin:
  assumes l: "layout m fdt ts os ot S T" and S: "S = pre @ be32 1 @ nm @ [0] @ post" and "0 \<notin> set nm"
  shows "fdt_next_tag m fdt (int (length pre)) = Some (FDT_BEGIN_NODE, int (talign (length pre + 4 + length nm + 1)))"
proof -
  note l' = layout_fields [OF l]
  have "skip_name m fdt (int (length pre + 4)) =
      Some (fdt + os + int (length pre + 4 + length nm), int (length pre + 4 + length nm + 1))"
    using skip_name_layout [OF l, of "pre @ be32 1" nm post] S assms(3) by simp
  moreover have "fdt + os + int (length pre + 4 + length nm) \<noteq> 0" using l' by linarith
  moreover have "next_tag_end m fdt (int (length pre)) FDT_BEGIN_NODE (int (length pre + 4 + length nm + 1)) =
      Some (FDT_BEGIN_NODE, int (talign (length pre + 4 + length nm + 1)))"
    using S by (intro layout_next_tag_end [OF l]) auto
  ultimately show ?thesis using next_tag_start [OF l S] layout_word [OF l S]
    by (simp add: fdt_next_tag_def Let_def u32_id)
qed

lemma next_tag_prop:
  assumes l: "layout m fdt ts os ot S T" and S: "S = pre @ be32 3 @ be32 (int (length v)) @ be32 no @ v @ post"
  shows "fdt_next_tag m fdt (int (length pre)) = Some (FDT_PROP, int (talign (length pre + 12 + length v)))"
proof -
  note l' = layout_fields [OF l]
  have len: "int (length pre + 12 + length v) \<le> 2147483590" using l' S by simp
  have p: "fdt_offset_ptr m fdt (int (length pre + 4)) 4 = Some (fdt + os + int (length pre + 4))"
    using layout_offset_ptr [OF l, of "length pre + 4" 4] S by simp
  have n: "fdt + os + int (length pre + 4) \<noteq> 0" using l' by linarith
  have w: "fdt32_ld m (fdt + os + int (length pre + 4)) = Some (int (length v))"
    using layout_word [OF l, of "pre @ be32 3" "int (length v)" "be32 no @ v @ post"] S len by (simp add: u32_id)
  have u: "u32 (int (length v) + int (length pre + 4)) = int (length v + length pre + 4)"
    "u32 (int (length pre + 4)) = int (length pre + 4)"
    "s32 (int (length pre + 4) + (12 - 4 + int (length v))) = int (length pre + 12 + length v)"
    using len by (auto simp: u32_id s32_id)
  have "skip_prop m fdt (int (length pre + 4)) = Some (Some (int (length pre + 12 + length v)))"
    unfolding skip_prop_def p Option.bind.simps w Let_def u using n len l'(3) by simp
  moreover have "next_tag_end m fdt (int (length pre)) FDT_PROP (int (length pre + 12 + length v)) =
      Some (FDT_PROP, int (talign (length pre + 12 + length v)))"
    using S by (intro layout_next_tag_end [OF l]) auto
  ultimately show ?thesis using next_tag_start [OF l S] layout_word [OF l S]
    by (simp add: fdt_next_tag_def Let_def u32_id)
qed

section \<open>Names\<close>

lemma layout_get_string:
  assumes l: "layout m fdt ts os ot S T" and n: "name_at T k n"
  shows "fdt_get_string m fdt (int k) = Some (fdt + (int k + ot), int (length n))"
    "str_end m (fdt + (int k + ot)) (length n)" "rd_bytes m (fdt + (int k + ot)) (length n) = Some n"
    "fdt + (int k + ot) \<noteq> NULL"
proof -
  note l' = layout_fields [OF l]
  from n have k: "k + length n < length T" "0 \<notin> set n" by (auto simp: name_at_def)
  let ?s = "fdt + (int k + ot)"
  have b: "m (?s + int i) = Some ((n @ [0]) ! i)" if "i < length n + 1" for i
    using name_at_bytes [OF l n] that unfolding rd_bytes_iff by (simp add: ac_simps)
  have e: "str_end m ?s (length n)"
    unfolding str_end_def
  proof (intro conjI allI impI)
    show "m (?s + int (length n)) = Some 0" using b [of "length n"] by simp
    show "\<exists>b. m (?s + int i) = Some b \<and> b \<noteq> 0" if "i < length n" for i
    proof -
      have "n ! i \<noteq> 0" using nth_mem [OF that] k(2) by metis
      with b [of i] that show ?thesis by (simp add: nth_append)
    qed
  qed
  have mem: "c_memchr m ?s 0 (nat z) = Some (?s + int (length n))" if "int (length n) < z" "z \<le> ts - (int k + ot)" for z
  proof -
    have "mapped m ?s (int (nat z))" using that l' k by (intro mapped_sub [OF l'(13)]) auto
    from c_memchr_0 [OF this] show ?thesis
    proof (elim disjE exE conjE)
      fix j assume "j < nat z" "str_end m ?s j" "c_memchr m ?s 0 (nat z) = Some (?s + int j)"
      with str_end_unique [OF e] show ?thesis by simp
    next
      assume h: "\<forall>i<nat z. \<exists>b. m (?s + int i) = Some b \<and> b \<noteq> 0"
      have "length n < nat z" using that(1) by simp
      with h have "\<exists>b. m (?s + int (length n)) = Some b \<and> b \<noteq> 0" by blast
      with e show ?thesis by (auto simp: str_end_def)
    qed
  qed
  have ne: "?s + int (length n) \<noteq> 0" "?s \<noteq> 0" using l' by linarith+
  have u: "u32 (int k + ot) = int k + ot" "u32 ts = ts" "u32 (int k) = int k"
    "u32 (int (length T) - int k) = int (length T) - int k"
    using l' k by (auto intro!: u32_id)
  have g: "fdt_get_string m fdt (int k) = Some (?s, int (length n))"
    unfolding fdt_get_string_def layout_probe [OF l] Option.bind.simps l' Let_def u
    using l' k mem ne by auto
  have r: "rd_bytes m ?s (length n) = Some n"
    using b by (simp add: rd_bytes_iff nth_append)
  show "fdt_get_string m fdt (int k) = Some (?s, int (length n))" "str_end m ?s (length n)"
    "rd_bytes m ?s (length n) = Some n" "?s \<noteq> NULL" by (fact g e r ne(2))+
qed

lemma layout_string_eq:
  assumes l: "layout m fdt ts os ot S T" and n: "name_at T k n"
  shows "fdt_string_eq m fdt (int k) s = Some (n = s)"
  using layout_get_string [OF assms] by (auto simp: fdt_string_eq_def c_memeq_def)

section \<open>The properties of a node\<close>

text \<open>
  The bytes of a property with name \<open>n\<close> and value \<open>v\<close>; what fills it up to the next word is
  arbitrary. A list of properties is their bytes one after the other, with NOPs anywhere.
\<close>

definition prop_enc :: "byte list \<Rightarrow> byte list \<Rightarrow> byte list \<Rightarrow> byte list \<Rightarrow> bool" where
  "prop_enc T n v b \<longleftrightarrow> (\<exists>k pad. b = be32 FDT_PROP @ be32 (int (length v)) @ be32 (int k) @ v @ pad \<and>
     name_at T k n \<and> length b = 12 + talign (length v))"

inductive props_enc :: "byte list \<Rightarrow> (byte list \<times> byte list) list \<Rightarrow> byte list \<Rightarrow> bool" for T where
  none: "props_enc T [] []"
| prop_first: "prop_enc T n v b \<Longrightarrow> props_enc T ps bs \<Longrightarrow> props_enc T ((n, v) # ps) (b @ bs)"
| nop_first: "props_enc T ps bs \<Longrightarrow> props_enc T ps (be32 FDT_NOP @ bs)"

text \<open>The tag behind the properties: a subnode or the end of the node.\<close>

definition props_end :: "byte list \<Rightarrow> bool" where
  "props_end post \<longleftrightarrow> (\<exists>r. post = be32 FDT_END_NODE @ r) \<or>
     (\<exists>nm r. post = be32 FDT_BEGIN_NODE @ nm @ [0] @ r \<and> 0 \<notin> set nm)"

lemma prop_enc_append: "prop_enc T n v b \<Longrightarrow> prop_enc (T @ T') n v b"
  unfolding prop_enc_def by (blast intro: name_at_append)

lemma props_enc_append: "props_enc T ps bs \<Longrightarrow> props_enc (T @ T') ps bs"
  by (induction rule: props_enc.induct) (auto intro: props_enc.intros prop_enc_append)

lemma prop_enc_length: "prop_enc T n v b \<Longrightarrow> length b mod 4 = 0 \<and> length b = 12 + talign (length v)"
  unfolding prop_enc_def by (auto simp: talign_def mod_add_eq [symmetric] simp del: mod_add_eq)

lemma props_enc_length: "props_enc T ps bs \<Longrightarrow> length bs mod 4 = 0"
  by (induction rule: props_enc.induct) (auto dest!: prop_enc_length simp: mod_add_eq [symmetric])

lemma props_enc_concat: "props_enc T ps bs \<Longrightarrow> props_enc T qs cs \<Longrightarrow> props_enc T (ps @ qs) (bs @ cs)"
  by (induction rule: props_enc.induct) (auto intro: props_enc.intros)

lemma props_enc_single: "prop_enc T n v b \<Longrightarrow> props_enc T [(n, v)] b"
  using props_enc.prop_first [OF _ props_enc.none] by force

lemma next_tag_prop_enc:
  assumes l: "layout m fdt ts os ot S T" and S: "S = pre @ b @ post" and b: "prop_enc T n v b"
    and pre: "length pre mod 4 = 0"
  shows "fdt_next_tag m fdt (int (length pre)) = Some (FDT_PROP, int (length (pre @ b)))"
    "get_property_by_offset m fdt (int (length pre)) = Some (fdt + os + int (length pre), int (length v))"
    "\<exists>k. fdt32_ld m (fdt + os + int (length pre) + 8) = Some (int k) \<and> int k \<le> INT_MAX \<and> name_at T k n"
proof -
  note l' = layout_fields [OF l]
  from b obtain k pad where e: "b = be32 3 @ be32 (int (length v)) @ be32 (int k) @ v @ pad"
    and k: "name_at T k n" and lb: "length b = 12 + talign (length v)" unfolding prop_enc_def by auto
  have S': "S = pre @ be32 3 @ be32 (int (length v)) @ be32 (int k) @ v @ (pad @ post)" using S e by simp
  have "talign (length pre + 12 + length v) = length pre + 12 + talign (length v)"
    using pre unfolding talign_def by presburger
  with next_tag_prop [OF l S'] lb
  show t: "fdt_next_tag m fdt (int (length pre)) = Some (FDT_PROP, int (length (pre @ b)))" by simp
  have v: "u32 (int (length v)) = int (length v)" "s32 (int (length v)) = int (length v)"
    using l' S' by (auto intro!: u32_id s32_id)
  have w: "fdt32_ld m (fdt + os + int (length pre) + 4) = Some (int (length v))"
    using layout_word [OF l, of "pre @ be32 3" "int (length v)"] S' v by (simp add: ac_simps)
  have "fdt_check_prop_offset m fdt (int (length pre)) = Some (int (length (pre @ b)))"
  proof -
    have "int (length pre) mod 4 = 0" using pre by presburger
    with t show ?thesis by (simp add: fdt_check_prop_offset_def)
  qed
  with w v l'(5) show "get_property_by_offset m fdt (int (length pre)) = Some (fdt + os + int (length pre), int (length v))"
    by (simp add: get_property_by_offset_def)
  have "int k \<le> INT_MAX" using k l' by (auto simp: name_at_def)
  moreover have "fdt32_ld m (fdt + os + int (length pre) + 8) = Some (u32 (int k))"
    using layout_word [OF l, of "pre @ be32 3 @ be32 (int (length v))" "int k"] S' by (simp add: ac_simps)
  ultimately show "\<exists>k. fdt32_ld m (fdt + os + int (length pre) + 8) = Some (int k) \<and> int k \<le> INT_MAX \<and> name_at T k n"
    using k by (auto simp: u32_id)
qed

text \<open>The search for a property from the tag at an offset on.\<close>

definition search_from :: "mem \<Rightarrow> addr \<Rightarrow> int \<Rightarrow> byte list \<Rightarrow> (addr \<times> int \<times> int) option" where
  "search_from m fdt offset name = do { off \<leftarrow> nextprop m fdt offset; find_property m fdt off name }"

lemma search_end:
  assumes l: "layout m fdt ts os ot S T" and S: "S = pre @ post" and e: "props_end post"
    and pre: "length pre mod 4 = 0"
  shows "search_from m fdt (int (length pre)) name = Some (NULL, - FDT_ERR_NOTFOUND, 0)"
proof -
  have "\<exists>tag nx. fdt_next_tag m fdt (int (length pre)) = Some (tag, nx) \<and> tag \<in> {FDT_BEGIN_NODE, FDT_END_NODE}"
  proof -
    from e consider r where "post = be32 FDT_END_NODE @ r"
      | nm r where "post = be32 FDT_BEGIN_NODE @ nm @ [0] @ r" "0 \<notin> set nm" unfolding props_end_def by blast
    then show ?thesis
    proof cases
      case 1
      with next_tag_simple [OF l, of pre FDT_END_NODE r] S pre show ?thesis by simp
    next
      case 2
      with next_tag_begin [OF l, of pre nm r] S show ?thesis by simp
    qed
  qed
  then show ?thesis
    unfolding search_from_def by (subst nextprop.simps) (auto simp: find_property.simps)
qed

lemma search_nop:
  assumes l: "layout m fdt ts os ot S T" and S: "S = pre @ be32 FDT_NOP @ post" and pre: "length pre mod 4 = 0"
  shows "search_from m fdt (int (length pre)) name = search_from m fdt (int (length (pre @ be32 FDT_NOP))) name"
  using next_tag_simple [OF l S _ pre] unfolding search_from_def
  by (subst nextprop.simps) (simp add: ac_simps)

lemma search_prop:
  assumes l: "layout m fdt ts os ot S T" and S: "S = pre @ b @ post" and b: "prop_enc T n v b"
    and pre: "length pre mod 4 = 0"
  shows "search_from m fdt (int (length pre)) name =
    (if n = name then Some (fdt + os + int (length pre), int (length v), int (length pre))
     else search_from m fdt (int (length (pre @ b))) name)"
proof -
  note l' = layout_fields [OF l] and t = next_tag_prop_enc [OF assms]
  from t(3) obtain k where k: "fdt32_ld m (fdt + os + int (length pre) + 8) = Some (int k)" "int k \<le> INT_MAX"
    "name_at T k n" by blast
  have s: "s32 (int k) = int k" using k(2) by (intro s32_id) auto
  have ne: "fdt + os + int (length pre) \<noteq> 0" using l' by linarith
  have c: "fdt_check_prop_offset m fdt (int (length pre)) = Some (int (length (pre @ b)))"
  proof -
    have "int (length pre) mod 4 = 0" using pre by presburger
    with t(1) show ?thesis by (simp add: fdt_check_prop_offset_def)
  qed
  have "search_from m fdt (int (length pre)) name = find_property m fdt (int (length pre)) name"
    unfolding search_from_def by (subst nextprop.simps) (simp add: t(1))
  also have "\<dots> = (if n = name then Some (fdt + os + int (length pre), int (length v), int (length pre))
     else do { off \<leftarrow> nextprop m fdt (int (length (pre @ b))); if off < 0 then Some (NULL, off, 0) else find_property m fdt off name })"
    by (subst find_property.simps)
      (simp add: t(2) ne k(1) s layout_string_eq [OF l k(3)] fdt_next_property_offset_def c)
  also have "do { off \<leftarrow> nextprop m fdt (int (length (pre @ b))); if off < 0 then Some (NULL, off, 0) else find_property m fdt off name } =
      search_from m fdt (int (length (pre @ b))) name"
    unfolding search_from_def by (intro Option.bind_cong refl) (simp add: find_property.simps)
  finally show ?thesis .
qed

lemma search_props:
  assumes l: "layout m fdt ts os ot S T" and e: "props_end post"
  shows "props_enc T ps bs \<Longrightarrow> S = pre @ bs @ post \<Longrightarrow> length pre mod 4 = 0 \<Longrightarrow>
    (name \<notin> fst ` set ps \<and> search_from m fdt (int (length pre)) name = Some (NULL, - FDT_ERR_NOTFOUND, 0)) \<or>
    (\<exists>ps1 v ps2 b1 b b2. ps = ps1 @ (name, v) # ps2 \<and> name \<notin> fst ` set ps1 \<and> bs = b1 @ b @ b2 \<and>
       props_enc T ps1 b1 \<and> prop_enc T name v b \<and> props_enc T ps2 b2 \<and>
       search_from m fdt (int (length pre)) name =
         Some (fdt + os + int (length (pre @ b1)), int (length v), int (length (pre @ b1))))"
proof (induction arbitrary: pre rule: props_enc.induct)
  case none
  then show ?case using search_end [OF l _ e] by simp
next
  case (prop_first n v b ps bs)
  have S: "S = pre @ b @ (bs @ post)" using prop_first.prems by simp
  note sp = search_prop [OF l S prop_first.hyps(1) prop_first.prems(2), of name]
  show ?case
  proof (cases "n = name")
    case True
    with sp prop_first.hyps show ?thesis
      by (intro disjI2 exI [of _ "[]"] exI [of _ v] exI [of _ ps] exI [of _ b] exI [of _ bs]) (simp add: props_enc.none)
  next
    case False
    have "length (pre @ b) mod 4 = 0"
      using prop_first.prems(2) prop_enc_length [OF prop_first.hyps(1)] by (simp add: mod_add_eq [symmetric])
    from prop_first.IH [OF _ this] S sp False consider
      "name \<notin> fst ` set ps" "search_from m fdt (int (length pre)) name = Some (NULL, - FDT_ERR_NOTFOUND, 0)"
    | ps1 w ps2 b1 b' b2 where "ps = ps1 @ (name, w) # ps2" "name \<notin> fst ` set ps1" "bs = b1 @ b' @ b2"
       "props_enc T ps1 b1" "prop_enc T name w b'" "props_enc T ps2 b2"
       "search_from m fdt (int (length pre)) name =
         Some (fdt + os + int (length ((pre @ b) @ b1)), int (length w), int (length ((pre @ b) @ b1)))"
      by (auto simp del: length_append)
    then show ?thesis
    proof cases
      case 1
      with False show ?thesis by auto
    next
      case 2
      with False prop_first.hyps(1) show ?thesis
        by (intro disjI2 exI [of _ "(n, v) # ps1"] exI [of _ w] exI [of _ ps2] exI [of _ "b @ b1"] exI [of _ b'] exI [of _ b2])
          (simp add: props_enc.prop_first)
    qed
  qed
next
  case (nop_first ps bs)
  have S: "S = pre @ be32 FDT_NOP @ (bs @ post)" using nop_first.prems by simp
  note sp = search_nop [OF l S nop_first.prems(2), of name]
  have "length (pre @ be32 FDT_NOP) mod 4 = 0" using nop_first.prems(2) by simp
  from nop_first.IH [OF _ this] S sp consider
      "name \<notin> fst ` set ps" "search_from m fdt (int (length pre)) name = Some (NULL, - FDT_ERR_NOTFOUND, 0)"
    | ps1 w ps2 b1 b' b2 where "ps = ps1 @ (name, w) # ps2" "name \<notin> fst ` set ps1" "bs = b1 @ b' @ b2"
       "props_enc T ps1 b1" "prop_enc T name w b'" "props_enc T ps2 b2"
       "search_from m fdt (int (length pre)) name =
         Some (fdt + os + int (length ((pre @ be32 FDT_NOP) @ b1)), int (length w), int (length ((pre @ be32 FDT_NOP) @ b1)))"
    by (auto simp del: length_append)
  then show ?case
  proof cases
    case 1
    then show ?thesis by auto
  next
    case 2
    then show ?thesis
      by (intro disjI2 exI [of _ ps1] exI [of _ w] exI [of _ ps2] exI [of _ "be32 FDT_NOP @ b1"] exI [of _ b'] exI [of _ b2])
        (simp add: props_enc.nop_first)
  qed
qed

section \<open>A node and its properties\<close>

text \<open>
  A tree seen from one of its nodes: \<open>pre\<close> are the bytes of the structure block before the node, \<open>he\<close>
  its tag and name, \<open>ps\<close> its properties, \<open>post\<close> the bytes from its first subnode or its end on.
\<close>

definition node_head :: "byte list \<Rightarrow> byte list \<Rightarrow> bool" where
  "node_head nm he \<longleftrightarrow> (\<exists>pad. he = be32 FDT_BEGIN_NODE @ nm @ [0] @ pad \<and> 0 \<notin> set nm \<and>
     length he = 4 + talign (length nm + 1))"

definition node_view ::
  "mem \<Rightarrow> addr \<Rightarrow> int \<Rightarrow> int \<Rightarrow> int \<Rightarrow> byte list \<Rightarrow> byte list \<Rightarrow> (byte list \<times> byte list) list \<Rightarrow> byte list \<Rightarrow> byte list \<Rightarrow> bool" where
  "node_view m fdt ts os ot pre he ps post T \<longleftrightarrow>
     (\<exists>bs nm. layout m fdt ts os ot (pre @ he @ bs @ post) T \<and> length pre mod 4 = 0 \<and> node_head nm he \<and>
        props_enc T ps bs \<and> props_end post)"

lemma node_head_length: "node_head nm he \<Longrightarrow> length he mod 4 = 0"
  unfolding node_head_def by (auto simp: talign_def mod_add_eq [symmetric] simp del: mod_add_eq)

lemma node_check_offset:
  assumes l: "layout m fdt ts os ot S T" and S: "S = pre @ he @ post" and he: "node_head nm he"
    and pre: "length pre mod 4 = 0"
  shows "fdt_check_node_offset m fdt (int (length pre)) = Some (int (length (pre @ he)))"
    "fdt_next_tag m fdt (int (length pre)) = Some (FDT_BEGIN_NODE, int (length (pre @ he)))"
proof -
  from he obtain pad where e: "he = be32 1 @ nm @ [0] @ pad" "0 \<notin> set nm" "length he = 4 + talign (length nm + 1)"
    unfolding node_head_def by blast
  have S': "S = pre @ be32 1 @ nm @ [0] @ (pad @ post)" using S e by simp
  have "talign (length pre + 4 + length nm + 1) = length pre + 4 + talign (length nm + 1)"
    using pre unfolding talign_def by presburger
  with next_tag_begin [OF l S' e(2)] e(3)
  show t: "fdt_next_tag m fdt (int (length pre)) = Some (FDT_BEGIN_NODE, int (length (pre @ he)))" by simp
  have "int (length pre) mod 4 = 0" using pre by presburger
  with t show "fdt_check_node_offset m fdt (int (length pre)) = Some (int (length (pre @ he)))"
    by (simp add: fdt_check_node_offset_def)
qed

lemma nextprop_c_int_ge:
  assumes "nextprop m fdt x = Some y" and "0 \<le> y"
  shows "0 \<le> x"
  using assms nextprop_forward [of m fdt x y] by linarith

lemma node_search:
  assumes l: "layout m fdt ts os ot S T" and S: "S = pre @ he @ post" and he: "node_head nm he"
    and pre: "length pre mod 4 = 0"
  shows "get_property_namelen m fdt (int (length pre)) name = search_from m fdt (int (length (pre @ he))) name"
  using node_check_offset [OF assms] unfolding get_property_namelen_def search_from_def
  by (simp add: fdt_first_property_offset_def)

text \<open>A node view and a name: the property is not there, or it is there and this is its place.\<close>

lemma node_view_cases:
  assumes "node_view m fdt ts os ot pre he ps post T"
  obtains (missing) bs nm where "layout m fdt ts os ot (pre @ he @ bs @ post) T" "node_head nm he" "props_enc T ps bs"
      "name \<notin> fst ` set ps" "get_property_namelen m fdt (int (length pre)) name = Some (NULL, - FDT_ERR_NOTFOUND, 0)"
  | (found) nm ps1 v ps2 b1 b b2 where "layout m fdt ts os ot (pre @ he @ b1 @ b @ b2 @ post) T" "node_head nm he"
      "ps = ps1 @ (name, v) # ps2" "name \<notin> fst ` set ps1" "props_enc T ps1 b1" "prop_enc T name v b" "props_enc T ps2 b2"
      "get_property_namelen m fdt (int (length pre)) name =
         Some (fdt + os + int (length (pre @ he @ b1)), int (length v), int (length (pre @ he @ b1)))"
proof -
  from assms obtain bs nm where v: "layout m fdt ts os ot (pre @ he @ bs @ post) T" "length pre mod 4 = 0"
    "node_head nm he" "props_enc T ps bs" "props_end post" unfolding node_view_def by (elim exE conjE) (rule that)
  have pre: "length (pre @ he) mod 4 = 0" using v(2) node_head_length [OF v(3)] by (simp add: mod_add_eq [symmetric])
  note g = node_search [OF v(1) refl v(3,2), of name]
  have S: "pre @ he @ bs @ post = (pre @ he) @ bs @ post" by simp
  from search_props [OF v(1,5,4) S pre, of name] show thesis
  proof (elim disjE exE conjE)
    assume "name \<notin> fst ` set ps" "search_from m fdt (int (length (pre @ he))) name = Some (NULL, - FDT_ERR_NOTFOUND, 0)"
    with missing v g show thesis by simp
  next
    fix ps1 w ps2 b1 b b2
    assume a: "ps = ps1 @ (name, w) # ps2" "name \<notin> fst ` set ps1" "bs = b1 @ b @ b2"
       "props_enc T ps1 b1" "prop_enc T name w b" "props_enc T ps2 b2"
       "search_from m fdt (int (length (pre @ he))) name =
         Some (fdt + os + int (length ((pre @ he) @ b1)), int (length w), int (length ((pre @ he) @ b1)))"
    show thesis using a v g by (intro found [of b1 b b2 nm ps1 w ps2]) simp_all
  qed
qed

lemma prop_enc_value:
  assumes l: "layout m fdt ts os ot S T" and S: "S = pre @ b @ post" and b: "prop_enc T n v b"
  shows "rd_bytes m (fdt + os + int (length pre) + 12) (length v) = Some v"
proof -
  from b obtain k pad where e: "b = be32 3 @ be32 (int (length v)) @ be32 (int k) @ v @ pad"
    unfolding prop_enc_def by auto
  have "S = (pre @ be32 3 @ be32 (int (length v)) @ be32 (int k)) @ v @ (pad @ post)" using S e by simp
  from layout_piece [OF l this] show ?thesis by (simp add: ac_simps)
qed

text \<open>\<open>fdt_getprop\<close> is the lookup of a name in the list of properties.\<close>

lemma node_view_getprop:
  assumes "node_view m fdt ts os ot pre he ps post T"
  shows "case map_of ps name of
      None \<Rightarrow> fdt_getprop m fdt (int (length pre)) name = Some (NULL, - FDT_ERR_NOTFOUND)
    | Some v \<Rightarrow> \<exists>p. p \<noteq> NULL \<and> fdt_getprop m fdt (int (length pre)) name = Some (p, int (length v)) \<and>
        rd_bytes m p (length v) = Some v"
  using assms
proof (cases rule: node_view_cases [where name = name])
  case (missing bs nm)
  then have "map_of ps name = None" by (simp add: map_of_eq_None_iff)
  with missing show ?thesis by (simp add: fdt_getprop_def)
next
  case (found nm ps1 v ps2 b1 b b2)
  note l' = layout_fields [OF found(1)]
  have m: "map_of ps name = Some v"
  proof -
    have "map_of ps1 name = None" using found(4) by (simp add: map_of_eq_None_iff)
    then show ?thesis using found(3) by (simp add: map_add_def)
  qed
  let ?p = "fdt + os + int (length (pre @ he @ b1))"
  have S: "pre @ he @ b1 @ b @ b2 @ post = (pre @ he @ b1) @ b @ (b2 @ post)" by simp
  have ne: "?p \<noteq> 0" "?p + 12 \<noteq> 0" using l' by linarith+
  from found(6) obtain k pad where e: "b = be32 3 @ be32 (int (length v)) @ be32 (int k) @ v @ pad"
    unfolding prop_enc_def by auto
  have "fdt32_ld m (?p + 4) = Some (u32 (int (length v)))"
    using layout_word [OF found(1), of "pre @ he @ b1 @ be32 3" "int (length v)"] e by (simp add: ac_simps)
  with found(8) ne l'(3) have "fdt_getprop m fdt (int (length pre)) name = Some (?p + 12, int (length v))"
    by (simp add: fdt_getprop_def prop_data_def)
  with m ne prop_enc_value [OF found(1) S found(6)] show ?thesis by simp
qed

end
