(* ===== verification/Fdt_Edit.thy ===== *)
theory Fdt_Edit
  imports Fdt_Encode "HOL-Library.AList"
begin

text \<open>
  What the operations of \<open>fdt_rw.c\<close> and \<open>fdt_wip.c\<close> do on a node view: the list of the properties is
  updated, everything before and behind them stays as it is.
\<close>

section \<open>Writes into the structure block\<close>

text \<open>\<open>fdt_splice_struct_\<close> on a block that is cut at the piece that is replaced.\<close>

lemma splice_pieces:
  assumes l: "layout m fdt ts os ot (pre @ old @ post) T" and small: "int n \<le> INT_MAX"
  shows "(\<exists>m' gap. fdt_splice_struct m fdt (fdt + os + int (length pre)) (int (length old)) (int n) = Some (0, m') \<and>
      length gap = n \<and> layout m' fdt ts os (ot - int (length old) + int n) (pre @ gap @ post) T \<and> kept m m' fdt os ts \<and>
      rd_bytes m (fdt + os + int (length pre)) n = Some gap) \<or>
    fdt_splice_struct m fdt (fdt + os + int (length pre)) (int (length old)) (int n) = Some (- FDT_ERR_NOSPACE, m) \<and>
      ot + int (length T) - int (length old) + int n > ts"
proof (cases "ot + int (length T) - int (length old) + int n > ts")
  case True
  with splice_struct_full [OF l _ small, of "length pre" "length old"] show ?thesis by simp
next
  case False
  with splice_struct_ok [OF l _ _ small, of "length pre" "length old"] show ?thesis by auto
qed

lemma layout_wr:
  assumes l: "layout m fdt ts os ot (pre @ old @ post) T" and n: "length new = length old"
  shows "\<exists>m'. wr m (fdt + os + int (length pre)) new = Some m' \<and> layout m' fdt ts os ot (pre @ new @ post) T \<and>
    kept m m' fdt os ts"
proof -
  note l' = layout_fields [OF l]
  let ?p = "fdt + os + int (length pre)"
  define m' where "m' = put_bytes m ?p new"
  have w: "wr m ?p new = Some m'"
    unfolding m'_def using l' n by (intro wr_ok mapped_sub [OF l'(13)]) auto
  have hdr: "fdt32_ld m' (fdt + j) = fdt32_ld m (fdt + j)" if "0 \<le> j" "j \<le> 36" for j
    unfolding m'_def using that l' by (intro fdt32_ld_put_other) auto
  have hdr0: "fdt32_ld m' fdt = fdt32_ld m fdt" using hdr [of 0] by simp
  have s: "rd_bytes m' (fdt + os) (length pre + (length new + length post)) = Some (pre @ (new @ post))"
  proof (intro rd_bytes_append)
    show "rd_bytes m' (fdt + os) (length pre) = Some pre"
      using layout_piece [OF l, of "[]" pre "old @ post"] unfolding m'_def by (subst rd_put_bytes_other) auto
    show "rd_bytes m' (fdt + os + int (length pre)) (length new) = Some new"
      unfolding m'_def by (rule rd_put_bytes)
    show "rd_bytes m' (fdt + os + int (length pre) + int (length new)) (length post) = Some post"
      using layout_piece [OF l, of "pre @ old" post "[]"] n unfolding m'_def
      by (subst rd_put_bytes_other) (auto simp: ac_simps)
  qed
  have t: "rd_bytes m' (fdt + ot) (length T) = Some T"
    using l' n by (simp add: m'_def rd_put_bytes_other)
  have "layout m' fdt ts os ot (pre @ new @ post) T"
    using l s t hdr hdr0 l' n unfolding layout_def
    by (simp add: fdt_magic_def fdt_version_def fdt_totalsize_def fdt_last_comp_version_def fdt_off_dt_struct_def
        fdt_off_dt_strings_def fdt_size_dt_struct_def fdt_size_dt_strings_def fdt_off_mem_rsvmap_def mapped_put_bytes m'_def)
  moreover have "kept m m' fdt os ts" unfolding m'_def using l' n by (intro kept_put) auto
  ultimately show ?thesis using w by blast
qed

lemma layout_st:
  assumes l: "layout m fdt ts os ot (pre @ old @ post) T" and n: "length old = 4"
  shows "\<exists>m'. fdt32_st m (fdt + os + int (length pre)) v = Some m' \<and> layout m' fdt ts os ot (pre @ be32 v @ post) T \<and>
    kept m m' fdt os ts"
  using layout_wr [OF l, of "be32 v"] n by (simp add: fdt32_st_def)

text \<open>The rollback of an appended name.\<close>

lemma del_last_string_ok:
  assumes l: "layout m fdt ts os ot S (T @ s @ [0])"
  shows "\<exists>m'. fdt_del_last_string m fdt s = Some m' \<and> layout m' fdt ts os ot S T \<and> kept m m' fdt os ts"
proof -
  note l' = layout_fields [OF l]
  define m' where "m' = put_bytes m (fdt + 32) (be32 (int (length T)))"
  have "s32 (int (length s) + 1) = int (length s) + 1" using l' by (intro s32_id) auto
  moreover have "u32 (int (length (T @ s @ [0])) - (int (length s) + 1)) = int (length T)"
    using l' by (subst u32_id) auto
  ultimately have d: "fdt_del_last_string m fdt s = Some m'"
    using l' mapped_sub [OF l'(13), of "fdt + 32" 4]
    by (simp add: fdt_del_last_string_def fdt_set_size_dt_strings_def fdt32_st_ok m'_def)
  have hdr: "fdt32_ld m' (fdt + j) = fdt32_ld m (fdt + j)" if "j \<in> {4, 8, 12, 16, 20, 24, 36}" for j
    using that by (auto simp: m'_def fdt32_ld_put_other)
  have hdr0: "fdt32_ld m' fdt = fdt32_ld m fdt" by (simp add: m'_def fdt32_ld_put_other)
  have new: "fdt32_ld m' (fdt + 32) = Some (int (length T))" using l' by (simp add: m'_def fdt32_ld_put u32_id)
  have s: "rd_bytes m' (fdt + os) (length S) = Some S" using l' by (simp add: m'_def rd_put_bytes_other)
  have "rd_bytes m (fdt + ot) (length T) = Some T"
    using layout_string [OF l, of "[]" T "s @ [0]"] by simp
  then have t: "rd_bytes m' (fdt + ot) (length T) = Some T" using l' by (simp add: m'_def rd_put_bytes_other)
  have "layout m' fdt ts os ot S T"
    using l s t hdr hdr0 new l' unfolding layout_def
    by (simp add: fdt_magic_def fdt_version_def fdt_totalsize_def fdt_last_comp_version_def fdt_off_dt_struct_def
        fdt_off_dt_strings_def fdt_size_dt_struct_def fdt_size_dt_strings_def fdt_off_mem_rsvmap_def mapped_put_bytes m'_def)
  moreover have "kept m m' fdt os ts" unfolding m'_def using l' by (intro kept_put) auto
  ultimately show ?thesis using d by blast
qed

section \<open>Setting a property\<close>

text \<open>A new property comes first, an old one keeps its place.\<close>

definition set_prop :: "byte list \<Rightarrow> byte list \<Rightarrow> (byte list \<times> byte list) list \<Rightarrow> (byte list \<times> byte list) list" where
  "set_prop name v ps = (if name \<in> fst ` set ps then AList.update name v ps else (name, v) # ps)"

lemma map_of_set_prop: "map_of (set_prop name v ps) = (map_of ps)(name \<mapsto> v)"
  by (simp add: set_prop_def update_conv')

lemma set_prop_split:
  "name \<notin> fst ` set ps1 \<Longrightarrow> set_prop name w (ps1 @ (name, v) # ps2) = ps1 @ (name, w) # ps2"
proof -
  assume "name \<notin> fst ` set ps1"
  then have "AList.update name w (ps1 @ (name, v) # ps2) = ps1 @ (name, w) # ps2"
    by (induction ps1) auto
  then show ?thesis by (simp add: set_prop_def)
qed

lemma talign_int: "int n \<le> 2147483600 \<Longrightarrow> s32 (12 + (int n + 3) div 4 * 4) = 12 + int (talign n)"
proof -
  assume "int n \<le> 2147483600"
  moreover have "(int n + 3) div 4 * 4 = int (talign n)" by (simp add: talign_def zdiv_int)
  moreover have "talign n < n + 4" by (rule talign_bounds)
  ultimately show ?thesis by (subst s32_id) auto
qed

lemma length_split: "length xs = a + b \<Longrightarrow> \<exists>ys zs. xs = ys @ zs \<and> length ys = a \<and> length zs = b"
  by (intro exI [of _ "take a xs"] exI [of _ "drop a xs"]) simp

text \<open>Resizing the value of a property that is there.\<close>

text \<open>Writing the length and the value of a property whose value has been resized.\<close>

lemma fill_prop:
  assumes l: "layout m fdt ts os ot (pre @ be32 FDT_PROP @ be32 x @ be32 (int k) @ gap @ post) T" and k: "name_at T k n"
    and gap: "length gap = talign (length val)"
  shows "\<exists>m1 m2 b. fdt32_st m (fdt + os + int (length pre) + 4) (int (length val)) = Some m1 \<and>
    wr m1 (fdt + os + int (length pre) + 12) val = Some m2 \<and> prop_enc T n val b \<and>
    layout m2 fdt ts os ot (pre @ b @ post) T \<and> kept m m2 fdt os ts"
proof -
  from layout_st [of m fdt ts os ot "pre @ be32 FDT_PROP" "be32 x" "be32 (int k) @ gap @ post" T "int (length val)"] l
  obtain m1 where m1: "fdt32_st m (fdt + os + int (length pre) + 4) (int (length val)) = Some m1"
    "layout m1 fdt ts os ot (pre @ be32 FDT_PROP @ be32 (int (length val)) @ be32 (int k) @ gap @ post) T" "kept m m1 fdt os ts"
    by (auto simp: ac_simps)
  from length_split [of gap "length val" "length gap - length val"] gap talign_bounds(1) [of "length val"]
  obtain g1 pad where g: "gap = g1 @ pad" "length g1 = length val" by auto
  from m1(2) g have "layout m1 fdt ts os ot ((pre @ be32 FDT_PROP @ be32 (int (length val)) @ be32 (int k)) @ g1 @ (pad @ post)) T" by simp
  from layout_wr [OF this, of val] g(2)
  obtain m2 where m2: "wr m1 (fdt + os + int (length pre) + 12) val = Some m2"
    "layout m2 fdt ts os ot (pre @ (be32 FDT_PROP @ be32 (int (length val)) @ be32 (int k) @ val @ pad) @ post) T" "kept m1 m2 fdt os ts"
    by (auto simp: ac_simps)
  have "prop_enc T n val (be32 FDT_PROP @ be32 (int (length val)) @ be32 (int k) @ val @ pad)"
    unfolding prop_enc_def using k g gap by (intro exI [of _ k] exI [of _ pad]) auto
  with m1 m2 kept_trans [OF m1(3) m2(3)] show ?thesis by blast
qed

lemma copy_in_all: "copy_in m p val (int (length val)) = wr m p val"
  by (simp add: copy_in_def)

lemma wr_Nil: "wr m p [] = Some m"
proof -
  have "put_bytes m p [] = m" by (rule ext) (auto simp: put_bytes_def)
  then show ?thesis by (simp add: wr_def)
qed

lemma get_property_layout:
  "layout m fdt ts os ot S T \<Longrightarrow> fdt_get_property m fdt off name =
     do { (prop, len, poffset) \<leftarrow> get_property_namelen m fdt off name; Some (prop, len) }"
  using layout_fields(3) by (simp add: fdt_get_property_def)

text \<open>The property is there.\<close>

lemma setprop_found:
  assumes l: "layout m fdt ts os ot (pre @ b @ post) T" and b: "prop_enc T name v b"
    and g: "get_property_namelen m fdt off name = Some (fdt + os + int (length pre), int (length v), po)"
    and len: "int (length val) \<le> 2147483600"
  shows "(\<exists>m' b'. fdt_setprop m fdt off name val (int (length val)) = Some (0, m') \<and> kept m m' fdt os ts \<and>
      prop_enc T name val b' \<and>
      layout m' fdt ts os (ot - int (talign (length v)) + int (talign (length val))) (pre @ b' @ post) T) \<or>
    fdt_setprop m fdt off name val (int (length val)) = Some (- FDT_ERR_NOSPACE, m) \<and>
      ot + int (length T) - int (talign (length v)) + int (talign (length val)) > ts"
proof -
  note l' = layout_fields [OF l]
  from b obtain k pad where e: "b = be32 3 @ be32 (int (length v)) @ be32 (int k) @ v @ pad"
    and k: "name_at T k name" and lb: "length (v @ pad) = talign (length v)" unfolding prop_enc_def by auto
  let ?S = "pre @ b @ post" and ?h = "be32 3 @ be32 (int (length v)) @ be32 (int k)"
  have al: "FDT_TAGALIGN (int (length v)) = int (talign (length v))" "FDT_TAGALIGN (int (length val)) = int (talign (length val))"
    using l' e len by (auto intro!: FDT_TAGALIGN_nat)
  have small: "int (talign (length val)) \<le> INT_MAX" using talign_bounds(2) [of "length val"] len by linarith
  have ne: "fdt + os + int (length pre) \<noteq> 0" using l' by linarith
  have p: "fdt + os + int (length pre) + 12 = fdt + os + int (length (pre @ ?h))" by simp
  have u: "u32 (int (length val)) = int (length val)" using len by (intro u32_id) auto
  note red = fdt_setprop_def fdt_setprop_namelen_def fdt_setprop_placeholder_namelen_def fdt_resize_property_def
    layout_rw_probe [OF l] get_property_layout [OF l] g
  have "layout m fdt ts os ot ((pre @ ?h) @ (v @ pad) @ post) T" using l e by simp
  from splice_pieces [OF this small] show ?thesis
  proof (elim disjE exE conjE)
    assume full: "fdt_splice_struct m fdt (fdt + os + int (length (pre @ ?h))) (int (length (v @ pad))) (int (talign (length val))) =
        Some (- FDT_ERR_NOSPACE, m)" "ot + int (length T) - int (length (v @ pad)) + int (talign (length val)) > ts"
    then have "fdt_splice_struct m fdt (fdt + os + int (length pre) + 12) (FDT_TAGALIGN (int (length v))) (FDT_TAGALIGN (int (length val))) =
        Some (- FDT_ERR_NOSPACE, m)"
      unfolding al p lb by blast
    then have "fdt_setprop m fdt off name val (int (length val)) = Some (- FDT_ERR_NOSPACE, m)"
      using ne by (simp add: red)
    with full lb show ?thesis by simp
  next
    fix m0 gap
    assume "fdt_splice_struct m fdt (fdt + os + int (length (pre @ ?h))) (int (length (v @ pad))) (int (talign (length val))) = Some (0, m0)"
      and gap: "length gap = talign (length val)"
      and l0: "layout m0 fdt ts os (ot - int (length (v @ pad)) + int (talign (length val))) ((pre @ ?h) @ gap @ post) T"
      and k0: "kept m m0 fdt os ts"
    then have sp: "fdt_splice_struct m fdt (fdt + os + int (length pre) + 12) (FDT_TAGALIGN (int (length v))) (FDT_TAGALIGN (int (length val))) =
        Some (0, m0)"
      unfolding al p lb by simp
    from l0 have "layout m0 fdt ts os (ot - int (talign (length v)) + int (talign (length val)))
        (pre @ be32 3 @ be32 (int (length v)) @ be32 (int k) @ gap @ post) T" unfolding lb by simp
    from fill_prop [OF this k gap] obtain m1 m2 b' where f:
      "fdt32_st m0 (fdt + os + int (length pre) + 4) (int (length val)) = Some m1"
      "wr m1 (fdt + os + int (length pre) + 12) val = Some m2" "prop_enc T name val b'"
      "layout m2 fdt ts os (ot - int (talign (length v)) + int (talign (length val))) (pre @ b' @ post) T" "kept m0 m2 fdt os ts" by blast
    have "fdt_setprop m fdt off name val (int (length val)) = Some (0, m2)"
      using ne sp f(1,2) by (auto simp: red u copy_in_all wr_Nil)
    with f kept_trans [OF k0 f(5)] show ?thesis by blast
  qed
qed

text \<open>A property is added behind the name of the node.\<close>

lemma add_property_ok:
  assumes l: "layout m fdt ts os ot (pre @ he @ post) T" and he: "node_head nm he" and pre: "length pre mod 4 = 0"
    and name: "0 \<notin> set name" "int (length name) < INT_MAX" and len: "int len \<le> 2147483600"
  shows "(\<exists>m' ot' T' k gap. fdt_add_property m fdt (int (length pre)) name (length name) (int len) =
        Some (0, fdt + os + int (length (pre @ he)), m') \<and> kept m m' fdt os ts \<and> name_at (T @ T') k name \<and>
      length gap = talign len \<and>
      layout m' fdt ts os ot' (pre @ he @ be32 FDT_PROP @ be32 (int len) @ be32 (int k) @ gap @ post) (T @ T')) \<or>
    (\<exists>m' p. fdt_add_property m fdt (int (length pre)) name (length name) (int len) = Some (- FDT_ERR_NOSPACE, p, m') \<and>
      kept m m' fdt os ts \<and> layout m' fdt ts os ot (pre @ he @ post) T)"
proof -
  note l' = layout_fields [OF l]
  note nx = node_check_offset(1) [OF l refl he pre]
  let ?f = "fdt_add_property m fdt (int (length pre)) name (length name) (int len)"
  have pl: "s32 (12 + (int len + 3) div 4 * 4) = int (12 + talign len)" using talign_int [OF len] by simp
  have small: "int (12 + talign len) \<le> INT_MAX" using talign_bounds(2) [of len] len by linarith
  have ul: "u32 (int len) = int len" using len by (intro u32_id) auto
  from find_add_string_ok [OF l name] show ?thesis
  proof (elim disjE exE conjE)
    assume "fdt_find_add_string m fdt name = Some (- FDT_ERR_NOSPACE, False, m)"
    with nx l show ?thesis by (simp add: fdt_add_property_def)
  next
    fix k a m1 T'
    assume fa: "fdt_find_add_string m fdt name = Some (int k, a, m1)" and l1: "layout m1 fdt ts os ot (pre @ he @ post) (T @ T')"
      and k: "name_at (T @ T') k name" "int k \<le> INT_MAX" and k1: "kept m m1 fdt os ts"
      and T': "T' = (if a then name @ [0] else [])"
    note l1' = layout_fields [OF l1]
    have uk: "u32 (int k) = int k" using k(2) by (intro u32_id) auto
    have p: "fdt + os + int (length (pre @ he)) = fdt + os + int (length pre + length he)" by simp
    from l1 have "layout m1 fdt ts os ot ((pre @ he) @ [] @ post) (T @ T')" by simp
    from splice_pieces [OF this small] show ?thesis
    proof (elim disjE exE conjE)
      assume sp: "fdt_splice_struct m1 fdt (fdt + os + int (length (pre @ he))) (int (length ([] :: byte list))) (int (12 + talign len)) =
          Some (- FDT_ERR_NOSPACE, m1)"
      show ?thesis
      proof (cases a)
        case True
        then have l2: "layout m1 fdt ts os ot (pre @ he @ post) (T @ name @ [0])" using l1 T' by simp
        from del_last_string_ok [OF l2] obtain m2 where m2: "fdt_del_last_string m1 fdt name = Some m2"
          "layout m2 fdt ts os ot (pre @ he @ post) T" "kept m1 m2 fdt os ts" by blast
        have "?f = Some (- FDT_ERR_NOSPACE, fdt + os + int (length (pre @ he)), m2)"
          using nx fa sp l1' m2(1) True pl by (simp add: fdt_add_property_def Let_def)
        with m2 kept_trans [OF k1 m2(3)] show ?thesis by blast
      next
        case False
        then have "?f = Some (- FDT_ERR_NOSPACE, fdt + os + int (length (pre @ he)), m1)"
          using nx fa sp l1' pl by (simp add: fdt_add_property_def Let_def)
        with False T' l1 k1 show ?thesis by auto
      qed
    next
      fix m2 g
      assume sp: "fdt_splice_struct m1 fdt (fdt + os + int (length (pre @ he))) (int (length ([] :: byte list))) (int (12 + talign len)) = Some (0, m2)"
        and g: "length g = 12 + talign len" and k2: "kept m1 m2 fdt os ts"
        and l2: "layout m2 fdt ts os (ot - int (length ([] :: byte list)) + int (12 + talign len)) ((pre @ he) @ g @ post) (T @ T')"
      let ?ot = "ot + int (12 + talign len)"
      from length_split [of g 4 "8 + talign len"] g obtain g1 r1 where r1: "g = g1 @ r1" "length g1 = 4" "length r1 = 8 + talign len" by auto
      from length_split [of r1 4 "4 + talign len"] r1 obtain g2 r2 where r2: "r1 = g2 @ r2" "length g2 = 4" "length r2 = 4 + talign len" by auto
      from length_split [of r2 4 "talign len"] r2 obtain g3 gap where r3: "r2 = g3 @ gap" "length g3 = 4" "length gap = talign len" by auto
      from l2 r1(1) r2(1) r3(1) have "layout m2 fdt ts os ?ot ((pre @ he) @ g1 @ (g2 @ g3 @ gap @ post)) (T @ T')" by simp
      from layout_st [OF this r1(2), of FDT_PROP] obtain m3 where
        m3: "fdt32_st m2 (fdt + os + int (length (pre @ he))) FDT_PROP = Some m3" "kept m2 m3 fdt os ts"
          "layout m3 fdt ts os ?ot ((pre @ he @ be32 FDT_PROP @ g2) @ g3 @ (gap @ post)) (T @ T')" by auto
      from layout_st [OF m3(3) r3(2), of "int k"] r2(2) obtain m4 where
        m4: "fdt32_st m3 (fdt + os + int (length (pre @ he)) + 8) (int k) = Some m4" "kept m3 m4 fdt os ts"
          "layout m4 fdt ts os ?ot ((pre @ he @ be32 FDT_PROP) @ g2 @ (be32 (int k) @ gap @ post)) (T @ T')"
        by (auto simp: ac_simps)
      from layout_st [OF m4(3) r2(2), of "int len"] obtain m5 where
        m5: "fdt32_st m4 (fdt + os + int (length (pre @ he)) + 4) (int len) = Some m5" "kept m4 m5 fdt os ts"
          "layout m5 fdt ts os ?ot (pre @ he @ be32 FDT_PROP @ be32 (int len) @ be32 (int k) @ gap @ post) (T @ T')"
        by (auto simp: ac_simps)
      have "?f = Some (0, fdt + os + int (length (pre @ he)), m5)"
        using nx fa sp l1' pl m3(1) m4(1) m5(1) uk ul by (simp add: fdt_add_property_def Let_def)
      moreover have "kept m m5 fdt os ts"
        by (rule kept_trans [OF k1 kept_trans [OF k2 kept_trans [OF m3(2) kept_trans [OF m4(2) m5(2)]]]])
      ultimately show ?thesis using k(1) m5(3) r3(3) by blast
    qed
  qed
qed

text \<open>\<open>fdt_setprop\<close> on a node: the new list of properties, or no space and the old one.\<close>

lemma node_view_setprop:
  assumes v: "node_view m fdt ts os ot pre he ps post T"
    and name: "0 \<notin> set name" "int (length name) < INT_MAX" and len: "int (length val) \<le> 2147483600"
  shows "\<exists>e m' ot' T'. fdt_setprop m fdt (int (length pre)) name val (int (length val)) = Some (e, m') \<and> kept m m' fdt os ts \<and>
    (e = 0 \<and> node_view m' fdt ts os ot' pre he (set_prop name val ps) post (T @ T') \<or>
     e = - FDT_ERR_NOSPACE \<and> node_view m' fdt ts os ot pre he ps post T)"
proof -
  from v have pre: "length pre mod 4 = 0" and pe: "props_end post" unfolding node_view_def by blast+
  let ?f = "fdt_setprop m fdt (int (length pre)) name val (int (length val))"
  from v show ?thesis
  proof (cases rule: node_view_cases [where name = name])
    case (found nm ps1 w ps2 b1 b b2)
    from found(1) have l: "layout m fdt ts os ot ((pre @ he @ b1) @ b @ (b2 @ post)) T" by simp
    from setprop_found [OF l found(6,8) len] show ?thesis
    proof (elim disjE exE conjE)
      fix m' b'
      assume r: "?f = Some (0, m')" "kept m m' fdt os ts" "prop_enc T name val b'"
        "layout m' fdt ts os (ot - int (talign (length w)) + int (talign (length val))) ((pre @ he @ b1) @ b' @ b2 @ post) T"
      have "props_enc T (ps1 @ (name, val) # ps2) (b1 @ b' @ b2)"
        by (rule props_enc_concat [OF found(5) props_enc.prop_first [OF r(3) found(7)]])
      moreover have "set_prop name val ps = ps1 @ (name, val) # ps2"
        unfolding found(3) by (rule set_prop_split [OF found(4)])
      ultimately have "node_view m' fdt ts os (ot - int (talign (length w)) + int (talign (length val))) pre he (set_prop name val ps) post (T @ [])"
        unfolding node_view_def using r(4) pre pe found(2)
        by (intro exI [of _ "b1 @ b' @ b2"] exI [of _ nm]) simp
      with r(1,2) show ?thesis by blast
    qed (use v in auto)
  next
    case (missing bs nm)
    note red = fdt_setprop_def fdt_setprop_namelen_def fdt_setprop_placeholder_namelen_def fdt_resize_property_def
      layout_rw_probe [OF missing(1)] get_property_layout [OF missing(1)] missing(5)
    from add_property_ok [OF missing(1,2) pre name len] show ?thesis
    proof (elim disjE exE conjE)
      fix m' p
      assume r: "fdt_add_property m fdt (int (length pre)) name (length name) (int (length val)) = Some (- FDT_ERR_NOSPACE, p, m')"
        "kept m m' fdt os ts" "layout m' fdt ts os ot (pre @ he @ bs @ post) T"
      have "?f = Some (- FDT_ERR_NOSPACE, m')" using r(1) by (simp add: red)
      moreover have "node_view m' fdt ts os ot pre he ps post T"
        unfolding node_view_def using r(3) pre pe missing by (intro exI [of _ bs] exI [of _ nm]) simp
      ultimately show ?thesis using r(2) by blast
    next
      fix m' ot' T' k gap
      assume r: "fdt_add_property m fdt (int (length pre)) name (length name) (int (length val)) =
          Some (0, fdt + os + int (length (pre @ he)), m')" "kept m m' fdt os ts" "name_at (T @ T') k name" "length gap = talign (length val)"
        "layout m' fdt ts os ot' (pre @ he @ be32 FDT_PROP @ be32 (int (length val)) @ be32 (int k) @ gap @ bs @ post) (T @ T')"
      from length_split [of gap "length val" "length gap - length val"] r(4) talign_bounds(1) [of "length val"]
      obtain g1 pad where g: "gap = g1 @ pad" "length g1 = length val" by auto
      let ?h = "be32 FDT_PROP @ be32 (int (length val)) @ be32 (int k)"
      from r(5) g have "layout m' fdt ts os ot' ((pre @ he @ ?h) @ g1 @ (pad @ bs @ post)) (T @ T')" by simp
      from layout_wr [OF this, of val] g(2) obtain m2 where
        m2: "wr m' (fdt + os + int (length (pre @ he)) + 12) val = Some m2" "kept m' m2 fdt os ts"
          "layout m2 fdt ts os ot' (pre @ he @ ((?h @ val @ pad) @ bs) @ post) (T @ T')"
        by (auto simp: ac_simps)
      have "?f = Some (0, m2)" using r(1) m2(1) by (auto simp: red copy_in_all wr_Nil)
      moreover have "prop_enc (T @ T') name val (?h @ val @ pad)"
        unfolding prop_enc_def using r(3,4) g by (intro exI [of _ k] exI [of _ pad]) auto
      then have "props_enc (T @ T') ((name, val) # ps) ((?h @ val @ pad) @ bs)"
        by (rule props_enc.prop_first) (rule props_enc_append [OF missing(3)])
      then have "node_view m2 fdt ts os ot' pre he (set_prop name val ps) post (T @ T')"
        unfolding node_view_def using m2(3) pre pe missing(2,4)
        by (intro exI [of _ "(?h @ val @ pad) @ bs"] exI [of _ nm]) (simp add: set_prop_def)
      ultimately show ?thesis using kept_trans [OF r(2) m2(2)] by blast
    qed
  qed
qed

section \<open>Removing a property\<close>

primrec del_prop :: "byte list \<Rightarrow> (byte list \<times> byte list) list \<Rightarrow> (byte list \<times> byte list) list" where
  "del_prop name [] = []"
| "del_prop name (q # ps) = (if fst q = name then ps else q # del_prop name ps)"

lemma del_prop_split: "name \<notin> fst ` set ps1 \<Longrightarrow> del_prop name (ps1 @ (name, v) # ps2) = ps1 @ ps2"
  by (induction ps1) auto

lemma node_view_delprop:
  assumes v: "node_view m fdt ts os ot pre he ps post T"
  shows "\<exists>m' ot'. fdt_delprop m fdt (int (length pre)) name =
      Some (if name \<in> fst ` set ps then 0 else - FDT_ERR_NOTFOUND, m') \<and>
    node_view m' fdt ts os ot' pre he (if name \<in> fst ` set ps then del_prop name ps else ps) post T \<and> kept m m' fdt os ts"
proof -
  from v have pre: "length pre mod 4 = 0" and pe: "props_end post" unfolding node_view_def by blast+
  from v show ?thesis
  proof (cases rule: node_view_cases [where name = name])
    case (missing bs nm)
    then have "fdt_delprop m fdt (int (length pre)) name = Some (- FDT_ERR_NOTFOUND, m)"
      by (simp add: fdt_delprop_def layout_rw_probe [OF missing(1)] get_property_layout [OF missing(1)])
    with v missing(4) show ?thesis by auto
  next
    case (found nm ps1 w ps2 b1 b b2)
    note l' = layout_fields [OF found(1)]
    from prop_enc_length [OF found(6)] have lb: "length b = 12 + talign (length w)" by simp
    have "length w \<le> length b" using lb talign_bounds(1) [of "length w"] by linarith
    then have "int (length w) \<le> 2147483600" using l' by simp
    from talign_int [OF this] have pl: "s32 (12 + (int (length w) + 3) div 4 * 4) = int (length b)" using lb by simp
    have ne: "fdt + os + int (length (pre @ he @ b1)) \<noteq> 0" using l' by linarith
    from found(1) have l: "layout m fdt ts os ot ((pre @ he @ b1) @ b @ (b2 @ post)) T" by simp
    from splice_pieces [OF l, of 0] l' obtain m' where m':
      "fdt_splice_struct m fdt (fdt + os + int (length (pre @ he @ b1))) (int (length b)) 0 = Some (0, m')"
      "layout m' fdt ts os (ot - int (length b)) (pre @ he @ (b1 @ b2) @ post) T" "kept m m' fdt os ts"
      by auto
    have "fdt_delprop m fdt (int (length pre)) name = Some (0, m')"
      using ne m'(1) pl
      by (simp add: fdt_delprop_def layout_rw_probe [OF found(1)] get_property_layout [OF found(1)] found(8))
    moreover have "del_prop name ps = ps1 @ ps2" unfolding found(3) by (rule del_prop_split [OF found(4)])
    then have "node_view m' fdt ts os (ot - int (length b)) pre he (del_prop name ps) post T"
      unfolding node_view_def using m'(2) pre pe found(2) props_enc_concat [OF found(5,7)]
      by (intro exI [of _ "b1 @ b2"] exI [of _ nm]) simp
    moreover have "name \<in> fst ` set ps" using found(3) by force
    ultimately show ?thesis using m'(3) by auto
  qed
qed

section \<open>Appending to a property\<close>

text \<open>What a node holds after a value has been appended to a property.\<close>

definition append_value :: "byte list \<Rightarrow> byte list \<Rightarrow> (byte list \<times> byte list) list \<Rightarrow> (byte list \<times> byte list) list" where
  "append_value name val ps =
     set_prop name ((case map_of ps name of None \<Rightarrow> [] | Some v \<Rightarrow> v) @ val) ps"

lemma map_of_first: "name \<notin> fst ` set ps1 \<Longrightarrow> map_of (ps1 @ (name, v) # ps2) name = Some v"
proof -
  assume "name \<notin> fst ` set ps1"
  then have "map_of ps1 name = None" by (simp add: map_of_eq_None_iff)
  then show ?thesis by (simp add: map_add_def)
qed

lemma node_view_appendprop:
  assumes v: "node_view m fdt ts os ot pre he ps post T"
    and name: "0 \<notin> set name" "int (length name) < INT_MAX"
    and len: "int (length ((case map_of ps name of None \<Rightarrow> [] | Some v \<Rightarrow> v) @ val)) \<le> 2147483600"
  shows "\<exists>e m' ot' T'. fdt_appendprop m fdt (int (length pre)) name val (int (length val)) = Some (e, m') \<and> kept m m' fdt os ts \<and>
    (e = 0 \<and> node_view m' fdt ts os ot' pre he (append_value name val ps) post (T @ T') \<or>
     e = - FDT_ERR_NOSPACE \<and> node_view m' fdt ts os ot pre he ps post T)"
proof -
  from v have pre: "length pre mod 4 = 0" and pe: "props_end post" unfolding node_view_def by blast+
  let ?f = "fdt_appendprop m fdt (int (length pre)) name val (int (length val))"
  from v show ?thesis
  proof (cases rule: node_view_cases [where name = name])
    case (missing bs nm)
    have none: "map_of ps name = None" using missing(4) by (simp add: map_of_eq_None_iff)
    with len have len': "int (length val) \<le> 2147483600" by simp
    note red = fdt_appendprop_def layout_rw_probe [OF missing(1)] get_property_layout [OF missing(1)] missing(5)
    from add_property_ok [OF missing(1,2) pre name len'] show ?thesis
    proof (elim disjE exE conjE)
      fix m' p
      assume r: "fdt_add_property m fdt (int (length pre)) name (length name) (int (length val)) = Some (- FDT_ERR_NOSPACE, p, m')"
        "kept m m' fdt os ts" "layout m' fdt ts os ot (pre @ he @ bs @ post) T"
      have "?f = Some (- FDT_ERR_NOSPACE, m')" using r(1) by (simp add: red)
      moreover have "node_view m' fdt ts os ot pre he ps post T"
        unfolding node_view_def using r(3) pre pe missing by (intro exI [of _ bs] exI [of _ nm]) simp
      ultimately show ?thesis using r(2) by blast
    next
      fix m' ot' T' k gap
      assume r: "fdt_add_property m fdt (int (length pre)) name (length name) (int (length val)) =
          Some (0, fdt + os + int (length (pre @ he)), m')" "kept m m' fdt os ts" "name_at (T @ T') k name" "length gap = talign (length val)"
        "layout m' fdt ts os ot' (pre @ he @ be32 FDT_PROP @ be32 (int (length val)) @ be32 (int k) @ gap @ bs @ post) (T @ T')"
      from length_split [of gap "length val" "length gap - length val"] r(4) talign_bounds(1) [of "length val"]
      obtain g1 pad where g: "gap = g1 @ pad" "length g1 = length val" by auto
      let ?h = "be32 FDT_PROP @ be32 (int (length val)) @ be32 (int k)"
      from r(5) g have "layout m' fdt ts os ot' ((pre @ he @ ?h) @ g1 @ (pad @ bs @ post)) (T @ T')" by simp
      from layout_wr [OF this, of val] g(2) obtain m2 where
        m2: "wr m' (fdt + os + int (length (pre @ he)) + 12) val = Some m2" "kept m' m2 fdt os ts"
          "layout m2 fdt ts os ot' (pre @ he @ ((?h @ val @ pad) @ bs) @ post) (T @ T')"
        by (auto simp: ac_simps)
      have "?f = Some (0, m2)" using r(1) m2(1) by (simp add: red copy_in_all)
      moreover have "prop_enc (T @ T') name val (?h @ val @ pad)"
        unfolding prop_enc_def using r(3,4) g by (intro exI [of _ k] exI [of _ pad]) auto
      then have "props_enc (T @ T') ((name, val) # ps) ((?h @ val @ pad) @ bs)"
        by (rule props_enc.prop_first) (rule props_enc_append [OF missing(3)])
      then have "node_view m2 fdt ts os ot' pre he (append_value name val ps) post (T @ T')"
        unfolding node_view_def append_value_def none using m2(3) pre pe missing(2,4)
        by (intro exI [of _ "(?h @ val @ pad) @ bs"] exI [of _ nm]) (simp add: set_prop_def)
      ultimately show ?thesis using kept_trans [OF r(2) m2(2)] by blast
    qed
  next
    case (found nm ps1 w ps2 b1 b b2)
    note l' = layout_fields [OF found(1)]
    have some: "map_of ps name = Some w" unfolding found(3) by (rule map_of_first [OF found(4)])
    with len have len': "int (length (w @ val)) \<le> 2147483600" by simp
    let ?q = "pre @ he @ b1" and ?n = "talign (length (w @ val))"
    from found(6) obtain k pad where e: "b = be32 3 @ be32 (int (length w)) @ be32 (int k) @ w @ pad"
      and k: "name_at T k name" and lb: "length (w @ pad) = talign (length w)" unfolding prop_enc_def by auto
    let ?h = "be32 3 @ be32 (int (length w)) @ be32 (int k)"
    have al: "FDT_TAGALIGN (int (length w)) = int (talign (length w))" "FDT_TAGALIGN (int (length (w @ val))) = int ?n"
      by (rule FDT_TAGALIGN_nat, use len' in simp)+
    have nl: "int_res (int (length val) + int (length w)) = Some (int (length (w @ val)))"
      using len' by (simp add: int_res_def c_int_def)
    have small: "int ?n \<le> INT_MAX" using talign_bounds(2) [of "length (w @ val)"] len' by linarith
    have ne: "fdt + os + int (length ?q) \<noteq> 0" using l' by linarith
    have u: "u32 (int (length (w @ val))) = int (length (w @ val))" using len' by (intro u32_id) auto
    have p: "fdt + os + int (length ?q) + 12 = fdt + os + int (length (?q @ ?h))" by simp
    note red = fdt_appendprop_def layout_rw_probe [OF found(1)] get_property_layout [OF found(1)] found(8)
    have l: "layout m fdt ts os ot ((?q @ ?h) @ (w @ pad) @ (b2 @ post)) T" using found(1) e by simp
    from splice_pieces [OF l small] show ?thesis
    proof (elim disjE exE conjE)
      assume "fdt_splice_struct m fdt (fdt + os + int (length (?q @ ?h))) (int (length (w @ pad))) (int ?n) = Some (- FDT_ERR_NOSPACE, m)"
      then have "fdt_splice_struct m fdt (fdt + os + int (length ?q) + 12) (FDT_TAGALIGN (int (length w))) (FDT_TAGALIGN (int (length (w @ val)))) =
          Some (- FDT_ERR_NOSPACE, m)" unfolding al p lb .
      then have "?f = Some (- FDT_ERR_NOSPACE, m)" using ne nl by (simp add: red)
      with v show ?thesis by auto
    next
      fix m0 gap
      let ?ot = "ot - int (length (w @ pad)) + int ?n"
      assume sp: "fdt_splice_struct m fdt (fdt + os + int (length (?q @ ?h))) (int (length (w @ pad))) (int ?n) = Some (0, m0)"
        and gap: "length gap = ?n" and k0: "kept m m0 fdt os ts"
        and l0: "layout m0 fdt ts os ?ot ((?q @ ?h) @ gap @ (b2 @ post)) T"
        and old: "rd_bytes m (fdt + os + int (length (?q @ ?h))) ?n = Some gap"
      from sp have sp': "fdt_splice_struct m fdt (fdt + os + int (length ?q) + 12) (FDT_TAGALIGN (int (length w))) (FDT_TAGALIGN (int (length (w @ val)))) =
          Some (0, m0)" unfolding al p lb .
      have nb: "length w + length val \<le> ?n" using talign_bounds(1) [of "length (w @ val)"] by simp
      have "rd_bytes m (fdt + os + int (length (?q @ ?h))) (length w) = Some w"
        using layout_piece [OF found(1), of "?q @ ?h" w "pad @ b2 @ post"] e by simp
      moreover have "rd_bytes m (fdt + os + int (length (?q @ ?h))) (length w) = Some (take (length w) gap)"
        using rd_bytes_sub [OF old, of 0 "length w"] nb by simp
      ultimately have tw: "take (length w) gap = w" by simp
      from length_split [of "drop (length w) gap" "length val" "length gap - length w - length val"] gap nb
      obtain g2 g3 where "drop (length w) gap = g2 @ g3" "length g2 = length val" by auto
      with tw have g: "gap = w @ g2 @ g3" "length g2 = length val" by (metis append_take_drop_id, simp)
      from l0 have "layout m0 fdt ts os ?ot ((?q @ be32 3) @ be32 (int (length w)) @ (be32 (int k) @ gap @ b2 @ post)) T" by simp
      from layout_st [OF this, of "int (length (w @ val))"] obtain m1 where
        m1: "fdt32_st m0 (fdt + os + int (length ?q) + 4) (int (length (w @ val))) = Some m1" "kept m0 m1 fdt os ts"
          "layout m1 fdt ts os ?ot (?q @ be32 3 @ be32 (int (length (w @ val))) @ be32 (int k) @ gap @ b2 @ post) T"
        by (auto simp: ac_simps)
      let ?h' = "be32 3 @ be32 (int (length (w @ val))) @ be32 (int k)"
      from m1(3) g(1) have "layout m1 fdt ts os ?ot ((?q @ ?h' @ w) @ g2 @ (g3 @ b2 @ post)) T" by simp
      from layout_wr [OF this, of val] g(2) obtain m2 where
        m2: "wr m1 (fdt + os + int (length ?q) + 12 + int (length w)) val = Some m2" "kept m1 m2 fdt os ts"
          "layout m2 fdt ts os ?ot (pre @ he @ (b1 @ (?h' @ (w @ val) @ g3) @ b2) @ post) T"
        by (auto simp: ac_simps)
      have f: "?f = Some (0, m2)" using ne nl sp' m1(1) m2(1) u by (simp add: red copy_in_all)
      have "prop_enc T name (w @ val) (?h' @ (w @ val) @ g3)"
        unfolding prop_enc_def using k g gap by (intro exI [of _ k] exI [of _ g3]) auto
      from props_enc_concat [OF found(5) props_enc.prop_first [OF this found(7)]]
      have pe': "props_enc T (ps1 @ (name, w @ val) # ps2) (b1 @ (?h' @ (w @ val) @ g3) @ b2)" .
      have av: "append_value name val ps = ps1 @ (name, w @ val) # ps2"
        unfolding append_value_def some unfolding found(3) by (simp add: set_prop_split [OF found(4)])
      have nv: "node_view m2 fdt ts os ?ot pre he (append_value name val ps) post (T @ [])"
        unfolding node_view_def av using m2(3) pre pe found(2) pe'
        by (intro exI [of _ "b1 @ (?h' @ (w @ val) @ g3) @ b2"] exI [of _ nm]) simp
      have "kept m m2 fdt os ts" by (rule kept_trans [OF k0 kept_trans [OF m1(2) m2(2)]])
      with f nv show ?thesis by blast
    qed
  qed
qed

end
