(* ===== verification/Fdt_Node_Edit.thy ===== *)
theory Fdt_Node_Edit
  imports Fdt_Edit
begin

text \<open>
  Adding a subnode, writing in place, opening a tree into a larger buffer: what they do on a node
  view and on a layout.
\<close>

section \<open>Adding a subnode\<close>

lemma skip_props_enc:
  assumes l: "layout m fdt ts os ot S T" and e: "props_end post"
  shows "props_enc T ps bs \<Longrightarrow> S = pre @ bs @ post \<Longrightarrow> length pre mod 4 = 0 \<Longrightarrow>
    skip_properties m fdt (int (length pre)) = Some (int (length (pre @ bs))) \<and>
    next_node_loop m fdt (int (length pre)) d = next_node_loop m fdt (int (length (pre @ bs))) d"
proof (induction arbitrary: pre rule: props_enc.induct)
  case none
  have "\<exists>tag nx. fdt_next_tag m fdt (int (length pre)) = Some (tag, nx) \<and> tag \<noteq> FDT_PROP \<and> tag \<noteq> FDT_NOP"
  proof -
    from e consider r where "post = be32 FDT_END_NODE @ r"
      | nm r where "post = be32 FDT_BEGIN_NODE @ nm @ [0] @ r" "0 \<notin> set nm" unfolding props_end_def by blast
    then show ?thesis
    proof cases
      case 1
      with next_tag_simple [OF l, of pre FDT_END_NODE r] none show ?thesis by simp
    next
      case 2
      with next_tag_begin [OF l, of pre nm r] none show ?thesis by simp
    qed
  qed
  then show ?case by (subst skip_properties.simps) auto
next
  case (prop_first n v b ps bs)
  have S: "S = pre @ b @ (bs @ post)" using prop_first.prems by simp
  note t = next_tag_prop_enc(1) [OF l S prop_first.hyps(1) prop_first.prems(2)]
  have "length (pre @ b) mod 4 = 0"
    using prop_first.prems(2) prop_enc_length [OF prop_first.hyps(1)] by (simp add: mod_add_eq [symmetric])
  from prop_first.IH [OF _ this] S have ih: "skip_properties m fdt (int (length (pre @ b))) = Some (int (length ((pre @ b) @ bs)))"
    "next_node_loop m fdt (int (length (pre @ b))) d = next_node_loop m fdt (int (length ((pre @ b) @ bs))) d"
    by simp_all
  from t ih show ?case
    by (subst skip_properties.simps, subst next_node_loop.simps) (simp add: add.assoc)
next
  case (nop_first ps bs)
  have S: "S = pre @ be32 FDT_NOP @ (bs @ post)" using nop_first.prems by simp
  note t = next_tag_simple [OF l S _ nop_first.prems(2)]
  have "length (pre @ be32 FDT_NOP) mod 4 = 0" using nop_first.prems(2) by simp
  from nop_first.IH [OF _ this] S have ih: "skip_properties m fdt (int (length (pre @ be32 FDT_NOP))) = Some (int (length ((pre @ be32 FDT_NOP) @ bs)))"
    "next_node_loop m fdt (int (length (pre @ be32 FDT_NOP))) d = next_node_loop m fdt (int (length ((pre @ be32 FDT_NOP) @ bs))) d"
    by simp_all
  from t ih show ?case
    by (subst skip_properties.simps, subst next_node_loop.simps) (simp add: add.assoc)
qed

text \<open>The name of a node.\<close>

lemma node_name:
  assumes l: "layout m fdt ts os ot S T" and S: "S = pre @ he @ post" and he: "node_head nm he"
    and pre: "length pre mod 4 = 0"
  shows "fdt_get_name m fdt (int (length pre)) = Some (fdt + os + int (length pre) + 4, int (length nm))"
    "rd_bytes m (fdt + os + int (length pre) + 4) (length nm + 1) = Some (nm @ [0])"
proof -
  note l' = layout_fields [OF l]
  from he obtain pad where e: "he = be32 1 @ nm @ [0] @ pad" "0 \<notin> set nm" unfolding node_head_def by blast
  have "S = (pre @ be32 1) @ (nm @ [0]) @ (pad @ post)" using S e by simp
  from layout_piece [OF l this] show b: "rd_bytes m (fdt + os + int (length pre) + 4) (length nm + 1) = Some (nm @ [0])"
    by (simp add: ac_simps)
  have "str_end m (fdt + os + int (length pre) + 4) (length nm)"
    unfolding str_end_def
  proof (intro conjI allI impI)
    show "m (fdt + os + int (length pre) + 4 + int (length nm)) = Some 0"
      using b unfolding rd_bytes_iff by (auto simp: nth_append)
    show "\<exists>b. m (fdt + os + int (length pre) + 4 + int i) = Some b \<and> b \<noteq> 0" if "i < length nm" for i
    proof -
      have "nm ! i \<noteq> 0" using nth_mem [OF that] e(2) by metis
      moreover have "m (fdt + os + int (length pre) + 4 + int i) = Some ((nm @ [0]) ! i)"
        using b that unfolding rd_bytes_iff by simp
      ultimately show ?thesis using that by (simp add: nth_append)
    qed
  qed
  from c_strlen_str_end [OF this] have "c_strlen m (fdt + os + int (length pre) + 4) = Some (int (length nm))" .
  moreover have "s32 (int (length nm)) = int (length nm)" using l' S e by (intro s32_id) auto
  moreover have "\<not> ts < 0" using l' by linarith
  ultimately show "fdt_get_name m fdt (int (length pre)) = Some (fdt + os + int (length pre) + 4, int (length nm))"
    using l' by (simp add: fdt_get_name_def layout_probe [OF l] node_check_offset(1) [OF assms] Let_def)
qed

lemma node_name_eq:
  assumes l: "layout m fdt ts os ot S T" and S: "S = pre @ he @ post" and he: "node_head nm he"
    and pre: "length pre mod 4 = 0"
  shows "fdt_nodename_eq m fdt (int (length pre)) nm = Some True"
proof -
  note n = node_name [OF assms]
  let ?p = "fdt + os + int (length pre) + 4"
  have "?p \<noteq> 0" using layout_fields [OF l] by linarith
  moreover have "rd_bytes m ?p (length nm) = Some nm"
    using rd_bytes_sub [OF n(2), of 0 "length nm"] by simp
  moreover have "m (?p + int (length nm)) = Some 0"
    using n(2) unfolding rd_bytes_iff by (auto simp: nth_append)
  ultimately show ?thesis using n(1) by (simp add: fdt_nodename_eq_def c_memeq_def rd_def)
qed

text \<open>The bytes of a node without properties and subnodes.\<close>

definition new_node :: "byte list \<Rightarrow> byte list" where
  "new_node name = be32 FDT_BEGIN_NODE @ name @ replicate (talign (length name + 1) - length name) 0 @ be32 FDT_END_NODE"

lemma new_node_head:
  assumes "0 \<notin> set name"
  shows "\<exists>he. new_node name = he @ be32 FDT_END_NODE \<and> node_head name he"
proof -
  have "talign (length name + 1) - length name = Suc (talign (length name + 1) - length name - 1)"
    using talign_bounds(1) [of "length name + 1"] by simp
  then obtain j where j: "talign (length name + 1) - length name = Suc j" by blast
  have "length name + 1 \<le> talign (length name + 1)" by (rule talign_bounds)
  with j have "length (be32 1 @ name @ [0] @ replicate j (0 :: byte)) = 4 + talign (length name + 1)" by simp
  with assms j show ?thesis
    unfolding new_node_def node_head_def
    by (intro exI [of _ "be32 1 @ name @ [0] @ replicate j 0"] conjI exI [of _ "replicate j 0"]) simp_all
qed

lemma length_new_node: "length (new_node name) = 8 + talign (length name + 1)"
  using talign_bounds(1) [of "length name + 1"] by (simp add: new_node_def)

lemma node_view_add_subnode:
  assumes v: "node_view m fdt ts os ot pre he ps post T"
    and name: "0 \<notin> set name" "int (length name) \<le> 2147483000"
    and new: "fdt_subnode_offset m fdt (int (length pre)) name = Some (- FDT_ERR_NOTFOUND)"
  shows "(\<exists>m' ot' pre' he'. fdt_add_subnode m fdt (int (length pre)) name = Some (int (length pre'), m') \<and> kept m m' fdt os ts \<and>
      node_view m' fdt ts os ot' pre he ps (new_node name @ post) T \<and>
      node_head name he' \<and> node_view m' fdt ts os ot' pre' he' [] (be32 FDT_END_NODE @ post) T \<and>
      fdt_subnode_offset m' fdt (int (length pre)) name = Some (int (length pre'))) \<or>
    fdt_add_subnode m fdt (int (length pre)) name = Some (- FDT_ERR_NOSPACE, m)"
proof -
  from v obtain bs nm where l: "layout m fdt ts os ot (pre @ he @ bs @ post) T" and pre: "length pre mod 4 = 0"
    and he: "node_head nm he" and bs: "props_enc T ps bs" and pe: "props_end post"
    unfolding node_view_def by (elim exE conjE) (rule that)
  note l' = layout_fields [OF l]
  let ?q = "pre @ he @ bs" and ?a = "talign (length name + 1)"
  have ph: "length (pre @ he) mod 4 = 0" using pre node_head_length [OF he] by (simp add: mod_add_eq [symmetric])
  have qm: "length ?q mod 4 = 0" 
  proof -
    have "(length (pre @ he) + length bs) mod 4 = 0" using ph props_enc_length [OF bs] by presburger
    then show ?thesis by (simp add: add.assoc)
  qed
  have S: "pre @ he @ bs @ post = (pre @ he) @ bs @ post" by simp
  from skip_props_enc [OF l pe bs S ph] have sk: "skip_properties m fdt (int (length (pre @ he))) = Some (int (length ?q))" by simp
  have sk': "skip_properties m fdt (int (length pre) + int (length he)) = Some (int (length ?q))" using sk by simp
  have al: "(4 + int (length name)) div 4 * 4 = int ?a"
  proof -
    have "(int n + 3) div 4 * 4 = int (talign n)" for n by (simp add: talign_def zdiv_int)
    from this [of "length name + 1"] show ?thesis by (simp add: ac_simps)
  qed
  have ab: "?a < length name + 5" using talign_bounds(2) [of "length name + 1"] by simp
  have nl: "s32 (4 + int ?a + 4) = int (8 + ?a)" using ab name(2) by (subst s32_id) auto
  have small: "int (8 + ?a) \<le> INT_MAX" using ab name(2) by linarith
  have nw: "fdt_subnode_offset_namelen m fdt (int (length pre)) name = Some (- 1)"
    using new by (simp add: fdt_subnode_offset_def)
  note red = fdt_add_subnode_def fdt_add_subnode_namelen_def layout_rw_probe [OF l] nw
    node_check_offset(2) [OF l refl he pre] sk' l'(5) Let_def
  have p: "fdt + os + int (length ?q) = fdt + os + (int (length pre) + (int (length he) + int (length bs)))" by simp
  from l have "layout m fdt ts os ot (?q @ [] @ post) T" by simp
  from splice_pieces [OF this small] show ?thesis
  proof (elim disjE exE conjE)
    assume "fdt_splice_struct m fdt (fdt + os + int (length ?q)) (int (length ([] :: byte list))) (int (8 + ?a)) = Some (- FDT_ERR_NOSPACE, m)"
    then have "fdt_add_subnode m fdt (int (length pre)) name = Some (- FDT_ERR_NOSPACE, m)"
      using nl by (simp add: red al)
    then show ?thesis by blast
  next
    fix m1 gap
    let ?ot = "ot + int (8 + ?a)"
    assume sp: "fdt_splice_struct m fdt (fdt + os + int (length ?q)) (int (length ([] :: byte list))) (int (8 + ?a)) = Some (0, m1)"
      and gap: "length gap = 8 + ?a" and k1: "kept m m1 fdt os ts"
      and l1: "layout m1 fdt ts os (ot - int (length ([] :: byte list)) + int (8 + ?a)) (?q @ gap @ post) T"
    from length_split [of gap 4 "4 + ?a"] gap obtain g1 r1 where r1: "gap = g1 @ r1" "length g1 = 4" "length r1 = 4 + ?a" by auto
    from length_split [of r1 ?a 4] r1 obtain g2 g3 where g: "r1 = g2 @ g3" "length g2 = ?a" "length g3 = 4" by auto
    from l1 r1 g have "layout m1 fdt ts os ?ot (?q @ g1 @ (g2 @ g3 @ post)) T" by simp
    from layout_st [OF this r1(2), of FDT_BEGIN_NODE] obtain m2 where
      m2: "fdt32_st m1 (fdt + os + int (length ?q)) FDT_BEGIN_NODE = Some m2" "kept m1 m2 fdt os ts"
        "layout m2 fdt ts os ?ot ((?q @ be32 FDT_BEGIN_NODE) @ g2 @ (g3 @ post)) T" by auto
    let ?z = "replicate (?a - length name) (0 :: byte)"
    from layout_wr [OF m2(3), of "replicate ?a 0"] g(2) obtain m3 where
      m3: "wr m2 (fdt + os + int (length ?q) + 4) (replicate ?a 0) = Some m3" "kept m2 m3 fdt os ts"
        "layout m3 fdt ts os ?ot ((?q @ be32 FDT_BEGIN_NODE) @ replicate ?a 0 @ (g3 @ post)) T"
      by (auto simp: ac_simps)
    have "replicate ?a 0 = replicate (length name) 0 @ ?z"
      using talign_bounds(1) [of "length name + 1"] by (simp flip: replicate_add)
    with m3(3) have "layout m3 fdt ts os ?ot ((?q @ be32 FDT_BEGIN_NODE) @ replicate (length name) 0 @ (?z @ g3 @ post)) T" by simp
    from layout_wr [OF this, of name] obtain m4 where
      m4: "wr m3 (fdt + os + int (length ?q) + 4) name = Some m4" "kept m3 m4 fdt os ts"
        "layout m4 fdt ts os ?ot ((?q @ be32 FDT_BEGIN_NODE @ name @ ?z) @ g3 @ post) T"
      by (auto simp: ac_simps)
    have e: "fdt + os + int (length (?q @ be32 FDT_BEGIN_NODE @ name @ ?z)) = fdt + os + int (length ?q) + int (8 + ?a) - 4"
      using talign_bounds(1) [of "length name + 1"] by simp
    from layout_st [OF m4(3) g(3), of FDT_END_NODE] obtain m5 where
      m5: "fdt32_st m4 (fdt + os + int (length ?q) + int (8 + ?a) - 4) FDT_END_NODE = Some m5" "kept m4 m5 fdt os ts"
        "layout m5 fdt ts os ?ot (?q @ new_node name @ post) T"
      unfolding e by (auto simp: new_node_def)
    have f: "fdt_add_subnode m fdt (int (length pre)) name = Some (int (length ?q), m5)"
      using sp nl m2(1) m3(1) m4(1) m5(1) by (simp add: red al)
    have k: "kept m m5 fdt os ts"
      by (rule kept_trans [OF k1 kept_trans [OF m2(2) kept_trans [OF m3(2) kept_trans [OF m4(2) m5(2)]]]])
    from new_node_head [OF name(1)] obtain he' where he': "new_node name = he' @ be32 FDT_END_NODE" "node_head name he'" by blast
    have pe': "props_end (new_node name @ post)"
    proof -
      from he'(2) obtain pad where "he' = be32 1 @ name @ [0] @ pad" unfolding node_head_def by blast
      then show ?thesis using he'(1) name(1) unfolding props_end_def by auto
    qed
    have n1: "node_view m5 fdt ts os ?ot pre he ps (new_node name @ post) T"
      unfolding node_view_def using m5(3) pre he bs pe' by (intro exI [of _ bs] exI [of _ nm]) simp
    have n2: "node_view m5 fdt ts os ?ot ?q he' [] (be32 FDT_END_NODE @ post) T"
      unfolding node_view_def using m5(3) qm he' props_enc.none [of T]
      by (intro exI [of _ "[]"] exI [of _ name]) (simp add: props_end_def)
    have S5: "?q @ new_node name @ post = ?q @ he' @ (be32 FDT_END_NODE @ post)" using he'(1) by simp
    have "fdt_subnode_offset m5 fdt (int (length pre)) name = Some (int (length ?q))"
    proof -
      have S5': "?q @ new_node name @ post = (pre @ he) @ bs @ (new_node name @ post)" by simp
      from skip_props_enc [OF m5(3) pe' bs S5' ph]
      have "next_node_loop m5 fdt (int (length (pre @ he))) (Some 0) = next_node_loop m5 fdt (int (length ?q)) (Some 0)" by simp
      also have "\<dots> = Some (int (length ?q), Some 1)"
        using node_check_offset(2) [OF m5(3) S5 he'(2) qm] by (subst next_node_loop.simps) simp
      finally have "fdt_next_node m5 fdt (int (length pre)) (Some 0) = Some (int (length ?q), Some 1)"
        using node_check_offset(1) [OF m5(3) _ he pre, of "bs @ new_node name @ post"] by (simp add: fdt_next_node_def)
      moreover have "\<not> ts < 0" using l' by linarith
      ultimately show ?thesis
        using node_name_eq [OF m5(3) S5 he'(2) qm] layout_probe [OF m5(3)]
        unfolding fdt_subnode_offset_def fdt_subnode_offset_namelen_def
        by (simp, subst subnode_search.simps, simp, subst subnode_search.simps, simp)
    qed
    with f k n1 n2 he'(2) show ?thesis by blast
  qed
qed

section \<open>Writing in place\<close>

lemma node_view_setprop_inplace:
  assumes v: "node_view m fdt ts os ot pre he ps post T"
  shows "\<exists>m'. fdt_setprop_inplace m fdt (int (length pre)) name val (int (length val)) =
      Some (case map_of ps name of None \<Rightarrow> - FDT_ERR_NOTFOUND | Some w \<Rightarrow> if length w = length val then 0 else - FDT_ERR_NOSPACE, m') \<and>
    kept m m' fdt os ts \<and>
    node_view m' fdt ts os ot pre he
      (case map_of ps name of None \<Rightarrow> ps | Some w \<Rightarrow> if length w = length val then set_prop name val ps else ps) post T"
proof -
  from v have pre: "length pre mod 4 = 0" and pe: "props_end post" unfolding node_view_def by blast+
  from v show ?thesis
  proof (cases rule: node_view_cases [where name = name])
    case (missing bs nm)
    have none: "map_of ps name = None" using missing(4) by (simp add: map_of_eq_None_iff)
    with node_view_getprop [OF v, of name] v show ?thesis by (simp add: fdt_setprop_inplace_def)
  next
    case (found nm ps1 w ps2 b1 b b2)
    note l' = layout_fields [OF found(1)]
    have some: "map_of ps name = Some w" unfolding found(3) by (rule map_of_first [OF found(4)])
    let ?q = "pre @ he @ b1"
    from found(6) obtain k pad where e: "b = be32 3 @ be32 (int (length w)) @ be32 (int k) @ w @ pad"
      and k: "name_at T k name" and lb: "length b = 12 + talign (length w)" unfolding prop_enc_def by auto
    let ?h = "be32 3 @ be32 (int (length w)) @ be32 (int k)"
    have "fdt32_ld m (fdt + os + int (length ?q) + 4) = Some (u32 (int (length w)))"
      using layout_word [OF found(1), of "?q @ be32 3" "int (length w)"] e by (simp add: ac_simps)
    moreover have ne: "fdt + os + int (length ?q) \<noteq> 0" "fdt + os + int (length ?q) + 12 \<noteq> 0" using l' by linarith+
    ultimately have g: "fdt_getprop m fdt (int (length pre)) name = Some (fdt + os + int (length ?q) + 12, int (length w))"
      using found(8) l'(3) by (simp add: fdt_getprop_def prop_data_def)
    show ?thesis
    proof (cases "length w = length val")
      case False
      with g ne v some show ?thesis by (simp add: fdt_setprop_inplace_def)
    next
      case True
      have "layout m fdt ts os ot ((?q @ ?h) @ w @ (pad @ b2 @ post)) T" using found(1) e by simp
      from layout_wr [OF this True [symmetric]] obtain m' where
        m': "wr m (fdt + os + int (length ?q) + 12) val = Some m'" "kept m m' fdt os ts"
          "layout m' fdt ts os ot (pre @ he @ (b1 @ (?h @ val @ pad) @ b2) @ post) T"
        by (auto simp: ac_simps)
      have "fdt_setprop_inplace m fdt (int (length pre)) name val (int (length val)) = Some (0, m')"
        using g ne True m'(1) by (simp add: fdt_setprop_inplace_def fdt_setprop_inplace_namelen_partial_def copy_in_all)
      moreover have pn: "prop_enc T name val (?h @ val @ pad)"
        unfolding prop_enc_def using k e lb True by (intro exI [of _ k] exI [of _ pad]) auto
      have "node_view m' fdt ts os ot pre he (set_prop name val ps) post T"
        unfolding node_view_def found(3) set_prop_split [OF found(4)]
        using m'(3) pre pe found(2) props_enc_concat [OF found(5) props_enc.prop_first [OF pn found(7)]]
        by (intro exI [of _ "b1 @ (?h @ val @ pad) @ b2"] exI [of _ nm]) simp
      ultimately show ?thesis using m'(2) True some by simp
    qed
  qed
qed

fun nop_bytes :: "nat \<Rightarrow> byte list" where
  "nop_bytes 0 = []"
| "nop_bytes (Suc n) = be32 FDT_NOP @ nop_bytes n"

lemma length_nop_bytes [simp]: "length (nop_bytes n) = 4 * n"
  by (induction n) auto

lemma nop_words_ok:
  "layout m fdt ts os ot (pre @ old @ post) T \<Longrightarrow> length old = 4 * n \<Longrightarrow>
     \<exists>m'. nop_words m (fdt + os + int (length pre)) n = Some m' \<and>
       layout m' fdt ts os ot (pre @ nop_bytes n @ post) T \<and> kept m m' fdt os ts"
proof (induction n arbitrary: m pre old)
  case (Suc n)
  from length_split [of old 4 "4 * n"] Suc.prems(2) obtain o1 o2 where o: "old = o1 @ o2" "length o1 = 4" "length o2 = 4 * n" by auto
  from Suc.prems(1) o have "layout m fdt ts os ot (pre @ o1 @ (o2 @ post)) T" by simp
  from layout_st [OF this o(2), of FDT_NOP] obtain m1 where
    m1: "fdt32_st m (fdt + os + int (length pre)) FDT_NOP = Some m1" "kept m m1 fdt os ts"
      "layout m1 fdt ts os ot ((pre @ be32 FDT_NOP) @ o2 @ post) T" by auto
  from Suc.IH [OF m1(3) o(3)] obtain m2 where
    "nop_words m1 (fdt + os + int (length pre) + 4) n = Some m2"
    "layout m2 fdt ts os ot (pre @ nop_bytes (Suc n) @ post) T" "kept m1 m2 fdt os ts"
    by (auto simp: add.assoc)
  with m1 show ?case by (auto intro: kept_trans)
qed simp

lemma props_enc_nops: "props_enc T ps bs \<Longrightarrow> props_enc T ps (nop_bytes n @ bs)"
  by (induction n) (auto intro: props_enc.nop_first)

lemma node_view_nop_property:
  assumes v: "node_view m fdt ts os ot pre he ps post T"
  shows "\<exists>m'. fdt_nop_property m fdt (int (length pre)) name =
      Some (if name \<in> fst ` set ps then 0 else - FDT_ERR_NOTFOUND, m') \<and>
    node_view m' fdt ts os ot pre he (if name \<in> fst ` set ps then del_prop name ps else ps) post T \<and> kept m m' fdt os ts"
proof -
  from v have pre: "length pre mod 4 = 0" and pe: "props_end post" unfolding node_view_def by blast+
  from v show ?thesis
  proof (cases rule: node_view_cases [where name = name])
    case (missing bs nm)
    then have "fdt_nop_property m fdt (int (length pre)) name = Some (- FDT_ERR_NOTFOUND, m)"
      by (simp add: fdt_nop_property_def get_property_layout [OF missing(1)])
    with v missing(4) show ?thesis by auto
  next
    case (found nm ps1 w ps2 b1 b b2)
    note l' = layout_fields [OF found(1)]
    from prop_enc_length [OF found(6)] have lb: "length b mod 4 = 0" "length b = 12 + talign (length w)" by auto
    have wl: "length w \<le> length b" using lb talign_bounds(1) [of "length w"] by linarith
    have s: "s32 (int (length w) + 12) = int (length w) + 12" using wl l' by (intro s32_id) auto
    have n: "nat ((int (length w) + 12 + 3) div 4) = length b div 4"
    proof -
      have "(x + 15) div 4 = (x + 3) div 4 + (3 :: nat)" for x by presburger
      with lb(2) have "length b = (length w + 15) div 4 * 4" unfolding talign_def by simp
      then have "length b div 4 = (length w + 15) div 4" by simp
      moreover have "nat ((int (length w) + 12 + 3) div 4) = (length w + 15) div 4" by (simp add: nat_div_distrib nat_add_distrib)
      ultimately show ?thesis by simp
    qed
    have ne: "fdt + os + int (length (pre @ he @ b1)) \<noteq> 0" using l' by linarith
    have l4: "length b = 4 * (length b div 4)" using lb(1) by (metis mult_div_mod_eq add.right_neutral)
    from found(1) have l: "layout m fdt ts os ot ((pre @ he @ b1) @ b @ (b2 @ post)) T" by simp
    from nop_words_ok [OF l l4] obtain m' where
      m': "nop_words m (fdt + os + int (length (pre @ he @ b1))) (length b div 4) = Some m'" "kept m m' fdt os ts"
        "layout m' fdt ts os ot (pre @ he @ (b1 @ nop_bytes (length b div 4) @ b2) @ post) T" by auto
    have "fdt_nop_property m fdt (int (length pre)) name = Some (0, m')"
      using ne m'(1) s n by (simp add: fdt_nop_property_def get_property_layout [OF found(1)] found(8) fdt_nop_region_def)
    moreover have "del_prop name ps = ps1 @ ps2" unfolding found(3) by (rule del_prop_split [OF found(4)])
    then have "node_view m' fdt ts os ot pre he (del_prop name ps) post T"
      unfolding node_view_def using m'(3) pre pe found(2) props_enc_concat [OF found(5) props_enc_nops [OF found(7)]]
      by (intro exI [of _ "b1 @ nop_bytes (length b div 4) @ b2"] exI [of _ nm]) simp
    moreover have "name \<in> fst ` set ps" using found(3) by force
    ultimately show ?thesis using m'(2) by auto
  qed
qed

section \<open>Opening a tree into a buffer\<close>

lemma open_into_ok:
  assumes l: "layout m fdt ts os ot S T"
    and rsv: "fdt_num_mem_rsv m fdt = Some n" "0 \<le> n" "fdt_off_mem_rsvmap m fdt = Some r" "r + 16 * (n + 1) \<le> os"
    and buf: "0 < buf" "buf mod 8 = 0" "mapped m buf bufsize" "ts \<le> bufsize" "bufsize < INT_MAX"
  shows "\<exists>m'. fdt_open_into m fdt buf bufsize = Some (0, m') \<and> layout m' buf bufsize os ot S T \<and>
    (\<forall>x. x < buf \<or> buf + ts \<le> x \<longrightarrow> m' x = m x) \<and>
    (\<forall>i. 40 \<le> i \<and> i < os \<longrightarrow> m' (buf + i) = m (fdt + i)) \<and> fdt_off_mem_rsvmap m' buf = Some r"
proof -
  note l' = layout_fields [OF l]
  have r40: "40 \<le> r" using l rsv(3) unfolding layout_def by auto
  have ms: "s32 (n * 16 + 16) = 16 * n + 16" using rsv(2,4) r40 l' by (subst s32_id) auto
  have ss: "s32 (int (length S)) = int (length S)" using l' by (intro s32_id) auto
  have u: "u32 (r + 16 * (n + 1)) = r + 16 * (n + 1)" "u32 (os + int (length S)) = os + int (length S)"
    "u32 (ot + int (length T)) = ot + int (length T)" "u32 bufsize = bufsize" "u32 (int (length S)) = int (length S)"
    using l' r40 rsv buf by (auto intro!: u32_id)
  have mis: "fdt_blocks_misordered m fdt (16 * (n + 1)) (int (length S)) = Some False"
    using l' r40 rsv u by (simp add: fdt_blocks_misordered_def)
  have ts0: "0 \<le> ts" using l' by linarith
  have "mapped m fdt (int (nat ts))" "mapped m buf (int (nat ts))"
    using l'(13) buf ts0 by (auto intro: mapped_sub)
  from memmove_ok [OF this] obtain bs where bs: "rd_bytes m fdt (nat ts) = Some bs"
    "memmove m buf fdt ts = Some (put_bytes m buf bs)" using ts0 by auto
  have lb: "int (length bs) = ts" using rd_bytes_length [OF bs(1)] ts0 by simp
  define m1 where "m1 = put_bytes m buf bs"
  define m2 where "m2 = put_bytes m1 (buf + 20) (be32 17)"
  define m3 where "m3 = put_bytes m2 (buf + 36) (be32 (int (length S)))"
  define m4 where "m4 = put_bytes m3 (buf + 4) (be32 bufsize)"
  have mp: "mapped m1 buf bufsize" "mapped m2 buf bufsize" "mapped m3 buf bufsize" "mapped m4 buf bufsize"
    using buf(3) by (auto simp: m1_def m2_def m3_def m4_def mapped_put_bytes)
  have mv: "fdt_move m fdt buf bufsize = Some (0, m1)"
    using l' buf u bs(2) ts0 by (simp add: fdt_move_def layout_probe [OF l] m1_def)
  have w: "fdt_set_version m1 buf 17 = Some m2" "fdt_set_size_dt_struct m2 buf (int (length S)) = Some m3"
    "fdt_set_totalsize m3 buf bufsize = Some m4"
    unfolding fdt_set_version_def fdt_set_size_dt_struct_def fdt_set_totalsize_def m2_def [symmetric] m3_def [symmetric] m4_def [symmetric]
    using l' buf by (auto simp: m2_def m3_def m4_def intro!: fdt32_st_ok mapped_sub [OF mp(1)] mapped_sub [OF mp(2)] mapped_sub [OF mp(3)] mapped_put_bytes)
  have "open_blocks m fdt buf bufsize (fdt + ts) (16 * (n + 1)) (int (length S)) = Some (0, m4)"
    using mis mv w u by (simp add: open_blocks_def)
  moreover have "\<not> ts < 0" using ts0 by simp
  ultimately have f: "fdt_open_into m fdt buf bufsize = Some (0, m4)"
    using l' rsv(1) by (simp add: fdt_open_into_def layout_probe [OF l] ms ss Let_def)
  have cp: "m1 (buf + i) = m (fdt + i)" if "0 \<le> i" "i < ts" for i
  proof -
    have i: "i = int (nat i)" "nat i < length bs" using that lb by auto
    have "m1 (buf + int (nat i)) = Some (bs ! nat i)" unfolding m1_def by (rule put_bytes_at [OF i(2)])
    moreover have "nat i < nat ts" using that by simp
    with bs(1) have "m (fdt + int (nat i)) = Some (bs ! nat i)" unfolding rd_bytes_iff by blast
    ultimately show ?thesis using i(1) by simp
  qed
  have ld: "fdt32_ld m1 (buf + j) = fdt32_ld m (fdt + j)" if "0 \<le> j" "j \<le> 36" for j
  proof -
    have "m1 (buf + (j + i)) = m (fdt + (j + i))" if "0 \<le> i" "i < 4" for i
      using that \<open>0 \<le> j\<close> \<open>j \<le> 36\<close> l' by (intro cp) auto
    from this [of 0] this [of 1] this [of 2] this [of 3] show ?thesis
      by (simp add: fdt32_ld_def rd_def add.assoc)
  qed
  have ld0: "fdt32_ld m1 buf = fdt32_ld m fdt" using ld [of 0] by simp
  have hdr: "fdt32_ld m4 (buf + j) = fdt32_ld m (fdt + j)" if "j \<in> {8, 12, 16, 24, 32}" for j
    using that ld by (auto simp: m4_def m3_def m2_def fdt32_ld_put_other)
  have hdr0: "fdt32_ld m4 buf = fdt32_ld m fdt" using ld0 by (simp add: m4_def m3_def m2_def fdt32_ld_put_other)
  have new: "fdt32_ld m4 (buf + 20) = Some 17" "fdt32_ld m4 (buf + 36) = Some (int (length S))" "fdt32_ld m4 (buf + 4) = Some bufsize"
    using u by (simp_all add: m4_def m3_def m2_def fdt32_ld_put_other fdt32_ld_put u32_id)
  have far: "m4 (buf + i) = m (fdt + i)" if "40 \<le> i" "i < ts" for i
    using that cp [of i] by (simp add: m4_def m3_def m2_def put_bytes_other)
  have rb: "rd_bytes m4 (buf + q) k = rd_bytes m (fdt + q) k" if "40 \<le> q" "q + int k \<le> ts" for q k
  proof -
    have e: "m4 (buf + q + int i) = m (fdt + q + int i)" if "i < k" for i
      using far [of "q + int i"] that \<open>40 \<le> q\<close> \<open>q + int k \<le> ts\<close> by (simp add: add.assoc)
    have "rd_bytes m4 (buf + q) k = Some cs \<longleftrightarrow> rd_bytes m (fdt + q) k = Some cs" for cs
      unfolding rd_bytes_iff using e by auto
    then show ?thesis by (metis not_Some_eq)
  qed
  have st: "rd_bytes m4 (buf + os) (length S) = Some S" "rd_bytes m4 (buf + ot) (length T) = Some T"
    using rb l' by auto
  have "layout m4 buf bufsize os ot S T"
    using l st hdr hdr0 new mp(4) l' buf unfolding layout_def
    by (simp add: fdt_magic_def fdt_version_def fdt_totalsize_def fdt_last_comp_version_def fdt_off_dt_struct_def
        fdt_off_dt_strings_def fdt_size_dt_struct_def fdt_size_dt_strings_def fdt_off_mem_rsvmap_def)
  moreover have "m4 x = m x" if "x < buf \<or> buf + ts \<le> x" for x
    using that l' lb by (auto simp: m4_def m3_def m2_def m1_def put_bytes_other)
  moreover have "fdt_off_mem_rsvmap m4 buf = Some r" using rsv(3) hdr [of 16] by (simp add: fdt_off_mem_rsvmap_def)
  moreover have "m4 (buf + i) = m (fdt + i)" if "40 \<le> i" "i < os" for i
    using that l' by (intro far) auto
  ultimately show ?thesis using f by blast
qed

end
