(* ===== verification/Fdt_Store.thy ===== *)
theory Fdt_Store
  imports Fdt_Node_Edit
begin

text \<open>
  The write access of libfdt as a store of properties: the contract of an operation that edits a
  list of named values and may refuse, sequences of such operations, and the operations of libfdt
  on one node of a tree as its instance.
\<close>

section \<open>Stores of named values\<close>

text \<open>
  A status of 0 means that the edit took place, any other status that nothing changed. \<open>frame\<close>
  relates a state to those that differ only where the store may write.
\<close>

locale value_store =
  fixes view :: "'s \<Rightarrow> ('k \<times> 'v) list \<Rightarrow> bool"
    and frame :: "'s \<Rightarrow> 's \<Rightarrow> bool"
    and edit_ok :: "'e \<Rightarrow> bool"
    and edit :: "'e \<Rightarrow> 's \<Rightarrow> (int \<times> 's) option"
    and effect :: "'e \<Rightarrow> ('k \<times> 'v) list \<Rightarrow> ('k \<times> 'v) list"
    and get :: "'s \<Rightarrow> 'k \<Rightarrow> 'v option option"
  assumes edit_step: "\<lbrakk>view s ps; edit_ok e\<rbrakk> \<Longrightarrow>
      \<exists>c s'. edit e s = Some (c, s') \<and> frame s s' \<and> view s' (if c = 0 then effect e ps else ps)"
    and get_value: "view s ps \<Longrightarrow> get s k = Some (map_of ps k)"
    and frame_refl: "frame s s"
    and frame_trans: "\<lbrakk>frame s s'; frame s' s''\<rbrakk> \<Longrightarrow> frame s s''"

text \<open>A sequence of edits gives the list of statuses and the last state.\<close>

fun run_edits :: "('e \<Rightarrow> 's \<Rightarrow> (int \<times> 's) option) \<Rightarrow> 'e list \<Rightarrow> 's \<Rightarrow> (int list \<times> 's) option" where
  "run_edits edit [] s = Some ([], s)"
| "run_edits edit (e # es) s = do {
     (c, s) \<leftarrow> edit e s;
     (cs, s) \<leftarrow> run_edits edit es s;
     Some (c # cs, s) }"

fun run_effects :: "('e \<Rightarrow> 'p \<Rightarrow> 'p) \<Rightarrow> 'e list \<Rightarrow> int list \<Rightarrow> 'p \<Rightarrow> 'p" where
  "run_effects effect (e # es) (c # cs) ps = run_effects effect es cs (if c = 0 then effect e ps else ps)"
| "run_effects effect _ _ ps = ps"

context value_store
begin

lemma edits_step:
  "view s ps \<Longrightarrow> (\<And>e. e \<in> set es \<Longrightarrow> edit_ok e) \<Longrightarrow>
    \<exists>cs s'. run_edits edit es s = Some (cs, s') \<and> length cs = length es \<and> frame s s' \<and>
      view s' (run_effects effect es cs ps)"
proof (induction es arbitrary: s ps)
  case (Cons e es)
  from edit_step [of s ps e] Cons.prems obtain c s1 where
    s1: "edit e s = Some (c, s1)" "frame s s1" "view s1 (if c = 0 then effect e ps else ps)" by auto
  with Cons.IH [OF s1(3)] Cons.prems(2) obtain cs s2 where
    "run_edits edit es s1 = Some (cs, s2)" "length cs = length es" "frame s1 s2"
    "view s2 (run_effects effect es cs (if c = 0 then effect e ps else ps))" by auto
  with s1 frame_trans show ?case by (intro exI [of _ "c # cs"] exI [of _ s2]) auto
qed (simp add: frame_refl)

lemma edits_get:
  assumes "view s ps" and "\<And>e. e \<in> set es \<Longrightarrow> edit_ok e"
  shows "\<exists>cs s'. run_edits edit es s = Some (cs, s') \<and> length cs = length es \<and> frame s s' \<and>
    (\<forall>k. get s' k = Some (map_of (run_effects effect es cs ps) k))"
  using edits_step [OF assms] get_value by blast

end

section \<open>The properties of one node\<close>

datatype edit_op =
    Setprop "byte list" "byte list"
  | Setprop_inplace "byte list" "byte list"
  | Appendprop "byte list" "byte list"
  | Delprop "byte list"
  | Nop_property "byte list"

primrec fdt_edit :: "addr \<Rightarrow> int \<Rightarrow> edit_op \<Rightarrow> mem \<Rightarrow> (int \<times> mem) option" where
  "fdt_edit fdt off (Setprop name val) m = fdt_setprop m fdt off name val (int (length val))"
| "fdt_edit fdt off (Setprop_inplace name val) m = fdt_setprop_inplace m fdt off name val (int (length val))"
| "fdt_edit fdt off (Appendprop name val) m = fdt_appendprop m fdt off name val (int (length val))"
| "fdt_edit fdt off (Delprop name) m = fdt_delprop m fdt off name"
| "fdt_edit fdt off (Nop_property name) m = fdt_nop_property m fdt off name"

primrec edit_effect :: "edit_op \<Rightarrow> (byte list \<times> byte list) list \<Rightarrow> (byte list \<times> byte list) list" where
  "edit_effect (Setprop name val) ps = set_prop name val ps"
| "edit_effect (Setprop_inplace name val) ps = set_prop name val ps"
| "edit_effect (Appendprop name val) ps = append_value name val ps"
| "edit_effect (Delprop name) ps = del_prop name ps"
| "edit_effect (Nop_property name) ps = del_prop name ps"

text \<open>Names are C strings, and a value has at most 10^9 bytes.\<close>

primrec fdt_edit_ok :: "edit_op \<Rightarrow> bool" where
  "fdt_edit_ok (Setprop name val) \<longleftrightarrow> 0 \<notin> set name \<and> int (length name) < INT_MAX \<and> int (length val) \<le> 1000000000"
| "fdt_edit_ok (Setprop_inplace name val) \<longleftrightarrow> True"
| "fdt_edit_ok (Appendprop name val) \<longleftrightarrow> 0 \<notin> set name \<and> int (length name) < INT_MAX \<and> int (length val) \<le> 1000000000"
| "fdt_edit_ok (Delprop name) \<longleftrightarrow> True"
| "fdt_edit_ok (Nop_property name) \<longleftrightarrow> True"

text \<open>The value that \<open>fdt_getprop\<close> returns for a name, as bytes.\<close>

definition fdt_lookup :: "addr \<Rightarrow> int \<Rightarrow> mem \<Rightarrow> byte list \<Rightarrow> byte list option option" where
  "fdt_lookup fdt off m name = do {
     (p, len) \<leftarrow> fdt_getprop m fdt off name;
     if p = NULL then Some None else if len < 0 then None else map_option Some (rd_bytes m p (nat len)) }"

text \<open>A tree with a total size of at most 10^9 whose node at \<open>off\<close> has the properties \<open>ps\<close>.\<close>

definition node_at :: "addr \<Rightarrow> int \<Rightarrow> int \<Rightarrow> int \<Rightarrow> mem \<Rightarrow> (byte list \<times> byte list) list \<Rightarrow> bool" where
  "node_at fdt ts os off m ps \<longleftrightarrow>
     (\<exists>ot pre he post T. node_view m fdt ts os ot pre he ps post T \<and> off = int (length pre) \<and> ts \<le> 1000000000)"

lemma node_atI: "node_view m fdt ts os ot pre he ps post T \<Longrightarrow> off = int (length pre) \<Longrightarrow> ts \<le> 1000000000 \<Longrightarrow>
    node_at fdt ts os off m ps"
  unfolding node_at_def
  by (intro exI [of _ ot] exI [of _ pre] exI [of _ he] exI [of _ post] exI [of _ T]) simp

lemma node_at_lookup:
  assumes "node_at fdt ts os off m ps"
  shows "fdt_lookup fdt off m name = Some (map_of ps name)"
proof -
  from assms obtain ot pre he post T where "node_view m fdt ts os ot pre he ps post T" "off = int (length pre)"
    unfolding node_at_def by (elim exE conjE) (rule that)
  with node_view_getprop [OF this(1), of name] show ?thesis
    by (auto simp: fdt_lookup_def split: option.splits)
qed

lemma node_view_value_length:
  assumes v: "node_view m fdt ts os ot pre he ps post T" and "map_of ps name = Some w"
  shows "int (length w) \<le> ts"
  using v
proof (cases rule: node_view_cases [where name = name])
  case (missing bs nm)
  with assms(2) show ?thesis by (force dest: map_of_SomeD)
next
  case (found nm ps1 v ps2 b1 b b2)
  note l' = layout_fields [OF found(1)]
  have "v = w" using assms(2) map_of_first [OF found(4), of v ps2] unfolding found(3) by simp
  moreover from prop_enc_length [OF found(6)] talign_bounds(1) [of "length v"] have "length v \<le> length b" by linarith
  ultimately show ?thesis using l'(9-12) by simp
qed

lemma fdt_edit_step:
  assumes at: "node_at fdt ts os off m ps" and ok: "fdt_edit_ok e"
  shows "\<exists>c m'. fdt_edit fdt off e m = Some (c, m') \<and> kept m m' fdt os ts \<and>
    node_at fdt ts os off m' (if c = 0 then edit_effect e ps else ps)"
proof -
  from at obtain ot pre he post T where v: "node_view m fdt ts os ot pre he ps post T"
    and off: "off = int (length pre)" and ts: "ts \<le> 1000000000" unfolding node_at_def by (elim exE conjE) (rule that)
  note atI = node_atI [OF _ off ts]
  show ?thesis
  proof (cases e)
    case (Setprop name val)
    with ok node_view_setprop [OF v, of name val] show ?thesis unfolding off [symmetric] by (fastforce intro: atI)
  next
    case (Setprop_inplace name val)
    from node_view_setprop_inplace [OF v, of name val] obtain m' where m':
      "fdt_setprop_inplace m fdt off name val (int (length val)) = Some (case map_of ps name of None \<Rightarrow> - FDT_ERR_NOTFOUND
         | Some w \<Rightarrow> if length w = length val then 0 else - FDT_ERR_NOSPACE, m')" "kept m m' fdt os ts"
      "node_view m' fdt ts os ot pre he (case map_of ps name of None \<Rightarrow> ps
         | Some w \<Rightarrow> if length w = length val then set_prop name val ps else ps) post T"
      unfolding off [symmetric] by blast
    from m'(1,2) Setprop_inplace atI [OF m'(3)] show ?thesis
      by (cases "map_of ps name") (simp_all split: if_splits)
  next
    case (Appendprop name val)
    have "int (length ((case map_of ps name of None \<Rightarrow> [] | Some v \<Rightarrow> v) @ val)) \<le> 2147483600"
      using ok Appendprop ts node_view_value_length [OF v, of name] by (auto split: option.splits)
    with Appendprop ok node_view_appendprop [OF v, of name val] show ?thesis
      unfolding off [symmetric] by (fastforce intro: atI)
  next
    case (Delprop name)
    from node_view_delprop [OF v, of name] obtain m' ot' where m':
      "fdt_delprop m fdt off name = Some (if name \<in> fst ` set ps then 0 else - FDT_ERR_NOTFOUND, m')" "kept m m' fdt os ts"
      "node_view m' fdt ts os ot' pre he (if name \<in> fst ` set ps then del_prop name ps else ps) post T"
      unfolding off [symmetric] by blast
    from m'(1,2) Delprop atI [OF m'(3)] show ?thesis by (cases "name \<in> fst ` set ps") simp_all
  next
    case (Nop_property name)
    from node_view_nop_property [OF v, of name] obtain m' where m':
      "fdt_nop_property m fdt off name = Some (if name \<in> fst ` set ps then 0 else - FDT_ERR_NOTFOUND, m')" "kept m m' fdt os ts"
      "node_view m' fdt ts os ot pre he (if name \<in> fst ` set ps then del_prop name ps else ps) post T"
      unfolding off [symmetric] by blast
    from m'(1,2) Nop_property atI [OF m'(3)] show ?thesis by (cases "name \<in> fst ` set ps") simp_all
  qed
qed

interpretation fdt_store: value_store "node_at fdt ts os off" "\<lambda>m m'. kept m m' fdt os ts" fdt_edit_ok
  "fdt_edit fdt off" edit_effect "fdt_lookup fdt off" for fdt ts os off
  by unfold_locales (rule fdt_edit_step node_at_lookup kept_refl kept_trans, assumption+ | rule kept_refl)+

end
