(* ===== verification/Fdt_Open.thy ===== *)
theory Fdt_Open
  imports Fdt_Node_Edit
begin

text \<open>
  Opening a tree whose blocks are in any order (\<open>fdt_open_into\<close>, \<open>fdt_packblocks\<close>): the blocks are
  put in order, behind a new header, and moved to the buffer.
\<close>

section \<open>Blocks in any order\<close>

text \<open>
  A tree of version 17 with its list \<open>R\<close> of reservations (the terminator included), its structure
  block \<open>S\<close> and its strings \<open>T\<close> anywhere inside.
\<close>

definition blocks ::
  "mem \<Rightarrow> addr \<Rightarrow> int \<Rightarrow> int \<Rightarrow> byte list \<Rightarrow> int \<Rightarrow> byte list \<Rightarrow> int \<Rightarrow> byte list \<Rightarrow> bool" where
  "blocks m fdt ts r R os S ot T \<longleftrightarrow>
     0 < fdt \<and> fdt mod 8 = 0 \<and> fdt_magic m fdt = Some FDT_MAGIC \<and> fdt_version m fdt = Some 17 \<and>
     (\<exists>lc. fdt_last_comp_version m fdt = Some lc \<and> lc \<le> 17) \<and>
     fdt_totalsize m fdt = Some ts \<and> fdt_off_mem_rsvmap m fdt = Some r \<and> fdt_off_dt_struct m fdt = Some os \<and>
     fdt_off_dt_strings m fdt = Some ot \<and> fdt_size_dt_struct m fdt = Some (int (length S)) \<and>
     fdt_size_dt_strings m fdt = Some (int (length T)) \<and>
     (\<exists>n. fdt_num_mem_rsv m fdt = Some n \<and> 0 \<le> n \<and> int (length R) = 16 * (n + 1)) \<and>
     0 \<le> r \<and> r + int (length R) \<le> ts \<and> 0 \<le> os \<and> os + int (length S) \<le> ts \<and> 0 \<le> ot \<and> ot + int (length T) \<le> ts \<and>
     40 \<le> ts \<and> ts < INT_MAX \<and> mapped m fdt ts \<and> rd_bytes m (fdt + r) (length R) = Some R \<and>
     rd_bytes m (fdt + os) (length S) = Some S \<and> rd_bytes m (fdt + ot) (length T) = Some T"

definition in_order :: "int \<Rightarrow> byte list \<Rightarrow> int \<Rightarrow> byte list \<Rightarrow> int \<Rightarrow> bool" where
  "in_order r R os S ot \<longleftrightarrow> 40 \<le> r \<and> r + int (length R) \<le> os \<and> os + int (length S) \<le> ot"

abbreviation (input) packed_size :: "byte list \<Rightarrow> byte list \<Rightarrow> byte list \<Rightarrow> int" where
  "packed_size R S T \<equiv> 40 + int (length R) + int (length S) + int (length T)"

lemma blocks_probe: "blocks m fdt ts r R os S ot T \<Longrightarrow> fdt_ro_probe m fdt = Some ts"
  unfolding blocks_def by (elim conjE exE) (simp add: fdt_ro_probe_def Let_def)

lemma blocks_layout:
  "blocks m fdt ts r R os S ot T \<Longrightarrow> in_order r R os S ot \<Longrightarrow> layout m fdt ts os ot S T"
  unfolding blocks_def layout_def in_order_def by auto

lemma blocks_misordered:
  assumes "blocks m fdt ts r R os S ot T"
  shows "fdt_blocks_misordered m fdt (int (length R)) (int (length S)) = Some (\<not> in_order r R os S ot)"
proof -
  have b: "r + int (length R) \<le> ts" "os + int (length S) \<le> ts" "ot + int (length T) \<le> ts" "0 \<le> r" "0 \<le> os" "0 \<le> ot"
    "ts < INT_MAX" using assms by (auto simp: blocks_def)
  have "u32 (r + int (length R)) = r + int (length R)" "u32 (os + int (length S)) = os + int (length S)"
    "u32 (ot + int (length T)) = ot + int (length T)"
    using b by (auto intro!: u32_id)
  with assms b(3) show ?thesis by (auto simp: blocks_def in_order_def fdt_blocks_misordered_def not_le)
qed

section \<open>Packing\<close>

lemma memmove_rd:
  assumes "rd_bytes m src (length bs) = Some bs" and "mapped m dst (int (length bs))"
  shows "memmove m dst src (int (length bs)) = Some (put_bytes m dst bs)"
  using assms by (simp add: memmove_def wr_ok)

lemma rd_outside:
  assumes "\<forall>x. x < a \<or> b \<le> x \<longrightarrow> m' x = m x" and "q + int n \<le> a \<or> b \<le> q"
  shows "rd_bytes m' q n = rd_bytes m q n"
proof -
  have "m' (q + int i) = m (q + int i)" if "i < n" for i using assms that by (intro spec [OF assms(1), THEN mp]) auto
  then have "rd_bytes m' q n = Some bs \<longleftrightarrow> rd_bytes m q n = Some bs" for bs
    unfolding rd_bytes_iff by auto
  then show ?thesis by (metis not_Some_eq)
qed

text \<open>
  The packed tree at \<open>q\<close>: the header words that \<open>fdt_packblocks\<close> sets, and the three blocks.
\<close>

definition packed_at :: "mem \<Rightarrow> addr \<Rightarrow> byte list \<Rightarrow> byte list \<Rightarrow> byte list \<Rightarrow> bool" where
  "packed_at m q R S T \<longleftrightarrow>
     fdt_off_mem_rsvmap m q = Some 40 \<and> fdt_off_dt_struct m q = Some (40 + int (length R)) \<and>
     fdt_off_dt_strings m q = Some (40 + int (length R) + int (length S)) \<and>
     fdt_size_dt_struct m q = Some (int (length S)) \<and> fdt_size_dt_strings m q = Some (int (length T)) \<and>
     rd_bytes m (q + 40) (length R) = Some R \<and> rd_bytes m (q + 40 + int (length R)) (length S) = Some S \<and>
     rd_bytes m (q + 40 + int (length R) + int (length S)) (length T) = Some T"

lemma packblocks_ok:
  assumes b: "blocks m fdt ts r R os S ot T"
    and apart: "q + packed_size R S T \<le> fdt \<or> fdt + ts \<le> q"
    and room: "mapped m q (packed_size R S T)" "packed_size R S T \<le> INT_MAX"
  shows "\<exists>m'. fdt_packblocks m fdt q (int (length R)) (int (length S)) (int (length T)) = Some m' \<and>
    packed_at m' q R S T \<and> (\<forall>x. x < q \<or> q + packed_size R S T \<le> x \<longrightarrow> m' x = m x) \<and>
    (\<forall>p n. mapped m p n \<longrightarrow> mapped m' p n)"
proof -
  let ?s = "40 + int (length R)" and ?t = "40 + int (length R) + int (length S)"
  define m1 where "m1 = put_bytes m (q + 40) R"
  define m2 where "m2 = put_bytes m1 (q + 16) (be32 40)"
  define m3 where "m3 = put_bytes m2 (q + ?s) S"
  define m4 where "m4 = put_bytes m3 (q + 8) (be32 ?s)"
  define m5 where "m5 = put_bytes m4 (q + 36) (be32 (int (length S)))"
  define m6 where "m6 = put_bytes m5 (q + ?t) T"
  define m7 where "m7 = put_bytes m6 (q + 12) (be32 ?t)"
  define m8 where "m8 = put_bytes m7 (q + 32) (be32 (int (length T)))"
  note ms = m1_def m2_def m3_def m4_def m5_def m6_def m7_def m8_def
  let ?N = "packed_size R S T"
  have fr: "\<forall>x. x < q \<or> q + ?N \<le> x \<longrightarrow> m1 x = m x" "\<forall>x. x < q \<or> q + ?N \<le> x \<longrightarrow> m2 x = m x"
    "\<forall>x. x < q \<or> q + ?N \<le> x \<longrightarrow> m3 x = m x" "\<forall>x. x < q \<or> q + ?N \<le> x \<longrightarrow> m4 x = m x"
    "\<forall>x. x < q \<or> q + ?N \<le> x \<longrightarrow> m5 x = m x" "\<forall>x. x < q \<or> q + ?N \<le> x \<longrightarrow> m6 x = m x"
    "\<forall>x. x < q \<or> q + ?N \<le> x \<longrightarrow> m7 x = m x" "\<forall>x. x < q \<or> q + ?N \<le> x \<longrightarrow> m8 x = m x"
    by (auto simp: ms put_bytes_other)
  have mpd: "mapped m1 q ?N" "mapped m2 q ?N" "mapped m3 q ?N" "mapped m4 q ?N" "mapped m5 q ?N" "mapped m6 q ?N"
    "mapped m7 q ?N" using room(1) by (auto simp: ms mapped_put_bytes)
  have f: "fdt_off_mem_rsvmap m fdt = Some r" "fdt_off_dt_struct m fdt = Some os" "fdt_off_dt_strings m fdt = Some ot"
    "fdt_size_dt_strings m fdt = Some (int (length T))" "r + int (length R) \<le> ts" "os + int (length S) \<le> ts"
    "ot + int (length T) \<le> ts" "0 \<le> r" "0 \<le> os" "0 \<le> ot" "40 \<le> ts"
    "rd_bytes m (fdt + r) (length R) = Some R" "rd_bytes m (fdt + os) (length S) = Some S"
    "rd_bytes m (fdt + ot) (length T) = Some T" using b by (auto simp: blocks_def)
  have rd: "rd_bytes m' (fdt + i) n = rd_bytes m (fdt + i) n"
    if "\<forall>x. x < q \<or> q + ?N \<le> x \<longrightarrow> m' x = m x" "0 \<le> i" "i + int n \<le> ts" for m' i n
    using apart that(2,3) by (intro rd_outside [OF that(1)]) linarith
  have ld: "fdt32_ld m' (fdt + i) = fdt32_ld m (fdt + i)"
    if "\<forall>x. x < q \<or> q + ?N \<le> x \<longrightarrow> m' x = m x" "0 \<le> i" "i + 4 \<le> ts" for m' i
    using apart that(2,3) by (intro fdt32_ld_cong spec [OF that(1), THEN mp]) linarith
  have st: "fdt32_st m' (q + i) v = Some (put_bytes m' (q + i) (be32 v))"
    if "mapped m' q ?N" "0 \<le> i" "i \<le> 36" for m' i v
    using that by (intro fdt32_st_ok mapped_sub [OF that(1)]) auto
  have u: "u32 ?s = ?s" "u32 ?t = ?t" "u32 (int (length S)) = int (length S)" "u32 (int (length T)) = int (length T)"
    "u32 40 = 40" using room(2) by (auto intro!: u32_id)
  have mv: "memmove m (q + 40) (fdt + r) (int (length R)) = Some m1"
    "memmove m2 (q + ?s) (fdt + os) (int (length S)) = Some m3"
    "memmove m5 (q + ?t) (fdt + ot) (int (length T)) = Some m6"
    unfolding m1_def m3_def m6_def
    using f rd [OF fr(2), of os "length S"] rd [OF fr(5), of ot "length T"]
    by (auto intro!: memmove_rd mapped_sub [OF room(1)] mapped_sub [OF mpd(2)] mapped_sub [OF mpd(5)])
  have "fdt_packblocks m fdt q (int (length R)) (int (length S)) (int (length T)) = Some m8"
    using mv f room(2) u ld [OF fr(2), of 8] ld [OF fr(5), of 12] ld [OF fr(7), of 32]
      st [OF mpd(1), of 16 40] st [OF mpd(3), of 8 ?s] st [OF mpd(4), of 36 "int (length S)"]
      st [OF mpd(6), of 12 ?t] st [OF mpd(7), of 32 "int (length T)"]
    by (simp add: fdt_packblocks_def int_res_def c_int_def Let_def fdt_set_off_mem_rsvmap_def fdt_off_dt_struct_def
        fdt_set_off_dt_struct_def fdt_set_size_dt_struct_def fdt_off_dt_strings_def fdt_set_off_dt_strings_def
        fdt_size_dt_strings_def fdt_set_size_dt_strings_def m2_def [symmetric] m4_def [symmetric] m5_def [symmetric]
        m7_def [symmetric] m8_def [symmetric])
  moreover have "packed_at m8 q R S T"
    unfolding packed_at_def fdt_off_mem_rsvmap_def fdt_off_dt_struct_def fdt_off_dt_strings_def
      fdt_size_dt_struct_def fdt_size_dt_strings_def
    using rd_put_bytes [of m "q + 40" R] rd_put_bytes [of m2 "q + ?s" S] rd_put_bytes [of m5 "q + ?t" T] u
    by (simp add: ms fdt32_ld_put_other fdt32_ld_put rd_put_bytes_other add.assoc)
  moreover have "\<forall>p n. mapped m p n \<longrightarrow> mapped m8 p n" by (simp add: ms mapped_put_bytes)
  ultimately show ?thesis using fr(8) by blast
qed

section \<open>The move to the buffer\<close>

lemma rd_shift:
  assumes "\<forall>i. 0 \<le> i \<and> i < N \<longrightarrow> m' (p' + i) = m (p + i)" and "0 \<le> j" and "j + int n \<le> N"
  shows "rd_bytes m' (p' + j) n = rd_bytes m (p + j) n"
proof -
  have "m' (p' + j + int i) = m (p + j + int i)" if "i < n" for i
    using spec [OF assms(1), of "j + int i"] assms(2,3) that by (simp add: add.assoc)
  then have "rd_bytes m' (p' + j) n = Some bs \<longleftrightarrow> rd_bytes m (p + j) n = Some bs" for bs
    unfolding rd_bytes_iff by auto
  then show ?thesis by (metis not_Some_eq)
qed

lemma ld_shift:
  assumes "\<forall>i. 0 \<le> i \<and> i < N \<longrightarrow> m' (p' + i) = m (p + i)" and "0 \<le> j" and "j + 4 \<le> N"
  shows "fdt32_ld m' (p' + j) = fdt32_ld m (p + j)"
proof -
  have "m' (p' + (j + i)) = m (p + (j + i))" if "0 \<le> i" "i < 4" for i
    using assms that by (intro spec [OF assms(1), THEN mp]) linarith
  from this [of 0] this [of 1] this [of 2] this [of 3] show ?thesis
    by (simp add: fdt32_ld_def rd_def add.assoc)
qed

lemma packed_shift:
  assumes "\<forall>i. 0 \<le> i \<and> i < packed_size R S T \<longrightarrow> m' (p' + i) = m (p + i)" and "packed_at m p R S T"
  shows "packed_at m' p' R S T"
  using assms(2) ld_shift [OF assms(1)] rd_shift [OF assms(1), of 40 "length R"]
    rd_shift [OF assms(1), of "40 + int (length R)" "length S"]
    rd_shift [OF assms(1), of "40 + int (length R) + int (length S)" "length T"]
  by (simp add: packed_at_def fdt_off_mem_rsvmap_def fdt_off_dt_struct_def fdt_off_dt_strings_def
      fdt_size_dt_struct_def fdt_size_dt_strings_def add.assoc)

lemma packed_put:
  assumes "packed_at m p R S T" and "j \<in> {0, 4, 20, 24, 28}" and "length bs = 4"
  shows "packed_at (put_bytes m (p + j) bs) p R S T"
  using assms by (auto simp: packed_at_def fdt_off_mem_rsvmap_def fdt_off_dt_struct_def fdt_off_dt_strings_def
      fdt_size_dt_struct_def fdt_size_dt_strings_def fdt32_ld_put_other rd_put_bytes_other)

text \<open>The header that \<open>fdt_open_into\<close> writes in front of the packed blocks.\<close>

lemma packed_header:
  assumes pk: "packed_at m buf R S T" and buf: "0 < buf" "buf mod 8 = 0" "mapped m buf bufsize"
      "packed_size R S T \<le> bufsize" "bufsize < INT_MAX"
    and R: "16 \<le> length R" and fdt: "mapped m fdt ts" "40 \<le> ts"
  shows "\<exists>m'. do {
           m \<leftarrow> fdt_set_magic m buf FDT_MAGIC;
           m \<leftarrow> fdt_set_totalsize m buf (u32 bufsize);
           m \<leftarrow> fdt_set_version m buf 17;
           m \<leftarrow> fdt_set_last_comp_version m buf 16;
           cpuid \<leftarrow> fdt_boot_cpuid_phys m fdt;
           m \<leftarrow> fdt_set_boot_cpuid_phys m buf cpuid;
           Some (0, m) } = Some (0 :: int, m') \<and>
    layout m' buf bufsize (40 + int (length R)) (40 + int (length R) + int (length S)) S T \<and>
    packed_at m' buf R S T \<and> (\<forall>x. x < buf \<or> buf + 40 \<le> x \<longrightarrow> m' x = m x)"
proof -
  define m1 where "m1 = put_bytes m (buf + 0) (be32 FDT_MAGIC)"
  define m2 where "m2 = put_bytes m1 (buf + 4) (be32 bufsize)"
  define m3 where "m3 = put_bytes m2 (buf + 20) (be32 17)"
  define m4 where "m4 = put_bytes m3 (buf + 24) (be32 16)"
  note ms = m1_def m2_def m3_def m4_def
  have mp4: "mapped m4 fdt ts" using fdt(1) by (simp add: ms mapped_put_bytes)
  have "mapped m4 (fdt + 28) 4" using fdt(2) by (intro mapped_sub [OF mp4]) simp_all
  then obtain c where c: "fdt32_ld m4 (fdt + 28) = Some c" using fdt32_ld_ex by blast
  define m5 where "m5 = put_bytes m4 (buf + 28) (be32 c)"
  have sz: "40 \<le> bufsize" using buf(4) by linarith
  have mpd: "mapped m buf bufsize" "mapped m1 buf bufsize" "mapped m2 buf bufsize" "mapped m3 buf bufsize"
    "mapped m4 buf bufsize" "mapped m5 buf bufsize"
    using buf(3) by (simp_all add: ms m5_def mapped_put_bytes)
  have st: "fdt32_st m' (buf + i) v = Some (put_bytes m' (buf + i) (be32 v))"
    if "mapped m' buf bufsize" "0 \<le> i" "i \<le> 36" for m' i v
    using that sz by (intro fdt32_st_ok mapped_sub [OF that(1)]) auto
  have u: "u32 bufsize = bufsize" using buf(5) sz by (intro u32_id) auto
  have w: "fdt_set_magic m buf FDT_MAGIC = Some m1" "fdt_set_totalsize m1 buf bufsize = Some m2"
    "fdt_set_version m2 buf 17 = Some m3" "fdt_set_last_comp_version m3 buf 16 = Some m4"
    "fdt_set_boot_cpuid_phys m4 buf c = Some m5"
    using st [OF mpd(1), of 0 FDT_MAGIC] st [OF mpd(2), of 4] st [OF mpd(3), of 20] st [OF mpd(4), of 24] st [OF mpd(5), of 28]
    by (simp_all add: fdt_set_magic_def fdt_set_totalsize_def fdt_set_version_def fdt_set_last_comp_version_def
        fdt_set_boot_cpuid_phys_def ms m5_def)
  have pk5: "packed_at m5 buf R S T" unfolding m5_def ms by (intro packed_put pk) simp_all
  have h: "fdt_magic m5 buf = Some FDT_MAGIC" "fdt_totalsize m5 buf = Some bufsize" "fdt_version m5 buf = Some 17"
    "fdt_last_comp_version m5 buf = Some 16"
    using u by (simp_all add: fdt_magic_def fdt_totalsize_def fdt_version_def fdt_last_comp_version_def m5_def ms
        fdt32_ld_put_other fdt32_ld_put u32_id)
  have "layout m5 buf bufsize (40 + int (length R)) (40 + int (length R) + int (length S)) S T"
    using pk5 h buf R mpd(6) unfolding layout_def packed_at_def by (simp add: add.assoc)
  moreover have "\<forall>x. x < buf \<or> buf + 40 \<le> x \<longrightarrow> m5 x = m x" by (auto simp: m5_def ms put_bytes_other)
  ultimately show ?thesis using w c u pk5
    by (intro exI [of _ m5]) (simp add: fdt_boot_cpuid_phys_def)
qed

text \<open>
  There is room for the packed tree: in a buffer apart from the tree, or, when the buffer overlaps
  the tree, between the end of the tree and the end of the buffer.
\<close>

definition pack_room :: "addr \<Rightarrow> int \<Rightarrow> addr \<Rightarrow> int \<Rightarrow> int \<Rightarrow> bool" where
  "pack_room fdt ts buf bufsize n \<longleftrightarrow> n \<le> bufsize \<and>
     (buf + n \<le> fdt \<or> fdt + ts \<le> buf \<or> fdt + ts + n \<le> buf + bufsize)"

lemma open_packed_ok:
  assumes b: "blocks m fdt ts r R os S ot T" and mis: "\<not> in_order r R os S ot"
    and buf: "0 < buf" "buf mod 8 = 0" "mapped m buf bufsize" "bufsize < INT_MAX"
    and room: "pack_room fdt ts buf bufsize (packed_size R S T)"
  shows "\<exists>m'. fdt_open_into m fdt buf bufsize = Some (0, m') \<and>
    layout m' buf bufsize (40 + int (length R)) (40 + int (length R) + int (length S)) S T \<and>
    packed_at m' buf R S T \<and> (\<forall>x. x < buf \<or> buf + bufsize \<le> x \<longrightarrow> m' x = m x)"
proof -
  let ?N = "packed_size R S T"
  define q where "q = (if buf + ?N > fdt \<and> buf < fdt + ts then fdt + ts else buf)"
  from room have N: "?N \<le> bufsize" by (simp add: pack_room_def)
  have q: "q + ?N \<le> fdt \<or> fdt + ts \<le> q" "buf \<le> q" "q + ?N \<le> buf + bufsize"
    using room by (auto simp: q_def pack_room_def split: if_splits)
  have mq: "mapped m q ?N" using q by (intro mapped_sub [OF buf(3)]) linarith+
  obtain n where f: "fdt_num_mem_rsv m fdt = Some n" "0 \<le> n" "int (length R) = 16 * (n + 1)"
    "fdt_version m fdt = Some 17" "fdt_totalsize m fdt = Some ts" "fdt_size_dt_struct m fdt = Some (int (length S))"
    "fdt_size_dt_strings m fdt = Some (int (length T))" "mapped m fdt ts" "40 \<le> ts"
    using b by (auto simp: blocks_def)
  from packblocks_ok [OF b q(1) mq] N buf(4) obtain m1 where
    m1: "fdt_packblocks m fdt q (int (length R)) (int (length S)) (int (length T)) = Some m1" "packed_at m1 q R S T"
      "\<forall>x. x < q \<or> q + ?N \<le> x \<longrightarrow> m1 x = m x" "\<forall>p n. mapped m p n \<longrightarrow> mapped m1 p n" by auto
  have m1q: "mapped m1 q ?N" "mapped m1 buf bufsize" using m1(4) mq buf(3) by blast+
  define k where "k = 40 + length R + length S + length T"
  have k: "?N = int k" by (simp add: k_def)
  have "mapped m1 q (int k)" "mapped m1 buf (int k)"
    using m1q N k by (auto intro: mapped_sub)
  from memmove_ok [OF this] obtain bs where bs: "rd_bytes m1 q k = Some bs"
    "memmove m1 buf q ?N = Some (put_bytes m1 buf bs)" unfolding k by blast
  have lb: "length bs = k" by (rule rd_bytes_length [OF bs(1)])
  let ?m2 = "put_bytes m1 buf bs"
  have "?m2 (buf + i) = m1 (q + i)" if "0 \<le> i" "i < ?N" for i
  proof -
    have i: "i = int (nat i)" "nat i < k" using that k by auto
    have "?m2 (buf + int (nat i)) = Some (bs ! nat i)" using i lb by (intro put_bytes_at) simp
    moreover have "m1 (q + int (nat i)) = Some (bs ! nat i)" using bs(1) i(2) unfolding rd_bytes_iff by blast
    ultimately show ?thesis using i(1) by simp
  qed
  then have pk: "packed_at ?m2 buf R S T" by (intro packed_shift [OF _ m1(2)]) blast
  have mp2: "mapped ?m2 buf bufsize" "mapped ?m2 fdt ts" using m1q(2) m1(4) f(8) by (auto intro: mapped_put_bytes)
  have "16 \<le> int (length R)" using f(2,3) by simp
  then have R: "16 \<le> length R" by simp
  from packed_header [OF pk buf(1,2) mp2(1) N buf(4) R mp2(2) f(9)] obtain m3 where
    m3: "do {
           m \<leftarrow> fdt_set_magic ?m2 buf FDT_MAGIC;
           m \<leftarrow> fdt_set_totalsize m buf (u32 bufsize);
           m \<leftarrow> fdt_set_version m buf 17;
           m \<leftarrow> fdt_set_last_comp_version m buf 16;
           cpuid \<leftarrow> fdt_boot_cpuid_phys m fdt;
           m \<leftarrow> fdt_set_boot_cpuid_phys m buf cpuid;
           Some (0, m) } = Some (0 :: int, m3)"
      "layout m3 buf bufsize (40 + int (length R)) (40 + int (length R) + int (length S)) S T"
      "packed_at m3 buf R S T" "\<forall>x. x < buf \<or> buf + 40 \<le> x \<longrightarrow> m3 x = ?m2 x" by blast
  have s: "s32 ?N = ?N" "s32 (int (length T)) = int (length T)" "s32 (int (length S)) = int (length S)"
    "s32 (int (length R)) = int (length R)"
    using N buf(4) by (auto intro!: s32_id)
  have rs: "n * 16 + 16 = int (length R)" using f(3) by simp
  have ov: "\<not> buf + bufsize < q + ?N" using q(3) by simp
  have "open_blocks m fdt buf bufsize (fdt + ts) (int (length R)) (int (length S)) = Some (0, m3)"
    using blocks_misordered [OF b] mis f(7) s N ov m1(1) bs(2) m3(1)
    by (simp add: open_blocks_def Let_def q_def [symmetric])
  moreover have "\<not> ts < 0" using f(9) by linarith
  ultimately have "fdt_open_into m fdt buf bufsize = Some (0, m3)"
    using f(1,4-6) s blocks_probe [OF b] by (simp add: fdt_open_into_def Let_def rs)
  moreover have "m3 x = m x" if "x < buf \<or> buf + bufsize \<le> x" for x
    using that m3(4) m1(3) q N lb k by (auto simp: put_bytes_other)
  ultimately show ?thesis using m3(2,3) by blast
qed

text \<open>Both ways of opening a tree.\<close>

lemma open_any_ok:
  assumes b: "blocks m fdt ts r R os S ot T"
    and buf: "0 < buf" "buf mod 8 = 0" "mapped m buf bufsize" "bufsize < INT_MAX"
    and room: "if in_order r R os S ot then ts \<le> bufsize
      else pack_room fdt ts buf bufsize (40 + int (length R) + int (length S) + int (length T))"
  shows "\<exists>m' r' os' ot'. fdt_open_into m fdt buf bufsize = Some (0, m') \<and> layout m' buf bufsize os' ot' S T \<and>
    fdt_off_mem_rsvmap m' buf = Some r' \<and> rd_bytes m' (buf + r') (length R) = Some R \<and>
    (\<forall>x. x < buf \<or> buf + bufsize \<le> x \<longrightarrow> m' x = m x) \<and>
    (if in_order r R os S ot
     then r' = r \<and> os' = os \<and> ot' = ot \<and> (\<forall>x. buf + ts \<le> x \<longrightarrow> m' x = m x) \<and>
       (\<forall>i. 40 \<le> i \<and> i < os \<longrightarrow> m' (buf + i) = m (fdt + i))
     else r' = 40 \<and> os' = 40 + int (length R) \<and> ot' = 40 + int (length R) + int (length S))"
proof (cases "in_order r R os S ot")
  case False
  with open_packed_ok [OF b False buf] room obtain m' where
    "fdt_open_into m fdt buf bufsize = Some (0, m')"
    "layout m' buf bufsize (40 + int (length R)) (40 + int (length R) + int (length S)) S T"
    "packed_at m' buf R S T" "\<forall>x. x < buf \<or> buf + bufsize \<le> x \<longrightarrow> m' x = m x" by auto
  then show ?thesis using False unfolding packed_at_def by auto
next
  case True
  from b obtain n where n: "fdt_num_mem_rsv m fdt = Some n" "0 \<le> n" "fdt_off_mem_rsvmap m fdt = Some r"
    "int (length R) = 16 * (n + 1)" "rd_bytes m (fdt + r) (length R) = Some R" by (auto simp: blocks_def)
  from True n(4) have ro: "40 \<le> r" "r + 16 * (n + 1) \<le> os" "r + int (length R) \<le> os" by (auto simp: in_order_def)
  from room True have ts: "ts \<le> bufsize" by simp
  from open_into_ok [OF blocks_layout [OF b True] n(1-3) ro(2) buf(1-3) ts buf(4)] obtain m' where
    m': "fdt_open_into m fdt buf bufsize = Some (0, m')" "layout m' buf bufsize os ot S T"
      "\<forall>x. x < buf \<or> buf + ts \<le> x \<longrightarrow> m' x = m x" "\<forall>i. 40 \<le> i \<and> i < os \<longrightarrow> m' (buf + i) = m (fdt + i)"
      "fdt_off_mem_rsvmap m' buf = Some r" by blast
  have "m' (buf + r + int i) = m (fdt + r + int i)" if "i < length R" for i
    using spec [OF m'(4), of "r + int i"] ro that by (simp add: add.assoc)
  with n(5) have "rd_bytes m' (buf + r) (length R) = Some R" by (simp add: rd_bytes_iff)
  moreover have "\<forall>x. x < buf \<or> buf + bufsize \<le> x \<longrightarrow> m' x = m x" using m'(3) ts by simp
  ultimately show ?thesis using True m' by auto
qed

end
