(* ===== verification/Fdt_Sw.thy ===== *)
theory Fdt_Sw
  imports Fdt_Rw
begin

text \<open>
  The sequential construction of a tree (\<open>fdt_sw.c\<close>) and the empty tree (\<open>fdt_empty_tree.c\<close>). While
  a tree is under construction its magic number is \<open>FDT_SW_MAGIC\<close>, its names lie at the end of the
  buffer and their offsets are negative; \<open>fdt_finish\<close> moves them behind the structure block.
\<close>

abbreviation (input) FDT_ERR_BADFLAGS :: int where "FDT_ERR_BADFLAGS \<equiv> 18"
abbreviation (input) FDT_CREATE_FLAG_NO_NAME_DEDUP :: int where "FDT_CREATE_FLAG_NO_NAME_DEDUP \<equiv> 1"

section \<open>The states\<close>

definition fdt_sw_probe :: "mem \<Rightarrow> addr \<Rightarrow> int option" where
  "fdt_sw_probe m fdt = do {
     magic \<leftarrow> fdt_magic m fdt;
     Some (if magic = FDT_MAGIC then - FDT_ERR_BADSTATE
           else if magic \<noteq> FDT_SW_MAGIC then - FDT_ERR_BADMAGIC else 0) }"

definition fdt_sw_probe_memrsv :: "mem \<Rightarrow> addr \<Rightarrow> int option" where
  "fdt_sw_probe_memrsv m fdt = do {
     err \<leftarrow> fdt_sw_probe m fdt;
     if err \<noteq> 0 then Some err
     else do {
       off_strings \<leftarrow> fdt_off_dt_strings m fdt;
       Some (if off_strings \<noteq> 0 then - FDT_ERR_BADSTATE else 0) } }"

definition fdt_sw_probe_struct :: "mem \<Rightarrow> addr \<Rightarrow> int option" where
  "fdt_sw_probe_struct m fdt = do {
     err \<leftarrow> fdt_sw_probe m fdt;
     if err \<noteq> 0 then Some err
     else do {
       off_strings \<leftarrow> fdt_off_dt_strings m fdt;
       total \<leftarrow> fdt_totalsize m fdt;
       Some (if off_strings \<noteq> total then - FDT_ERR_BADSTATE else 0) } }"

definition sw_flags :: "mem \<Rightarrow> addr \<Rightarrow> int option" where
  "sw_flags m fdt = fdt_last_comp_version m fdt"

text \<open>\<open>fdt_grab_space_\<close>: the address of \<open>len\<close> new bytes of the structure block, or NULL.\<close>

definition fdt_grab_space :: "mem \<Rightarrow> addr \<Rightarrow> int \<Rightarrow> (addr \<times> mem) option" where
  "fdt_grab_space m fdt len = do {
     offset \<leftarrow> fdt_size_dt_struct m fdt;
     total \<leftarrow> fdt_totalsize m fdt;
     off_struct \<leftarrow> fdt_off_dt_struct m fdt;
     size_strings \<leftarrow> fdt_size_dt_strings m fdt;
     let spaceleft = u32 (total - off_struct - size_strings);
     if u64 (offset + len) < offset \<or> u64 (offset + len) > spaceleft then Some (NULL, m)
     else do {
       m \<leftarrow> fdt_set_size_dt_struct m fdt (u32 (offset + len));
       off_struct \<leftarrow> fdt_off_dt_struct m fdt;
       Some (fdt + off_struct + offset, m) } }"

section \<open>Creation\<close>

definition fdt_create_with_flags :: "mem \<Rightarrow> addr \<Rightarrow> int \<Rightarrow> int \<Rightarrow> (int \<times> mem) option" where
  "fdt_create_with_flags m buf bufsize flags =
     (let hdrsize = 48
      in if bufsize < hdrsize then Some (- FDT_ERR_NOSPACE, m)
         else if flags div 2 \<noteq> 0 then Some (- FDT_ERR_BADFLAGS, m)
         else do {
           m \<leftarrow> wr m buf (replicate (nat bufsize) 0);
           m \<leftarrow> fdt_set_magic m buf FDT_SW_MAGIC;
           m \<leftarrow> fdt_set_version m buf FDT_LAST_SUPPORTED_VERSION;
           m \<leftarrow> fdt_set_last_comp_version m buf flags;
           m \<leftarrow> fdt_set_totalsize m buf (u32 bufsize);
           m \<leftarrow> fdt_set_off_mem_rsvmap m buf hdrsize;
           off_rsv \<leftarrow> fdt_off_mem_rsvmap m buf;
           m \<leftarrow> fdt_set_off_dt_struct m buf off_rsv;
           m \<leftarrow> fdt_set_off_dt_strings m buf 0;
           Some (0, m) })"

definition fdt_create :: "mem \<Rightarrow> addr \<Rightarrow> int \<Rightarrow> (int \<times> mem) option" where
  "fdt_create m buf bufsize = fdt_create_with_flags m buf bufsize 0"

definition fdt_resize :: "mem \<Rightarrow> addr \<Rightarrow> addr \<Rightarrow> int \<Rightarrow> (int \<times> mem) option" where
  "fdt_resize m fdt buf bufsize = do {
     err \<leftarrow> fdt_sw_probe m fdt;
     if err \<noteq> 0 then Some (err, m)
     else if bufsize < 0 then Some (- FDT_ERR_NOSPACE, m)
     else do {
       off_struct \<leftarrow> fdt_off_dt_struct m fdt;
       size_struct \<leftarrow> fdt_size_dt_struct m fdt;
       tailsize \<leftarrow> fdt_size_dt_strings m fdt;
       total \<leftarrow> fdt_totalsize m fdt;
       let headsize = u32 (off_struct + size_struct);
       if headsize + tailsize > total then Some (- FDT_ERR_INTERNAL, m)
       else if headsize + tailsize > u32 bufsize then Some (- FDT_ERR_NOSPACE, m)
       else do {
         let oldtail = fdt + total - tailsize;
         let newtail = buf + bufsize - tailsize;
         m \<leftarrow> (if buf \<le> fdt
              then do { m \<leftarrow> memmove m buf fdt headsize; memmove m newtail oldtail tailsize }
              else do { m \<leftarrow> memmove m newtail oldtail tailsize; memmove m buf fdt headsize });
         m \<leftarrow> fdt_set_totalsize m buf (u32 bufsize);
         off_strings \<leftarrow> fdt_off_dt_strings m buf;
         if off_strings \<noteq> 0
         then do { m \<leftarrow> fdt_set_off_dt_strings m buf (u32 bufsize); Some (0, m) }
         else Some (0, m) } } }"

definition fdt_add_reservemap_entry :: "mem \<Rightarrow> addr \<Rightarrow> int \<Rightarrow> int \<Rightarrow> (int \<times> mem) option" where
  "fdt_add_reservemap_entry m fdt address sz = do {
     err \<leftarrow> fdt_sw_probe_memrsv m fdt;
     if err \<noteq> 0 then Some (err, m)
     else do {
       off_struct \<leftarrow> fdt_off_dt_struct m fdt;
       total \<leftarrow> fdt_totalsize m fdt;
       let offset = s32 off_struct;
       if u64 (offset + 16) > total then Some (- FDT_ERR_NOSPACE, m)
       else do {
         m \<leftarrow> fdt64_st m (fdt + offset) address;
         m \<leftarrow> fdt64_st m (fdt + offset + 8) sz;
         m \<leftarrow> fdt_set_off_dt_struct m fdt (u32 (offset + 16));
         Some (0, m) } } }"

definition fdt_finish_reservemap :: "mem \<Rightarrow> addr \<Rightarrow> (int \<times> mem) option" where
  "fdt_finish_reservemap m fdt = do {
     (err, m) \<leftarrow> fdt_add_reservemap_entry m fdt 0 0;
     if err \<noteq> 0 then Some (err, m)
     else do {
       total \<leftarrow> fdt_totalsize m fdt;
       m \<leftarrow> fdt_set_off_dt_strings m fdt total;
       Some (0, m) } }"

section \<open>Nodes and properties\<close>

definition fdt_begin_node :: "mem \<Rightarrow> addr \<Rightarrow> byte list \<Rightarrow> (int \<times> mem) option" where
  "fdt_begin_node m fdt name = do {
     err \<leftarrow> fdt_sw_probe_struct m fdt;
     if err \<noteq> 0 then Some (err, m)
     else do {
       let namelen = int (length name) + 1;
       (nh, m) \<leftarrow> fdt_grab_space m fdt (4 + (namelen + 3) div 4 * 4);
       if nh = NULL then Some (- FDT_ERR_NOSPACE, m)
       else do {
         m \<leftarrow> fdt32_st m nh FDT_BEGIN_NODE;
         m \<leftarrow> wr m (nh + 4) (name @ [0]);
         Some (0, m) } } }"

definition fdt_end_node :: "mem \<Rightarrow> addr \<Rightarrow> (int \<times> mem) option" where
  "fdt_end_node m fdt = do {
     err \<leftarrow> fdt_sw_probe_struct m fdt;
     if err \<noteq> 0 then Some (err, m)
     else do {
       (en, m) \<leftarrow> fdt_grab_space m fdt 4;
       if en = NULL then Some (- FDT_ERR_NOSPACE, m)
       else do {
         m \<leftarrow> fdt32_st m en FDT_END_NODE;
         Some (0, m) } } }"

definition sw_add_string :: "mem \<Rightarrow> addr \<Rightarrow> byte list \<Rightarrow> (int \<times> mem) option" where
  "sw_add_string m fdt s = do {
     total \<leftarrow> fdt_totalsize m fdt;
     strtabsize \<leftarrow> fdt_size_dt_strings m fdt;
     off_struct \<leftarrow> fdt_off_dt_struct m fdt;
     size_struct \<leftarrow> fdt_size_dt_struct m fdt;
     let strtab = fdt + total;
     let len = u32 (int (length s) + 1);
     let offset = u32 (strtabsize + len);
     let struct_top = u32 (off_struct + size_struct);
     if u32 (total - offset) < struct_top then Some (0, m)
     else do {
       m \<leftarrow> wr m (strtab - offset) (s @ [0]);
       m \<leftarrow> fdt_set_size_dt_strings m fdt (u32 (strtabsize + len));
       Some (s32 (- offset), m) } }"

definition sw_del_last_string :: "mem \<Rightarrow> addr \<Rightarrow> byte list \<Rightarrow> mem option" where
  "sw_del_last_string m fdt s = do {
     strtabsize \<leftarrow> fdt_size_dt_strings m fdt;
     fdt_set_size_dt_strings m fdt (u32 (strtabsize - (int (length s) + 1))) }"

definition sw_find_add_string :: "mem \<Rightarrow> addr \<Rightarrow> byte list \<Rightarrow> (int \<times> bool \<times> mem) option" where
  "sw_find_add_string m fdt s = do {
     total \<leftarrow> fdt_totalsize m fdt;
     size_strings \<leftarrow> fdt_size_dt_strings m fdt;
     let strtab = fdt + total;
     let strtabsize = s32 size_strings;
     p \<leftarrow> fdt_find_string_len m (strtab - strtabsize) strtabsize s;
     if p \<noteq> NULL then Some (s32 (p - strtab), False, m)
     else do {
       (r, m) \<leftarrow> sw_add_string m fdt s;
       Some (r, True, m) } }"

text \<open>The status, the address of the value and the memory.\<close>

definition fdt_property_placeholder :: "mem \<Rightarrow> addr \<Rightarrow> byte list \<Rightarrow> int \<Rightarrow> (int \<times> addr \<times> mem) option" where
  "fdt_property_placeholder m fdt name len = do {
     err \<leftarrow> fdt_sw_probe_struct m fdt;
     if err \<noteq> 0 then Some (err, NULL, m)
     else do {
       flags \<leftarrow> sw_flags m fdt;
       (nameoff, allocated, m) \<leftarrow>
         (if flags mod 2 = FDT_CREATE_FLAG_NO_NAME_DEDUP
          then do { (r, m) \<leftarrow> sw_add_string m fdt name; Some (r, True, m) }
          else sw_find_add_string m fdt name);
       if nameoff = 0 then Some (- FDT_ERR_NOSPACE, NULL, m)
       else do {
         (prop, m) \<leftarrow> fdt_grab_space m fdt (u64 (12 + u64 ((len + 3) div 4 * 4)));
         if prop = NULL then
           (if allocated then do { m \<leftarrow> sw_del_last_string m fdt name; Some (- FDT_ERR_NOSPACE, NULL, m) }
            else Some (- FDT_ERR_NOSPACE, NULL, m))
         else do {
           m \<leftarrow> fdt32_st m prop FDT_PROP;
           m \<leftarrow> fdt32_st m (prop + 8) (u32 nameoff);
           m \<leftarrow> fdt32_st m (prop + 4) (u32 len);
           Some (0, prop + 12, m) } } } }"

definition fdt_property :: "mem \<Rightarrow> addr \<Rightarrow> byte list \<Rightarrow> byte list \<Rightarrow> int \<Rightarrow> (int \<times> mem) option" where
  "fdt_property m fdt name val len = do {
     (ret, p, m) \<leftarrow> fdt_property_placeholder m fdt name len;
     if ret \<noteq> 0 then Some (ret, m)
     else do {
       m \<leftarrow> copy_in m p val len;
       Some (0, m) } }"

section \<open>Finishing\<close>

text \<open>The loop that corrects the offsets of the names: the last \<open>nextoffset\<close> and the memory.\<close>

function (sequential) fix_offsets :: "mem \<Rightarrow> addr \<Rightarrow> int \<Rightarrow> (int \<times> mem) option" where
  "fix_offsets m fdt offset = do {
     (tag, nextoffset) \<leftarrow> fdt_next_tag m fdt offset;
     if tag = FDT_END then Some (nextoffset, m)
     else if tag = FDT_PROP then do {
       off_struct \<leftarrow> fdt_off_dt_struct m fdt;
       let prop = fdt + off_struct + offset;
       nameoff \<leftarrow> fdt32_ld m (prop + 8);
       size_strings \<leftarrow> fdt_size_dt_strings m fdt;
       m \<leftarrow> fdt32_st m (prop + 8) (u32 (s32 nameoff + size_strings));
       fix_offsets m fdt nextoffset }
     else fix_offsets m fdt nextoffset }"
  by pat_completeness auto

termination fix_offsets
  by (relation "measure (\<lambda>(m, fdt, x). walk_measure x)") (auto dest: walk_step)

declare fix_offsets.simps [simp del]

definition fdt_finish :: "mem \<Rightarrow> addr \<Rightarrow> (int \<times> mem) option" where
  "fdt_finish m fdt = do {
     err \<leftarrow> fdt_sw_probe_struct m fdt;
     if err \<noteq> 0 then Some (err, m)
     else do {
       (en, m) \<leftarrow> fdt_grab_space m fdt 4;
       if en = NULL then Some (- FDT_ERR_NOSPACE, m)
       else do {
         m \<leftarrow> fdt32_st m en FDT_END;
         total \<leftarrow> fdt_totalsize m fdt;
         size_strings \<leftarrow> fdt_size_dt_strings m fdt;
         off_struct \<leftarrow> fdt_off_dt_struct m fdt;
         size_struct \<leftarrow> fdt_size_dt_struct m fdt;
         let oldstroffset = s32 (total - size_strings);
         let newstroffset = s32 (off_struct + size_struct);
         m \<leftarrow> memmove m (fdt + newstroffset) (fdt + oldstroffset) size_strings;
         m \<leftarrow> fdt_set_off_dt_strings m fdt (u32 newstroffset);
         (nextoffset, m) \<leftarrow> fix_offsets m fdt 0;
         if nextoffset < 0 then Some (nextoffset, m)
         else do {
           size_strings \<leftarrow> fdt_size_dt_strings m fdt;
           m \<leftarrow> fdt_set_totalsize m fdt (u32 (newstroffset + size_strings));
           m \<leftarrow> fdt_set_last_comp_version m fdt 16;
           m \<leftarrow> fdt_set_magic m fdt FDT_MAGIC;
           Some (0, m) } } } }"

text \<open>\<open>fdt_create_empty_tree\<close>: every step runs only when the one before has succeeded.\<close>

definition then_step :: "(int \<times> mem) option \<Rightarrow> (mem \<Rightarrow> (int \<times> mem) option) \<Rightarrow> (int \<times> mem) option" where
  "then_step r f = do { (err, m) \<leftarrow> r; if err \<noteq> 0 then Some (err, m) else f m }"

definition fdt_create_empty_tree :: "mem \<Rightarrow> addr \<Rightarrow> int \<Rightarrow> (int \<times> mem) option" where
  "fdt_create_empty_tree m buf bufsize =
     then_step (fdt_create m buf bufsize) (\<lambda>m.
     then_step (fdt_finish_reservemap m buf) (\<lambda>m.
     then_step (fdt_begin_node m buf []) (\<lambda>m.
     then_step (fdt_end_node m buf) (\<lambda>m.
     then_step (fdt_finish m buf) (\<lambda>m.
     fdt_open_into m buf buf bufsize)))))"

end
