(* ===== verification/Ext_Core.thy ===== *)
theory Ext_Core
  imports Fdt_Safe
begin

text \<open>
  Types of DTBExtnLib (\<open>DTBExtnLib.h\<close>, \<open>DTBInternals.h\<close>) and the table of registered blobs
  (\<open>DTBExtnLib_blob.c\<close>).

  The numbers \<open>FDT_ERR_QC_*\<close> come from a header that is not part of the sources, so a return
  code is either an \<open>int\<close> that libfdt returned (\<open>Ret\<close>, with \<open>FDT_ERR_QC_NOERROR\<close> = 0) or a
  symbolic code, negated (\<open>Qc e\<close> for \<open>-FDT_ERR_QC_e\<close>) or not (\<open>QcPos e\<close>). Pointer arguments
  that the functions test for NULL are options; a pointer to a result is a flag that says
  whether it is non-NULL, and the result is part of the value returned. A string is passed as
  its characters. The debug output (\<open>dtb_config.verbose\<close>, \<open>dtb_config.trace\<close>) is not modelled.
\<close>

datatype qc_err =
    NULLPTR | TRUNCATED | OVERFLOW | NILVALUE | BADFORMAT | SLICE_RANGE | SLICE_COUNT | BUF2SMALL
  | BAD_SELECTOR | FDTLIB_ERROR | BLOBID | NODE_DIFFERENT | NOTSUPPORTED | INPUT_ARG_ERR
  | REGIDX | TARGETIDX | MEMALLOC

datatype rc = Ret int | Qc qc_err | QcPos qc_err

abbreviation NOERROR :: rc where "NOERROR \<equiv> Ret 0"

text \<open>\<open>LEN_ERROR_CHECK (code)\<close>\<close>

definition len_error :: "int \<Rightarrow> rc" where
  "len_error code = (if code < 0 then Ret code else Qc FDTLIB_ERROR)"

lemma len_error_not_ok [simp]: "len_error code \<noteq> NOERROR" "len_error code \<noteq> Qc NULLPTR"
  by (auto simp: len_error_def)

record fdt_node_handle =
  blob :: addr
  offset :: int

text \<open>\<open>Config\<close>: three \<open>int\<close>s, filled from the property \<open>config\<close> of \<open>/sw/boot\<close>.\<close>

record config =
  client :: int
  trace :: int
  verbose :: int

text \<open>
  The static variables of the library. \<open>MAX_BLOB_ID\<close> is the length of the table of blobs;
  \<open>default_blob_id\<close> is the constant \<open>DEFAULT_BLOB_ID\<close>.
\<close>

record ext_state =
  dtb_blob :: "addr list"
  dtb_config :: config
  default_blob_id :: int

text \<open>\<open>BLOBID_CHECK (id)\<close>\<close>

definition blobid_ok :: "ext_state \<Rightarrow> int \<Rightarrow> bool" where
  "blobid_ok st i \<longleftrightarrow> 0 \<le> i \<and> i < int (length (dtb_blob st))"

definition fdt_get_blob_handle :: "ext_state \<Rightarrow> bool \<Rightarrow> int \<Rightarrow> rc \<times> addr option" where
  "fdt_get_blob_handle st blob_ok blob_id =
     (if \<not> blob_ok then (Qc NULLPTR, None)
      else if \<not> blobid_ok st blob_id then (Qc BLOBID, None)
      else if dtb_blob st ! nat blob_id = NULL then (Qc NULLPTR, None)
      else (NOERROR, Some (dtb_blob st ! nat blob_id)))"

definition fdt_get_blob_size :: "mem \<Rightarrow> fdt_node_handle option \<Rightarrow> bool \<Rightarrow> (rc \<times> int option) option" where
  "fdt_get_blob_size m node size_ok =
     (case node of None \<Rightarrow> Some (Qc NULLPTR, None)
      | Some h \<Rightarrow>
        if blob h = NULL then Some (Qc NULLPTR, None)
        else if \<not> size_ok then Some (Qc NULLPTR, None)
        else do { n \<leftarrow> fdt_totalsize m (blob h); Some (NOERROR, Some n) })"

definition fdt_init_root_handle_for_driver ::
  "bool \<Rightarrow> addr \<Rightarrow> rc \<times> fdt_node_handle option" where
  "fdt_init_root_handle_for_driver node_ok b =
     (if \<not> node_ok then (Qc NULLPTR, None)
      else if b = NULL then (Qc NULLPTR, None)
      else (NOERROR, Some \<lparr> blob = b, offset = - 1 \<rparr>))"

definition fdt_init_root_handle_for_driver_by_id ::
  "ext_state \<Rightarrow> bool \<Rightarrow> int \<Rightarrow> rc \<times> fdt_node_handle option" where
  "fdt_init_root_handle_for_driver_by_id st node_ok blob_id =
     (if \<not> node_ok then (Qc NULLPTR, None)
      else if \<not> blobid_ok st blob_id then (Qc BLOBID, None)
      else fdt_init_root_handle_for_driver node_ok (dtb_blob st ! nat blob_id))"

text \<open>A handle as the library produces them: its blob is valid and its offset is an \<open>int\<close>.\<close>

definition valid_handle :: "mem \<Rightarrow> fdt_node_handle \<Rightarrow> bool" where
  "valid_handle m h \<longleftrightarrow> valid_blob m (blob h) \<and> c_int (offset h)"

section \<open>Checking a blob\<close>

abbreviation (input) FDT_V17_SIZE :: int where "FDT_V17_SIZE \<equiv> 40"

text \<open>
  \<open>fdt_check_for_valid_blob\<close>: \<open>bsize\<close> is a \<open>size_t\<close>; the sums of an offset and a size are
  \<open>uint32_t\<close> additions.
\<close>

definition fdt_check_for_valid_blob :: "mem \<Rightarrow> addr \<Rightarrow> int \<Rightarrow> rc option" where
  "fdt_check_for_valid_blob m b bsize =
     (if b = NULL then Some (Qc NULLPTR)
      else if bsize < FDT_V17_SIZE then Some (Ret (- FDT_ERR_NOSPACE))
      else do {
        r \<leftarrow> fdt_check_header m b;
        if r \<noteq> 0 then Some (Ret (- FDT_ERR_BADMAGIC))
        else do {
          total \<leftarrow> fdt_totalsize m b;
          off_struct \<leftarrow> fdt_off_dt_struct m b;
          off_strings \<leftarrow> fdt_off_dt_strings m b;
          off_rsvmap \<leftarrow> fdt_off_mem_rsvmap m b;
          size_strings \<leftarrow> fdt_size_dt_strings m b;
          size_struct \<leftarrow> fdt_size_dt_struct m b;
          Some (if bsize < total then Ret (- FDT_ERR_NOSPACE)
                else if bsize < off_struct then Ret (- FDT_ERR_NOSPACE)
                else if bsize < off_strings then Ret (- FDT_ERR_NOSPACE)
                else if bsize < off_rsvmap then Ret (- FDT_ERR_NOSPACE)
                else if bsize < u32 (off_strings + size_strings) then Ret (- FDT_ERR_NOSPACE)
                else if bsize < u32 (off_struct + size_struct) then Ret (- FDT_ERR_NOSPACE)
                else NOERROR) } })"

text \<open>The loads of the header fields, and their values once the ten words are mapped.\<close>

lemmas header_field_defs = fdt_magic_def fdt_totalsize_def fdt_off_dt_struct_def
  fdt_off_dt_strings_def fdt_off_mem_rsvmap_def fdt_version_def fdt_last_comp_version_def
  fdt_size_dt_strings_def fdt_size_dt_struct_def

lemma header_word_ex: "mapped m b n \<Longrightarrow> 0 \<le> k \<Longrightarrow> k + 4 \<le> n \<Longrightarrow> \<exists>v. fdt32_ld m (b + k) = Some v"
  by (rule fdt32_ld_ex) (auto elim: mapped_sub)

lemma header_fields_ex:
  assumes "mapped m b 40"
  obtains mg n os ot rs v lc st ss where "fdt_magic m b = Some mg" "fdt_totalsize m b = Some n"
    "fdt_off_dt_struct m b = Some os" "fdt_off_dt_strings m b = Some ot"
    "fdt_off_mem_rsvmap m b = Some rs" "fdt_version m b = Some v" "fdt_last_comp_version m b = Some lc"
    "fdt_size_dt_strings m b = Some st" "fdt_size_dt_struct m b = Some ss"
proof -
  have *: "0 \<le> k \<Longrightarrow> k \<le> 36 \<Longrightarrow> \<exists>v. fdt32_ld m (b + k) = Some v" for k
    using header_word_ex [OF assms, of k] by simp
  from * [of 0] have 0: "\<exists>v. fdt_magic m b = Some v" by (simp add: header_field_defs)
  have 1: "\<exists>v. fdt_totalsize m b = Some v" "\<exists>v. fdt_off_dt_struct m b = Some v"
    "\<exists>v. fdt_off_dt_strings m b = Some v" "\<exists>v. fdt_off_mem_rsvmap m b = Some v"
    "\<exists>v. fdt_version m b = Some v" "\<exists>v. fdt_last_comp_version m b = Some v"
    "\<exists>v. fdt_size_dt_strings m b = Some v" "\<exists>v. fdt_size_dt_struct m b = Some v"
    unfolding header_field_defs by (rule *; simp)+
  from 0 1 that show thesis by blast
qed

lemma fdt_check_header_safe:
  assumes "mapped m b 40"
  shows "\<exists>r. fdt_check_header m b = Some r"
proof -
  from assms obtain mg n os ot rs v lc st ss where "fdt_magic m b = Some mg" "fdt_totalsize m b = Some n"
    "fdt_off_dt_struct m b = Some os" "fdt_off_dt_strings m b = Some ot"
    "fdt_off_mem_rsvmap m b = Some rs" "fdt_version m b = Some v" "fdt_last_comp_version m b = Some lc"
    "fdt_size_dt_strings m b = Some st" "fdt_size_dt_struct m b = Some ss"
    by (rule header_fields_ex)
  then show ?thesis
    by (simp add: fdt_check_header_def fdt_header_size_def struct_size_v17_def)
qed

lemma fdt_check_for_valid_blob_safe:
  assumes "mapped m b bsize"
  shows "\<exists>r. fdt_check_for_valid_blob m b bsize = Some r"
proof (cases "bsize < 40")
  case True
  then show ?thesis by (simp add: fdt_check_for_valid_blob_def)
next
  case False
  with assms have m40: "mapped m b 40" by (auto elim: mapped_sub)
  from m40 obtain mg n os ot rs v lc st ss where "fdt_magic m b = Some mg" "fdt_totalsize m b = Some n"
    "fdt_off_dt_struct m b = Some os" "fdt_off_dt_strings m b = Some ot"
    "fdt_off_mem_rsvmap m b = Some rs" "fdt_version m b = Some v" "fdt_last_comp_version m b = Some lc"
    "fdt_size_dt_strings m b = Some st" "fdt_size_dt_struct m b = Some ss"
    by (rule header_fields_ex)
  with fdt_check_header_safe [OF m40] show ?thesis
    by (auto simp: fdt_check_for_valid_blob_def)
qed

lemma fdt_check_for_valid_blob_sound:
  assumes "fdt_check_for_valid_blob m b bsize = Some NOERROR" and "mapped m b bsize" and "0 < b"
  shows "valid_blob m b" and "\<exists>n. fdt_totalsize m b = Some n \<and> n \<le> bsize"
proof -
  from assms(1) obtain n where n: "fdt_check_header m b = Some 0" "fdt_totalsize m b = Some n" "n \<le> bsize"
    by (auto simp: fdt_check_for_valid_blob_def bind_eq_Some_conv split: if_splits)
  moreover from assms(2) n(3) have "mapped m b n" by (auto elim: mapped_sub)
  ultimately show "valid_blob m b" "\<exists>n. fdt_totalsize m b = Some n \<and> n \<le> bsize"
    using assms(3) by (simp_all add: valid_blob_def)
qed

lemma fdt_check_for_valid_blob_complete:
  assumes v: "valid_blob m b" and n: "fdt_totalsize m b = Some n" "n \<le> bsize"
    and ver: "fdt_version m b = Some ver" "17 \<le> ver"
  shows "fdt_check_for_valid_blob m b bsize = Some NOERROR"
proof (rule valid_blob_header [OF v], goal_cases)
  case (1 v' n' os ss ot st rs lc)
  then have same: "n' = n" "v' = ver" using n(1) ver(1) by simp_all
  have "u32 (ot + st) = ot + st" using 1 by (intro u32_id) linarith+
  moreover have "u32 (os + ss) = os + ss" using 1 same ver(2) by (intro u32_id) linarith+
  moreover have "fdt_check_header m b = Some 0" using v by (simp add: valid_blob_def)
  ultimately show ?case using 1 same n(2) ver(2) by (simp add: fdt_check_for_valid_blob_def)
qed

end
