(* ===== verification/Ext_Prop.thy ===== *)
theory Ext_Prop
  imports Ext_Core
begin

text \<open>
  Property readers (\<open>libs/DTBExtnLib/DTBExtnLib_prop.c\<close>).

  A reader that fills a caller's buffer returns the code and, when it wrote the buffer, the
  elements written from its start. The buffer is a separate object: it never overlaps the blob.
  The specification of the readers is stated on the bytes of the property (\<open>prop_bytes\<close>) and
  the list of big-endian elements they encode (\<open>be_elems\<close>).
\<close>

section \<open>The readers\<close>

definition fdt_get_prop_size ::
  "mem \<Rightarrow> fdt_node_handle option \<Rightarrow> byte list option \<Rightarrow> bool \<Rightarrow> (rc \<times> int option) option" where
  "fdt_get_prop_size m node prop_name size_ok =
     (case (node, prop_name, size_ok) of
        (Some h, Some name, True) \<Rightarrow> do {
          (prop_value, len) \<leftarrow> fdt_getprop m (blob h) (offset h) name;
          if prop_value = NULL \<or> len < 0 then Some (len_error len, None)
          else Some (NOERROR, Some len) }
      | _ \<Rightarrow> Some (Qc NULLPTR, None))"

datatype dt_data_type = dt_boolean | dt_uint8 | dt_uint16 | dt_uint32 | dt_uint64

fun selector_num :: "dt_data_type \<Rightarrow> int" where
  "selector_num dt_boolean = 0"
| "selector_num dt_uint8 = 1"
| "selector_num dt_uint16 = 2"
| "selector_num dt_uint32 = 4"
| "selector_num dt_uint64 = 8"

text \<open>
  The value stored in element \<open>i\<close> of the buffer. The subscript \<open>i + index\<close> is a \<open>uint32_t\<close>,
  except for 64-bit elements, which are read as two words because they may be unaligned.
\<close>

fun read_elem :: "mem \<Rightarrow> dt_data_type \<Rightarrow> addr \<Rightarrow> int \<Rightarrow> int \<Rightarrow> int option" where
  "read_elem m dt_boolean src index i = None"
| "read_elem m dt_uint8 src index i = rd m (src + u32 (i + index))"
| "read_elem m dt_uint16 src index i = fdt16_ld m (src + 2 * u32 (i + index))"
| "read_elem m dt_uint32 src index i = fdt32_ld m (src + 4 * u32 (i + index))"
| "read_elem m dt_uint64 src index i = do {
     let ptr = src + 8 * i + 8 * index;
     p0 \<leftarrow> ld32_le m ptr;
     p1 \<leftarrow> ld32_le m (ptr + 4);
     Some (fdt64_to_cpu (p0 + p1 * 4294967296)) }"

text \<open>
  The checks on a property of \<open>len\<close> bytes and the copy loop. The quotients are unsigned and
  stored in an \<open>int\<close>; the comparisons with \<open>index\<close> and \<open>count\<close> are unsigned.
\<close>

definition copy_elems ::
  "mem \<Rightarrow> addr \<Rightarrow> int \<Rightarrow> int \<Rightarrow> int \<Rightarrow> int \<Rightarrow> dt_data_type \<Rightarrow> (rc \<times> int list option) option" where
  "copy_elems m vptr len bsize index count selector =
     (if selector_num selector = 0 then None
      else
        let elem_count = s32 (bsize div selector_num selector);
            data_count = s32 (u32 len div selector_num selector)
        in if index > u32 data_count then Some (Qc SLICE_RANGE, None)
           else if count > u32 (data_count - index) then Some (Qc SLICE_COUNT, None)
           else if count > u32 elem_count then Some (Qc BUF2SMALL, None)
           else if count = 0 \<and> u32 elem_count < u32 (data_count - index) then Some (Qc BUF2SMALL, None)
           else do {
             vals \<leftarrow> those (map (read_elem m selector vptr index) [0..elem_count - 1]);
             Some (NOERROR, Some vals) })"

definition fdt_get_uintX_prop_list ::
  "mem \<Rightarrow> fdt_node_handle option \<Rightarrow> byte list option \<Rightarrow> bool \<Rightarrow> int \<Rightarrow> int \<Rightarrow> int \<Rightarrow> dt_data_type \<Rightarrow>
     (rc \<times> int list option) option" where
  "fdt_get_uintX_prop_list m node prop_name prop_list_ok bsize index count selector =
     (case (node, prop_name) of
        (Some h, Some name) \<Rightarrow>
          if selector \<noteq> dt_boolean \<and> \<not> prop_list_ok then Some (Qc NULLPTR, None)
          else do {
            (vptr, len) \<leftarrow> fdt_getprop m (blob h) (offset h) name;
            if vptr \<noteq> NULL \<and> len \<ge> 0 then
              if len = 0 \<and> selector = dt_boolean then Some (NOERROR, None)
              else copy_elems m vptr len bsize index count selector
            else Some (len_error len, None) }
      | _ \<Rightarrow> Some (Qc NULLPTR, None))"

definition fdt_get_uint8_prop_list where
  "fdt_get_uint8_prop_list m node prop_name prop_list_ok bsize =
     fdt_get_uintX_prop_list m node prop_name prop_list_ok bsize 0 0 dt_uint8"

definition fdt_get_uint8_prop where
  "fdt_get_uint8_prop m node prop_name value_ok = fdt_get_uint8_prop_list m node prop_name value_ok 1"

definition fdt_get_uint8_prop_list_slice where
  "fdt_get_uint8_prop_list_slice m node prop_name prop_list_ok index count =
     fdt_get_uintX_prop_list m node prop_name prop_list_ok (u32 (count * 1)) index count dt_uint8"

definition fdt_get_uint16_prop_list where
  "fdt_get_uint16_prop_list m node prop_name prop_list_ok bsize =
     fdt_get_uintX_prop_list m node prop_name prop_list_ok bsize 0 0 dt_uint16"

definition fdt_get_uint16_prop where
  "fdt_get_uint16_prop m node prop_name value_ok = fdt_get_uint16_prop_list m node prop_name value_ok 2"

definition fdt_get_uint16_prop_list_slice where
  "fdt_get_uint16_prop_list_slice m node prop_name prop_list_ok index count =
     fdt_get_uintX_prop_list m node prop_name prop_list_ok (u32 (count * 2)) index count dt_uint16"

definition fdt_get_uint32_prop_list where
  "fdt_get_uint32_prop_list m node prop_name prop_list_ok bsize =
     fdt_get_uintX_prop_list m node prop_name prop_list_ok bsize 0 0 dt_uint32"

definition fdt_get_uint32_prop where
  "fdt_get_uint32_prop m node prop_name value_ok = fdt_get_uint32_prop_list m node prop_name value_ok 4"

definition fdt_get_uint32_prop_list_slice where
  "fdt_get_uint32_prop_list_slice m node prop_name prop_list_ok index count =
     fdt_get_uintX_prop_list m node prop_name prop_list_ok (u32 (count * 4)) index count dt_uint32"

definition fdt_get_uint64_prop_list where
  "fdt_get_uint64_prop_list m node prop_name prop_list_ok bsize =
     fdt_get_uintX_prop_list m node prop_name prop_list_ok bsize 0 0 dt_uint64"

definition fdt_get_uint64_prop where
  "fdt_get_uint64_prop m node prop_name value_ok = fdt_get_uint64_prop_list m node prop_name value_ok 8"

definition fdt_get_uint64_prop_list_slice where
  "fdt_get_uint64_prop_list_slice m node prop_name prop_list_ok index count =
     fdt_get_uintX_prop_list m node prop_name prop_list_ok (u32 (count * 8)) index count dt_uint64"

definition fdt_get_boolean_prop where
  "fdt_get_boolean_prop m node prop_name value_ok = fdt_get_uint32_prop_list m node prop_name value_ok 4"

definition fdt_get_bool_prop where
  "fdt_get_bool_prop m node prop_name =
     fdt_get_uintX_prop_list m node prop_name False 0 0 0 dt_boolean"

text \<open>
  \<open>fdt_get_string_prop_list\<close>: the bytes of the value, the last one replaced by the terminator.
  The comparison of the length with the buffer size is unsigned.
\<close>

definition fdt_get_string_prop_list ::
  "mem \<Rightarrow> fdt_node_handle option \<Rightarrow> byte list option \<Rightarrow> bool \<Rightarrow> int \<Rightarrow> (rc \<times> byte list option) option" where
  "fdt_get_string_prop_list m node prop_name string_list_ok bsize =
     (case (node, prop_name, string_list_ok) of
        (Some h, Some name, True) \<Rightarrow> do {
          (fdtp, len) \<leftarrow> fdt_get_property m (blob h) (offset h) name;
          if fdtp \<noteq> NULL \<and> len \<ge> 0 then
            if u32 len > bsize then Some (Qc BUF2SMALL, None)
            else do {
              bs \<leftarrow> rd_bytes m (fdtp + 12) (nat len);
              Some (NOERROR, Some (if len > 0 then bs[nat (len - 1) := 0] else bs)) }
          else Some (len_error len, None) }
      | _ \<Rightarrow> Some (Qc NULLPTR, None))"

section \<open>Specification: the elements of a property\<close>

text \<open>The bytes of a property of a node; \<open>None\<close> when libfdt does not find it.\<close>

definition prop_bytes :: "mem \<Rightarrow> fdt_node_handle \<Rightarrow> byte list \<Rightarrow> byte list option" where
  "prop_bytes m h name =
     (case fdt_getprop m (blob h) (offset h) name of
        Some (p, len) \<Rightarrow> if p \<noteq> NULL \<and> len \<ge> 0 then rd_bytes m p (nat len) else None
      | None \<Rightarrow> None)"

definition be_val :: "byte list \<Rightarrow> int" where
  "be_val bs = foldl (\<lambda>a b. a * 256 + uint b) 0 bs"

definition be_elems :: "nat \<Rightarrow> byte list \<Rightarrow> int list" where
  "be_elems w bs = map (\<lambda>i. be_val (take w (drop (w * i) bs))) [0..<length bs div w]"

lemma length_be_elems [simp]: "length (be_elems w bs) = length bs div w"
  by (simp add: be_elems_def)

definition width :: "dt_data_type \<Rightarrow> nat" where
  "width sel = nat (selector_num sel)"

text \<open>
  What a reader promises for a property with the bytes \<open>bs\<close> when the buffer does not hold more
  elements than the property has after \<open>index\<close>: an error, or the elements from \<open>index\<close> on.
\<close>

definition read_spec :: "nat \<Rightarrow> byte list \<Rightarrow> nat \<Rightarrow> nat \<Rightarrow> nat \<Rightarrow> rc \<times> int list option" where
  "read_spec w bs bsize index count =
     (let n = length bs div w; room = bsize div w
      in if n < index then (Qc SLICE_RANGE, None)
         else if n < index + count then (Qc SLICE_COUNT, None)
         else if room < count \<or> (count = 0 \<and> room < n - index) then (Qc BUF2SMALL, None)
         else (NOERROR, Some (take room (drop index (be_elems w bs)))))"

section \<open>The readers meet their specification\<close>

lemma be_val_bytes:
  "map_option be_val (rd_bytes m p 1) = rd m p"
  "map_option be_val (rd_bytes m p 2) = fdt16_ld m p"
  "map_option be_val (rd_bytes m p 4) = fdt32_ld m p"
  "map_option be_val (rd_bytes m p 8) = fdt64_ld m p"
  by (simp_all add: eval_nat_numeral be_val_def rd_def fdt16_ld_def fdt32_ld_def fdt64_ld_def
      add.commute [of p] split: bind_split option.splits)

lemma rd_bytes_slice:
  "rd_bytes m p n = Some bs \<Longrightarrow> k + w \<le> n \<Longrightarrow> rd_bytes m (p + int k) w = Some (take w (drop k bs))"
proof (induction n arbitrary: p bs k w)
  case (Suc n)
  from Suc.prems(1) obtain b bs' where b: "m p = Some b" "rd_bytes m (p + 1) n = Some bs'" "bs = b # bs'"
    by (auto simp: bind_eq_Some_conv)
  show ?case
  proof (cases k)
    case 0
    then show ?thesis
    proof (cases w)
      case (Suc w')
      with Suc.IH [OF b(2), of 0 w'] Suc.prems(2) b 0 show ?thesis by simp
    qed simp
  next
    case (Suc k')
    with Suc.IH [OF b(2), of k' w] Suc.prems(2) b show ?thesis by (simp add: add.assoc)
  qed
qed simp

lemma ld32_le_ex:
  assumes "fdt32_ld m p = Some v"
  shows "\<exists>u. ld32_le m p = Some u"
  using assms by (auto simp: fdt32_ld_def ld32_le_def ld16_le_def bind_eq_Some_conv add.assoc)

lemma ld64_words:
  assumes "fdt64_ld m p = Some v"
  shows "\<exists>lo hi. ld32_le m p = Some lo \<and> ld32_le m (p + 4) = Some hi \<and>
    v = fdt64_to_cpu (lo + hi * 4294967296)"
proof -
  from assms obtain h l where "fdt32_ld m p = Some h" "fdt32_ld m (p + 4) = Some l"
    by (auto simp: fdt64_ld_def bind_eq_Some_conv)
  then obtain lo hi where w: "ld32_le m p = Some lo" "ld32_le m (p + 4) = Some hi"
    using ld32_le_ex by blast
  from fdt64_to_cpu_words [OF w] assms w show ?thesis by auto
qed

lemma width_simps [simp]:
  "width dt_uint8 = 1" "width dt_uint16 = 2" "width dt_uint32 = 4" "width dt_uint64 = 8"
  by (simp_all add: width_def)

lemma int_width: "int (width sel) = selector_num sel"
  by (cases sel) (simp_all add: width_def)

lemma width_pos: "sel \<noteq> dt_boolean \<Longrightarrow> 0 < width sel"
  by (cases sel) simp_all

lemma slice_in_range: "k < n div w \<Longrightarrow> w * k + w \<le> (n :: nat)"
proof -
  assume k: "k < n div w"
  have "w * k + w = w * Suc k" by simp
  also have "\<dots> \<le> w * (n div w)" using k by (intro mult_le_mono) simp_all
  also have "\<dots> \<le> n" by simp
  finally show ?thesis .
qed

lemma read_elem_be:
  assumes bs: "rd_bytes m p n = Some bs" and sel: "sel \<noteq> dt_boolean"
    and k: "index + i < n div width sel" and n: "n < 4294967296"
  shows "read_elem m sel p (int index) (int i) = Some (be_elems (width sel) bs ! (index + i))"
proof -
  let ?k = "index + i"
  have len: "length bs = n" using bs by (rule rd_bytes_length)
  have "rd_bytes m (p + int (width sel * ?k)) (width sel) = Some (take (width sel) (drop (width sel * ?k) bs))"
    using bs slice_in_range [OF k] by (rule rd_bytes_slice)
  moreover have "be_elems (width sel) bs ! ?k = be_val (take (width sel) (drop (width sel * ?k) bs))"
    using k len by (simp add: be_elems_def)
  ultimately have rd: "map_option be_val (rd_bytes m (p + int (width sel) * int ?k) (width sel)) =
      Some (be_elems (width sel) bs ! ?k)" by simp
  have "?k < n" using k div_le_dividend [of n "width sel"] by linarith
  then have u: "u32 (int i + int index) = int ?k" using n by (simp add: u32_id)
  show ?thesis
  proof (cases sel)
    case dt_boolean
    with sel show ?thesis by simp
  next
    case dt_uint8
    with rd have "rd m (p + int ?k) = Some (be_elems 1 bs ! ?k)"
      by (simp only: width_simps of_nat_1 mult_1 be_val_bytes)
    with u dt_uint8 show ?thesis by simp
  next
    case dt_uint16
    with rd have "fdt16_ld m (p + 2 * int ?k) = Some (be_elems 2 bs ! ?k)"
      by (simp only: width_simps of_nat_numeral be_val_bytes)
    with u dt_uint16 show ?thesis by simp
  next
    case dt_uint32
    with rd have "fdt32_ld m (p + 4 * int ?k) = Some (be_elems 4 bs ! ?k)"
      by (simp only: width_simps of_nat_numeral be_val_bytes)
    with u dt_uint32 show ?thesis by simp
  next
    case dt_uint64
    with rd have "fdt64_ld m (p + 8 * int ?k) = Some (be_elems 8 bs ! ?k)"
      by (simp only: width_simps of_nat_numeral be_val_bytes)
    from ld64_words [OF this] dt_uint64 show ?thesis
      by (auto simp: algebra_simps)
  qed
qed

lemma those_map_Some: "(\<And>x. x \<in> set xs \<Longrightarrow> f x = Some (g x)) \<Longrightarrow> those (map f xs) = Some (map g xs)"
  by (induction xs) auto

lemma those_map_cong_nth:
  assumes "\<And>i. i < n \<Longrightarrow> f (int i) = Some (ys ! (k + i))" and "k + n \<le> length ys"
  shows "those (map f [0..int n - 1]) = Some (take n (drop k ys))"
proof -
  have "[0..int n - 1] = map int [0..<n]"
  proof (rule nth_equalityI)
    show "length [0..int n - 1] = length (map int [0..<n])" by simp
  qed (simp add: nth_upto)
  then have "those (map f [0..int n - 1]) = those (map (\<lambda>i. f (int i)) [0..<n])"
    by (simp add: comp_def)
  also have "\<dots> = Some (map (\<lambda>i. ys ! (k + i)) [0..<n])"
    by (rule those_map_Some) (simp add: assms(1))
  also have "map (\<lambda>i. ys ! (k + i)) [0..<n] = take n (drop k ys)"
    using assms(2) by (intro nth_equalityI) simp_all
  finally show ?thesis .
qed

text \<open>
  \<open>sz\<close> elements fit the buffer. The third hypothesis keeps the copy loop inside the property;
  without it the loop reads past the property's end.
\<close>

lemma copy_elems_spec:
  assumes bs: "rd_bytes m p n = Some bs" and sel: "sel \<noteq> dt_boolean"
    and n: "n \<le> 2147483647" and sz: "sz \<le> 2147483647"
    and ic: "index < 4294967296" "count < 4294967296"
    and fit: "index \<le> n div width sel \<Longrightarrow> sz div width sel \<le> n div width sel - index"
  shows "copy_elems m p (int n) (int sz) (int index) (int count) sel =
    Some (read_spec (width sel) bs sz index count)"
proof -
  let ?w = "width sel"
  let ?d = "n div ?w" and ?e = "sz div ?w"
  have len: "length bs = n" using bs by (rule rd_bytes_length)
  have d: "?d \<le> 2147483647" and e: "?e \<le> 2147483647"
    using n sz div_le_dividend [of n ?w] div_le_dividend [of sz ?w] by linarith+
  have dc: "s32 (u32 (int n) div selector_num sel) = int ?d"
    using n d by (simp add: u32_id flip: int_width zdiv_int) (simp add: s32_id)
  have ec: "s32 (int sz div selector_num sel) = int ?e"
    using e by (simp flip: int_width zdiv_int) (simp add: s32_id)
  have nz: "selector_num sel \<noteq> 0" using sel by (cases sel) simp_all
  show ?thesis
  proof (cases "?d < index")
    case True
    then show ?thesis using d by (simp add: copy_elems_def Let_def nz dc ec read_spec_def len u32_id)
  next
    case False
    then have le: "index \<le> ?d" by simp
    have diff: "u32 (int ?d - int index) = int (?d - index)" using le d by (simp add: u32_id of_nat_diff)
    have vals: "those (map (read_elem m sel p (int index)) [0..int ?e - 1]) =
        Some (take ?e (drop index (be_elems ?w bs)))"
    proof (rule those_map_cong_nth)
      show "read_elem m sel p (int index) (int i) = Some (be_elems ?w bs ! (index + i))" if "i < ?e" for i
        using that fit [OF le] le n by (intro read_elem_be [OF bs sel]) simp_all
      show "index + ?e \<le> length (be_elems ?w bs)" using fit [OF le] le len by simp
    qed
    have ne: "\<not> int index > u32 (int ?d)" using le d by (simp add: u32_id)
    have eq: "(int count > int (?d - index)) = (?d < index + count)"
      "(int count > u32 (int ?e)) = (?e < count)"
      "(u32 (int ?e) < int (?d - index)) = (?e < ?d - index)"
      using le e by (auto simp: u32_id)
    show ?thesis
      unfolding copy_elems_def Let_def dc ec diff eq
      using ne nz le by (simp add: vals read_spec_def Let_def len)
  qed
qed

lemma data_count:
  assumes "n \<le> 2147483647"
  shows "s32 (u32 (int n) div selector_num sel) = int (n div width sel)"
proof -
  have "n div width sel \<le> 2147483647" using assms div_le_dividend [of n "width sel"] by linarith
  then show ?thesis using assms by (simp add: u32_id flip: int_width zdiv_int) (simp add: s32_id)
qed

lemma copy_elems_range_errors:
  assumes n: "n \<le> 2147483647" and sel: "sel \<noteq> dt_boolean"
  shows "n div width sel < index \<Longrightarrow>
      copy_elems m p (int n) bsize (int index) c sel = Some (Qc SLICE_RANGE, None)"
    and "index \<le> n div width sel \<Longrightarrow> n div width sel < index + count \<Longrightarrow>
      copy_elems m p (int n) bsize (int index) (int count) sel = Some (Qc SLICE_COUNT, None)"
proof -
  let ?d = "n div width sel"
  have nz: "selector_num sel \<noteq> 0" using sel by (cases sel) simp_all
  have d: "?d \<le> 2147483647" using n div_le_dividend [of n "width sel"] by linarith
  show "copy_elems m p (int n) bsize (int index) c sel = Some (Qc SLICE_RANGE, None)"
    if "?d < index"
    using that d by (simp add: copy_elems_def Let_def nz data_count [OF n] u32_id)
  show "copy_elems m p (int n) bsize (int index) (int count) sel = Some (Qc SLICE_COUNT, None)"
    if "index \<le> ?d" "?d < index + count"
  proof -
    have "u32 (int ?d - int index) = int (?d - index)" using that d by (simp add: u32_id of_nat_diff)
    moreover have "u32 (int ?d) = int ?d" using d by (simp add: u32_id)
    moreover have "int (?d - index) < int count" using that by linarith
    ultimately show ?thesis using that by (simp add: copy_elems_def Let_def nz data_count [OF n])
  qed
qed

text \<open>The slice readers pass a buffer of exactly \<open>count\<close> elements.\<close>

definition slice_spec :: "nat \<Rightarrow> byte list \<Rightarrow> nat \<Rightarrow> nat \<Rightarrow> rc \<times> int list option" where
  "slice_spec w bs index count =
     (let n = length bs div w
      in if n < index then (Qc SLICE_RANGE, None)
         else if n < index + count then (Qc SLICE_COUNT, None)
         else if count = 0 \<and> index < n then (Qc BUF2SMALL, None)
         else (NOERROR, Some (take count (drop index (be_elems w bs)))))"

lemma copy_elems_slice:
  assumes bs: "rd_bytes m p n = Some bs" and sel: "sel \<noteq> dt_boolean" and n: "n \<le> 2147483647"
    and ic: "index < 4294967296" "count < 4294967296"
  shows "copy_elems m p (int n) (u32 (int count * int (width sel))) (int index) (int count) sel =
    Some (slice_spec (width sel) bs index count)"
proof -
  let ?w = "width sel"
  have len: "length bs = n" using bs by (rule rd_bytes_length)
  have w: "0 < ?w" using sel by (rule width_pos)
  consider "n div ?w < index" | "index \<le> n div ?w" "n div ?w < index + count" | "index + count \<le> n div ?w"
    by linarith
  then show ?thesis
  proof cases
    case 1
    then show ?thesis by (simp add: copy_elems_range_errors [OF n sel] slice_spec_def len)
  next
    case 2
    then show ?thesis by (simp add: copy_elems_range_errors [OF n sel] slice_spec_def len)
  next
    case 3
    have "count * ?w \<le> n div ?w * ?w" using 3 by (intro mult_le_mono1) simp
    also have "\<dots> \<le> n" by simp
    finally have sz: "count * ?w \<le> 2147483647" using n by simp
    then have "u32 (int (count * ?w)) = int (count * ?w)" by (intro u32_id) linarith+
    moreover have "copy_elems m p (int n) (int (count * ?w)) (int index) (int count) sel =
        Some (read_spec ?w bs (count * ?w) index count)"
      using 3 w by (intro copy_elems_spec [OF bs sel n sz ic]) simp
    moreover have "read_spec ?w bs (count * ?w) index count = slice_spec ?w bs index count"
      using 3 w by (auto simp: read_spec_def slice_spec_def Let_def len)
    ultimately show ?thesis by simp
  qed
qed

text \<open>Lookup of the bytes of a property, through a valid handle.\<close>

lemma prop_bytes_Some:
  assumes "valid_handle m h" and "prop_bytes m h name = Some bs"
  shows "\<exists>p. fdt_getprop m (blob h) (offset h) name = Some (p, int (length bs)) \<and> p \<noteq> NULL \<and>
    rd_bytes m p (length bs) = Some bs \<and> length bs \<le> 2147483647"
proof -
  from assms(2) obtain p len where g: "fdt_getprop m (blob h) (offset h) name = Some (p, len)"
    "p \<noteq> NULL" "0 \<le> len" "rd_bytes m p (nat len) = Some bs"
    by (auto simp: prop_bytes_def split: option.splits if_splits)
  from fdt_getprop_ok [of m "blob h" "offset h" name] assms(1) g(1,2) have "len \<le> INT_MAX"
    by (auto simp: valid_handle_def)
  moreover from rd_bytes_length [OF g(4)] g(3) have "len = int (length bs)" by simp
  ultimately show ?thesis using g by auto
qed

lemma prop_bytes_None:
  assumes "valid_handle m h" and "prop_bytes m h name = None"
  shows "\<exists>p len. fdt_getprop m (blob h) (offset h) name = Some (p, len) \<and> (p = NULL \<or> len < 0)"
proof -
  from assms(1) fdt_getprop_ok [of m "blob h" "offset h" name] obtain p len where
    g: "fdt_getprop m (blob h) (offset h) name = Some (p, len)"
    and ok: "p \<noteq> NULL \<Longrightarrow> 0 \<le> len \<and> in_blob m (blob h) p len"
    by (auto simp: valid_handle_def)
  show ?thesis
  proof (rule ccontr)
    assume "\<not> ?thesis"
    with g ok have c: "p \<noteq> NULL" "0 \<le> len" "in_blob m (blob h) p len" by auto
    from in_blob_mapped [OF _ c(3)] assms(1) c(2) have "mapped m p (int (nat len))"
      by (simp add: valid_handle_def)
    from rd_bytes_ex [OF this] c g assms(2) show False by (auto simp: prop_bytes_def)
  qed
qed

lemma uintX_prop_list_not_found:
  assumes "valid_handle m h" and "prop_bytes m h name = None" and "sel = dt_boolean \<or> buf"
  shows "\<exists>len. fdt_get_uintX_prop_list m (Some h) (Some name) buf bsize index count sel =
    Some (len_error len, None)"
  using prop_bytes_None [OF assms(1,2)] assms(3) by (auto simp: fdt_get_uintX_prop_list_def)

lemma uintX_prop_list_found:
  assumes "valid_handle m h" and "prop_bytes m h name = Some bs" and "sel \<noteq> dt_boolean"
  shows "\<exists>p. rd_bytes m p (length bs) = Some bs \<and> length bs \<le> 2147483647 \<and>
    fdt_get_uintX_prop_list m (Some h) (Some name) True bsize index count sel =
      copy_elems m p (int (length bs)) bsize index count sel"
  using prop_bytes_Some [OF assms(1,2)] assms(3) by (auto simp: fdt_get_uintX_prop_list_def)

lemma uintX_prop_list_spec:
  assumes "valid_handle m h" and "prop_bytes m h name = Some bs" and "sel \<noteq> dt_boolean"
    and "sz \<le> 2147483647" and "sz div width sel \<le> length bs div width sel"
  shows "fdt_get_uintX_prop_list m (Some h) (Some name) True (int sz) 0 0 sel =
    Some (read_spec (width sel) bs sz 0 0)"
proof -
  from uintX_prop_list_found [OF assms(1-3)] obtain p where p: "rd_bytes m p (length bs) = Some bs"
    "length bs \<le> 2147483647"
    "fdt_get_uintX_prop_list m (Some h) (Some name) True (int sz) 0 0 sel =
      copy_elems m p (int (length bs)) (int sz) 0 0 sel" by blast
  with copy_elems_spec [OF p(1) assms(3) p(2) assms(4), of 0 0] assms(5) show ?thesis by simp
qed

lemma uintX_prop_list_slice:
  assumes "valid_handle m h" and "prop_bytes m h name = Some bs" and "sel \<noteq> dt_boolean"
    and "index < 4294967296" and "count < 4294967296"
  shows "fdt_get_uintX_prop_list m (Some h) (Some name) True (u32 (int count * int (width sel)))
      (int index) (int count) sel = Some (slice_spec (width sel) bs index count)"
proof -
  from uintX_prop_list_found [OF assms(1-3)] obtain p where p: "rd_bytes m p (length bs) = Some bs"
    "length bs \<le> 2147483647"
    "fdt_get_uintX_prop_list m (Some h) (Some name) True (u32 (int count * int (width sel)))
      (int index) (int count) sel =
      copy_elems m p (int (length bs)) (u32 (int count * int (width sel))) (int index) (int count) sel"
    by blast
  with copy_elems_slice [OF p(1) assms(3) p(2) assms(4,5)] show ?thesis by simp
qed

end
