(* ===== verification/Ext_Create.thy ===== *)
theory Ext_Create
  imports Fdt_Sw Fdt_Node_Edit Ext_Prop
begin

text \<open>
  The creation of trees in memory (\<open>DTBExtnLib_create-dtb.c\<close>). The arrays of 16, 32 and 64 bit
  values are converted to big-endian in place, so the functions also return the array of the caller.
\<close>

definition fdt_add_tree :: "mem \<Rightarrow> fdt_node_handle option \<Rightarrow> int \<Rightarrow> (rc \<times> fdt_node_handle option \<times> mem) option" where
  "fdt_add_tree m node sz =
     (case node of
        None \<Rightarrow> Some (Qc NULLPTR, node, m)
      | Some h \<Rightarrow>
        if blob h = NULL then Some (Qc NULLPTR, node, m)
        else do {
          (r, m) \<leftarrow> fdt_create_empty_tree m (blob h) sz;
          Some (Ret r, Some (h \<lparr> offset := 0 \<rparr>), m) })"

text \<open>The status, \<open>*offset\<close> when it is written, and the memory.\<close>

definition fdt_add_node ::
  "mem \<Rightarrow> fdt_node_handle option \<Rightarrow> byte list option \<Rightarrow> bool \<Rightarrow> (rc \<times> int option \<times> mem) option" where
  "fdt_add_node m node path offset_ok =
     (case (node, path, offset_ok) of
        (Some h, Some p, True) \<Rightarrow>
          if offset h < 0 then Some (Ret (- FDT_ERR_BADOFFSET), None, m)
          else if 47 \<in> set p then Some (Ret (- FDT_ERR_BADPATH), None, m)
          else do {
            (r, m) \<leftarrow> fdt_add_subnode m (blob h) (offset h) p;
            if r \<ge> 0 then Some (NOERROR, Some r, m) else Some (Ret r, None, m) }
      | _ \<Rightarrow> Some (Qc NULLPTR, None, m))"

text \<open>The bytes of an array in memory, and the conversion of one of its elements.\<close>

fun elem_bytes :: "nat \<Rightarrow> int \<Rightarrow> byte list" where
  "elem_bytes 0 v = []"
| "elem_bytes (Suc n) v = word_of_int v # elem_bytes n (v div 256)"

definition cpu_to_fdt :: "nat \<Rightarrow> int \<Rightarrow> int" where
  "cpu_to_fdt w v = be_val (elem_bytes w v)"

definition array_bytes :: "nat \<Rightarrow> int list \<Rightarrow> byte list" where
  "array_bytes w vals = concat (map (elem_bytes w) vals)"

text \<open>
  The common shape of the functions on lists of numbers of \<open>w\<close> bytes; \<open>count\<close> is a \<open>uint32_t\<close>, the
  loop counter an \<open>int\<close>, and the length that \<open>fdt_setprop\<close> gets an \<open>int\<close>.
\<close>

definition add_prop_list ::
  "nat \<Rightarrow> mem \<Rightarrow> fdt_node_handle option \<Rightarrow> byte list option \<Rightarrow> int list option \<Rightarrow> int \<Rightarrow> (rc \<times> int list option \<times> mem) option" where
  "add_prop_list w m node prop_name val count =
     (case (node, prop_name, val) of
        (Some h, Some name, Some vals) \<Rightarrow>
          if count > INT_MAX \<or> count > int (length vals) then None
          else do {
            let vals' = map (cpu_to_fdt w) (take (nat count) vals) @ drop (nat count) vals;
            (r, m) \<leftarrow> fdt_setprop m (blob h) (offset h) name (array_bytes w vals') (s32 (count * int w));
            Some (Ret r, Some vals', m) }
      | _ \<Rightarrow> Some (Qc NULLPTR, val, m))"

definition fdt_add_prop_list_u8 ::
  "mem \<Rightarrow> fdt_node_handle option \<Rightarrow> byte list option \<Rightarrow> byte list option \<Rightarrow> int \<Rightarrow> (rc \<times> mem) option" where
  "fdt_add_prop_list_u8 m node prop_name val count =
     (case (node, prop_name, val) of
        (Some h, Some name, Some bs) \<Rightarrow> do {
          (r, m) \<leftarrow> fdt_setprop m (blob h) (offset h) name bs (s32 count);
          Some (Ret r, m) }
      | _ \<Rightarrow> Some (Qc NULLPTR, m))"

definition fdt_add_prop_list_u16 where
  "fdt_add_prop_list_u16 m node prop_name val count = add_prop_list 2 m node prop_name val count"

definition fdt_add_prop_list_u32 where
  "fdt_add_prop_list_u32 m node prop_name val count = add_prop_list 4 m node prop_name val count"

definition fdt_add_prop_list_u64 where
  "fdt_add_prop_list_u64 m node prop_name val count = add_prop_list 8 m node prop_name val count"

definition fdt_add_prop_list_string ::
  "mem \<Rightarrow> fdt_node_handle option \<Rightarrow> byte list option \<Rightarrow> byte list option \<Rightarrow> int \<Rightarrow> (rc \<times> mem) option" where
  "fdt_add_prop_list_string m node prop_name val count =
     (case (node, prop_name, val) of
        (Some h, Some name, Some bs) \<Rightarrow> do {
          (r, m) \<leftarrow> fdt_setprop m (blob h) (offset h) name bs (s32 count);
          Some (Ret r, m) }
      | _ \<Rightarrow> Some (Qc NULLPTR, m))"

section \<open>Byte order\<close>

lemma length_elem_bytes [simp]: "length (elem_bytes w v) = w"
  by (induction w arbitrary: v) auto

lemma be_val_snoc: "be_val (bs @ [b]) = be_val bs * 256 + uint b"
  by (simp add: be_val_def)

lemma uint_byte_range: "0 \<le> uint (b :: byte)" "uint (b :: byte) < 256"
  using uint_lt2p [of b] by auto

lemma elem_bytes_be_val: "elem_bytes (length bs) (be_val bs) = rev bs"
proof (induction bs rule: rev_induct)
  case (snoc b bs)
  have "(be_val bs * 256 + uint b) div 256 = be_val bs" using uint_byte_range [of b] by simp
  moreover have "(word_of_int (be_val bs * 256 + uint b) :: byte) = b"
  proof (rule word_uint_eqI)
    have "(be_val bs * 256 + uint b) mod 256 = uint b" using uint_byte_range [of b] by simp
    then show "uint (word_of_int (be_val bs * 256 + uint b) :: byte) = uint b"
      by (simp only: uint_byte)
  qed
  ultimately show ?case using snoc.IH by (simp add: be_val_snoc)
qed simp

lemma be_val_rev_elem: "be_val (rev (elem_bytes w v)) = v mod 256 ^ w"
proof (induction w arbitrary: v)
  case (Suc w)
  have "v mod (256 * 256 ^ w) = 256 * (v div 256 mod 256 ^ w) + v mod 256"
    by (rule zmod_zmult2_eq) simp
  then show ?case using Suc.IH by (simp add: be_val_snoc uint_word_of_int)
qed (simp add: be_val_def)

text \<open>A converted element has the bytes of the element in the opposite order.\<close>

lemma elem_bytes_cpu_to_fdt: "elem_bytes w (cpu_to_fdt w v) = rev (elem_bytes w v)"
  using elem_bytes_be_val [of "elem_bytes w v"] by (simp add: cpu_to_fdt_def)

lemma array_bytes_length: "length (array_bytes w vals) = w * length vals"
  by (induction vals) (auto simp: array_bytes_def)

lemma be_elems_array:
  assumes "0 < w"
  shows "be_elems w (array_bytes w (map (cpu_to_fdt w) vals)) = map (\<lambda>v. v mod 256 ^ w) vals"
proof (rule nth_equalityI)
  show "length (be_elems w (array_bytes w (map (cpu_to_fdt w) vals))) = length (map (\<lambda>v. v mod 256 ^ w) vals)"
    using assms by (simp add: array_bytes_length)
  fix i
  assume "i < length (be_elems w (array_bytes w (map (cpu_to_fdt w) vals)))"
  then have i: "i < length vals" using assms by (simp add: array_bytes_length)
  have piece: "take w (drop (w * i) (array_bytes w vs)) = elem_bytes w (vs ! i)" if "i < length vs" for vs
    using that
  proof (induction vs arbitrary: i)
    case (Cons v vs)
    then show ?case by (cases i) (simp_all add: array_bytes_def)
  qed simp
  show "be_elems w (array_bytes w (map (cpu_to_fdt w) vals)) ! i = map (\<lambda>v. v mod 256 ^ w) vals ! i"
    using i assms piece [of "map (cpu_to_fdt w) vals"] be_val_rev_elem [of w "vals ! i"]
    by (simp add: be_elems_def array_bytes_length elem_bytes_cpu_to_fdt)
qed

end
