(* ===== verification/Ext_Driver.thy ===== *)
theory Ext_Driver
  imports Fdt_List Ext_Core
begin

text \<open>
  Queries for drivers (\<open>DTBExtnLib_driver.c\<close>): the next compatible node, the index of a name in a
  list of names, and the entries of the property \<open>reg\<close>.
\<close>

definition fdt_get_next_node_handle_for_compatible ::
  "mem \<Rightarrow> fdt_node_handle option \<Rightarrow> byte list option \<Rightarrow> (rc \<times> fdt_node_handle option) option" where
  "fdt_get_next_node_handle_for_compatible m node compatible =
     (case (node, compatible) of
        (Some h, Some c) \<Rightarrow> do {
          off \<leftarrow> fdt_node_offset_by_compatible m (blob h) (offset h) c;
          if off < 0 then Some (Ret off, node) else Some (NOERROR, Some (h \<lparr> offset := off \<rparr>)) }
      | _ \<Rightarrow> Some (Qc NULLPTR, node))"

text \<open>
  The loop of \<open>fdt_get_name_index\<close> from the byte at \<open>i\<close> on: it looks at a name before it compares
  \<open>i\<close> with the length, and the comparison is not bounded by the property.
\<close>

function (sequential) name_index_loop ::
  "mem \<Rightarrow> addr \<Rightarrow> int \<Rightarrow> byte list \<Rightarrow> int \<Rightarrow> int \<Rightarrow> (rc \<times> int option) option" where
  "name_index_loop m sptr len tname i lindex = do {
     eq \<leftarrow> c_memeq m (sptr + i) (tname @ [0]);
     if eq then Some (NOERROR, Some lindex)
     else do {
       n \<leftarrow> c_strlen m (sptr + i);
       if n < 0 \<or> i + n + 1 > INT_MAX then None
       else if i + n + 1 < len then name_index_loop m sptr len tname (i + n + 1) (lindex + 1)
       else Some (Ret (- FDT_ERR_NOTFOUND), None) } }"
  by pat_completeness auto

termination name_index_loop
  by (relation "measure (\<lambda>(m, p, len, t, i, l). nat (len - i))") auto

declare name_index_loop.simps [simp del]

text \<open>\<open>fdt_get_name_index\<close>: the status and what is stored at \<open>index\<close> (\<open>None\<close> when nothing is).\<close>

definition fdt_get_name_index ::
  "mem \<Rightarrow> fdt_node_handle \<Rightarrow> byte list \<Rightarrow> byte list \<Rightarrow> (rc \<times> int option) option" where
  "fdt_get_name_index m h pname tname = do {
     (fdtp, len) \<leftarrow> fdt_get_property m (blob h) (offset h) pname;
     if fdtp = NULL \<or> len < 0 then Some (len_error len, None)
     else name_index_loop m (fdtp + 12) len tname 0 0 }"

abbreviation (input) SIZE_BLOB :: int where "SIZE_BLOB \<equiv> - 1"
abbreviation (input) SIZE_NIL :: int where "SIZE_NIL \<equiv> 0"
abbreviation (input) SIZE_32 :: int where "SIZE_32 \<equiv> 1"
abbreviation (input) SIZE_64 :: int where "SIZE_64 \<equiv> 2"

definition fdt_get_size_code :: rc where
  "fdt_get_size_code = Qc NOTSUPPORTED"

text \<open>
  A value of one or two cells at the word \<open>idx\<close>. Two cells are put together from two native loads
  before they are converted; no cells give 0.
\<close>

definition reg_value :: "mem \<Rightarrow> addr \<Rightarrow> int \<Rightarrow> int \<Rightarrow> int option" where
  "reg_value m reg_data idx code =
     (if code = SIZE_32 then fdt32_ld m (reg_data + 4 * idx)
      else if code = SIZE_64 then do {
        lo \<leftarrow> ld32_le m (reg_data + 4 * idx);
        hi \<leftarrow> ld32_le m (reg_data + 4 * (idx + 1));
        Some (fdt64_to_cpu (lo + hi * 4294967296)) }
      else Some 0)"

text \<open>
  \<open>fdt_get_reg\<close>: the status, \<open>*reg_paddr\<close> and \<open>*reg_size\<close>. A name that is not found leaves the
  index of the caller in place, and its status is overwritten. The product of the index is an
  \<open>int\<close>.
\<close>

definition reg_entry :: "mem \<Rightarrow> fdt_node_handle \<Rightarrow> int \<Rightarrow> int \<Rightarrow> int \<Rightarrow> (rc \<times> (int \<times> int) option) option" where
  "reg_entry m h reg_index addr_code size_code =
     (if reg_index < 0 then Some (Qc REGIDX, None)
      else do {
        (reg_data, len) \<leftarrow> fdt_getprop m (blob h) (offset h) (chars ''reg'');
        if reg_data = NULL \<or> len < 0 then Some (len_error len, None)
        else
          let reg_count = len div 4;
              index_size = addr_code + size_code;
              target_idx = index_size * reg_index
          in if \<not> c_int target_idx then None
             else if target_idx > reg_count - index_size then Some (Qc TARGETIDX, None)
             else do {
               paddr \<leftarrow> reg_value m reg_data target_idx addr_code;
               sz \<leftarrow> reg_value m reg_data (target_idx + addr_code) size_code;
               Some (NOERROR, Some (paddr, sz)) } })"

definition fdt_get_reg ::
  "mem \<Rightarrow> fdt_node_handle option \<Rightarrow> byte list option \<Rightarrow> int \<Rightarrow> int \<Rightarrow> int \<Rightarrow> bool \<Rightarrow> (rc \<times> (int \<times> int) option) option" where
  "fdt_get_reg m node reg_name reg_index addr_code size_code out_ok =
     (case (node, out_ok) of
        (Some h, True) \<Rightarrow>
          if addr_code = SIZE_BLOB \<or> size_code = SIZE_BLOB then Some (fdt_get_size_code, None)
          else if addr_code \<notin> {SIZE_32, SIZE_64} then Some (Qc INPUT_ARG_ERR, None)
          else if size_code \<notin> {SIZE_NIL, SIZE_32, SIZE_64} then Some (Qc INPUT_ARG_ERR, None)
          else do {
            idx \<leftarrow> (case reg_name of
                None \<Rightarrow> Some reg_index
              | Some nm \<Rightarrow> do {
                  (r, found) \<leftarrow> fdt_get_name_index m h (chars ''reg-names'') nm;
                  Some (case found of Some i \<Rightarrow> i | None \<Rightarrow> reg_index) });
            reg_entry m h idx addr_code size_code }
      | _ \<Rightarrow> Some (Qc NULLPTR, None))"

end
