(* ===== verification/Fdt_Check.thy ===== *)
theory Fdt_Check
  imports Fdt_List
begin

text \<open>
  The full check of a tree (\<open>fdt_check.c\<close>) and the grammar of the structure blocks it accepts.
\<close>

section \<open>The check\<close>

text \<open>
  The loop of \<open>fdt_check_full\<close> from the tag at \<open>offset\<close>. A tag other than the five of the format
  does not come from \<open>fdt_next_tag\<close>.
\<close>

function (sequential) check_full_loop :: "mem \<Rightarrow> addr \<Rightarrow> int \<Rightarrow> int \<Rightarrow> bool \<Rightarrow> int option" where
  "check_full_loop m fdt offset depth expect_end = do {
     (tag, nextoffset) \<leftarrow> fdt_next_tag m fdt offset;
     if nextoffset < 0 then Some nextoffset
     else if expect_end \<and> tag \<noteq> FDT_END then Some (- FDT_ERR_BADSTRUCTURE)
     else if tag = FDT_NOP then check_full_loop m fdt nextoffset depth expect_end
     else if tag = FDT_END then Some (if depth \<noteq> 0 then - FDT_ERR_BADSTRUCTURE else 0)
     else if tag = FDT_BEGIN_NODE then
       if u32 (depth + 1) > INT_MAX then Some (- FDT_ERR_BADSTRUCTURE)
       else if u32 (depth + 1) = 1 then do {
         (name, len) \<leftarrow> fdt_get_name m fdt offset;
         if name = NULL then Some len
         else do {
           c \<leftarrow> rd m name;
           if c \<noteq> 0 \<or> len \<noteq> 0 then Some (- FDT_ERR_BADSTRUCTURE)
           else check_full_loop m fdt nextoffset 1 expect_end } }
       else check_full_loop m fdt nextoffset (u32 (depth + 1)) expect_end
     else if tag = FDT_END_NODE then
       if depth = 0 then Some (- FDT_ERR_BADSTRUCTURE)
       else check_full_loop m fdt nextoffset (depth - 1) (expect_end \<or> depth - 1 = 0)
     else if tag = FDT_PROP then do {
       (prop, propname, err) \<leftarrow> fdt_getprop_by_offset m fdt offset;
       if prop = NULL then Some err else check_full_loop m fdt nextoffset depth expect_end }
     else Some (- FDT_ERR_INTERNAL) }"
  by pat_completeness auto

termination check_full_loop
  by (relation "measure (\<lambda>(m, fdt, x, d, e). walk_measure x)") (auto dest: walk_step)

declare check_full_loop.simps [simp del]

definition fdt_check_full :: "mem \<Rightarrow> addr \<Rightarrow> int \<Rightarrow> int option" where
  "fdt_check_full m fdt bufsize =
     (if bufsize < 28 then Some (- FDT_ERR_TRUNCATED)
      else do {
        hdrsize \<leftarrow> fdt_header_size m fdt;
        if bufsize < hdrsize then Some (- FDT_ERR_TRUNCATED)
        else do {
          err \<leftarrow> fdt_check_header m fdt;
          if err \<noteq> 0 then Some err
          else do {
            total \<leftarrow> fdt_totalsize m fdt;
            if bufsize < total then Some (- FDT_ERR_TRUNCATED)
            else do {
              num_memrsv \<leftarrow> fdt_num_mem_rsv m fdt;
              if num_memrsv < 0 then Some num_memrsv
              else check_full_loop m fdt 0 0 False } } } })"

section \<open>The grammar\<close>

text \<open>The tag at \<open>offset\<close>, with the whole item in the block.\<close>

abbreviation (input) tag_at :: "mem \<Rightarrow> addr \<Rightarrow> int \<Rightarrow> int \<Rightarrow> int \<Rightarrow> bool" where
  "tag_at m fdt tag offset nx \<equiv> fdt_next_tag m fdt offset = Some (tag, nx) \<and> 0 \<le> nx"

text \<open>A property whose name lies in the block of strings.\<close>

definition property_at :: "mem \<Rightarrow> addr \<Rightarrow> int \<Rightarrow> int \<Rightarrow> bool" where
  "property_at m fdt offset nx \<longleftrightarrow> tag_at m fdt FDT_PROP offset nx \<and>
     (\<exists>p np len. fdt_getprop_by_offset m fdt offset = Some (p, np, len) \<and> p \<noteq> NULL)"

text \<open>What lies between the tags of a node: gaps, properties and complete subnodes, in any order.\<close>

inductive content :: "mem \<Rightarrow> addr \<Rightarrow> int \<Rightarrow> int \<Rightarrow> bool" for m fdt where
  nil: "content m fdt off off"
| nop: "tag_at m fdt FDT_NOP off nx \<Longrightarrow> content m fdt nx e \<Longrightarrow> content m fdt off e"
| property: "property_at m fdt off nx \<Longrightarrow> content m fdt nx e \<Longrightarrow> content m fdt off e"
| subnode: "tag_at m fdt FDT_BEGIN_NODE off nx \<Longrightarrow> content m fdt nx e1 \<Longrightarrow>
    tag_at m fdt FDT_END_NODE e1 nx1 \<Longrightarrow> content m fdt nx1 e \<Longrightarrow> content m fdt off e"

text \<open>
  The whole block: the root node with an empty name, and the end. The check also accepts
  properties in front of the root, and a block without a root.
\<close>

inductive structure_block :: "mem \<Rightarrow> addr \<Rightarrow> int \<Rightarrow> bool" for m fdt where
  no_root: "tag_at m fdt FDT_END off nx \<Longrightarrow> structure_block m fdt off"
| nop: "tag_at m fdt FDT_NOP off nx \<Longrightarrow> structure_block m fdt nx \<Longrightarrow> structure_block m fdt off"
| property: "property_at m fdt off nx \<Longrightarrow> structure_block m fdt nx \<Longrightarrow> structure_block m fdt off"
| root: "tag_at m fdt FDT_BEGIN_NODE off nx \<Longrightarrow> fdt_get_name m fdt off = Some (name, 0) \<Longrightarrow> name \<noteq> NULL \<Longrightarrow>
    rd m name = Some 0 \<Longrightarrow> content m fdt nx e \<Longrightarrow> tag_at m fdt FDT_END_NODE e nx1 \<Longrightarrow>
    tag_at m fdt FDT_END nx1 nx2 \<Longrightarrow> structure_block m fdt off"

lemma tag_forward: "tag_at m fdt tag off nx \<Longrightarrow> tag \<noteq> FDT_END \<Longrightarrow> 0 \<le> off \<and> off < nx \<and> nx \<le> INT_MAX"
  using fdt_next_tag_forward [of m fdt off tag nx] by (auto simp: c_int_def)

lemma content_forward: "content m fdt off e \<Longrightarrow> off \<le> e"
proof (induction rule: content.induct)
  case (nop off nx e)
  then show ?case using tag_forward [of m fdt off FDT_NOP nx] by simp
next
  case (property off nx e)
  then show ?case using tag_forward [of m fdt off FDT_PROP nx] by (simp add: property_at_def)
next
  case (subnode off nx e1 nx1 e)
  then show ?case using tag_forward [of m fdt off FDT_BEGIN_NODE nx] tag_forward [of m fdt e1 FDT_END_NODE nx1]
    by simp
qed simp

text \<open>A NULL pointer comes with an error code.\<close>

lemma c_strrchr_ge: "c_strrchr m p c = Some r \<Longrightarrow> r = NULL \<or> p \<le> r"
  by (rule c_strrchr.raw_induct [where P = "\<lambda>m p c r. r = NULL \<or> p \<le> r"])
    (force simp: bind_eq_Some_conv split: if_splits)+

lemma fdt_get_name_null:
  assumes "fdt_get_name m fdt off = Some (NULL, len)" and "0 < fdt"
  shows "len < 0"
proof (rule ccontr)
  assume "\<not> len < 0"
  with assms(1) obtain e e2 os ver where e: "fdt_ro_probe m fdt = Some e" "\<not> e < 0"
    "fdt_check_node_offset m fdt off = Some e2" "\<not> e2 < 0"
    and h: "fdt_off_dt_struct m fdt = Some os" "fdt_version m fdt = Some ver"
    by (auto simp: fdt_get_name_def Let_def bind_eq_Some_conv split: if_splits)
  from h(1) have "0 \<le> os" by (auto simp: fdt_off_dt_struct_def dest: fdt32_ld_range)
  moreover have "0 \<le> off" using fdt_check_node_offset_Some [OF e(3)] e(4) by simp
  ultimately have "0 < fdt + os + off + 4" using assms(2) by simp
  with assms(1) e h \<open>\<not> len < 0\<close> show False
    by (auto simp: fdt_get_name_def Let_def bind_eq_Some_conv split: if_splits dest!: c_strrchr_ge)
qed

lemma fdt_get_string_null:
  assumes "fdt_get_string m fdt off = Some (NULL, len)" and "0 < fdt"
  shows "len < 0"
proof -
  have "fdt + u32 x \<noteq> 0" for x using assms(2) u32_nonneg [of x] by linarith
  with assms(1) show ?thesis
    by (auto simp: fdt_get_string_def Let_def bind_eq_Some_conv split: if_splits)
qed

lemma get_property_by_offset_pos:
  assumes "get_property_by_offset m fdt off = Some (p, len)" and "0 < fdt"
  shows "p = NULL \<and> len < 0 \<or> 0 < p"
proof -
  have "0 < fdt + os + off" if "fdt_off_dt_struct m fdt = Some os" "0 \<le> off" for os
    using that assms(2) fdt32_ld_range [of m "fdt + 8" os] by (simp add: fdt_off_dt_struct_def)
  with assms show ?thesis
    by (auto simp: get_property_by_offset_def Let_def bind_eq_Some_conv split: if_splits
        dest!: fdt_check_prop_offset_Some)
qed

lemma fdt_getprop_by_offset_null:
  assumes "fdt_getprop_by_offset m fdt off = Some (NULL, np, len)" and "0 < fdt"
  shows "len < 0"
proof -
  from assms(1) obtain q lenp where g: "get_property_by_offset m fdt off = Some (q, lenp)"
    by (auto simp: fdt_getprop_by_offset_def bind_eq_Some_conv)
  show ?thesis
  proof (cases "q = NULL")
    case True
    with assms(1) g get_property_by_offset_pos [OF g assms(2)] show ?thesis
      by (simp add: fdt_getprop_by_offset_def)
  next
    case False
    with get_property_by_offset_pos [OF g assms(2)] have "prop_data v o' l q \<noteq> 0" for v o' l
      by (simp add: prop_data_def)
    with assms(1) g False fdt_get_string_null [OF _ assms(2)] show ?thesis
      by (auto simp: fdt_getprop_by_offset_def bind_eq_Some_conv split: if_splits)
  qed
qed

section \<open>The check accepts the grammar\<close>

text \<open>Inside a node the loop skips complete content.\<close>

lemma check_loop_content:
  "content m fdt off e \<Longrightarrow> 0 < d \<Longrightarrow> d \<le> off \<Longrightarrow>
     check_full_loop m fdt off d False = check_full_loop m fdt e d False"
proof (induction arbitrary: d rule: content.induct)
  case (nop off nx e)
  then show ?case using tag_forward [of m fdt off FDT_NOP nx]
    by (subst check_full_loop.simps) simp
next
  case (property off nx e)
  then show ?case using tag_forward [of m fdt off FDT_PROP nx]
    by (subst check_full_loop.simps) (auto simp: property_at_def)
next
  case (subnode off nx e1 nx1 e)
  from tag_forward [OF subnode.hyps(1)] have f: "off < nx" "nx \<le> INT_MAX" by auto
  from tag_forward [OF subnode.hyps(3)] content_forward [OF subnode.hyps(2)] have g: "nx < nx1" by simp
  have u: "u32 (d + 1) = d + 1" using subnode.prems f by (intro u32_id) auto
  have "check_full_loop m fdt off d False = check_full_loop m fdt nx (d + 1) False"
    using subnode.hyps(1) subnode.prems f u by (subst check_full_loop.simps) simp
  also have "\<dots> = check_full_loop m fdt e1 (d + 1) False"
    using subnode.prems f by (intro subnode.IH(1)) auto
  also have "\<dots> = check_full_loop m fdt nx1 d False"
    using subnode.hyps(3) subnode.prems by (subst check_full_loop.simps) simp
  also have "\<dots> = check_full_loop m fdt e d False"
    using subnode.prems f g by (intro subnode.IH(2)) auto
  finally show ?case .
qed simp

lemma check_loop_complete: "structure_block m fdt off \<Longrightarrow> check_full_loop m fdt off 0 False = Some 0"
proof (induction rule: structure_block.induct)
  case (root off nx name e nx1 nx2)
  from tag_forward [OF root.hyps(1)] have f: "1 \<le> nx" by auto
  have "check_full_loop m fdt off 0 False = check_full_loop m fdt nx 1 False"
    using root.hyps(1-4) by (subst check_full_loop.simps) (simp add: u32_id)
  also have "\<dots> = check_full_loop m fdt e 1 False"
    using f by (intro check_loop_content [OF root.hyps(5)]) auto
  also have "\<dots> = check_full_loop m fdt nx1 0 True"
    using root.hyps(6) by (subst check_full_loop.simps) simp
  also have "\<dots> = Some 0" using root.hyps(7) by (subst check_full_loop.simps) simp
  finally show ?case .
qed (subst check_full_loop.simps, auto simp: property_at_def)+

section \<open>The grammar holds of what the check accepts\<close>

lemma check_loop_cases:
  assumes "check_full_loop m fdt off d ee = Some 0" and "0 < fdt"
  obtains (finish) nx where "tag_at m fdt FDT_END off nx" "d = 0"
  | (nop) nx where "tag_at m fdt FDT_NOP off nx" "\<not> ee" "check_full_loop m fdt nx d ee = Some 0"
  | (property) nx where "property_at m fdt off nx" "\<not> ee" "check_full_loop m fdt nx d ee = Some 0"
  | (begin_root) nx name where "tag_at m fdt FDT_BEGIN_NODE off nx" "\<not> ee" "u32 (d + 1) = 1"
      "fdt_get_name m fdt off = Some (name, 0)" "name \<noteq> NULL" "rd m name = Some 0"
      "check_full_loop m fdt nx 1 ee = Some 0"
  | (inner) nx where "tag_at m fdt FDT_BEGIN_NODE off nx" "\<not> ee" "u32 (d + 1) \<noteq> 1"
      "check_full_loop m fdt nx (u32 (d + 1)) ee = Some 0"
  | (end_node) nx where "tag_at m fdt FDT_END_NODE off nx" "\<not> ee" "d \<noteq> 0"
      "check_full_loop m fdt nx (d - 1) (d - 1 = 0) = Some 0"
proof -
  from assms obtain tag nx where t: "fdt_next_tag m fdt off = Some (tag, nx)"
    by (subst (asm) check_full_loop.simps) (auto simp: bind_eq_Some_conv)
  note eq = assms(1) [unfolded check_full_loop.simps [of m fdt off d ee] t Option.bind.simps prod.case]
  show thesis
  proof (cases "nx < 0 \<or> ee \<and> tag \<noteq> FDT_END")
    case True
    with eq show thesis by (auto split: if_splits)
  next
    case n: False
    consider "tag = FDT_NOP" | "tag = FDT_END" | "tag = FDT_BEGIN_NODE" | "tag = FDT_END_NODE" | "tag = FDT_PROP"
      using eq n by (auto split: if_splits)
    then show thesis
    proof cases
      case 1
      with t n eq show thesis by (intro nop [of nx]) auto
    next
      case 2
      with t n eq show thesis by (intro finish [of nx]) (auto split: if_splits)
    next
      case 3
      show thesis
      proof (cases "u32 (d + 1) = 1")
        case True
        with 3 n eq obtain name where "fdt_get_name m fdt off = Some (name, 0)" "name \<noteq> NULL" "rd m name = Some 0"
          "check_full_loop m fdt nx 1 ee = Some 0"
          using fdt_get_name_null [OF _ assms(2)] by (fastforce simp: bind_eq_Some_conv split: if_splits)
        with True 3 t n show thesis by (intro begin_root [of nx name]) auto
      next
        case False
        with 3 t n eq show thesis by (intro inner [of nx]) (auto split: if_splits)
      qed
    next
      case 4
      with t n eq show thesis by (intro end_node [of nx]) (auto split: if_splits)
    next
      case 5
      with n eq obtain p np len where "fdt_getprop_by_offset m fdt off = Some (p, np, len)" "p \<noteq> NULL"
        "check_full_loop m fdt nx d ee = Some 0"
        using fdt_getprop_by_offset_null [OF _ assms(2)] by (fastforce simp: bind_eq_Some_conv split: if_splits)
      with 5 t n show thesis by (intro property [of nx]) (auto simp: property_at_def)
    qed
  qed
qed

lemma check_loop_inner:
  assumes "check_full_loop m fdt off d False = Some 0" and "0 < fdt" and "0 < d" and "d \<le> off"
  shows "\<exists>e nx. content m fdt off e \<and> tag_at m fdt FDT_END_NODE e nx \<and> off \<le> e \<and>
    check_full_loop m fdt nx (d - 1) (d - 1 = 0) = Some 0"
  using assms(1,3,4)
proof (induction "walk_measure off" arbitrary: off d rule: less_induct)
  case less
  have m: "walk_measure nx < walk_measure off" if "fdt_next_tag m fdt off = Some (tag, nx)" "tag \<noteq> FDT_END" for tag nx
    using walk_step [OF that] .
  from less.prems(1) assms(2) show ?case
  proof (cases rule: check_loop_cases)
    case (finish nx)
    with less.prems show ?thesis by simp
  next
    case (nop nx)
    from tag_forward [OF nop(1)] less.prems have "d \<le> nx" "off < nx" by auto
    with less.hyps [OF m, of _ nx d] nop less.prems obtain e nx1 where "content m fdt nx e"
      "tag_at m fdt FDT_END_NODE e nx1" "nx \<le> e" "check_full_loop m fdt nx1 (d - 1) (d - 1 = 0) = Some 0" by auto
    with nop \<open>off < nx\<close> show ?thesis by (intro exI [of _ e] exI [of _ nx1]) (auto intro: content.nop)
  next
    case (property nx)
    then have t: "tag_at m fdt FDT_PROP off nx" by (simp add: property_at_def)
    from tag_forward [OF t] less.prems have "d \<le> nx" "off < nx" by auto
    with less.hyps [OF m, of _ nx d] t property less.prems obtain e nx1 where "content m fdt nx e"
      "tag_at m fdt FDT_END_NODE e nx1" "nx \<le> e" "check_full_loop m fdt nx1 (d - 1) (d - 1 = 0) = Some 0" by auto
    with property \<open>off < nx\<close> show ?thesis by (intro exI [of _ e] exI [of _ nx1]) (auto intro: content.property)
  next
    case (begin_root nx name)
    from tag_forward [OF begin_root(1)] less.prems have "d + 1 < 4294967296" by simp
    with begin_root(3) less.prems show ?thesis by (simp add: u32_id)
  next
    case (inner nx)
    from tag_forward [OF inner(1)] less.prems have f: "d + 1 \<le> nx" "off < nx" "nx \<le> INT_MAX" by auto
    then have u: "u32 (d + 1) = d + 1" using less.prems by (intro u32_id) auto
    have "walk_measure nx < walk_measure off" using m [of FDT_BEGIN_NODE nx] inner(1) by simp
    from less.hyps [OF this, of "d + 1"] inner(4) u f less.prems obtain e1 nx1 where c1: "content m fdt nx e1"
      "tag_at m fdt FDT_END_NODE e1 nx1" "nx \<le> e1" "check_full_loop m fdt nx1 d False = Some 0" by auto
    from tag_forward [OF c1(2)] c1(3) f have g: "off < nx1" "d \<le> nx1" "nx1 \<le> INT_MAX" using less.prems by auto
    then have "walk_measure nx1 < walk_measure off" using tag_forward [OF inner(1)] by auto
    from less.hyps [OF this c1(4)] less.prems g obtain e nx2 where "content m fdt nx1 e"
      "tag_at m fdt FDT_END_NODE e nx2" "nx1 \<le> e" "check_full_loop m fdt nx2 (d - 1) (d - 1 = 0) = Some 0" by auto
    with inner(1) c1 g show ?thesis
      by (intro exI [of _ e] exI [of _ nx2]) (auto intro: content.subnode)
  next
    case (end_node nx)
    then show ?thesis by (intro exI [of _ off] exI [of _ nx]) (auto intro: content.nil)
  qed
qed

lemma check_loop_sound:
  assumes "check_full_loop m fdt off 0 False = Some 0" and "0 < fdt"
  shows "structure_block m fdt off"
  using assms(1)
proof (induction "walk_measure off" arbitrary: off rule: less_induct)
  case less
  have m: "walk_measure nx < walk_measure off" if "fdt_next_tag m fdt off = Some (tag, nx)" "tag \<noteq> FDT_END" for tag nx
    using walk_step [OF that] .
  from less.prems assms(2) show ?case
  proof (cases rule: check_loop_cases)
    case (finish nx)
    show ?thesis by (rule structure_block.no_root [OF finish(1)])
  next
    case (nop nx)
    with less.hyps [OF m, of FDT_NOP nx] show ?thesis by (auto intro: structure_block.nop)
  next
    case (property nx)
    with less.hyps [OF m, of FDT_PROP nx] show ?thesis by (auto simp: property_at_def intro: structure_block.property)
  next
    case (begin_root nx name)
    from tag_forward [OF begin_root(1)] have "1 \<le> nx" by simp
    with check_loop_inner [of m fdt nx 1] begin_root assms(2) obtain e nx1 where
      c: "content m fdt nx e" "tag_at m fdt FDT_END_NODE e nx1" "check_full_loop m fdt nx1 0 True = Some 0" by auto
    from c(3) assms(2) have "\<exists>nx2. tag_at m fdt FDT_END nx1 nx2" by (cases rule: check_loop_cases) auto
    with begin_root c show ?thesis by (auto intro: structure_block.root)
  next
    case (inner nx)
    then show ?thesis by (simp add: u32_id)
  next
    case (end_node nx)
    then show ?thesis by simp
  qed
qed

section \<open>The memory reservations\<close>

text \<open>The entries of the reservation block up to the first of size 0.\<close>

inductive reservations :: "mem \<Rightarrow> addr \<Rightarrow> int \<Rightarrow> int \<Rightarrow> bool" for m fdt where
  last: "fdt_mem_rsv m fdt i = Some re \<Longrightarrow> re \<noteq> NULL \<Longrightarrow> fdt64_ld m (re + 8) = Some 0 \<Longrightarrow> reservations m fdt i i"
| entry: "fdt_mem_rsv m fdt i = Some re \<Longrightarrow> re \<noteq> NULL \<Longrightarrow> fdt64_ld m (re + 8) = Some sz \<Longrightarrow> sz \<noteq> 0 \<Longrightarrow>
    i < INT_MAX \<Longrightarrow> reservations m fdt (i + 1) n \<Longrightarrow> reservations m fdt i n"

lemma num_mem_rsv_iff:
  "0 \<le> i \<Longrightarrow> num_mem_rsv_loop m fdt i = Some n \<and> 0 \<le> n \<longleftrightarrow> reservations m fdt i n"
proof
  show "0 \<le> i \<Longrightarrow> num_mem_rsv_loop m fdt i = Some n \<and> 0 \<le> n \<Longrightarrow> reservations m fdt i n"
  proof (induction m fdt i rule: num_mem_rsv_loop.induct)
    case (1 m fdt i)
    then show ?case
      by (subst (asm) (2) num_mem_rsv_loop.simps)
        (auto simp: bind_eq_Some_conv split: if_splits intro: reservations.intros)
  qed
  show "0 \<le> i \<Longrightarrow> reservations m fdt i n \<Longrightarrow> num_mem_rsv_loop m fdt i = Some n \<and> 0 \<le> n"
    by (rotate_tac, induction rule: reservations.induct) (subst num_mem_rsv_loop.simps, simp)+
qed

end
