(* ===== verification/Ext_Node.thy ===== *)
theory Ext_Node
  imports Ext_Prop
begin

text \<open>
  Node handles, and the walks over the properties and the subnodes of a node
  (\<open>libs/DTBExtnLib/DTBExtnLib_node.c\<close>, in the build without \<open>ENABLE_HASH_FOR_DTB\<close>).

  The iterator macros of libfdt are loops with a body that either goes on or leaves the loop;
  their specification is a fold over the list of the offsets they visit.
\<close>

section \<open>The iterator macros\<close>

text \<open>
  \<open>fdt_for_each_property_offset\<close> and \<open>fdt_for_each_subnode\<close> from a first offset on. The body
  maps the loop's variables to new ones and says whether the loop goes on.
\<close>

function (sequential) each_property ::
  "mem \<Rightarrow> addr \<Rightarrow> int \<Rightarrow> (int \<Rightarrow> 's \<Rightarrow> (bool \<times> 's) option) \<Rightarrow> 's \<Rightarrow> 's option" where
  "each_property m fdt property body s =
     (if property < 0 then Some s
      else do {
        (go, s') \<leftarrow> body property s;
        if \<not> go then Some s'
        else do {
          property' \<leftarrow> fdt_next_property_offset m fdt property;
          if property' < 0 then Some s' else each_property m fdt property' body s' } })"
  by pat_completeness auto

termination each_property
  by (relation "measure (\<lambda>(m, fdt, p, b, s). walk_measure p)")
    (auto dest!: fdt_next_property_step simp del: in_measure simp: in_measure)

declare each_property.simps [simp del]

function (sequential) each_subnode ::
  "mem \<Rightarrow> addr \<Rightarrow> int \<Rightarrow> (int \<Rightarrow> 's \<Rightarrow> (bool \<times> 's) option) \<Rightarrow> 's \<Rightarrow> 's option" where
  "each_subnode m fdt subnode body s =
     (if subnode < 0 then Some s
      else do {
        (go, s') \<leftarrow> body subnode s;
        if \<not> go then Some s'
        else do {
          subnode' \<leftarrow> fdt_next_subnode m fdt subnode;
          if subnode' < 0 then Some s' else each_subnode m fdt subnode' body s' } })"
  by pat_completeness auto

termination each_subnode
  by (relation "measure (\<lambda>(m, fdt, p, b, s). node_measure p)")
    (auto dest!: fdt_next_subnode_measure simp del: in_measure simp: in_measure)

declare each_subnode.simps [simp del]

definition fdt_for_each_property_offset where
  "fdt_for_each_property_offset m fdt node body s = do {
     property \<leftarrow> fdt_first_property_offset m fdt node;
     each_property m fdt property body s }"

definition fdt_for_each_subnode where
  "fdt_for_each_subnode m fdt parent body s = do {
     node \<leftarrow> fdt_first_subnode m fdt parent;
     each_subnode m fdt node body s }"

section \<open>Handles\<close>

text \<open>
  The handle is an output of \<open>fdt_get_node_handle\<close>: on an error its blob is set and its offset
  keeps the old value. A NULL blob stands for the default blob.
\<close>

definition fdt_get_node_handle ::
  "mem \<Rightarrow> ext_state \<Rightarrow> fdt_node_handle option \<Rightarrow> addr \<Rightarrow> byte list option \<Rightarrow>
     (rc \<times> fdt_node_handle option) option" where
  "fdt_get_node_handle m st node b name =
     (case (node, name) of
        (Some h, Some nm) \<Rightarrow>
          (case (if b = NULL then fdt_get_blob_handle st True (default_blob_id st) else (NOERROR, Some b)) of
             (r, None) \<Rightarrow> Some (r, Some h)
           | (r, Some b') \<Rightarrow> do {
               off \<leftarrow> fdt_path_offset m b' nm;
               if off \<ge> 0 then Some (NOERROR, Some \<lparr> blob = b', offset = off \<rparr>)
               else Some (Ret off, Some (h \<lparr> blob := b' \<rparr>)) })
      | _ \<Rightarrow> Some (Qc NULLPTR, node))"

definition fdt_get_phandle_node ::
  "mem \<Rightarrow> fdt_node_handle option \<Rightarrow> int \<Rightarrow> fdt_node_handle option \<Rightarrow>
     (rc \<times> fdt_node_handle option) option" where
  "fdt_get_phandle_node m node phandle pnode =
     (case (node, pnode) of
        (Some h, Some p) \<Rightarrow> do {
          off \<leftarrow> fdt_node_offset_by_phandle m (blob h) phandle;
          if off < 0 then Some (Ret off, Some p)
          else Some (NOERROR, Some \<lparr> blob = blob h, offset = off \<rparr>) }
      | _ \<Rightarrow> Some (Qc NULLPTR, pnode))"

definition fdt_get_parent_node ::
  "mem \<Rightarrow> fdt_node_handle option \<Rightarrow> fdt_node_handle option \<Rightarrow> (rc \<times> fdt_node_handle option) option" where
  "fdt_get_parent_node m node pnode =
     (case (node, pnode) of
        (Some h, Some p) \<Rightarrow> do {
          off \<leftarrow> fdt_parent_offset m (blob h) (offset h);
          if off < 0 then Some (Ret off, Some \<lparr> blob = NULL, offset = off \<rparr>)
          else Some (NOERROR, Some \<lparr> blob = blob h, offset = off \<rparr>) }
      | _ \<Rightarrow> Some (Qc NULLPTR, pnode))"

definition fdt_node_cmp :: "fdt_node_handle option \<Rightarrow> fdt_node_handle option \<Rightarrow> rc" where
  "fdt_node_cmp node_a node_b =
     (case (node_a, node_b) of
        (Some a, Some b) \<Rightarrow>
          if \<not> (blob a = blob b \<and> offset a = offset b) then Qc NODE_DIFFERENT else NOERROR
      | _ \<Rightarrow> Qc NULLPTR)"

definition fdt_node_copy ::
  "fdt_node_handle option \<Rightarrow> fdt_node_handle option \<Rightarrow> rc \<times> fdt_node_handle option" where
  "fdt_node_copy dst src =
     (case (dst, src) of
        (Some d, Some s) \<Rightarrow> (NOERROR, Some (d \<lparr> blob := blob s, offset := offset s \<rparr>))
      | _ \<Rightarrow> (Qc NULLPTR, dst))"

section \<open>The properties of a node\<close>

definition fdt_get_prop_values_size_of_node ::
  "mem \<Rightarrow> fdt_node_handle option \<Rightarrow> bool \<Rightarrow> (rc \<times> int option) option" where
  "fdt_get_prop_values_size_of_node m node size_ok =
     (case (node, size_ok) of
        (Some h, True) \<Rightarrow> do {
          (r, n) \<leftarrow> fdt_for_each_property_offset m (blob h) (offset h)
            (\<lambda>property (r, n). do {
               (fdtp, pname, len) \<leftarrow> fdt_getprop_by_offset m (blob h) property;
               if fdtp = NULL \<or> len < 0 then Some (False, len_error len, n)
               else Some (True, r, u32 (n + len)) })
            (NOERROR, 0);
          Some (r, Some n) }
      | _ \<Rightarrow> Some (Qc NULLPTR, None))"

text \<open>Native stores of a 16, 32 or 64-bit value.\<close>

definition le_bytes :: "nat \<Rightarrow> int \<Rightarrow> byte list" where
  "le_bytes w x = map (\<lambda>i. word_of_int (extract_byte x i)) [0..<w]"

definition put_bytes :: "byte list \<Rightarrow> nat \<Rightarrow> byte list \<Rightarrow> byte list" where
  "put_bytes buf k bs = take k buf @ bs @ drop (k + length bs) buf"

text \<open>
  The conversion of one property of \<open>len\<close> bytes under a format character: the bytes stored at
  the walking pointer, \<open>None\<close> for a bad format.
\<close>

definition conv_prop :: "mem \<Rightarrow> int \<Rightarrow> addr \<Rightarrow> int \<Rightarrow> byte list option option" where
  "conv_prop m fmt swalk len =
     (if fmt = 98 \<or> fmt = 66 then map_option Some (rd_bytes m swalk (nat len))
      else if fmt = 104 \<or> fmt = 72 then do {
        vs \<leftarrow> those (map (\<lambda>j. fdt16_ld m (swalk + 2 * j)) [0..len div 2 - 1]);
        Some (Some (concat (map (le_bytes 2) vs))) }
      else if fmt = 119 \<or> fmt = 87 then do {
        vs \<leftarrow> those (map (\<lambda>j. fdt32_ld m (swalk + 4 * j)) [0..len div 4 - 1]);
        Some (Some (concat (map (le_bytes 4) vs))) }
      else if fmt = 100 \<or> fmt = 68 then do {
        vs \<leftarrow> those (map (\<lambda>j. fdt64_ld m (swalk + 8 * j)) [0..len div 8 - 1]);
        Some (Some (concat (map (le_bytes 8) vs))) }
      else Some None)"

text \<open>
  \<open>fdt_get_prop_values_of_node\<close>: the loop's variables are the return code, the subscript of
  the format character, the running count (the walking pointer is that many bytes into the
  buffer) and the buffer. Reading \<open>format\<close> behind its terminator is undefined. On any error
  the whole buffer is zeroed.
\<close>

definition format_at :: "byte list \<Rightarrow> nat \<Rightarrow> int option" where
  "format_at fmt i =
     (if i < length fmt then Some (uint (fmt ! i)) else if i = length fmt then Some 0 else None)"

definition values_step ::
  "mem \<Rightarrow> fdt_node_handle \<Rightarrow> byte list \<Rightarrow> int \<Rightarrow> int \<Rightarrow> rc \<times> nat \<times> int \<times> byte list \<Rightarrow>
     (bool \<times> rc \<times> nat \<times> int \<times> byte list) option" where
  "values_step m h fmt bsize property = (\<lambda>(r, i, count, buf). do {
     c \<leftarrow> format_at fmt i;
     if c = 105 \<or> c = 73 then Some (True, r, i + 1, count, buf)
     else do {
       (swalk, pname, len) \<leftarrow> fdt_getprop_by_offset m (blob h) property;
       if swalk = NULL \<or> len \<le> 0 then Some (False, len_error len, i, count, buf)
       else if count \<ge> bsize then Some (False, Qc TRUNCATED, i, count, buf)
       else if len > u32 (bsize - count) then Some (False, Qc OVERFLOW, i, count, buf)
       else do {
         conv \<leftarrow> conv_prop m c swalk len;
         case conv of
           None \<Rightarrow> Some (False, Qc BADFORMAT, i, count, buf)
         | Some bs \<Rightarrow> Some (True, r, i + 1, u32 (count + len), put_bytes buf (nat count) bs) } } })"

definition fdt_get_prop_values_of_node ::
  "mem \<Rightarrow> fdt_node_handle option \<Rightarrow> byte list option \<Rightarrow> byte list option \<Rightarrow> int \<Rightarrow>
     (rc \<times> byte list option) option" where
  "fdt_get_prop_values_of_node m node format packed bsize =
     (case (node, format, packed) of
        (Some h, Some fmt, Some buf) \<Rightarrow> do {
          (r, i, count, buf') \<leftarrow> fdt_for_each_property_offset m (blob h) (offset h)
            (values_step m h fmt bsize) (NOERROR, 0, 0, buf);
          Some (r, Some (if r \<noteq> NOERROR \<and> bsize > 0 then replicate (nat bsize) 0 else buf')) }
      | _ \<Rightarrow> Some (Qc NULLPTR, packed))"

definition fdt_get_prop_names_size_of_node ::
  "mem \<Rightarrow> fdt_node_handle option \<Rightarrow> bool \<Rightarrow> (rc \<times> int option) option" where
  "fdt_get_prop_names_size_of_node m node size_ok =
     (case (node, size_ok) of
        (Some h, True) \<Rightarrow> do {
          (r, n) \<leftarrow> fdt_for_each_property_offset m (blob h) (offset h)
            (\<lambda>property (r, n). do {
               (fdtp, pname, len) \<leftarrow> fdt_getprop_by_offset m (blob h) property;
               if fdtp = NULL \<or> len < 0 then Some (False, len_error len, n)
               else do {
                 l \<leftarrow> c_strlen m pname;
                 Some (True, r, u32 (n + u32 (l + 1))) } })
            (NOERROR, 0);
          Some (r, Some n) }
      | _ \<Rightarrow> Some (Qc NULLPTR, None))"

text \<open>
  Copying a string of \<open>len\<close> characters and its terminator behind the \<open>running\<close> bytes written
  so far; \<open>full\<close> is the code for a full buffer. The copy loop counts in 16 bits, so it does not
  end for a string of 65536 bytes or more.
\<close>

definition append_name ::
  "mem \<Rightarrow> addr \<Rightarrow> int \<Rightarrow> int \<Rightarrow> rc \<Rightarrow> rc \<times> byte list \<Rightarrow> (bool \<times> rc \<times> byte list) option" where
  "append_name m p len bsize full = (\<lambda>(r, out).
     if \<not> len < INT_MAX then Some (False, Qc OVERFLOW, out)
     else
       let tlen = len + 1
       in if u32 tlen \<le> u32 (bsize - int (length out)) then
            if tlen > 65535 then None
            else do { bs \<leftarrow> rd_bytes m p (nat tlen); Some (True, r, out @ bs) }
          else Some (False, full, out))"

text \<open>
  \<open>fdt_get_prop_names_of_node\<close>: \<open>out\<close> is what was written from the start of the buffer. The
  last byte of the buffer is set to the terminator at the end.
\<close>

definition fdt_get_prop_names_of_node ::
  "mem \<Rightarrow> fdt_node_handle option \<Rightarrow> byte list option \<Rightarrow> int \<Rightarrow> (rc \<times> byte list option) option" where
  "fdt_get_prop_names_of_node m node prop_names bsize =
     (case (node, prop_names) of
        (Some h, Some buf) \<Rightarrow> do {
          (r, out) \<leftarrow> fdt_for_each_property_offset m (blob h) (offset h)
            (\<lambda>property (r, out). do {
               (fdtp, pname, len) \<leftarrow> fdt_getprop_by_offset m (blob h) property;
               if fdtp = NULL \<or> len < 0 then Some (False, len_error len, out)
               else do {
                 l \<leftarrow> c_strlen m pname;
                 append_name m pname (s32 l) bsize (QcPos TRUNCATED) (r, out) } })
            (NOERROR, []);
          let buf' = put_bytes buf 0 out;
          Some (r, Some (if r = NOERROR \<and> bsize > 0 then buf'[nat (bsize - 1) := 0] else buf')) }
      | _ \<Rightarrow> Some (Qc NULLPTR, prop_names))"

section \<open>The subnodes of a node\<close>

definition fdt_get_count_of_subnodes ::
  "mem \<Rightarrow> fdt_node_handle option \<Rightarrow> bool \<Rightarrow> (rc \<times> int option) option" where
  "fdt_get_count_of_subnodes m node count_ok =
     (case (node, count_ok) of
        (Some h, True) \<Rightarrow> do {
          i \<leftarrow> fdt_for_each_subnode m (blob h) (offset h) (\<lambda>subnode i. Some (True, u32 (i + 1))) 0;
          Some (NOERROR, Some i) }
      | _ \<Rightarrow> Some (Qc NULLPTR, None))"

text \<open>
  \<open>fdt_get_cache_of_subnodes\<close>: the handles written from the start of the array. The array must
  have room for one handle even when \<open>count\<close> is 0.
\<close>

definition fdt_get_cache_of_subnodes ::
  "mem \<Rightarrow> fdt_node_handle option \<Rightarrow> bool \<Rightarrow> int \<Rightarrow> (rc \<times> fdt_node_handle list) option" where
  "fdt_get_cache_of_subnodes m node cache_ok count =
     (case (node, cache_ok) of
        (Some h, True) \<Rightarrow> do {
          out \<leftarrow> fdt_for_each_subnode m (blob h) (offset h)
            (\<lambda>subnode out.
               let out' = out @ [\<lparr> blob = blob h, offset = subnode \<rparr>]
               in Some (\<not> int (length out') \<ge> count, out')) [];
          Some (NOERROR, out) }
      | _ \<Rightarrow> Some (Qc NULLPTR, []))"

text \<open>
  \<open>fdt_get_size_of_subnode_names\<close>: the sizes written, with the subscript a \<open>uint16_t\<close>. The
  array has \<open>count\<close> elements; writing behind it is undefined. The test comes after the write,
  so the loop writes one element too many before it reports \<open>FDT_ERR_QC_TRUNCATED\<close>.
\<close>

definition size_body ::
  "mem \<Rightarrow> addr \<Rightarrow> int \<Rightarrow> int \<Rightarrow> rc \<times> nat \<times> int list \<Rightarrow> (bool \<times> rc \<times> nat \<times> int list) option" where
  "size_body m fdt count subnode = (\<lambda>(r, i, arr). do {
     (p, len) \<leftarrow> fdt_get_name m fdt subnode;
     if len \<ge> 0 then
       if i < length arr then
         Some (\<not> int i \<ge> count, if int i \<ge> count then QcPos TRUNCATED else r,
               (i + 1) mod 65536, arr[i := u32 (len + 1)])
       else None
     else Some (False, len_error len, i, arr) })"

definition fdt_get_size_of_subnode_names ::
  "mem \<Rightarrow> fdt_node_handle option \<Rightarrow> int list option \<Rightarrow> int \<Rightarrow> (rc \<times> int list option) option" where
  "fdt_get_size_of_subnode_names m node names count =
     (case (node, names) of
        (Some h, Some arr) \<Rightarrow>
          if count = 0 then Some (Qc NILVALUE, names)
          else do {
            (r, i, arr') \<leftarrow> fdt_for_each_subnode m (blob h) (offset h)
              (size_body m (blob h) count)
              (NOERROR, 0, arr);
            Some (r, Some arr') }
      | _ \<Rightarrow> Some (Qc NULLPTR, names))"

definition fdt_get_subnode_names ::
  "mem \<Rightarrow> fdt_node_handle option \<Rightarrow> byte list option \<Rightarrow> int \<Rightarrow> (rc \<times> byte list option) option" where
  "fdt_get_subnode_names m node names bsize =
     (case (node, names) of
        (Some h, Some buf) \<Rightarrow> do {
          (r, out) \<leftarrow> fdt_for_each_subnode m (blob h) (offset h)
            (\<lambda>subnode (r, out). do {
               (name, len) \<leftarrow> fdt_get_name m (blob h) subnode;
               if name = NULL \<or> len < 0 then Some (False, len_error len, out)
               else append_name m name len bsize (Qc BUF2SMALL) (r, out) })
            (NOERROR, []);
          Some (r, Some (put_bytes buf 0 out)) }
      | _ \<Rightarrow> Some (Qc NULLPTR, names))"

section \<open>The walks as folds over lists of offsets\<close>

text \<open>
  \<open>visits nxt p qs\<close>: a loop that starts at \<open>p\<close>, steps by \<open>nxt\<close> and ends at a negative
  offset visits the offsets \<open>qs\<close>.
\<close>

inductive visits :: "(int \<Rightarrow> int option) \<Rightarrow> int \<Rightarrow> int list \<Rightarrow> bool" for nxt where
  stop: "p < 0 \<Longrightarrow> visits nxt p []"
| step: "0 \<le> p \<Longrightarrow> nxt p = Some p' \<Longrightarrow> visits nxt p' qs \<Longrightarrow> visits nxt p (p # qs)"

inductive_cases visits_NilE: "visits nxt p []"
inductive_cases visits_ConsE: "visits nxt p (q # qs)"

lemma visits_fun: "visits nxt p qs \<Longrightarrow> visits nxt p qs' \<Longrightarrow> qs = qs'"
proof (induction arbitrary: qs' rule: visits.induct)
  case (stop p)
  from stop.prems stop.hyps show ?case by cases simp_all
next
  case (step p p' qs)
  from step.prems step.hyps show ?case by cases (auto dest: step.IH)
qed

text \<open>A loop with early exit over a list.\<close>

fun loop_list :: "('x \<Rightarrow> 's \<Rightarrow> (bool \<times> 's) option) \<Rightarrow> 'x list \<Rightarrow> 's \<Rightarrow> 's option" where
  "loop_list body [] s = Some s"
| "loop_list body (x # xs) s = do {
     (go, s') \<leftarrow> body x s;
     if go then loop_list body xs s' else Some s' }"

text \<open>
  The contract of a walk: from an admissible offset there is a next one, admissible again, and
  the offsets that are nodes or properties strictly increase.
\<close>

locale offset_walk =
  fixes nxt :: "int \<Rightarrow> int option"
    and ok :: "int \<Rightarrow> bool"
  assumes nxt_ok: "ok p \<Longrightarrow> 0 \<le> p \<Longrightarrow> \<exists>p'. nxt p = Some p' \<and> ok p'"
    and ok_int: "ok p \<Longrightarrow> p \<le> 2147483647"
    and nxt_forward: "nxt p = Some p' \<Longrightarrow> 0 \<le> p \<Longrightarrow> 0 \<le> p' \<Longrightarrow> p < p'"
begin

lemma visits_ex:
  "ok p \<Longrightarrow> \<exists>qs. visits nxt p qs \<and> (\<forall>q\<in>set qs. ok q \<and> p \<le> q) \<and> sorted_wrt (<) qs"
proof (induction "nat (2147483648 - p)" arbitrary: p rule: less_induct)
  case less
  show ?case
  proof (cases "p < 0")
    case True
    then show ?thesis by (intro exI [of _ "[]"]) (simp add: visits.stop)
  next
    case False
    with nxt_ok [OF less.prems] obtain p' where p': "nxt p = Some p'" "ok p'" by auto
    have "\<exists>qs. visits nxt p' qs \<and> (\<forall>q\<in>set qs. ok q \<and> p < q) \<and> sorted_wrt (<) qs"
    proof (cases "p' < 0")
      case True
      then show ?thesis by (intro exI [of _ "[]"]) (simp add: visits.stop)
    next
      case p0: False
      with nxt_forward [OF p'(1)] ok_int [OF p'(2)] False have fw: "p < p'" "p' \<le> 2147483647" by auto
      then have "nat (2147483648 - p') < nat (2147483648 - p)" by simp
      from less.hyps [OF this p'(2)] fw show ?thesis by fastforce
    qed
    then obtain qs where "visits nxt p' qs" "\<forall>q\<in>set qs. ok q \<and> p < q" "sorted_wrt (<) qs" by blast
    with p' False less.prems show ?thesis
      by (intro exI [of _ "p # qs"]) (auto intro: visits.step less_imp_le)
  qed
qed

end

lemma each_property_visits:
  "visits (fdt_next_property_offset m fdt) p qs \<Longrightarrow>
     each_property m fdt p body s = loop_list body qs s"
proof (induction arbitrary: s rule: visits.induct)
  case (stop p)
  then show ?case by (simp add: each_property.simps [of m fdt p])
next
  case (step p p' qs)
  have "each_property m fdt p' body s' = (if p' < 0 then Some s' else each_property m fdt p' body s')" for s'
    by (simp add: each_property.simps [of m fdt p'])
  with step.IH have "(if p' < 0 then Some s' else each_property m fdt p' body s') = loop_list body qs s'" for s'
    by simp
  with step.hyps show ?case
    by (simp add: each_property.simps [of m fdt p] split: bind_split option.splits)
qed

lemma each_subnode_visits:
  "visits (fdt_next_subnode m fdt) p qs \<Longrightarrow> each_subnode m fdt p body s = loop_list body qs s"
proof (induction arbitrary: s rule: visits.induct)
  case (stop p)
  then show ?case by (simp add: each_subnode.simps [of m fdt p])
next
  case (step p p' qs)
  have "each_subnode m fdt p' body s' = (if p' < 0 then Some s' else each_subnode m fdt p' body s')" for s'
    by (simp add: each_subnode.simps [of m fdt p'])
  with step.IH have "(if p' < 0 then Some s' else each_subnode m fdt p' body s') = loop_list body qs s'" for s'
    by simp
  with step.hyps show ?case
    by (simp add: each_subnode.simps [of m fdt p] split: bind_split option.splits)
qed

lemma next_subnode_loop_neg:
  "next_subnode_loop m fdt off d = Some r \<Longrightarrow> r < 0 \<Longrightarrow> r = - FDT_ERR_NOTFOUND"
proof (induction m fdt off d rule: next_subnode_loop.induct)
  case (1 m fdt off d)
  from "1.prems" obtain x d' where n: "fdt_next_node m fdt off d = Some (x, d')"
    by (auto simp: next_subnode_loop.simps [of m fdt off] bind_eq_Some_conv)
  with "1.IH" [OF n refl] "1.prems" show ?case
    by (auto simp: next_subnode_loop.simps [of m fdt off] split: if_splits)
qed

lemma fdt_next_subnode_c_int:
  assumes "fdt_next_subnode m fdt off = Some r"
  shows "c_int r"
proof (cases "r < 0")
  case True
  with assms have "r = - FDT_ERR_NOTFOUND"
    unfolding fdt_next_subnode_def by (rule next_subnode_loop_neg)
  then show ?thesis by simp
next
  case False
  with next_subnode_loop_forward [of m fdt off _ r] assms show ?thesis
    by (auto simp: fdt_next_subnode_def c_int_def)
qed

lemma fdt_next_subnode_forward:
  "fdt_next_subnode m fdt off = Some r \<Longrightarrow> 0 \<le> off \<Longrightarrow> 0 \<le> r \<Longrightarrow> off < r"
  using next_subnode_loop_forward [of m fdt off _ r] by (auto simp: fdt_next_subnode_def)

interpretation prop_walk: offset_walk "fdt_next_property_offset m fdt" "\<lambda>p. valid_blob m fdt \<and> c_int p"
  for m fdt
proof
  show "\<exists>p'. fdt_next_property_offset m fdt p = Some p' \<and> valid_blob m fdt \<and> c_int p'"
    if "valid_blob m fdt \<and> c_int p" "0 \<le> p" for p
    using that fdt_next_property_offset_safe by blast
  show "p \<le> 2147483647" if "valid_blob m fdt \<and> c_int p" for p
    using that by (simp add: c_int_def)
  show "p < p'" if "fdt_next_property_offset m fdt p = Some p'" "0 \<le> p" "0 \<le> p'" for p p'
    using fdt_next_property_forward [OF that(1,3)] by simp
qed

interpretation node_walk: offset_walk "fdt_next_subnode m fdt" "\<lambda>p. valid_blob m fdt \<and> c_int p"
  for m fdt
proof
  show "\<exists>p'. fdt_next_subnode m fdt p = Some p' \<and> valid_blob m fdt \<and> c_int p'"
    if "valid_blob m fdt \<and> c_int p" "0 \<le> p" for p
    using that fdt_next_subnode_safe fdt_next_subnode_c_int by blast
  show "p \<le> 2147483647" if "valid_blob m fdt \<and> c_int p" for p
    using that by (simp add: c_int_def)
  show "p < p'" if "fdt_next_subnode m fdt p = Some p'" "0 \<le> p" "0 \<le> p'" for p p'
    using fdt_next_subnode_forward [OF that] by simp
qed

text \<open>The properties and the subnodes of a node, as the macros visit them.\<close>

definition props_of :: "mem \<Rightarrow> addr \<Rightarrow> int \<Rightarrow> int list \<Rightarrow> bool" where
  "props_of m fdt node ps \<longleftrightarrow>
     (\<exists>p. fdt_first_property_offset m fdt node = Some p \<and> visits (fdt_next_property_offset m fdt) p ps)"

definition subnodes_of :: "mem \<Rightarrow> addr \<Rightarrow> int \<Rightarrow> int list \<Rightarrow> bool" where
  "subnodes_of m fdt node ns \<longleftrightarrow>
     (\<exists>p. fdt_first_subnode m fdt node = Some p \<and> visits (fdt_next_subnode m fdt) p ns)"

lemma for_each_property_fold:
  "props_of m fdt node ps \<Longrightarrow> fdt_for_each_property_offset m fdt node body s = loop_list body ps s"
  by (auto simp: props_of_def fdt_for_each_property_offset_def each_property_visits)

lemma for_each_subnode_fold:
  "subnodes_of m fdt node ns \<Longrightarrow> fdt_for_each_subnode m fdt node body s = loop_list body ns s"
  by (auto simp: subnodes_of_def fdt_for_each_subnode_def each_subnode_visits)

lemma props_of_ex:
  assumes "valid_blob m fdt" and "c_int node"
  shows "\<exists>ps. props_of m fdt node ps \<and> (\<forall>p\<in>set ps. c_int p) \<and> sorted_wrt (<) ps"
proof -
  from fdt_first_property_offset_safe [OF assms] obtain p
    where "fdt_first_property_offset m fdt node = Some p" "c_int p" by blast
  with prop_walk.visits_ex [of m fdt p] assms show ?thesis by (auto simp: props_of_def)
qed

lemma fdt_first_subnode_c_int: "fdt_first_subnode m fdt off = Some r \<Longrightarrow> c_int r"
  by (auto simp: fdt_first_subnode_def bind_eq_Some_conv dest: fdt_next_node_c_int split: if_splits)

lemma subnodes_of_ex:
  assumes "valid_blob m fdt" and "c_int node"
  shows "\<exists>ns. subnodes_of m fdt node ns \<and> (\<forall>n\<in>set ns. c_int n) \<and> sorted_wrt (<) ns"
proof -
  from fdt_first_subnode_safe [OF assms] obtain p
    where p: "fdt_first_subnode m fdt node = Some p" by blast
  with node_walk.visits_ex [of m fdt p] assms fdt_first_subnode_c_int [OF p] show ?thesis
    by (auto simp: subnodes_of_def)
qed

section \<open>What the walks compute\<close>

lemma loop_list_total:
  assumes "\<And>x s. x \<in> set xs \<Longrightarrow> Inv s \<Longrightarrow> \<exists>go s'. body x s = Some (go, s') \<and> Inv s'"
  shows "Inv s \<Longrightarrow> \<exists>s'. loop_list body xs s = Some s' \<and> Inv s'"
  using assms
proof (induction xs arbitrary: s)
  case (Cons x xs)
  from Cons.prems(2) [of x s] Cons.prems(1) obtain go s' where
    b: "body x s = Some (go, s')" "Inv s'" by auto
  show ?case
  proof (cases go)
    case True
    from Cons.IH [OF b(2) Cons.prems(2)] b(1) True show ?thesis by simp
  qed (use b in simp)
qed simp

lemma loop_list_fold:
  assumes "\<And>x s. x \<in> set xs \<Longrightarrow> body x s = Some (True, f x s)"
  shows "loop_list body xs s = Some (fold f xs s)"
  using assms by (induction xs arbitrary: s) auto

lemma visits_nonneg: "visits nxt p qs \<Longrightarrow> q \<in> set qs \<Longrightarrow> 0 \<le> q"
  by (induction rule: visits.induct) auto

lemma subnodes_of_nonneg: "subnodes_of m fdt node ns \<Longrightarrow> n \<in> set ns \<Longrightarrow> 0 \<le> n"
  by (auto simp: subnodes_of_def dest: visits_nonneg)

lemma increasing_length:
  assumes "sorted_wrt (<) ns" and "\<And>n. n \<in> set ns \<Longrightarrow> 0 \<le> n \<and> n \<le> (2147483647 :: int)"
  shows "length ns \<le> 2147483648"
proof -
  have "distinct ns" using assms(1) by (simp add: strict_sorted_iff)
  then have "length ns = card (set ns)" by (simp add: distinct_card)
  also have "\<dots> \<le> card {0 .. (2147483647 :: int)}" using assms(2) by (intro card_mono) auto
  finally show ?thesis by simp
qed

lemma subnodes_of_ok:
  assumes "valid_blob m fdt" and "c_int node" and "subnodes_of m fdt node ns"
  shows "\<forall>n\<in>set ns. c_int n" and "sorted_wrt (<) ns" and "length ns \<le> 2147483648"
proof -
  from subnodes_of_ex [OF assms(1,2)] obtain ns' where
    ns': "subnodes_of m fdt node ns'" "\<forall>n\<in>set ns'. c_int n" "sorted_wrt (<) ns'" by blast
  with assms(3) have "ns' = ns" by (auto simp: subnodes_of_def dest: visits_fun)
  with ns' show c: "\<forall>n\<in>set ns. c_int n" and s: "sorted_wrt (<) ns" by simp_all
  show "length ns \<le> 2147483648"
    using c subnodes_of_nonneg [OF assms(3)] by (intro increasing_length [OF s]) (auto simp: c_int_def)
qed

lemma props_of_ok:
  assumes "valid_blob m fdt" and "c_int node" and "props_of m fdt node ps"
  shows "\<forall>p\<in>set ps. c_int p"
proof -
  from props_of_ex [OF assms(1,2)] obtain ps' where
    ps': "props_of m fdt node ps'" "\<forall>p\<in>set ps'. c_int p" by blast
  with assms(3) have "ps' = ps" by (auto simp: props_of_def dest: visits_fun)
  with ps' show ?thesis by simp
qed

lemma count_fold:
  "k + length ns < 4294967296 \<Longrightarrow> fold (\<lambda>n i. u32 (i + 1)) ns (int k) = int (k + length ns)"
proof (induction ns arbitrary: k)
  case (Cons n ns)
  then have "u32 (int k + 1) = int (Suc k)" by (simp add: u32_id)
  with Cons.IH [of "Suc k"] Cons.prems show ?case by simp
qed simp

lemma count_of_subnodes:
  assumes "valid_handle m h" and "subnodes_of m (blob h) (offset h) ns"
  shows "fdt_get_count_of_subnodes m (Some h) True = Some (NOERROR, Some (int (length ns)))"
proof -
  have "length ns \<le> 2147483648"
    using assms(1) subnodes_of_ok(3) [OF _ _ assms(2)] by (simp add: valid_handle_def)
  then have "fold (\<lambda>n i. u32 (i + 1)) ns 0 = int (length ns)" using count_fold [of 0 ns] by simp
  moreover have "loop_list (\<lambda>subnode i. Some (True, u32 (i + 1))) ns 0 =
      Some (fold (\<lambda>n i. u32 (i + 1)) ns 0)" by (rule loop_list_fold) simp
  ultimately show ?thesis
    using for_each_subnode_fold [OF assms(2), of "\<lambda>subnode i. Some (True, u32 (i + 1))" 0]
    by (simp add: fdt_get_count_of_subnodes_def)
qed

lemma cache_loop:
  "loop_list (\<lambda>n out. Some (\<not> int (length (out @ [g n])) \<ge> count, out @ [g n])) ns out =
     Some (out @ take (max 1 (nat (count - int (length out)))) (map g ns))"
proof (induction ns arbitrary: out)
  case (Cons n ns)
  show ?case
  proof (cases "count \<le> int (length out) + 1")
    case True
    then have "max 1 (nat (count - int (length out))) = 1" by simp
    with True show ?thesis by simp
  next
    case False
    then have "nat (count - int (length out)) = Suc (nat (count - int (length (out @ [g n]))))" by simp
    moreover have "Suc 0 \<le> nat (count - (1 + int (length out)))" using False by simp
    ultimately show ?thesis using False Cons.IH [of "out @ [g n]"] by (simp add: max_def)
  qed
qed simp

lemma cache_of_subnodes:
  assumes "subnodes_of m (blob h) (offset h) ns"
  shows "fdt_get_cache_of_subnodes m (Some h) True count =
    Some (NOERROR, map (\<lambda>n. \<lparr> blob = blob h, offset = n \<rparr>) (take (max 1 (nat count)) ns))"
  using for_each_subnode_fold [OF assms, of "\<lambda>n out. Some (\<not> int (length (out @ [\<lparr> blob = blob h, offset = n \<rparr>])) \<ge> count,
      out @ [\<lparr> blob = blob h, offset = n \<rparr>])" "[]"]
    cache_loop [where g = "\<lambda>n. \<lparr> blob = blob h, offset = n \<rparr>" and out = "[]"]
  by (simp add: fdt_get_cache_of_subnodes_def Let_def take_map)

subsection \<open>Sizes of the subnode names\<close>

definition has_name_len :: "mem \<Rightarrow> addr \<Rightarrow> int \<Rightarrow> int \<Rightarrow> bool" where
  "has_name_len m fdt n len \<longleftrightarrow> (\<exists>p. fdt_get_name m fdt n = Some (p, len) \<and> 0 \<le> len \<and> len \<le> INT_MAX)"

lemma size_loop:
  assumes "list_all2 (has_name_len m fdt) ns lens"
  shows "i + length ns \<le> length arr \<Longrightarrow> length arr \<le> nat count \<Longrightarrow> length arr \<le> 65535 \<Longrightarrow>
    loop_list (size_body m fdt count) ns (NOERROR, i, arr) =
      Some (NOERROR, i + length ns, take i arr @ map (\<lambda>l. l + 1) lens @ drop (i + length ns) arr)"
  using assms
proof (induction ns lens arbitrary: i arr rule: list_all2_induct)
  case (Cons n ns l lens)
  from Cons.hyps(1) obtain p where g: "fdt_get_name m fdt n = Some (p, l)" "0 \<le> l" "l \<le> INT_MAX"
    by (auto simp: has_name_len_def)
  from Cons.prems have i: "i < length arr" "\<not> int i \<ge> count" "(i + 1) mod 65536 = Suc i" by auto
  have "u32 (l + 1) = l + 1" using g by (intro u32_id) linarith+
  then have "loop_list (size_body m fdt count) (n # ns) (NOERROR, i, arr) =
      loop_list (size_body m fdt count) ns (NOERROR, Suc i, arr[i := l + 1])"
    using g i by (simp add: size_body_def)
  also have "\<dots> = Some (NOERROR, Suc i + length ns,
      take (Suc i) (arr[i := l + 1]) @ map (\<lambda>l. l + 1) lens @ drop (Suc i + length ns) (arr[i := l + 1]))"
    using Cons.prems by (intro Cons.IH) simp_all
  finally show ?case using i(1) by (simp add: take_Suc_conv_app_nth)
qed simp

lemma size_loop_overrun:
  assumes "list_all2 (has_name_len m fdt) ns lens"
  shows "length arr < i + length ns \<Longrightarrow> i \<le> length arr \<Longrightarrow> int (length arr) = count \<Longrightarrow> length arr < 65536 \<Longrightarrow>
    loop_list (size_body m fdt count) ns (r, i, arr) = None"
  using assms
proof (induction ns lens arbitrary: i arr r rule: list_all2_induct)
  case (Cons n ns l lens)
  from Cons.hyps(1) obtain p where g: "fdt_get_name m fdt n = Some (p, l)" "0 \<le> l"
    by (auto simp: has_name_len_def)
  show ?case
  proof (cases "i < length arr")
    case True
    with Cons.prems have i: "\<not> int i \<ge> count" "(i + 1) mod 65536 = Suc i" by auto
    have "loop_list (size_body m fdt count) ns (r, Suc i, arr[i := u32 (l + 1)]) = None"
      using Cons.prems True by (intro Cons.IH) simp_all
    with g True i show ?thesis by (simp add: size_body_def [of m fdt count n])
  next
    case False
    with g show ?thesis by (simp add: size_body_def)
  qed
qed simp

lemma size_of_subnode_names_unfold:
  assumes "subnodes_of m (blob h) (offset h) ns" and "count \<noteq> 0"
  shows "fdt_get_size_of_subnode_names m (Some h) (Some arr) count = do {
    (r, i, arr') \<leftarrow> loop_list (size_body m (blob h) count) ns (NOERROR, 0, arr);
    Some (r, Some arr') }"
  using assms(2) for_each_subnode_fold [OF assms(1), of "size_body m (blob h) count" "(NOERROR, 0, arr)"]
  by (simp add: fdt_get_size_of_subnode_names_def)

lemma size_of_subnode_names:
  assumes "subnodes_of m (blob h) (offset h) ns" and "list_all2 (has_name_len m (blob h)) ns lens"
    and "length ns \<le> length arr" and "int (length arr) = count" and "0 < count" and "count \<le> 65535"
  shows "fdt_get_size_of_subnode_names m (Some h) (Some arr) count =
    Some (NOERROR, Some (map (\<lambda>l. l + 1) lens @ drop (length ns) arr))"
  using assms(3-) size_loop [OF assms(2), of 0 arr count]
  by (simp add: size_of_subnode_names_unfold [OF assms(1)])

text \<open>With more subnodes than array elements the loop writes behind the array.\<close>

lemma size_of_subnode_names_overrun:
  assumes "subnodes_of m (blob h) (offset h) ns" and "list_all2 (has_name_len m (blob h)) ns lens"
    and "length arr < length ns" and "int (length arr) = count" and "0 < count" and "count \<le> 65535"
  shows "fdt_get_size_of_subnode_names m (Some h) (Some arr) count = None"
  using assms(3-) size_loop_overrun [OF assms(2), of arr 0 count NOERROR]
  by (simp add: size_of_subnode_names_unfold [OF assms(1)])

subsection \<open>Packed names\<close>

text \<open>A C string with its terminator, as the bytes in memory.\<close>

definition c_string_at :: "mem \<Rightarrow> addr \<Rightarrow> byte list \<Rightarrow> bool" where
  "c_string_at m p s \<longleftrightarrow> c_strlen m p = Some (int (length s)) \<and> rd_bytes m p (length s + 1) = Some (s @ [0])"

lemma rd_bytes_snoc: "rd_bytes m p (Suc n) = do { bs \<leftarrow> rd_bytes m p n; b \<leftarrow> m (p + int n); Some (bs @ [b]) }"
proof (induction n arbitrary: p)
  case (Suc n)
  show ?case
    by (subst rd_bytes.simps(2), subst Suc.IH) (simp add: add.assoc split: bind_split option.splits)
qed (simp split: bind_split option.splits)

lemma c_string_at_ex:
  assumes "str_end m p k"
  shows "\<exists>s. length s = k \<and> c_string_at m p s \<and> c_str m p = Some s"
proof -
  from c_str_ex [OF assms] obtain s where s: "c_str m p = Some s" by blast
  with c_strlen_str_end [OF assms] have bs: "rd_bytes m p k = Some s" by (simp add: c_str_def)
  moreover from assms have "m (p + int k) = Some 0" by (simp add: str_end_def)
  ultimately have "rd_bytes m p (k + 1) = Some (s @ [0])" by (simp add: rd_bytes_snoc del: rd_bytes.simps)
  with s rd_bytes_length [OF bs] c_strlen_str_end [OF assms] show ?thesis
    by (auto simp: c_string_at_def)
qed

lemma append_name_fits:
  assumes "c_string_at m p s" and "length s < 65535" and "length out + length s + 1 \<le> nat bsize"
    and "bsize < 4294967296"
  shows "append_name m p (int (length s)) bsize full (r, out) = Some (True, r, out @ s @ [0])"
proof -
  have "u32 (bsize - int (length out)) = bsize - int (length out)"
    using assms(3,4) by (intro u32_id) linarith+
  moreover have "u32 (int (length s) + 1) = int (length s) + 1"
    using assms(2) by (intro u32_id) linarith+
  moreover have "nat (int (length s) + 1) = length s + 1" by simp
  ultimately show ?thesis using assms
    by (auto simp: append_name_def Let_def c_string_at_def)
qed

lemma append_name_full:
  assumes "length s < 65535" and "nat bsize < length out + length s + 1" and "length out \<le> nat bsize"
    and "0 \<le> bsize" and "bsize < 4294967296"
  shows "append_name m p (int (length s)) bsize full (r, out) = Some (False, full, out)"
proof -
  have "u32 (bsize - int (length out)) = bsize - int (length out)"
    using assms by (intro u32_id) linarith+
  moreover have "u32 (int (length s) + 1) = int (length s) + 1"
    using assms(1) by (intro u32_id) linarith+
  ultimately show ?thesis using assms by (auto simp: append_name_def Let_def)
qed

text \<open>The property at \<open>p\<close> has a value and the name \<open>s\<close>.\<close>

definition named :: "mem \<Rightarrow> addr \<Rightarrow> int \<Rightarrow> byte list \<Rightarrow> bool" where
  "named m fdt p s \<longleftrightarrow> (\<exists>v np len. fdt_getprop_by_offset m fdt p = Some (v, np, len) \<and> v \<noteq> NULL \<and>
     0 \<le> len \<and> c_string_at m np s \<and> length s < 65535)"

definition packed :: "byte list list \<Rightarrow> byte list" where
  "packed ss = concat (map (\<lambda>s. s @ [0]) ss)"

lemma packed_simps [simp]: "packed [] = []" "packed (s # ss) = s @ 0 # packed ss"
  by (simp_all add: packed_def)

text \<open>The bodies of the two loops over property names.\<close>

lemma names_size_loop:
  assumes "list_all2 (named m fdt) ps ss"
  shows "k + length (packed ss) < 4294967296 \<Longrightarrow>
    loop_list (\<lambda>property (r, n). do {
       (fdtp, pname, len) \<leftarrow> fdt_getprop_by_offset m fdt property;
       if fdtp = NULL \<or> len < 0 then Some (False, len_error len, n)
       else do { l \<leftarrow> c_strlen m pname; Some (True, r, u32 (n + u32 (l + 1))) } }) ps (NOERROR, int k) =
    Some (NOERROR, int (k + length (packed ss)))"
  using assms
proof (induction ps ss arbitrary: k rule: list_all2_induct)
  case (Cons p ps s ss)
  from Cons.hyps(1) obtain v np len where g: "fdt_getprop_by_offset m fdt p = Some (v, np, len)"
    "v \<noteq> NULL" "0 \<le> len" "c_strlen m np = Some (int (length s))" "length s < 65535"
    by (auto simp: named_def c_string_at_def)
  have u: "u32 (int (length s) + 1) = int (length s) + 1" using g(5) by (intro u32_id) linarith+
  have "u32 (int k + (int (length s) + 1)) = int (k + length s + 1)"
    using Cons.prems by (subst u32_id) simp_all
  with g u Cons.IH [of "k + length s + 1"] Cons.prems show ?case by (simp add: add.commute)
qed simp

lemma names_loop:
  assumes "list_all2 (named m fdt) ps ss"
  shows "length out + length (packed ss) \<le> nat bsize \<Longrightarrow> bsize < 4294967296 \<Longrightarrow>
    loop_list (\<lambda>property (r, out). do {
       (fdtp, pname, len) \<leftarrow> fdt_getprop_by_offset m fdt property;
       if fdtp = NULL \<or> len < 0 then Some (False, len_error len, out)
       else do {
         l \<leftarrow> c_strlen m pname;
         append_name m pname (s32 l) bsize (QcPos TRUNCATED) (r, out) } }) ps (NOERROR, out) =
    Some (NOERROR, out @ packed ss)"
  using assms
proof (induction ps ss arbitrary: out rule: list_all2_induct)
  case (Cons p ps s ss)
  from Cons.hyps(1) obtain v np len where g: "fdt_getprop_by_offset m fdt p = Some (v, np, len)"
    "v \<noteq> NULL" "0 \<le> len" "c_string_at m np s" "length s < 65535"
    by (auto simp: named_def)
  have "s32 (int (length s)) = int (length s)" using g(5) by (intro s32_id) linarith+
  moreover have "append_name m np (int (length s)) bsize (QcPos TRUNCATED) (NOERROR, out) =
      Some (True, NOERROR, out @ s @ [0])"
    using Cons.prems by (intro append_name_fits g) simp_all
  ultimately show ?case using g Cons.IH [of "out @ s @ [0]"] Cons.prems
    by (simp add: c_string_at_def)
qed simp

lemma prop_names_size:
  assumes "props_of m (blob h) (offset h) ps" and "list_all2 (named m (blob h)) ps ss"
    and "length (packed ss) < 4294967296"
  shows "fdt_get_prop_names_size_of_node m (Some h) True = Some (NOERROR, Some (int (length (packed ss))))"
  using names_size_loop [OF assms(2), of 0] assms(3)
  by (simp add: fdt_get_prop_names_size_of_node_def for_each_property_fold [OF assms(1)])

lemma put_bytes_0: "put_bytes buf 0 out = out @ drop (length out) buf"
  by (simp add: put_bytes_def)

lemma packed_last: "ss \<noteq> [] \<Longrightarrow> (packed ss)[length (packed ss) - 1 := 0] = packed ss"
proof (induction ss)
  case (Cons s ss)
  show ?case
  proof (cases "ss = []")
    case False
    then obtain t ts where "ss = t # ts" by (cases ss) auto
    then have "0 < length (packed ss)" by simp
    with Cons.IH [OF False] False show ?thesis
      by (auto simp: list_update_append list_update.simps split: nat.split)
  qed (simp add: list_update_append)
qed simp

lemma prop_names:
  assumes "props_of m (blob h) (offset h) ps" and "list_all2 (named m (blob h)) ps ss"
    and "length (packed ss) < 4294967296" and "length buf = length (packed ss)"
  shows "fdt_get_prop_names_of_node m (Some h) (Some buf) (int (length (packed ss))) =
    Some (NOERROR, Some (packed ss))"
proof -
  have "0 < length (packed ss) \<Longrightarrow> (packed ss)[length (packed ss) - 1 := 0] = packed ss"
    by (rule packed_last) auto
  moreover have "nat (int (length (packed ss)) - 1) = length (packed ss) - 1" by linarith
  ultimately show ?thesis
    using names_loop [OF assms(2), of "[]" "int (length (packed ss))"] assms(3,4)
    by (auto simp: fdt_get_prop_names_of_node_def for_each_property_fold [OF assms(1)] put_bytes_0 Let_def)
qed

subsection \<open>Packed values\<close>

lemma those_total:
  assumes "\<And>x. x \<in> set xs \<Longrightarrow> \<exists>y. f x = Some y"
  shows "\<exists>ys. those (map f xs) = Some ys \<and> length ys = length xs"
  using assms
proof (induction xs)
  case (Cons x xs)
  from Cons.prems [of x] obtain y where "f x = Some y" by auto
  moreover from Cons obtain ys where "those (map f xs) = Some ys" "length ys = length xs" by auto
  ultimately show ?case by simp
qed simp

lemma length_le_bytes [simp]: "length (le_bytes w x) = w"
  by (simp add: le_bytes_def)

lemma length_concat_le_bytes: "length (concat (map (le_bytes w) vs)) = w * length vs"
  by (induction vs) auto

lemma conv_ints_total:
  assumes "0 < w" and "mapped m p len" and "0 \<le> len"
    and ld: "\<And>q. mapped m q (int w) \<Longrightarrow> \<exists>v. ld m q = Some v"
  shows "\<exists>bs. (do { vs \<leftarrow> those (map (\<lambda>j. ld m (p + int w * j)) [0..len div int w - 1]);
      Some (Some (concat (map (le_bytes w) vs))) }) = Some (Some bs) \<and> int (length bs) \<le> len"
proof -
  have "\<exists>v. ld m (p + int w * j) = Some v" if "j \<in> set [0..len div int w - 1]" for j
  proof (rule ld)
    from that have j: "0 \<le> j" "j + 1 \<le> len div int w" by auto
    then have "int w * (j + 1) \<le> int w * (len div int w)" using assms(1) by (intro mult_left_mono) simp_all
    also have "\<dots> \<le> len" using assms(1) by (simp add: minus_mod_eq_mult_div [symmetric])
    finally have "int w * j + int w \<le> len" by (simp add: distrib_left)
    then show "mapped m (p + int w * j) (int w)"
      using j by (intro mapped_sub [OF assms(2)]) simp_all
  qed
  from those_total [of "[0..len div int w - 1]" "\<lambda>j. ld m (p + int w * j)", OF this] obtain vs where
    vs: "those (map (\<lambda>j. ld m (p + int w * j)) [0..len div int w - 1]) = Some vs"
    "length vs = length [0..len div int w - 1]" by blast
  have "int (length (concat (map (le_bytes w) vs))) = int w * (len div int w)"
    using vs(2) assms(1,3) by (simp add: length_concat_le_bytes pos_imp_zdiv_nonneg_iff)
  also have "\<dots> \<le> len" using assms(1) by (simp add: minus_mod_eq_mult_div [symmetric])
  finally show ?thesis using vs(1) by simp
qed

lemma conv_prop_total:
  assumes "mapped m p len" and "0 \<le> len"
  shows "\<exists>c. conv_prop m fmt p len = Some c \<and> (\<forall>bs. c = Some bs \<longrightarrow> int (length bs) \<le> len)"
proof -
  from assms have "mapped m p (int (nat len))" by simp
  from rd_bytes_ex [OF this] obtain bs where bs: "rd_bytes m p (nat len) = Some bs" by blast
  note c2 = conv_ints_total [of 2 m p len fdt16_ld, OF _ assms, simplified, OF fdt16_ld_ex]
  note c4 = conv_ints_total [of 4 m p len fdt32_ld, OF _ assms, simplified, OF fdt32_ld_ex]
  note c8 = conv_ints_total [of 8 m p len fdt64_ld, OF _ assms, simplified, OF fdt64_ld_ex]
  show ?thesis
    using bs rd_bytes_length [OF bs] assms(2) c2 c4 c8 unfolding conv_prop_def by auto
qed

lemma values_step_total:
  assumes v: "valid_handle m h" and p: "c_int property" and bsize: "bsize < 4294967296"
    and Inv: "i \<le> length fmt" "0 \<le> count" "count \<le> bsize" "int (length buf) = bsize"
  shows "\<exists>go r' i' count' buf'. values_step m h fmt bsize property (r, i, count, buf) =
      Some (go, r', i', count', buf') \<and>
      i' \<le> length fmt \<and> 0 \<le> count' \<and> count' \<le> bsize \<and> int (length buf') = bsize"
proof -
  have "\<exists>c. format_at fmt i = Some c \<and> (c \<noteq> 0 \<longrightarrow> i < length fmt)"
    using Inv(1) by (auto simp: format_at_def)
  then obtain c where c: "format_at fmt i = Some c" "c \<noteq> 0 \<Longrightarrow> i < length fmt" by blast
  from v p fdt_getprop_by_offset_ok [of m "blob h" property] obtain w np len where
    g: "fdt_getprop_by_offset m (blob h) property = Some (w, np, len)"
    and ok: "w \<noteq> NULL \<Longrightarrow> 0 \<le> len \<and> len \<le> INT_MAX \<and> in_blob m (blob h) w len"
    by (auto simp: valid_handle_def)
  show ?thesis
  proof (cases "c = 105 \<or> c = 73 \<or> w = NULL \<or> len \<le> 0 \<or> count \<ge> bsize \<or> len > u32 (bsize - count)")
    case True
    with c g Inv show ?thesis by (auto simp: values_step_def)
  next
    case False
    with ok have inb: "in_blob m (blob h) w len" by simp
    with v have mp: "mapped m w len" by (auto simp: valid_handle_def intro: in_blob_mapped)
    have fit: "count + len \<le> bsize" using False bsize Inv by (auto simp: u32_id)
    have cnt: "u32 (count + len) = count + len" using fit False Inv bsize by (intro u32_id) linarith+
    from conv_prop_total [OF mp, of c] False obtain cv where
      cv: "conv_prop m c w len = Some cv" "\<And>bs. cv = Some bs \<Longrightarrow> int (length bs) \<le> len" by auto
    show ?thesis
    proof (cases cv)
      case None
      with False c g cv Inv show ?thesis by (auto simp: values_step_def)
    next
      case (Some bs)
      have "c \<noteq> 0"
        using cv(1) Some by (auto simp: conv_prop_def)
      moreover have "int (length (put_bytes buf (nat count) bs)) = bsize"
        using cv(2) [OF Some] fit Inv by (auto simp: put_bytes_def min_def)
      ultimately show ?thesis using False c g cv(1) Some Inv fit cnt
        by (auto simp: values_step_def)
    qed
  qed
qed

lemma prop_values_total:
  assumes v: "valid_handle m h" and buf: "int (length buf) = bsize" "bsize < 4294967296"
  shows "\<exists>r buf'. fdt_get_prop_values_of_node m (Some h) (Some fmt) (Some buf) bsize =
      Some (r, Some buf') \<and> length buf' = length buf \<and>
      (r \<noteq> NOERROR \<longrightarrow> buf' = replicate (length buf) 0)"
proof -
  from v have vb: "valid_blob m (blob h)" "c_int (offset h)" by (simp_all add: valid_handle_def)
  from props_of_ex [OF vb] obtain ps where
    ps: "props_of m (blob h) (offset h) ps" "\<forall>p\<in>set ps. c_int p" by blast
  let ?Inv = "\<lambda>(r :: rc, i, count, buf' :: byte list).
    i \<le> length fmt \<and> 0 \<le> count \<and> count \<le> bsize \<and> int (length buf') = bsize"
  have "\<exists>s'. loop_list (values_step m h fmt bsize) ps (NOERROR, 0, 0, buf) = Some s' \<and> ?Inv s'"
  proof (rule loop_list_total)
    show "\<exists>go s'. values_step m h fmt bsize p s = Some (go, s') \<and> ?Inv s'"
      if "p \<in> set ps" "?Inv s" for p s
      using that ps(2) values_step_total [OF v _ buf(2)] by (cases s) fastforce
  qed (use buf in auto)
  then obtain r i count buf' where l: "loop_list (values_step m h fmt bsize) ps (NOERROR, 0, 0, buf) =
      Some (r, i, count, buf')" "int (length buf') = bsize" by auto
  have "bsize \<le> 0 \<Longrightarrow> buf' = []" using l(2) by auto
  with l buf show ?thesis
    by (auto simp: fdt_get_prop_values_of_node_def for_each_property_fold [OF ps(1)])
qed

end
