(* ===== verification/Ext_Blob.thy ===== *)
theory Ext_Blob
  imports Ext_Node
begin

text \<open>
  Registration of blobs (\<open>fdt_set_blob_handle\<close> of \<open>DTBExtnLib_blob.c\<close>), in the build without
  \<open>ENABLE_HASH_FOR_DTB\<close>, where \<open>CreatDtbHashTable\<close> does nothing and succeeds.
\<close>

definition CreatDtbHashTable :: "int \<Rightarrow> addr \<Rightarrow> rc" where
  "CreatDtbHashTable blob_id b = NOERROR"

text \<open>
  The three words of \<open>config\<close> overwrite \<open>dtb_config\<close> (\<open>sizeof (Config)\<close> is 12); the fields
  are signed. A handle with an error keeps the configuration.
\<close>

definition read_config :: "mem \<Rightarrow> ext_state \<Rightarrow> addr \<Rightarrow> config option" where
  "read_config m st b = do {
     (r, node) \<leftarrow> fdt_get_node_handle m st (Some \<lparr> blob = 0, offset = 0 \<rparr>) b (Some (chars ''/sw/boot''));
     if r = NOERROR then do {
       (r2, vals) \<leftarrow> fdt_get_uint32_prop_list m node (Some (chars ''config'')) True 12;
       Some (case vals of
           Some [c, t, v] \<Rightarrow> \<lparr> client = s32 c, trace = s32 t, verbose = s32 v \<rparr>
         | _ \<Rightarrow> dtb_config st) }
     else Some (dtb_config st) }"

text \<open>
  The code of the check is overwritten by the code of \<open>CreatDtbHashTable\<close>: a blob that fails
  the check is not registered, but the function still returns success.
\<close>

definition fdt_set_blob_handle :: "mem \<Rightarrow> ext_state \<Rightarrow> addr \<Rightarrow> int \<Rightarrow> int \<Rightarrow> (rc \<times> ext_state) option" where
  "fdt_set_blob_handle m st b bsize blob_id =
     (if b = NULL then Some (Qc NULLPTR, st)
      else if \<not> blobid_ok st blob_id then Some (Qc BLOBID, st)
      else do {
        r \<leftarrow> fdt_check_for_valid_blob m b bsize;
        if r = NOERROR then do {
          cfg \<leftarrow> read_config m st b;
          Some (CreatDtbHashTable blob_id b,
                st \<lparr> dtb_config := cfg, dtb_blob := (dtb_blob st)[nat blob_id := b] \<rparr>) }
        else Some (CreatDtbHashTable blob_id b, st) })"

text \<open>
  The invariant of the table of blobs: every entry is NULL or a valid blob.
\<close>

definition blobs_ok :: "mem \<Rightarrow> ext_state \<Rightarrow> bool" where
  "blobs_ok m st \<longleftrightarrow> (\<forall>b\<in>set (dtb_blob st). b = NULL \<or> valid_blob m b)"

lemma fdt_get_node_handle_ok:
  assumes "valid_blob m b"
  shows "\<exists>r h'. fdt_get_node_handle m st (Some h) b (Some name) = Some (r, Some h') \<and>
    (r = NOERROR \<longrightarrow> valid_handle m h' \<and> blob h' = b \<and> 0 \<le> offset h' \<and>
       fdt_path_offset m b name = Some (offset h'))"
proof -
  have "b \<noteq> NULL" using assms by (auto simp: valid_blob_def)
  moreover from fdt_path_offset_safe [OF assms] obtain off
    where "fdt_path_offset m b name = Some off" "c_int off" by blast
  ultimately show ?thesis using assms by (auto simp: fdt_get_node_handle_def valid_handle_def)
qed

text \<open>Registering keeps the invariant, and a later lookup of the id returns the blob.\<close>

lemma fdt_set_blob_handle_blobs:
  assumes "fdt_set_blob_handle m st b bsize blob_id = Some (r, st')"
    and "mapped m b bsize" and "0 \<le> b" and "blobs_ok m st"
  shows "blobs_ok m st'" and "length (dtb_blob st') = length (dtb_blob st)"
proof -
  consider "st' = st" | "fdt_check_for_valid_blob m b bsize = Some NOERROR" "b \<noteq> NULL"
      "dtb_blob st' = (dtb_blob st)[nat blob_id := b]"
    using assms(1) by (auto simp: fdt_set_blob_handle_def bind_eq_Some_conv split: if_splits)
  then have "blobs_ok m st' \<and> length (dtb_blob st') = length (dtb_blob st)"
  proof cases
    case 2
    with assms(3) fdt_check_for_valid_blob_sound(1) [OF 2(1) assms(2)] have "valid_blob m b" by simp
    with 2 assms(4) show ?thesis
      by (auto simp: blobs_ok_def dest!: subsetD [OF set_update_subset_insert])
  qed (use assms(4) in simp)
  then show "blobs_ok m st'" "length (dtb_blob st') = length (dtb_blob st)" by simp_all
qed

lemma fdt_set_then_get:
  assumes "fdt_set_blob_handle m st b bsize blob_id = Some (r, st')"
    and "fdt_check_for_valid_blob m b bsize = Some NOERROR" and "b \<noteq> NULL" and "blobid_ok st blob_id"
  shows "fdt_get_blob_handle st' True blob_id = (NOERROR, Some b)"
  using assms
  by (auto simp: fdt_set_blob_handle_def fdt_get_blob_handle_def blobid_ok_def bind_eq_Some_conv
      nat_less_iff)

end
