(* ===== verification/Sample.thy ===== *)
theory Sample
  imports Fdt_Safe
begin

text \<open>
  A concrete image for the witnesses: five blobs at the address 4096, each with a
  \<open>/board-id\<close> node. The first is a base DTB with a \<open>/soc\<close> node, then come two SOC overlays
  (the second for chip 7, version 1.1) and two platform overlays (the first for chip 7 and
  board 2). The memory is a search tree over blocks of 16 bytes, so that reads evaluate fast;
  40 zero bytes follow the image.
\<close>

definition base_bytes :: "addr \<Rightarrow> byte" where
  "base_bytes a =
    (if a < 4224 then (if a < 4160 then (if a < 4128 then [208, 13, 254, 237, 0, 0, 1, 16, 0, 0, 0, 56, 0, 0, 0, 228, 0, 0, 0, 40, 0, 0, 0, 17, 0, 0, 0, 16, 0, 0, 0, 0] ! nat (a - 4096)
       else [0, 0, 0, 38, 0, 0, 0, 172, 0, 0, 0, 0, 0, 0, 0, 0, 0, 0, 0, 0, 0, 0, 0, 0, 0, 0, 0, 1, 0, 0, 0, 0] ! nat (a - 4128))
      else if a < 4192 then [0, 0, 0, 1, 98, 111, 97, 114, 100, 45, 105, 100, 0, 0, 0, 0, 0, 0, 0, 3, 0, 0, 0, 8, 0, 0, 0, 0, 0, 31, 0, 0] ! nat (a - 4160)
      else [0, 1, 0, 0, 0, 0, 0, 3, 0, 0, 0, 8, 0, 0, 0, 10, 97, 0, 115, 100, 120, 53, 53, 0, 0, 0, 0, 2, 0, 0, 0, 1] ! nat (a - 4192))
     else if a < 4288 then (if a < 4256 then [115, 111, 99, 0, 0, 0, 0, 3, 0, 0, 0, 8, 0, 0, 0, 20, 0, 0, 0, 1, 0, 2, 0, 0, 0, 0, 0, 3, 0, 0, 0, 4] ! nat (a - 4224)
      else [0, 0, 0, 24, 0, 0, 0, 3, 0, 0, 0, 3, 0, 0, 0, 3, 0, 0, 0, 32, 120, 49, 0, 0, 0, 0, 0, 1, 99, 112, 117, 48] ! nat (a - 4256))
     else if a < 4320 then [0, 0, 0, 0, 0, 0, 0, 2, 0, 0, 0, 1, 99, 112, 117, 49, 0, 0, 0, 0, 0, 0, 0, 2, 0, 0, 0, 2, 0, 0, 0, 2] ! nat (a - 4288)
     else if a < 4352 then [0, 0, 0, 9, 99, 104, 105, 112, 45, 105, 110, 102, 111, 0, 112, 114, 111, 99, 45, 110, 97, 109, 101, 0, 114, 101, 103, 0, 112, 104, 97, 110] ! nat (a - 4320)
     else [100, 108, 101, 0, 109, 111, 100, 101, 108, 0, 0, 0, 0, 0, 0, 0] ! nat (a - 4352))"

definition soc1_bytes :: "addr \<Rightarrow> byte" where
  "soc1_bytes a =
    (if a < 4432 then (if a < 4400 then [208, 13, 254, 237, 0, 0, 0, 152, 0, 0, 0, 56, 0, 0, 0, 124, 0, 0, 0, 40, 0, 0, 0, 17, 0, 0, 0, 16, 0, 0, 0, 0] ! nat (a - 4368)
      else [0, 0, 0, 21, 0, 0, 0, 68, 0, 0, 0, 0, 0, 0, 0, 0, 0, 0, 0, 0, 0, 0, 0, 0, 0, 0, 0, 1, 0, 0, 0, 0] ! nat (a - 4400))
     else if a < 4464 then [0, 0, 0, 1, 98, 111, 97, 114, 100, 45, 105, 100, 0, 0, 0, 0, 0, 0, 0, 3, 0, 0, 0, 0, 0, 0, 0, 0, 0, 0, 0, 3] ! nat (a - 4432)
     else if a < 4496 then [0, 0, 0, 8, 0, 0, 0, 11, 0, 31, 0, 0, 0, 1, 0, 0, 0, 0, 0, 2, 0, 0, 0, 2, 0, 0, 0, 9, 105, 115, 45, 111] ! nat (a - 4464)
     else [118, 101, 114, 108, 97, 121, 0, 99, 104, 105, 112, 45, 105, 110, 102, 111, 0, 0, 0, 0, 0, 0, 0, 0] ! nat (a - 4496))"

definition soc2_bytes :: "addr \<Rightarrow> byte" where
  "soc2_bytes a =
    (if a < 4584 then (if a < 4552 then [208, 13, 254, 237, 0, 0, 0, 160, 0, 0, 0, 56, 0, 0, 0, 132, 0, 0, 0, 40, 0, 0, 0, 17, 0, 0, 0, 16, 0, 0, 0, 0] ! nat (a - 4520)
      else [0, 0, 0, 21, 0, 0, 0, 76, 0, 0, 0, 0, 0, 0, 0, 0, 0, 0, 0, 0, 0, 0, 0, 0, 0, 0, 0, 1, 0, 0, 0, 0] ! nat (a - 4552))
     else if a < 4616 then [0, 0, 0, 1, 98, 111, 97, 114, 100, 45, 105, 100, 0, 0, 0, 0, 0, 0, 0, 3, 0, 0, 0, 0, 0, 0, 0, 0, 0, 0, 0, 3] ! nat (a - 4584)
     else if a < 4648 then [0, 0, 0, 16, 0, 0, 0, 11, 0, 32, 0, 0, 0, 1, 0, 0, 0, 31, 0, 7, 0, 1, 0, 1, 0, 0, 0, 2, 0, 0, 0, 2] ! nat (a - 4616)
     else [0, 0, 0, 9, 105, 115, 45, 111, 118, 101, 114, 108, 97, 121, 0, 99, 104, 105, 112, 45, 105, 110, 102, 111, 0, 0, 0, 0, 0, 0, 0, 0] ! nat (a - 4648))"

definition plat1_bytes :: "addr \<Rightarrow> byte" where
  "plat1_bytes a =
    (if a < 4776 then (if a < 4712 then [208, 13, 254, 237, 0, 0, 0, 200, 0, 0, 0, 56, 0, 0, 0, 160, 0, 0, 0, 40, 0, 0, 0, 17, 0, 0, 0, 16, 0, 0, 0, 0] ! nat (a - 4680)
      else if a < 4744 then [0, 0, 0, 40, 0, 0, 0, 104, 0, 0, 0, 0, 0, 0, 0, 0, 0, 0, 0, 0, 0, 0, 0, 0, 0, 0, 0, 1, 0, 0, 0, 0] ! nat (a - 4712)
      else [0, 0, 0, 1, 98, 111, 97, 114, 100, 45, 105, 100, 0, 0, 0, 0, 0, 0, 0, 3, 0, 0, 0, 0, 0, 0, 0, 0, 0, 0, 0, 3] ! nat (a - 4744))
     else if a < 4840 then (if a < 4808 then [0, 0, 0, 8, 0, 0, 0, 11, 0, 31, 0, 7, 0, 1, 0, 0, 0, 0, 0, 3, 0, 0, 0, 4, 0, 0, 0, 21, 8, 2, 1, 0] ! nat (a - 4776)
      else [0, 0, 0, 3, 0, 0, 0, 8, 0, 0, 0, 32, 0, 0, 0, 4, 0, 0, 0, 5, 0, 0, 0, 2, 0, 0, 0, 2, 0, 0, 0, 9] ! nat (a - 4808))
     else if a < 4872 then [105, 115, 45, 111, 118, 101, 114, 108, 97, 121, 0, 99, 104, 105, 112, 45, 105, 110, 102, 111, 0, 98, 111, 97, 114, 100, 45, 105, 110, 102, 111, 0] ! nat (a - 4840)
     else [111, 101, 109, 45, 118, 97, 114, 0] ! nat (a - 4872))"

definition plat2_bytes :: "addr \<Rightarrow> byte" where
  "plat2_bytes a =
    (if a < 4976 then (if a < 4912 then [208, 13, 254, 237, 0, 0, 0, 176, 0, 0, 0, 56, 0, 0, 0, 140, 0, 0, 0, 40, 0, 0, 0, 17, 0, 0, 0, 16, 0, 0, 0, 0] ! nat (a - 4880)
      else if a < 4944 then [0, 0, 0, 32, 0, 0, 0, 84, 0, 0, 0, 0, 0, 0, 0, 0, 0, 0, 0, 0, 0, 0, 0, 0, 0, 0, 0, 1, 0, 0, 0, 0] ! nat (a - 4912)
      else [0, 0, 0, 1, 98, 111, 97, 114, 100, 45, 105, 100, 0, 0, 0, 0, 0, 0, 0, 3, 0, 0, 0, 0, 0, 0, 0, 0, 0, 0, 0, 3] ! nat (a - 4944))
     else if a < 5008 then [0, 0, 0, 8, 0, 0, 0, 11, 0, 31, 0, 0, 0, 1, 0, 0, 0, 0, 0, 3, 0, 0, 0, 4, 0, 0, 0, 21, 8, 0, 0, 0] ! nat (a - 4976)
     else if a < 5040 then [0, 0, 0, 2, 0, 0, 0, 2, 0, 0, 0, 9, 105, 115, 45, 111, 118, 101, 114, 108, 97, 121, 0, 99, 104, 105, 112, 45, 105, 110, 102, 111] ! nat (a - 5008)
     else [0, 98, 111, 97, 114, 100, 45, 105, 110, 102, 111, 0, 0, 0, 0, 0] ! nat (a - 5040))"

definition sample_mem :: mem where
  "sample_mem a =
     (if a < 4096 then None
      else if a < 4368 then Some (base_bytes a)
      else if a < 4520 then Some (soc1_bytes a)
      else if a < 4680 then Some (soc2_bytes a)
      else if a < 4880 then Some (plat1_bytes a)
      else if a < 5056 then Some (plat2_bytes a)
      else if a < 5096 then Some 0 else None)"

abbreviation (input) sample_base :: addr where "sample_base \<equiv> 4096"
abbreviation (input) sample_soc1 :: addr where "sample_soc1 \<equiv> 4368"
abbreviation (input) sample_soc2 :: addr where "sample_soc2 \<equiv> 4520"
abbreviation (input) sample_plat1 :: addr where "sample_plat1 \<equiv> 4680"
abbreviation (input) sample_plat2 :: addr where "sample_plat2 \<equiv> 4880"

lemma sample_mapped: "mapped sample_mem 4096 1000"
  by (simp add: mapped_def sample_mem_def)

lemma sample_sizes:
  "fdt_totalsize sample_mem sample_base = Some 272" "fdt_totalsize sample_mem sample_soc1 = Some 152"
  "fdt_totalsize sample_mem sample_soc2 = Some 160" "fdt_totalsize sample_mem sample_plat1 = Some 200"
  "fdt_totalsize sample_mem sample_plat2 = Some 176"
  by code_simp+

lemma sample_headers:
  "fdt_check_header sample_mem sample_base = Some 0" "fdt_check_header sample_mem sample_soc1 = Some 0"
  "fdt_check_header sample_mem sample_soc2 = Some 0" "fdt_check_header sample_mem sample_plat1 = Some 0"
  "fdt_check_header sample_mem sample_plat2 = Some 0"
  by code_simp+

lemma sample_valid:
  "valid_blob sample_mem sample_base" "valid_blob sample_mem sample_soc1"
  "valid_blob sample_mem sample_soc2" "valid_blob sample_mem sample_plat1"
  "valid_blob sample_mem sample_plat2"
  unfolding valid_blob_def by (auto simp: sample_sizes sample_headers intro: mapped_sub [OF sample_mapped])

end
