(* ===== verification/Ext_Props.thy ===== *)
theory Ext_Props
  imports Ext_Blob Sample
begin

text \<open>
  The properties of libfdt's readers and of DTBExtnLib, over the definitions of the component
  theories. A witness applies its property to the sample image.
\<close>

text \<open>The handle of the node \<open>/soc\<close> of the first sample blob and facts the witnesses share.\<close>

definition empty_state :: ext_state where
  "empty_state = \<lparr> dtb_blob = [0, 0], dtb_config = \<lparr> client = 0, trace = 0, verbose = 0 \<rparr>, default_blob_id = 0 \<rparr>"

abbreviation (input) soc_node :: fdt_node_handle where
  "soc_node \<equiv> \<lparr> blob = sample_base, offset = 68 \<rparr>"

lemma soc_node_valid: "valid_handle sample_mem soc_node"
  by (simp add: valid_handle_def sample_valid c_int_def)

lemma soc_reg: "prop_bytes sample_mem soc_node (chars ''reg'') = Some [0, 0, 0, 1, 0, 2, 0, 0]"
  by code_simp

text \<open>A walk that evaluates.\<close>

lemma visits_stop_iff: "p < 0 \<Longrightarrow> visits nxt p qs = (qs = [])"
  by (auto intro: visits.stop elim: visits.cases)

lemma soc_subnodes: "subnodes_of sample_mem sample_base 68 [128, 144]"
proof -
  have "fdt_first_subnode sample_mem sample_base 68 = Some 128"
    "fdt_next_subnode sample_mem sample_base 128 = Some 144"
    "fdt_next_subnode sample_mem sample_base 144 = Some (- 1)" by code_simp+
  then show ?thesis
    unfolding subnodes_of_def by (auto intro!: visits.step visits.stop)
qed

lemma soc_props: "props_of sample_mem sample_base 68 [76, 96, 112]"
proof -
  have "fdt_first_property_offset sample_mem sample_base 68 = Some 76"
    "fdt_next_property_offset sample_mem sample_base 76 = Some 96"
    "fdt_next_property_offset sample_mem sample_base 96 = Some 112"
    "fdt_next_property_offset sample_mem sample_base 112 = Some (- 1)" by code_simp+
  then show ?thesis
    unfolding props_of_def by (auto intro!: visits.step visits.stop)
qed

section \<open>The structure block\<close>

text \<open>
  C30: in a valid blob the read of the tag at any \<open>int\<close> offset is defined, and a tag other than
  \<open>FDT_END\<close> moves the offset forward or ends the walk with an error. A property that is passed
  without error has its header and its value inside the blob, with a length that fits an \<open>int\<close>,
  and the name of a node that is passed ends inside the blob.
\<close>

theorem next_tag_progress:
  assumes "valid_blob m fdt" and "c_int off"
  shows "\<exists>tag nx os. fdt_next_tag m fdt off = Some (tag, nx) \<and> c_int nx \<and> fdt_off_dt_struct m fdt = Some os \<and>
    (tag \<noteq> FDT_END \<longrightarrow> off < nx \<or> nx < 0) \<and>
    (tag = FDT_PROP \<and> 0 \<le> nx \<longrightarrow> (\<exists>len. prop_at m fdt off (fdt + os + off) len)) \<and>
    (tag = FDT_BEGIN_NODE \<longrightarrow> (\<exists>k. str_end m (fdt + os + off + 4) k \<and> in_blob m fdt (fdt + os + off + 4) (int k + 1)))"
proof -
  from assms(1) obtain os where os: "fdt_off_dt_struct m fdt = Some os" by (rule valid_blob_header) blast
  from fdt_next_tag_safe [OF assms] obtain tag nx where t: "fdt_next_tag m fdt off = Some (tag, nx)"
    by fastforce
  with fdt_next_tag_forward [OF t] fdt_next_tag_c_int [OF t] os next_tag_prop_at [OF assms(1) _ _ os]
    fdt_next_tag_node [OF assms(1) _ os] show ?thesis by auto
qed

theorem next_tag_progress_witness:
  "\<exists>len. prop_at sample_mem sample_base 76 4228 len"
proof -
  have "fdt_next_tag sample_mem sample_base 76 = Some (FDT_PROP, 96)" by code_simp
  moreover have "fdt_off_dt_struct sample_mem sample_base = Some 56" by code_simp
  ultimately show ?thesis using next_tag_progress [OF sample_valid(1), of 76] by (auto simp: c_int_def)
qed

text \<open>
  C4: in a valid blob the lookup of any path and then of any property of the node it found is
  defined, and the value is NULL or lies inside the blob.
\<close>

theorem path_then_property_safe:
  assumes "valid_blob m b"
  shows "\<exists>r h'. fdt_get_node_handle m st (Some h) b (Some path) = Some (r, Some h') \<and>
    (r = NOERROR \<longrightarrow> (\<forall>name. \<exists>p len. fdt_getprop m (blob h') (offset h') name = Some (p, len) \<and>
       (p \<noteq> NULL \<longrightarrow> 0 \<le> len \<and> len \<le> INT_MAX \<and> in_blob m b p len)))"
proof -
  from fdt_get_node_handle_ok [OF assms, of st h path] obtain r h' where
    g: "fdt_get_node_handle m st (Some h) b (Some path) = Some (r, Some h')"
    and ok: "r = NOERROR \<Longrightarrow> valid_handle m h' \<and> blob h' = b" by blast
  have "\<exists>p len. fdt_getprop m (blob h') (offset h') name = Some (p, len) \<and>
       (p \<noteq> NULL \<longrightarrow> 0 \<le> len \<and> len \<le> INT_MAX \<and> in_blob m b p len)" if "r = NOERROR" for name
    using ok [OF that] fdt_getprop_ok [of m "blob h'" "offset h'" name] by (auto simp: valid_handle_def)
  with g show ?thesis by blast
qed

theorem path_then_property_safe_witness:
  "\<exists>r h'. fdt_get_node_handle sample_mem empty_state (Some soc_node) sample_base (Some (chars ''/soc'')) =
      Some (r, Some h') \<and>
    (r = NOERROR \<longrightarrow> (\<forall>name. \<exists>p len. fdt_getprop sample_mem (blob h') (offset h') name = Some (p, len) \<and>
       (p \<noteq> NULL \<longrightarrow> 0 \<le> len \<and> len \<le> INT_MAX \<and> in_blob sample_mem sample_base p len)))"
  by (rule path_then_property_safe [OF sample_valid(1)])

section \<open>Registered blobs\<close>

text \<open>
  C6: for a mapped buffer with a version 17 header \<open>fdt_check_for_valid_blob\<close> accepts exactly
  the valid blobs that fit into the buffer.
\<close>

theorem check_for_valid_blob_iff:
  assumes "mapped m b bsize" and "0 < b" and "fdt_version m b = Some ver" and "17 \<le> ver"
  shows "fdt_check_for_valid_blob m b bsize = Some NOERROR \<longleftrightarrow>
    valid_blob m b \<and> (\<exists>n. fdt_totalsize m b = Some n \<and> n \<le> bsize)"
  using assms fdt_check_for_valid_blob_sound [OF _ assms(1,2)]
    fdt_check_for_valid_blob_complete [OF _ _ _ assms(3,4)] by blast

theorem check_for_valid_blob_iff_witness:
  "fdt_check_for_valid_blob sample_mem sample_base 300 = Some NOERROR \<and>
   fdt_check_for_valid_blob sample_mem sample_base 100 \<noteq> Some NOERROR"
proof -
  have v: "fdt_version sample_mem sample_base = Some 17" by code_simp
  have m: "mapped sample_mem sample_base 300" "mapped sample_mem sample_base 100"
    by (auto intro: mapped_sub [OF sample_mapped])
  from check_for_valid_blob_iff [OF m(1) _ v] check_for_valid_blob_iff [OF m(2) _ v]
  show ?thesis by (simp add: sample_valid sample_sizes)
qed

text \<open>
  C28: registering a blob, with whatever result, keeps the invariant that every entry of the
  table is empty or a valid blob, and keeps the size of the table; a later lookup of any id
  gives a valid blob or an error.
\<close>

theorem blob_table_invariant:
  assumes "fdt_set_blob_handle m st b bsize blob_id = Some (r, st')"
    and "mapped m b bsize" and "0 \<le> b" and "blobs_ok m st"
  shows "blobs_ok m st' \<and> length (dtb_blob st') = length (dtb_blob st) \<and>
    (case fdt_get_blob_handle st' True i of
       (r', Some b') \<Rightarrow> r' = NOERROR \<and> valid_blob m b' | (r', None) \<Rightarrow> r' \<noteq> NOERROR)"
proof -
  note inv = fdt_set_blob_handle_blobs [OF assms]
  have "valid_blob m (dtb_blob st' ! nat i)" if "blobid_ok st' i" "dtb_blob st' ! nat i \<noteq> NULL"
    using inv(1) that by (auto simp: blobs_ok_def blobid_ok_def nat_less_iff)
  with inv show ?thesis by (auto simp: fdt_get_blob_handle_def)
qed

definition sample_state :: ext_state where
  "sample_state = empty_state \<lparr> dtb_blob := [0, sample_base] \<rparr>"

lemma sample_set: "fdt_set_blob_handle sample_mem empty_state sample_base 300 1 = Some (NOERROR, sample_state)"
  by code_simp

theorem blob_table_invariant_witness:
  "blobs_ok sample_mem sample_state \<and> length (dtb_blob sample_state) = 2 \<and>
    (case fdt_get_blob_handle sample_state True 1 of
       (r', Some b') \<Rightarrow> r' = NOERROR \<and> valid_blob sample_mem b' | (r', None) \<Rightarrow> r' \<noteq> NOERROR)"
proof -
  have "mapped sample_mem sample_base 300" by (auto intro: mapped_sub [OF sample_mapped])
  moreover have "blobs_ok sample_mem empty_state" by (simp add: blobs_ok_def empty_state_def)
  moreover have "length (dtb_blob empty_state) = 2" by (simp add: empty_state_def)
  ultimately show ?thesis using blob_table_invariant [OF sample_set, of 1] by simp
qed

text \<open>
  C33: a blob that passes the check is registered under its id: the lookup of the id returns it.
\<close>

theorem set_blob_then_get:
  assumes "fdt_set_blob_handle m st b bsize blob_id = Some (r, st')"
    and "fdt_check_for_valid_blob m b bsize = Some NOERROR" and "b \<noteq> NULL" and "blobid_ok st blob_id"
  shows "fdt_get_blob_handle st' True blob_id = (NOERROR, Some b) \<and>
    fdt_init_root_handle_for_driver_by_id st' True blob_id = (NOERROR, Some \<lparr> blob = b, offset = - 1 \<rparr>)"
proof -
  note get = fdt_set_then_get [OF assms]
  from get have "blobid_ok st' blob_id" "dtb_blob st' ! nat blob_id = b"
    by (auto simp: fdt_get_blob_handle_def split: if_splits)
  with get assms(3) show ?thesis
    by (simp add: fdt_init_root_handle_for_driver_by_id_def fdt_init_root_handle_for_driver_def)
qed

theorem set_blob_then_get_witness:
  "fdt_get_blob_handle sample_state True 1 = (NOERROR, Some sample_base) \<and>
   fdt_init_root_handle_for_driver_by_id sample_state True 1 = (NOERROR, Some \<lparr> blob = sample_base, offset = - 1 \<rparr>)"
proof (rule set_blob_then_get [OF sample_set])
  show "fdt_check_for_valid_blob sample_mem sample_base 300 = Some NOERROR" by code_simp
qed (simp_all add: blobid_ok_def empty_state_def)

text \<open>
  C35: a buffer that fails the check is reported as registered: the status of the check is
  overwritten, and the table keeps its old entry.
\<close>

theorem set_blob_invalid_reports_success:
  assumes "fdt_check_for_valid_blob m b bsize = Some r" and "r \<noteq> NOERROR"
    and "b \<noteq> NULL" and "blobid_ok st blob_id"
  shows "fdt_set_blob_handle m st b bsize blob_id = Some (NOERROR, st)"
  using assms by (simp add: fdt_set_blob_handle_def CreatDtbHashTable_def)

theorem set_blob_invalid_reports_success_witness:
  "fdt_set_blob_handle sample_mem empty_state (sample_base + 8) 300 1 = Some (NOERROR, empty_state)"
proof (rule set_blob_invalid_reports_success)
  show "fdt_check_for_valid_blob sample_mem (sample_base + 8) 300 = Some (Ret (- FDT_ERR_BADMAGIC))" by code_simp
qed (simp_all add: blobid_ok_def empty_state_def)

section \<open>Reading properties\<close>

text \<open>
  C24: a list reader whose buffer does not hold more elements than the property has returns the
  big-endian elements of the property, or that the buffer is too small.
\<close>

theorem uint_list_reads_elements:
  assumes "valid_handle m h" and "prop_bytes m h name = Some bs" and "sel \<noteq> dt_boolean"
    and "sz \<le> 2147483647" and "sz div width sel \<le> length bs div width sel"
  shows "fdt_get_uintX_prop_list m (Some h) (Some name) True (int sz) 0 0 sel =
    Some (if sz div width sel < length bs div width sel then (Qc BUF2SMALL, None)
          else (NOERROR, Some (be_elems (width sel) bs)))"
  using uintX_prop_list_spec [OF assms] assms(5) by (auto simp: read_spec_def Let_def)

theorem uint_list_reads_elements_witness:
  "fdt_get_uintX_prop_list sample_mem (Some soc_node) (Some (chars ''reg'')) True 8 0 0 dt_uint32 =
     Some (NOERROR, Some [1, 0x20000]) \<and>
   fdt_get_uintX_prop_list sample_mem (Some soc_node) (Some (chars ''reg'')) True 4 0 0 dt_uint32 =
     Some (Qc BUF2SMALL, None)"
proof -
  have "be_elems 4 [0, 0, 0, 1, 0, 2, 0, 0] = [1, 0x20000]" by code_simp
  with uint_list_reads_elements [OF soc_node_valid soc_reg, of dt_uint32 8]
    uint_list_reads_elements [OF soc_node_valid soc_reg, of dt_uint32 4] show ?thesis by simp
qed

text \<open>The slice reader of 32-bit cells returns the \<open>count\<close> elements from \<open>index\<close> on, or the range error.\<close>

theorem uint32_slice:
  assumes "valid_handle m h" and "prop_bytes m h name = Some bs"
    and "index < 4294967296" and "count < 4294967296"
  shows "fdt_get_uint32_prop_list_slice m (Some h) (Some name) True (int index) (int count) =
    Some (let n = length bs div 4
      in if n < index then (Qc SLICE_RANGE, None)
         else if n < index + count then (Qc SLICE_COUNT, None)
         else if count = 0 \<and> index < n then (Qc BUF2SMALL, None)
         else (NOERROR, Some (take count (drop index (be_elems 4 bs)))))"
  using uintX_prop_list_slice [OF assms(1,2), of dt_uint32, OF _ assms(3,4)]
  by (simp add: fdt_get_uint32_prop_list_slice_def slice_spec_def)

theorem uint32_slice_witness:
  "fdt_get_uint32_prop_list_slice sample_mem (Some soc_node) (Some (chars ''reg'')) True 1 1 =
     Some (NOERROR, Some [0x20000]) \<and>
   fdt_get_uint32_prop_list_slice sample_mem (Some soc_node) (Some (chars ''reg'')) True 1 2 =
     Some (Qc SLICE_COUNT, None)"
proof -
  have "be_elems 4 [0, 0, 0, 1, 0, 2, 0, 0] = [1, 0x20000]" by code_simp
  with uint32_slice [OF soc_node_valid soc_reg, of 1 1] uint32_slice [OF soc_node_valid soc_reg, of 1 2]
  show ?thesis by (simp add: Let_def)
qed

text \<open>
  C37: a scalar reader does not compare the size of its buffer with the property: on an empty
  property \<open>fdt_get_uint32_prop\<close> succeeds with the word that follows the property.
\<close>

theorem uint32_prop_reads_behind:
  assumes "fdt_getprop m (blob h) (offset h) name = Some (p, 0)" and "p \<noteq> NULL"
    and "fdt32_ld m p = Some v"
  shows "fdt_get_uint32_prop m (Some h) (Some name) True = Some (NOERROR, Some [v])"
  using assms
  by (simp add: fdt_get_uint32_prop_def fdt_get_uint32_prop_list_def fdt_get_uintX_prop_list_def
      copy_elems_def u32_id s32_id)

text \<open>The overlay flag of the second sample blob is followed by the tag of the next property.\<close>

theorem uint32_prop_reads_behind_witness:
  "fdt_get_uint32_prop sample_mem (Some \<lparr> blob = sample_soc1, offset = 8 \<rparr>) (Some (chars ''is-overlay'')) True =
     Some (NOERROR, Some [FDT_PROP])"
proof (rule uint32_prop_reads_behind)
  show "fdt_getprop sample_mem (blob \<lparr> blob = sample_soc1, offset = 8 \<rparr>) (offset \<lparr> blob = sample_soc1, offset = 8 \<rparr>)
    (chars ''is-overlay'') = Some (4460, 0)" by code_simp
  show "fdt32_ld sample_mem 4460 = Some FDT_PROP" by code_simp
qed simp

text \<open>C38: the boolean reader of a property that has a value divides by zero.\<close>

theorem bool_prop_undefined:
  assumes "fdt_getprop m (blob h) (offset h) name = Some (p, len)" and "p \<noteq> NULL" and "0 < len"
  shows "fdt_get_bool_prop m (Some h) (Some name) = None"
  using assms by (simp add: fdt_get_bool_prop_def fdt_get_uintX_prop_list_def copy_elems_def)

theorem bool_prop_undefined_witness:
  "fdt_get_bool_prop sample_mem (Some soc_node) (Some (chars ''reg'')) = None"
proof (rule bool_prop_undefined)
  show "fdt_getprop sample_mem (blob soc_node) (offset soc_node) (chars ''reg'') = Some (4240, 8)" by code_simp
qed simp_all

section \<open>Walks over a node\<close>

text \<open>
  C23: asking for the number of subnodes and then for that many handles gives the handles of all
  the subnodes, in order, each a valid handle of the same blob.
\<close>

theorem subnode_count_then_cache:
  assumes "valid_handle m h"
  shows "\<exists>ns. subnodes_of m (blob h) (offset h) ns \<and>
    fdt_get_count_of_subnodes m (Some h) True = Some (NOERROR, Some (int (length ns))) \<and>
    fdt_get_cache_of_subnodes m (Some h) True (int (length ns)) =
      Some (NOERROR, map (\<lambda>n. \<lparr> blob = blob h, offset = n \<rparr>) ns) \<and>
    (\<forall>n\<in>set ns. valid_handle m \<lparr> blob = blob h, offset = n \<rparr>)"
proof -
  from assms have v: "valid_blob m (blob h)" "c_int (offset h)" by (simp_all add: valid_handle_def)
  from subnodes_of_ex [OF v] obtain ns where ns: "subnodes_of m (blob h) (offset h) ns"
    "\<forall>n\<in>set ns. c_int n" by blast
  with v count_of_subnodes [OF assms ns(1)] cache_of_subnodes [OF ns(1), of "int (length ns)"]
  show ?thesis by (intro exI [of _ ns]) (auto simp: valid_handle_def)
qed

theorem subnode_count_then_cache_witness:
  "\<exists>ns. subnodes_of sample_mem (blob soc_node) (offset soc_node) ns \<and>
    fdt_get_count_of_subnodes sample_mem (Some soc_node) True = Some (NOERROR, Some (int (length ns))) \<and>
    fdt_get_cache_of_subnodes sample_mem (Some soc_node) True (int (length ns)) =
      Some (NOERROR, map (\<lambda>n. \<lparr> blob = blob soc_node, offset = n \<rparr>) ns) \<and>
    (\<forall>n\<in>set ns. valid_handle sample_mem \<lparr> blob = blob soc_node, offset = n \<rparr>)"
  by (rule subnode_count_then_cache [OF soc_node_valid])

text \<open>The names that a packed buffer holds.\<close>

lemma c_string_no_zero: "c_strlen m p = Some (int (length s)) \<Longrightarrow> rd_bytes m p (length s) = Some s \<Longrightarrow> 0 \<notin> set s"
proof (induction s arbitrary: p)
  case (Cons b s)
  from Cons.prems(2) have b: "m p = Some b" "rd_bytes m (p + 1) (length s) = Some s"
    by (auto simp: bind_eq_Some_conv)
  from Cons.prems(1) b(1) have "b \<noteq> 0" "c_strlen m (p + 1) = Some (int (length s))"
    by (auto simp: c_strlen.simps [of m p] rd_def bind_eq_Some_conv split: if_splits)
  with Cons.IH b(2) show ?case by simp
qed simp

lemma named_no_zero:
  assumes "named m fdt p s"
  shows "0 \<notin> set s"
proof -
  from assms obtain np where np: "c_strlen m np = Some (int (length s))" "rd_bytes m np (Suc (length s)) = Some (s @ [0])"
    by (auto simp: named_def c_string_at_def)
  from np(2) have "rd_bytes m np (length s) = Some s"
    by (auto simp: rd_bytes_snoc bind_eq_Some_conv simp del: rd_bytes.simps)
  with np(1) show ?thesis by (rule c_string_no_zero)
qed

lemma c_strings_packed: "(\<forall>s\<in>set ss. 0 \<notin> set s) \<Longrightarrow> c_strings (packed ss) = ss"
proof (induction ss)
  case (Cons s ss)
  have "takeWhile (\<lambda>c. c \<noteq> 0) (s @ 0 # packed ss) = s"
    using Cons.prems by (subst takeWhile_append2) auto
  with Cons show ?case by (simp add: c_strings_unfold)
qed simp

text \<open>
  C31: a buffer of the size that \<open>fdt_get_prop_names_size_of_node\<close> reports is filled by
  \<open>fdt_get_prop_names_of_node\<close> with the names of the node's properties: splitting it at the
  terminators gives them back, in order.
\<close>

theorem prop_names_roundtrip:
  assumes "props_of m (blob h) (offset h) ps" and "list_all2 (named m (blob h)) ps ss"
    and "length (packed ss) < 4294967296"
  shows "\<exists>n. fdt_get_prop_names_size_of_node m (Some h) True = Some (NOERROR, Some (int n)) \<and>
    (\<forall>buf. length buf = n \<longrightarrow> (\<exists>bs. fdt_get_prop_names_of_node m (Some h) (Some buf) (int n) =
       Some (NOERROR, Some bs) \<and> c_strings bs = ss))"
proof -
  from assms(2) have "\<forall>s\<in>set ss. 0 \<notin> set s"
    by (induction rule: list_all2_induct) (auto dest: named_no_zero)
  with prop_names_size [OF assms] prop_names [OF assms] show ?thesis
    by (intro exI [of _ "length (packed ss)"]) (auto simp: c_strings_packed)
qed

definition named_check :: "mem \<Rightarrow> addr \<Rightarrow> int \<Rightarrow> byte list \<Rightarrow> bool" where
  "named_check m fdt p s =
     (case fdt_getprop_by_offset m fdt p of
        Some (v, np, len) \<Rightarrow> v \<noteq> NULL \<and> 0 \<le> len \<and> c_strlen m np = Some (int (length s)) \<and>
          rd_bytes m np (length s + 1) = Some (s @ [0]) \<and> int (length s) < 65535
      | None \<Rightarrow> False)"

lemma named_check: "named_check m fdt p s \<Longrightarrow> named m fdt p s"
  by (auto simp: named_check_def named_def c_string_at_def split: option.splits)

lemma soc_names:
  "list_all2 (named sample_mem sample_base) [76, 96, 112] [chars ''reg'', chars ''phandle'', chars ''model'']"
proof -
  have "named sample_mem sample_base 76 (chars ''reg'')" "named sample_mem sample_base 96 (chars ''phandle'')"
    "named sample_mem sample_base 112 (chars ''model'')" by (rule named_check, code_simp)+
  then show ?thesis by simp
qed

theorem prop_names_roundtrip_witness:
  "\<exists>n. fdt_get_prop_names_size_of_node sample_mem (Some soc_node) True = Some (NOERROR, Some (int n)) \<and>
    (\<forall>buf. length buf = n \<longrightarrow> (\<exists>bs. fdt_get_prop_names_of_node sample_mem (Some soc_node) (Some buf) (int n) =
       Some (NOERROR, Some bs) \<and> c_strings bs = [chars ''reg'', chars ''phandle'', chars ''model'']))"
proof (rule prop_names_roundtrip [where ps = "[76, 96, 112]"])
  show "list_all2 (named sample_mem (blob soc_node)) [76, 96, 112] [chars ''reg'', chars ''phandle'', chars ''model'']"
    using soc_names by (simp only: fdt_node_handle.select_convs)
qed (simp_all add: soc_props chars_def)

text \<open>
  C32: the conversion of the values of a node stays inside its buffer for every format string
  and every buffer size, and leaves a zeroed buffer behind an error.
\<close>

theorem prop_values_safe:
  assumes "valid_handle m h" and "int (length buf) = bsize" and "bsize < 4294967296"
  shows "\<exists>r buf'. fdt_get_prop_values_of_node m (Some h) (Some fmt) (Some buf) bsize = Some (r, Some buf') \<and>
    length buf' = length buf \<and> (r \<noteq> NOERROR \<longrightarrow> buf' = replicate (length buf) 0)"
  by (rule prop_values_total [OF assms])

theorem prop_values_safe_witness:
  "\<exists>r buf'. fdt_get_prop_values_of_node sample_mem (Some soc_node) (Some (chars ''wq'')) (Some (replicate 32 1)) 32 =
      Some (r, Some buf') \<and>
    length buf' = length (replicate 32 (1 :: byte)) \<and> (r \<noteq> NOERROR \<longrightarrow> buf' = replicate (length (replicate 32 (1 :: byte))) 0)"
  by (rule prop_values_safe [OF soc_node_valid]) simp_all

text \<open>
  C39: \<open>fdt_get_size_of_subnode_names\<close> fills an array that has an element for every subnode; with
  more subnodes than elements it writes behind the array before it looks at the count.
\<close>

theorem subnode_name_sizes:
  assumes "subnodes_of m (blob h) (offset h) ns" and "list_all2 (has_name_len m (blob h)) ns lens"
    and "int (length arr) = count" and "0 < count" and "count \<le> 65535"
  shows "fdt_get_size_of_subnode_names m (Some h) (Some arr) count =
    (if length ns \<le> length arr
     then Some (NOERROR, Some (map (\<lambda>l. l + 1) lens @ drop (length ns) arr)) else None)"
  using size_of_subnode_names [OF assms(1,2) _ assms(3-5)] size_of_subnode_names_overrun [OF assms(1,2) _ assms(3-5)]
  by auto

lemma soc_name_lens: "list_all2 (has_name_len sample_mem sample_base) [128, 144] [4, 4]"
proof -
  have "fdt_get_name sample_mem sample_base 128 = Some (4284, 4)"
    "fdt_get_name sample_mem sample_base 144 = Some (4300, 4)" by code_simp+
  then show ?thesis by (simp add: has_name_len_def)
qed

theorem subnode_name_sizes_witness:
  "fdt_get_size_of_subnode_names sample_mem (Some soc_node) (Some [0, 0, 9]) 3 = Some (NOERROR, Some [5, 5, 9]) \<and>
   fdt_get_size_of_subnode_names sample_mem (Some soc_node) (Some [0]) 1 = None"
  using subnode_name_sizes [of sample_mem soc_node "[128, 144]" "[4, 4]" "[0, 0, 9]" 3]
    subnode_name_sizes [of sample_mem soc_node "[128, 144]" "[4, 4]" "[0]" 1] soc_subnodes soc_name_lens
  by simp

end
