(* ===== verification/Driver_Props.thy ===== *)
theory Driver_Props
  imports Ext_Driver Fdt_Check Ext_Props
begin

text \<open>
  The properties of the driver queries: entries of \<open>reg\<close>, the index of a name, the walk over
  the compatible nodes; and of the full check of a tree.
\<close>

text \<open>
  A blob with two nodes; the second, at offset 40, is compatible with two drivers and has two named
  registers of two address cells and one size cell.
\<close>

definition driver_bytes :: "addr \<Rightarrow> byte" where
  "driver_bytes a =
    (if a < 8320 then (if a < 8256 then (if a < 8224 then [208, 13, 254, 237, 0, 0, 0, 232, 0, 0, 0, 56, 0, 0, 0, 204, 0, 0, 0, 40, 0, 0, 0, 17, 0, 0, 0, 16, 0, 0, 0, 0] ! nat (a - 8192)
       else [0, 0, 0, 25, 0, 0, 0, 148, 0, 0, 0, 0, 0, 0, 0, 0, 0, 0, 0, 0, 0, 0, 0, 0, 0, 0, 0, 1, 0, 0, 0, 0] ! nat (a - 8224))
      else if a < 8288 then [0, 0, 0, 1, 109, 101, 109, 0, 0, 0, 0, 3, 0, 0, 0, 8, 0, 0, 0, 0, 0, 0, 0, 1, 0, 0, 0, 0, 0, 0, 0, 2] ! nat (a - 8256)
       else [0, 0, 0, 1, 117, 97, 114, 116, 0, 0, 0, 0, 0, 0, 0, 3, 0, 0, 0, 15, 0, 0, 0, 4, 118, 44, 117, 97, 114, 116, 0, 110] ! nat (a - 8288))
     else if a < 8384 then (if a < 8352 then [115, 49, 54, 53, 53, 48, 0, 0, 0, 0, 0, 3, 0, 0, 0, 8, 0, 0, 0, 15, 99, 116, 108, 0, 100, 97, 116, 0, 0, 0, 0, 3] ! nat (a - 8320)
       else [0, 0, 0, 24, 0, 0, 0, 0, 0, 0, 0, 1, 0, 0, 32, 0, 0, 0, 0, 16, 0, 0, 0, 1, 0, 0, 48, 0, 0, 0, 0, 32] ! nat (a - 8352))
      else if a < 8416 then [0, 0, 0, 2, 0, 0, 0, 2, 0, 0, 0, 9, 114, 101, 103, 0, 99, 111, 109, 112, 97, 116, 105, 98, 108, 101, 0, 114, 101, 103, 45, 110] ! nat (a - 8384)
       else [97, 109, 101, 115, 0, 0, 0, 0] ! nat (a - 8416))"

definition driver_mem :: mem where
  "driver_mem a = (if a < 8192 then None else if a < 8424 then Some (driver_bytes a)
     else if a < 8464 then Some 0 else None)"

abbreviation (input) driver_blob :: addr where "driver_blob \<equiv> 8192"

abbreviation (input) uart_node :: fdt_node_handle where
  "uart_node \<equiv> \<lparr> blob = driver_blob, offset = 40 \<rparr>"

lemma driver_mapped: "mapped driver_mem 8192 272"
  by (simp add: mapped_def driver_mem_def)

lemma driver_valid: "valid_blob driver_mem driver_blob"
proof -
  have "fdt_totalsize driver_mem driver_blob = Some 232" "fdt_check_header driver_mem driver_blob = Some 0"
    by code_simp+
  then show ?thesis unfolding valid_blob_def by (auto intro: mapped_sub [OF driver_mapped])
qed

lemma uart_valid: "valid_handle driver_mem uart_node"
  by (simp add: valid_handle_def driver_valid c_int_def)

lemma uart_reg:
  "prop_bytes driver_mem uart_node (chars ''reg'') =
     Some [0, 0, 0, 1, 0, 0, 32, 0, 0, 0, 0, 16, 0, 0, 0, 1, 0, 0, 48, 0, 0, 0, 0, 32]"
  by code_simp

section \<open>Entries of reg\<close>

lemma be_val_Nil [simp]: "be_val [] = 0"
  by (simp add: be_val_def)

lemma reg_value_cells:
  assumes r: "rd_bytes m p (length bs) = Some bs" and c: "c \<in> {0, 1, 2}" and le: "4 * (k + c) \<le> length bs"
  shows "reg_value m p (int k) (int c) = Some (be_val (take (4 * c) (drop (4 * k) bs)))"
proof -
  from rd_bytes_slice [OF r, of "4 * k" "4 * c"] le
  have s: "rd_bytes m (p + 4 * int k) (4 * c) = Some (take (4 * c) (drop (4 * k) bs))" by simp
  from c consider "c = 0" | "c = 1" | "c = 2" by auto
  then show ?thesis
  proof cases
    case 1
    then show ?thesis by (simp add: reg_value_def)
  next
    case 2
    with s be_val_bytes(3) [of m "p + 4 * int k"] show ?thesis by (simp add: reg_value_def)
  next
    case 3
    with s be_val_bytes(4) [of m "p + 4 * int k"]
    have "fdt64_ld m (p + 4 * int k) = Some (be_val (take (4 * c) (drop (4 * k) bs)))" by simp
    from ld64_words [OF this] 3 show ?thesis by (auto simp: reg_value_def algebra_simps)
  qed
qed

lemma reg_entry_cells:
  assumes "valid_handle m h" and "prop_bytes m h (chars ''reg'') = Some bs"
    and a: "a \<in> {1, 2}" and s: "s \<in> {0, 1, 2}" and i: "4 * int i \<le> INT_MAX"
  shows "reg_entry m h (int i) (int a) (int s) =
    Some (if 4 * ((i + 1) * (a + s)) \<le> length bs
      then (NOERROR, Some (be_val (take (4 * a) (drop (4 * (i * (a + s))) bs)),
                           be_val (take (4 * s) (drop (4 * (i * (a + s) + a)) bs))))
      else (Qc TARGETIDX, None))"
proof -
  from prop_bytes_Some [OF assms(1,2)] obtain p where
    g: "fdt_getprop m (blob h) (offset h) (chars ''reg'') = Some (p, int (length bs))" "p \<noteq> NULL"
    and r: "rd_bytes m p (length bs) = Some bs" by blast
  let ?n = "a + s" and ?t = "i * (a + s)"
  have n: "?n \<le> 4" using a s by auto
  have "int ?t \<le> int (i * 4)" using n by (intro zle_int [THEN iffD2] mult_left_mono) auto
  then have "int ?t \<le> INT_MAX" using i by simp
  then have c: "c_int (int ?t)" unfolding c_int_def by linarith
  have big: "(int ?t > int (length bs) div 4 - int ?n) \<longleftrightarrow> \<not> 4 * ((i + 1) * ?n) \<le> length bs"
  proof -
    have "int ?t + int ?n = int ((i + 1) * ?n)" by (simp add: algebra_simps)
    then show ?thesis by linarith
  qed
  show ?thesis
  proof (cases "4 * ((i + 1) * ?n) \<le> length bs")
    case True
    then have le: "4 * (?t + a) \<le> length bs" "4 * (?t + a + s) \<le> length bs" by (auto simp: algebra_simps)
    have v: "reg_value m p (int ?t) (int a) = Some (be_val (take (4 * a) (drop (4 * ?t) bs)))"
      using a by (intro reg_value_cells [OF r _ le(1)]) auto
    have w: "reg_value m p (int (?t + a)) (int s) = Some (be_val (take (4 * s) (drop (4 * (?t + a)) bs)))"
      using s by (intro reg_value_cells [OF r _ le(2)]) auto
    have eq: "(int a + int s) * int i = int ?t" "int ?t + int a = int (?t + a)" by (simp_all add: mult.commute)
    show ?thesis using g c big True v w
      by (simp add: reg_entry_def Let_def eq del: of_nat_mult of_nat_add)
  next
    case False
    have eq: "(int a + int s) * int i = int ?t" by (simp add: mult.commute)
    show ?thesis using g c big False
      by (simp add: reg_entry_def Let_def eq del: of_nat_mult)
  qed
qed

lemma reg_no_name:
  assumes "a \<in> {1, 2}" and "s \<in> {0, 1, 2}"
  shows "fdt_get_reg m (Some h) None i a s True = reg_entry m h i a s"
  using assms by (auto simp: fdt_get_reg_def)

text \<open>
  C21: entry \<open>i\<close> of \<open>reg\<close> is the pair of big-endian numbers of \<open>a\<close> and \<open>s\<close> cells that starts at
  cell \<open>i * (a + s)\<close> of the property, and an index whose entry does not lie within the property
  gives \<open>FDT_ERR_QC_TARGETIDX\<close>.
\<close>

theorem reg_reads_cells:
  assumes "valid_handle m h" and "prop_bytes m h (chars ''reg'') = Some bs"
    and "a \<in> {1, 2}" and "s \<in> {0, 1, 2}" and "4 * int i \<le> INT_MAX"
  shows "fdt_get_reg m (Some h) None (int i) (int a) (int s) True =
    Some (if 4 * ((i + 1) * (a + s)) \<le> length bs
      then (NOERROR, Some (be_val (take (4 * a) (drop (4 * (i * (a + s))) bs)),
                           be_val (take (4 * s) (drop (4 * (i * (a + s) + a)) bs))))
      else (Qc TARGETIDX, None))"
proof -
  have "int a \<in> {1, 2}" "int s \<in> {0, 1, 2}" using assms(3,4) by auto
  from reg_no_name [OF this] reg_entry_cells [OF assms] show ?thesis by simp
qed

theorem reg_reads_cells_witness:
  "fdt_get_reg driver_mem (Some uart_node) None 1 2 1 True = Some (NOERROR, Some (4294979584, 32)) \<and>
   fdt_get_reg driver_mem (Some uart_node) None 2 2 1 True = Some (Qc TARGETIDX, None)"
  using reg_reads_cells [OF uart_valid uart_reg, of 2 1 1] reg_reads_cells [OF uart_valid uart_reg, of 2 1 2]
  by (simp add: be_val_def)

section \<open>Names\<close>

lemma name_index_spec:
  assumes "rd_bytes m (p + i) (length bs) = Some bs" and "bs \<noteq> []" and "last bs = 0"
    and "mapped m p (len + int (length tname) + 1)" and "0 \<notin> set tname"
    and "0 \<le> i" and "i + int (length bs) = len" and "len \<le> INT_MAX"
  shows "name_index_loop m p len tname i l =
    Some (if tname \<in> set (c_strings bs)
      then (NOERROR, Some (l + int (length (takeWhile (\<lambda>s. s \<noteq> tname) (c_strings bs)))))
      else (Ret (- FDT_ERR_NOTFOUND), None))"
  using assms(1-3,6-7)
proof (induction "length bs" arbitrary: i bs l rule: less_induct)
  case less
  let ?k = "length (takeWhile (\<lambda>c. c \<noteq> 0) bs)"
  have z: "0 \<in> set bs" using less.prems(2,3) by (metis last_in_set)
  note k = takeWhile_at(1) [OF z]
  have eq: "c_memeq m (p + i) (tname @ [0]) = Some (takeWhile (\<lambda>c. c \<noteq> 0) bs = tname)"
    using less.prems(4,5) by (intro memeq_string [OF less.prems(1) z assms(5)]) (auto intro: mapped_sub [OF assms(4)])
  have n: "c_strlen m (p + i) = Some (int ?k)"
    by (rule c_strlen_str_end [OF str_end_takeWhile [OF less.prems(1) z]])
  have cs: "c_strings bs = takeWhile (\<lambda>c. c \<noteq> 0) bs # c_strings (drop (?k + 1) bs)"
    using less.prems(2) by (simp add: c_strings_unfold)
  have range: "i + int ?k + 1 \<le> INT_MAX" using k less.prems(5) assms(8) by simp
  show ?case
  proof (cases "takeWhile (\<lambda>c. c \<noteq> 0) bs = tname")
    case True
    then show ?thesis using eq cs by (subst name_index_loop.simps) simp
  next
    case ne: False
    show ?thesis
    proof (cases "?k + 1 < length bs")
      case True
      let ?d = "drop (?k + 1) bs"
      have d: "rd_bytes m (p + (i + int ?k + 1)) (length ?d) = Some ?d"
        using rd_bytes_drop [OF less.prems(1), of "?k + 1"] k by (simp add: algebra_simps)
      have "name_index_loop m p len tname (i + int ?k + 1) (l + 1) =
        Some (if tname \<in> set (c_strings ?d)
          then (NOERROR, Some (l + 1 + int (length (takeWhile (\<lambda>s. s \<noteq> tname) (c_strings ?d)))))
          else (Ret (- FDT_ERR_NOTFOUND), None))"
        using True less.prems(3-5) by (intro less.hyps [OF _ d]) (auto simp: last_drop)
      then show ?thesis using eq n cs ne range True less.prems(5)
        by (subst name_index_loop.simps) (auto simp: algebra_simps)
    next
      case False
      with k have "drop (?k + 1) bs = []" by simp
      then show ?thesis using eq n cs ne range False k less.prems(5)
        by (subst name_index_loop.simps) (auto simp: algebra_simps)
    qed
  qed
qed

text \<open>
  C22: in a property whose value is a list of terminated strings \<open>fdt_get_name_index\<close> gives the
  position of the first string that equals the name, and \<open>FDT_ERR_NOTFOUND\<close> when there is none,
  provided the comparison may read the length of the name behind the property.
\<close>

theorem name_index_is_position:
  assumes "fdt_get_property m (blob h) (offset h) pname = Some (fp, int (length bs))" and "fp \<noteq> NULL"
    and "rd_bytes m (fp + 12) (length bs) = Some bs" and "bs \<noteq> []" and "last bs = 0"
    and "int (length bs) \<le> INT_MAX" and "mapped m (fp + 12) (int (length bs) + int (length tname) + 1)"
    and "0 \<notin> set tname"
  shows "fdt_get_name_index m h pname tname =
    Some (if tname \<in> set (c_strings bs)
      then (NOERROR, Some (int (length (takeWhile (\<lambda>s. s \<noteq> tname) (c_strings bs)))))
      else (Ret (- FDT_ERR_NOTFOUND), None))"
  using assms(1,2) name_index_spec [OF _ assms(4,5,7,8), of 0 0] assms(3,6)
  by (simp add: fdt_get_name_index_def)

theorem name_index_is_position_witness:
  "fdt_get_name_index driver_mem uart_node (chars ''reg-names'') (chars ''dat'') = Some (NOERROR, Some 1) \<and>
   fdt_get_name_index driver_mem uart_node (chars ''reg-names'') (chars ''ct'') = Some (Ret (- FDT_ERR_NOTFOUND), None)"
proof -
  let ?bs = "[99, 116, 108, 0, 100, 97, 116, 0] :: byte list"
  have f: "fdt_get_property driver_mem (blob uart_node) (offset uart_node) (chars ''reg-names'') =
      Some (8328, int (length ?bs))" by code_simp
  have r: "rd_bytes driver_mem (8328 + 12) (length ?bs) = Some ?bs" by code_simp
  have s: "c_strings ?bs = [[99, 116, 108], [100, 97, 116]]" by (simp add: c_strings_unfold)
  have c: "chars ''dat'' = [100, 97, 116]" "chars ''ct'' = [99, 116]" by code_simp+
  have m: "mapped driver_mem (8328 + 12) (int (length ?bs) + int (length (chars ''dat'')) + 1)"
    "mapped driver_mem (8328 + 12) (int (length ?bs) + int (length (chars ''ct'')) + 1)"
    by (auto simp: c intro: mapped_sub [OF driver_mapped])
  from name_index_is_position [OF f _ r _ _ _ m(1)] name_index_is_position [OF f _ r _ _ _ m(2)]
  show ?thesis by (simp add: s c)
qed

text \<open>
  The names in a property of the node, for a comparison with one name: none when the property is
  missing, otherwise the strings of its value, when they are terminated and the comparison may read
  the length of the name behind the property.
\<close>

definition readable_names :: "mem \<Rightarrow> fdt_node_handle \<Rightarrow> byte list \<Rightarrow> byte list \<Rightarrow> byte list list \<Rightarrow> bool" where
  "readable_names m h pname tname names \<longleftrightarrow>
     (\<exists>fp len. fdt_get_property m (blob h) (offset h) pname = Some (fp, len) \<and> (fp = NULL \<or> len < 0) \<and> names = []) \<or>
     (\<exists>fp ns. fdt_get_property m (blob h) (offset h) pname = Some (fp, int (length ns)) \<and> fp \<noteq> NULL \<and>
        rd_bytes m (fp + 12) (length ns) = Some ns \<and> ns \<noteq> [] \<and> last ns = 0 \<and> int (length ns) \<le> INT_MAX \<and>
        mapped m (fp + 12) (int (length ns) + int (length tname) + 1) \<and> names = c_strings ns)"

text \<open>The position of a name, or the given index when it is not in the list.\<close>

definition named_index :: "byte list list \<Rightarrow> byte list \<Rightarrow> nat \<Rightarrow> nat" where
  "named_index names nm i = (if nm \<in> set names then length (takeWhile (\<lambda>s. s \<noteq> nm) names) else i)"

lemma name_index_names:
  assumes "readable_names m h pname tname names" and "0 \<notin> set tname"
  shows "\<exists>r found. fdt_get_name_index m h pname tname = Some (r, found) \<and>
    (case found of Some k \<Rightarrow> k | None \<Rightarrow> int i) = int (named_index names tname i)"
  using assms(1) unfolding readable_names_def
proof (elim disjE exE conjE)
  fix fp ns
  assume f: "fdt_get_property m (blob h) (offset h) pname = Some (fp, int (length ns))" "fp \<noteq> NULL"
    "rd_bytes m (fp + 12) (length ns) = Some ns" "ns \<noteq> []" "last ns = 0" "int (length ns) \<le> INT_MAX"
    "mapped m (fp + 12) (int (length ns) + int (length tname) + 1)" and n: "names = c_strings ns"
  have r: "rd_bytes m (fp + 12 + 0) (length ns) = Some ns" using f(3) by simp
  from name_index_spec [OF r f(4,5,7) assms(2) _ _ f(6), of 0] f(1,2) n show ?thesis
    by (auto simp: fdt_get_name_index_def named_index_def)
qed (auto simp: fdt_get_name_index_def named_index_def)

text \<open>
  C36: asked for a register by name, \<open>fdt_get_reg\<close> returns the cells of the entry at the position of
  the name in \<open>reg-names\<close>. A name that is not in the list, and a node without \<open>reg-names\<close>, are not
  an error: the entry of the caller's own index is returned with \<open>NOERROR\<close>. Only an entry that does
  not lie within \<open>reg\<close> gives \<open>FDT_ERR_QC_TARGETIDX\<close>. The names are terminated strings with readable
  bytes behind them (\<open>readable_names\<close>).
\<close>

theorem reg_unknown_name_ignored:
  assumes "valid_handle m h" and "prop_bytes m h (chars ''reg'') = Some bs"
    and "readable_names m h (chars ''reg-names'') nm names" and "0 \<notin> set nm"
    and "a \<in> {1, 2}" and "s \<in> {0, 1, 2}" and "4 * int (named_index names nm i) \<le> INT_MAX"
  shows "fdt_get_reg m (Some h) (Some nm) (int i) (int a) (int s) True =
    Some (let j = (if nm \<in> set names then length (takeWhile (\<lambda>s. s \<noteq> nm) names) else i) in
      if 4 * ((j + 1) * (a + s)) \<le> length bs
      then (NOERROR, Some (be_val (take (4 * a) (drop (4 * (j * (a + s))) bs)),
                           be_val (take (4 * s) (drop (4 * (j * (a + s) + a)) bs))))
      else (Qc TARGETIDX, None))"
proof -
  from name_index_names [OF assms(3,4), of i] obtain r found where
    f: "fdt_get_name_index m h (chars ''reg-names'') nm = Some (r, found)"
      "(case found of Some k \<Rightarrow> k | None \<Rightarrow> int i) = int (named_index names nm i)" by blast
  have "int a \<in> {1, 2}" "int s \<in> {0, 1, 2}" using assms(5,6) by auto
  with f have "fdt_get_reg m (Some h) (Some nm) (int i) (int a) (int s) True =
      reg_entry m h (int (named_index names nm i)) (int a) (int s)"
    by (auto simp: fdt_get_reg_def)
  with reg_entry_cells [OF assms(1,2,5,6,7)] show ?thesis by (simp add: named_index_def Let_def)
qed

theorem reg_unknown_name_ignored_witness:
  "fdt_get_reg driver_mem (Some uart_node) (Some (chars ''cfg'')) 0 2 1 True = Some (NOERROR, Some (4294975488, 16)) \<and>
   fdt_get_reg driver_mem (Some uart_node) (Some (chars ''dat'')) 0 2 1 True = Some (NOERROR, Some (4294979584, 32))"
proof -
  let ?ns = "[99, 116, 108, 0, 100, 97, 116, 0] :: byte list"
  have c: "chars ''cfg'' = [99, 102, 103]" "chars ''dat'' = [100, 97, 116]" by code_simp+
  have s: "c_strings ?ns = [[99, 116, 108], [100, 97, 116]]" by (simp add: c_strings_unfold)
  have f: "fdt_get_property driver_mem (blob uart_node) (offset uart_node) (chars ''reg-names'') =
      Some (8328, int (length ?ns))" by code_simp
  have r: "rd_bytes driver_mem (8328 + 12) (length ?ns) = Some ?ns" by code_simp
  have n: "readable_names driver_mem uart_node (chars ''reg-names'') nm [[99, 116, 108], [100, 97, 116]]"
    if "length nm = 3" for nm
  proof -
    have "mapped driver_mem (8328 + 12) (int (length ?ns) + int (length nm) + 1)"
      using that by (intro mapped_sub [OF driver_mapped]) simp_all
    with f r s show ?thesis unfolding readable_names_def by (intro disjI2 exI [of _ 8328] exI [of _ ?ns]) simp
  qed
  note w = reg_unknown_name_ignored [OF uart_valid uart_reg n, of _ 2 1 0]
  from w [of "chars ''cfg''"] w [of "chars ''dat''"] show ?thesis
    by (simp add: c named_index_def be_val_def)
qed

section \<open>Compatible nodes\<close>

text \<open>The nodes that the walk of libfdt meets after an offset.\<close>

inductive later_node :: "mem \<Rightarrow> addr \<Rightarrow> int \<Rightarrow> int \<Rightarrow> bool" for m fdt where
  first: "fdt_next_node m fdt p None = Some (q, d) \<Longrightarrow> 0 \<le> q \<Longrightarrow> later_node m fdt p q"
| further: "fdt_next_node m fdt p None = Some (q, d) \<Longrightarrow> 0 \<le> q \<Longrightarrow> later_node m fdt q r \<Longrightarrow> later_node m fdt p r"

lemma later_node_c_int: "later_node m fdt p q \<Longrightarrow> c_int q \<and> 0 \<le> q"
  by (induction rule: later_node.induct) (auto dest: fdt_next_node_c_int)

lemma later_node_less: "later_node m fdt p q \<Longrightarrow> 0 \<le> p \<Longrightarrow> p < q"
  by (induction rule: later_node.induct) (fastforce dest: fdt_next_node_forward)+

lemma later_node_step:
  assumes "fdt_next_node m fdt p None = Some (q, d)"
  shows "later_node m fdt p r \<longleftrightarrow> 0 \<le> q \<and> (r = q \<or> later_node m fdt q r)"
  using assms by (subst later_node.simps) auto

lemma for_each_node_first:
  assumes "valid_blob m fdt" and "c_int p" and "\<And>q. later_node m fdt p q \<Longrightarrow> body q \<noteq> None"
  shows "(\<exists>q x. for_each_node m fdt p body = Some x \<and> later_node m fdt p q \<and> body q = Some (Some x) \<and>
      (\<forall>q'. later_node m fdt p q' \<and> q' < q \<longrightarrow> body q' = Some None)) \<or>
    (\<exists>e < 0. for_each_node m fdt p body = Some e \<and> (\<forall>q. later_node m fdt p q \<longrightarrow> body q = Some None))"
  using assms
proof (induction m fdt p body rule: for_each_node.induct)
  case (1 m fdt p body)
  from fdt_next_node_safe [OF "1.prems"(1,2)] obtain q d where
    q: "fdt_next_node m fdt p None = Some (q, d)" by blast
  note step = later_node_step [OF q] and unf = for_each_node.simps [of m fdt p body]
  show ?case
  proof (cases "q < 0")
    case True
    with q step show ?thesis by (intro disjI2) (auto simp: unf)
  next
    case False
    with "1.prems"(3) step obtain r where r: "body q = Some r" by auto
    show ?thesis
    proof (cases r)
      case (Some x)
      have "\<not> (later_node m fdt p q' \<and> q' < q)" for q'
        using step [of q'] later_node_less [of m fdt q q'] False by auto
      with Some r q False step show ?thesis by (intro disjI1) (auto simp: unf)
    next
      case None
      have "\<And>s. later_node m fdt q s \<Longrightarrow> body s \<noteq> None" using "1.prems"(3) step False by auto
      from "1.IH" [OF q refl False r None "1.prems"(1) fdt_next_node_c_int [OF q] this]
      have ih: "(\<exists>s x. for_each_node m fdt q body = Some x \<and> later_node m fdt q s \<and> body s = Some (Some x) \<and>
          (\<forall>q'. later_node m fdt q q' \<and> q' < s \<longrightarrow> body q' = Some None)) \<or>
        (\<exists>e < 0. for_each_node m fdt q body = Some e \<and> (\<forall>q'. later_node m fdt q q' \<longrightarrow> body q' = Some None))" .
      have "for_each_node m fdt p body = for_each_node m fdt q body"
        using q False r None by (simp add: unf)
      with ih r None False show ?thesis unfolding step by fastforce
    qed
  qed
qed

text \<open>The strings of the property \<open>compatible\<close>, when libfdt can read them as such.\<close>

definition compatible_with :: "mem \<Rightarrow> addr \<Rightarrow> int \<Rightarrow> byte list list \<Rightarrow> bool" where
  "compatible_with m fdt q ss \<longleftrightarrow>
     fdt_getprop m fdt q (chars ''compatible'') = Some (NULL, - FDT_ERR_NOTFOUND) \<and> ss = [] \<or>
     (\<exists>p bs. fdt_getprop m fdt q (chars ''compatible'') = Some (p, int (length bs)) \<and> 0 < p \<and>
        rd_bytes m p (length bs) = Some bs \<and> (bs = [] \<or> last bs = 0) \<and>
        mapped m p (int (length bs) + 1) \<and> ss = c_strings bs)"

lemma check_compatible_spec:
  assumes "compatible_with m fdt q ss" and "str \<noteq> []" and "0 \<notin> set str"
  shows "\<exists>e. fdt_node_check_compatible m fdt q str = Some e \<and> (e < 0 \<longrightarrow> e = - FDT_ERR_NOTFOUND) \<and>
    (e = 0 \<longleftrightarrow> str \<in> set ss)"
proof (cases "fdt_getprop m fdt q (chars ''compatible'') = Some (NULL, - FDT_ERR_NOTFOUND) \<and> ss = []")
  case True
  then show ?thesis by (simp add: fdt_node_check_compatible_def)
next
  case False
  with assms(1) obtain p bs where
    g: "fdt_getprop m fdt q (chars ''compatible'') = Some (p, int (length bs))" "0 < p"
    and r: "rd_bytes m p (length bs) = Some bs" "bs = [] \<or> last bs = 0" "mapped m p (int (length bs) + 1)"
    and ss: "ss = c_strings bs"
    unfolding compatible_with_def by blast
  from stringlist_contains_spec [OF r(1,2) g(2) r(3) assms(2,3)] g ss
  show ?thesis by (simp add: fdt_node_check_compatible_def)
qed

lemma later_node_trans: "later_node m fdt p q \<Longrightarrow> later_node m fdt q r \<Longrightarrow> later_node m fdt p r"
  by (induction rule: later_node.induct) (auto intro: later_node.intros)

lemma later_node_ahead:
  "later_node m fdt p q \<Longrightarrow> later_node m fdt p r \<Longrightarrow> q < r \<Longrightarrow> later_node m fdt q r"
proof (induction rule: later_node.induct)
  case (first p q d)
  then show ?case using later_node_step [OF first(1), of r] by auto
next
  case (further p q d s)
  then show ?case using later_node_step [OF further(1), of r] later_node_less [OF further(3)] by auto
qed

text \<open>One call: the first compatible node behind the handle, or an error when there is none.\<close>

lemma next_compatible:
  assumes "valid_handle m h" and "fdt_totalsize m (blob h) = Some n" and "n < INT_MAX"
    and "str \<noteq> []" and "0 \<notin> set str"
    and "\<forall>q. later_node m (blob h) (offset h) q \<longrightarrow> compatible_with m (blob h) q (ss q)"
  shows "(\<exists>q. fdt_get_next_node_handle_for_compatible m (Some h) (Some str) =
        Some (NOERROR, Some (h \<lparr> offset := q \<rparr>)) \<and>
      later_node m (blob h) (offset h) q \<and> str \<in> set (ss q) \<and>
      (\<forall>q'. later_node m (blob h) (offset h) q' \<and> str \<in> set (ss q') \<longrightarrow> q \<le> q')) \<or>
    (\<exists>e < 0. fdt_get_next_node_handle_for_compatible m (Some h) (Some str) = Some (Ret e, Some h) \<and>
      (\<forall>q. later_node m (blob h) (offset h) q \<longrightarrow> str \<notin> set (ss q)))"
proof -
  define body where "body = (\<lambda>q. do {
       err \<leftarrow> fdt_node_check_compatible m (blob h) q str;
       Some (if err < 0 \<and> err \<noteq> - FDT_ERR_NOTFOUND then Some err
             else if err = 0 then Some q else None) })"
  have b: "body q = Some (if str \<in> set (ss q) then Some q else None)"
    if "later_node m (blob h) (offset h) q" for q
    using check_compatible_spec [OF assms(6) [rule_format, OF that] assms(4,5)] by (auto simp: body_def)
  from assms(1) have v: "valid_blob m (blob h)" "c_int (offset h)" by (simp_all add: valid_handle_def)
  from fdt_ro_probe_valid [OF v(1) assms(2)] assms(3) fdt32_ld_range [of m "blob h + 4" n] assms(2)
  have "fdt_ro_probe m (blob h) = Some n" "0 \<le> n" by (auto simp: fdt_totalsize_def)
  then have call: "fdt_node_offset_by_compatible m (blob h) (offset h) str = for_each_node m (blob h) (offset h) body"
    by (simp add: fdt_node_offset_by_compatible_def body_def)
  have "(\<exists>q x. for_each_node m (blob h) (offset h) body = Some x \<and> later_node m (blob h) (offset h) q \<and>
      body q = Some (Some x) \<and> (\<forall>q'. later_node m (blob h) (offset h) q' \<and> q' < q \<longrightarrow> body q' = Some None)) \<or>
    (\<exists>e < 0. for_each_node m (blob h) (offset h) body = Some e \<and>
      (\<forall>q. later_node m (blob h) (offset h) q \<longrightarrow> body q = Some None))"
    using b by (intro for_each_node_first [OF v]) simp
  then show ?thesis
  proof (elim disjE exE conjE)
    fix q x
    assume q: "for_each_node m (blob h) (offset h) body = Some x" "later_node m (blob h) (offset h) q"
      "body q = Some (Some x)" and l: "\<forall>q'. later_node m (blob h) (offset h) q' \<and> q' < q \<longrightarrow> body q' = Some None"
    from b [OF q(2)] q(3) have x: "str \<in> set (ss q)" "x = q" by (simp_all split: if_split_asm)
    have "0 \<le> q" using later_node_c_int [OF q(2)] by simp
    moreover have "q \<le> q'" if "later_node m (blob h) (offset h) q'" "str \<in> set (ss q')" for q'
      using l b [OF that(1)] that by (auto simp: not_less [symmetric])
    ultimately show ?thesis using q x call
      by (intro disjI1 exI [of _ q]) (simp add: fdt_get_next_node_handle_for_compatible_def)
  next
    fix e :: int
    assume e: "e < 0" "for_each_node m (blob h) (offset h) body = Some e"
      and l: "\<forall>q. later_node m (blob h) (offset h) q \<longrightarrow> body q = Some None"
    have "str \<notin> set (ss q)" if "later_node m (blob h) (offset h) q" for q
      using l b [OF that] that by (auto split: if_split_asm)
    then show ?thesis using e call
      by (intro disjI2 exI [of _ e]) (simp add: fdt_get_next_node_handle_for_compatible_def)
  qed
qed

text \<open>A driver's loop of up to \<open>k\<close> calls: the offsets it comes to before the first error.\<close>

fun compatible_calls :: "mem \<Rightarrow> byte list \<Rightarrow> nat \<Rightarrow> fdt_node_handle \<Rightarrow> int list option" where
  "compatible_calls m str 0 h = Some []"
| "compatible_calls m str (Suc k) h = do {
     (r, nd) \<leftarrow> fdt_get_next_node_handle_for_compatible m (Some h) (Some str);
     if r \<noteq> NOERROR then Some []
     else do { h' \<leftarrow> nd; qs \<leftarrow> compatible_calls m str k h'; Some (offset h' # qs) } }"

text \<open>The list is the sorted list of the compatible nodes behind the handle.\<close>

definition compatible_list :: "mem \<Rightarrow> fdt_node_handle \<Rightarrow> byte list \<Rightarrow> (int \<Rightarrow> byte list list) \<Rightarrow> int list \<Rightarrow> bool" where
  "compatible_list m h str ss qs \<longleftrightarrow> sorted_wrt (<) qs \<and>
     set qs = {q. later_node m (blob h) (offset h) q \<and> str \<in> set (ss q)}"

lemma compatible_list_Cons:
  assumes q: "later_node m (blob h) (offset h) q" "str \<in> set (ss q)"
    and least: "\<forall>q'. later_node m (blob h) (offset h) q' \<and> str \<in> set (ss q') \<longrightarrow> q \<le> q'"
    and qs: "compatible_list m (h \<lparr> offset := q \<rparr>) str ss qs"
  shows "compatible_list m h str ss (q # qs)"
proof -
  have "0 \<le> q" using later_node_c_int [OF q(1)] by simp
  then have "\<forall>r\<in>set qs. q < r" using qs later_node_less by (auto simp: compatible_list_def)
  moreover have "later_node m (blob h) (offset h) r \<and> str \<in> set (ss r) \<longleftrightarrow>
      r = q \<or> later_node m (blob h) q r \<and> str \<in> set (ss r)" for r
    using q least later_node_trans [OF q(1), of r] later_node_ahead [OF q(1), of r]
    by (auto simp: order.order_iff_strict)
  ultimately show ?thesis using qs by (auto simp: compatible_list_def)
qed

lemma calls_come_to_all:
  assumes "valid_handle m h" and "fdt_totalsize m (blob h) = Some n" and "n < INT_MAX"
    and "str \<noteq> []" and "0 \<notin> set str"
    and "\<forall>q. later_node m (blob h) (offset h) q \<longrightarrow> compatible_with m (blob h) q (ss q)"
  shows "\<exists>qs. compatible_list m h str ss qs \<and> (\<forall>k. compatible_calls m str k h = Some (take k qs))"
  using assms(1,2,6)
proof (induction "nat (INT_MAX - offset h)" arbitrary: h rule: less_induct)
  case less
  from next_compatible [OF less.prems(1,2) assms(3-5) less.prems(3)] show ?case
  proof (elim disjE exE conjE)
    fix q
    let ?h = "h \<lparr> offset := q \<rparr>"
    assume c: "fdt_get_next_node_handle_for_compatible m (Some h) (Some str) = Some (NOERROR, Some ?h)"
      and q: "later_node m (blob h) (offset h) q" "str \<in> set (ss q)"
      and least: "\<forall>q'. later_node m (blob h) (offset h) q' \<and> str \<in> set (ss q') \<longrightarrow> q \<le> q'"
    note qc = later_node_c_int [OF q(1)]
    have "offset h < q" using later_node_less [OF q(1)] qc by linarith
    then have "nat (INT_MAX - offset ?h) < nat (INT_MAX - offset h)" using qc by (simp add: c_int_def)
    moreover have "valid_handle m ?h" using less.prems(1) qc by (simp add: valid_handle_def)
    ultimately obtain qs where qs: "compatible_list m ?h str ss qs"
      "\<forall>k. compatible_calls m str k ?h = Some (take k qs)"
      using less.hyps [of ?h] less.prems(2,3) later_node_trans [OF q(1)] by auto
    have "compatible_calls m str k h = Some (take k (q # qs))" for k
      using c qs(2) by (cases k) simp_all
    with compatible_list_Cons [OF q least qs(1)] show ?thesis by blast
  next
    fix e :: int
    assume e: "e < 0" "fdt_get_next_node_handle_for_compatible m (Some h) (Some str) = Some (Ret e, Some h)"
      and none: "\<forall>q. later_node m (blob h) (offset h) q \<longrightarrow> str \<notin> set (ss q)"
    have "compatible_calls m str k h = Some (take k [])" for k using e by (cases k) simp_all
    moreover have "compatible_list m h str ss []" using none by (auto simp: compatible_list_def)
    ultimately show ?thesis by blast
  qed
qed

text \<open>
  C8: let every node behind the handle have no \<open>compatible\<close> property or one that libfdt can read as
  a list of terminated strings (\<open>compatible_with\<close>), and let the blob be smaller than \<open>INT_MAX\<close>.
  Then \<open>fdt_get_next_node_handle_for_compatible\<close> moves the handle to the first node behind it, in
  the order of the tree, that has the string in its list, and gives an error with the handle as it
  was when there is none; and repeated calls come to every compatible node, each once and in order:
  the first \<open>k\<close> calls give the first \<open>k\<close> of them, and a further call ends the loop.
\<close>

theorem compatible_node_is_reached:
  assumes "valid_handle m h" and "fdt_totalsize m (blob h) = Some n" and "n < INT_MAX"
    and "str \<noteq> []" and "0 \<notin> set str"
    and "\<And>q. later_node m (blob h) (offset h) q \<Longrightarrow> compatible_with m (blob h) q (ss q)"
  shows "\<exists>qs. sorted_wrt (<) qs \<and>
    set qs = {q. later_node m (blob h) (offset h) q \<and> str \<in> set (ss q)} \<and>
    (\<forall>k. compatible_calls m str k h = Some (take k qs)) \<and>
    (case qs of
       [] \<Rightarrow> \<exists>e < 0. fdt_get_next_node_handle_for_compatible m (Some h) (Some str) = Some (Ret e, Some h)
     | q # _ \<Rightarrow> fdt_get_next_node_handle_for_compatible m (Some h) (Some str) =
         Some (NOERROR, Some (h \<lparr> offset := q \<rparr>)))"
proof -
  have w: "\<forall>q. later_node m (blob h) (offset h) q \<longrightarrow> compatible_with m (blob h) q (ss q)"
    using assms(6) by blast
  from calls_come_to_all [OF assms(1-5) w] obtain qs where
    qs: "compatible_list m h str ss qs" "\<forall>k. compatible_calls m str k h = Some (take k qs)" by blast
  from next_compatible [OF assms(1-5) w] qs spec [OF qs(2), of 1] show ?thesis
    by (intro exI [of _ qs]) (auto simp: compatible_list_def split: list.split)
qed

lemma driver_walk:
  "fdt_next_node driver_mem driver_blob 0 None = Some (8, None)"
  "fdt_next_node driver_mem driver_blob 8 None = Some (40, None)"
  "fdt_next_node driver_mem driver_blob 40 None = Some (- 1, None)"
  by code_simp+

lemma driver_later: "later_node driver_mem driver_blob 0 q \<longleftrightarrow> q = 8 \<or> q = 40"
  by (simp add: later_node_step [OF driver_walk(1)] later_node_step [OF driver_walk(2)]
      later_node_step [OF driver_walk(3)])

lemma driver_compatible:
  "compatible_with driver_mem driver_blob 8 []"
  "compatible_with driver_mem driver_blob 40 [[118, 44, 117, 97, 114, 116], [110, 115, 49, 54, 53, 53, 48]]"
proof -
  have "fdt_getprop driver_mem driver_blob 8 (chars ''compatible'') = Some (NULL, - FDT_ERR_NOTFOUND)"
    by code_simp
  then show "compatible_with driver_mem driver_blob 8 []" by (simp add: compatible_with_def)
  let ?bs = "[118, 44, 117, 97, 114, 116, 0, 110, 115, 49, 54, 53, 53, 48, 0] :: byte list"
  have "fdt_getprop driver_mem driver_blob 40 (chars ''compatible'') = Some (8312, int (length ?bs))"
    "rd_bytes driver_mem 8312 (length ?bs) = Some ?bs" by code_simp+
  moreover have "mapped driver_mem 8312 (int (length ?bs) + 1)"
    by (auto intro: mapped_sub [OF driver_mapped])
  moreover have "c_strings ?bs = [[118, 44, 117, 97, 114, 116], [110, 115, 49, 54, 53, 53, 48]]"
    by (simp add: c_strings_unfold)
  ultimately show "compatible_with driver_mem driver_blob 40 [[118, 44, 117, 97, 114, 116], [110, 115, 49, 54, 53, 53, 48]]"
    unfolding compatible_with_def by (intro disjI2 exI [of _ 8312] exI [of _ ?bs]) simp
qed

theorem compatible_node_is_reached_witness:
  "fdt_get_next_node_handle_for_compatible driver_mem (Some \<lparr> blob = driver_blob, offset = 0 \<rparr>) (Some (chars ''ns16550'')) =
     Some (NOERROR, Some uart_node) \<and>
   compatible_calls driver_mem (chars ''ns16550'') 5 \<lparr> blob = driver_blob, offset = 0 \<rparr> = Some [40]"
proof -
  let ?h = "\<lparr> blob = driver_blob, offset = 0 \<rparr>"
  let ?ss = "\<lambda>q. if q = 40 then [[118, 44, 117, 97, 114, 116], [110, 115, 49, 54, 53, 53, 48]] else [] :: byte list list"
  have s: "chars ''ns16550'' = [110, 115, 49, 54, 53, 53, 48]" by code_simp
  have h: "valid_handle driver_mem ?h" by (simp add: valid_handle_def driver_valid c_int_def)
  have n: "fdt_totalsize driver_mem (blob ?h) = Some 232" by code_simp
  have c: "compatible_with driver_mem (blob ?h) q (?ss q)" if "later_node driver_mem (blob ?h) (offset ?h) q" for q
    using that driver_compatible by (auto simp: driver_later)
  from compatible_node_is_reached [OF h n _ _ _ c, of "chars ''ns16550''"] obtain qs where
    qs: "sorted_wrt (<) qs" "set qs = {40}"
      "\<forall>k. compatible_calls driver_mem (chars ''ns16550'') k ?h = Some (take k qs)"
      "case qs of [] \<Rightarrow> \<exists>e < 0. fdt_get_next_node_handle_for_compatible driver_mem (Some ?h) (Some (chars ''ns16550'')) =
          Some (Ret e, Some ?h)
        | q # _ \<Rightarrow> fdt_get_next_node_handle_for_compatible driver_mem (Some ?h) (Some (chars ''ns16550'')) =
          Some (NOERROR, Some (?h \<lparr> offset := q \<rparr>))"
    by (auto simp: s driver_later split: if_split_asm)
  from qs(1,2) have "qs = [40]" by (cases qs rule: remdups_adj.cases) auto
  with qs(3,4) show ?thesis by simp
qed

section \<open>The full check\<close>

text \<open>
  C7: \<open>fdt_check_full\<close> accepts a buffer exactly when the buffer holds the header it declares, the
  header is good, the buffer holds the whole blob, the memory reservations have an end, and the
  structure block is derived by the grammar of nested nodes (\<open>structure_block\<close>).
\<close>

theorem check_full_iff:
  assumes "0 < fdt"
  shows "fdt_check_full m fdt bufsize = Some 0 \<longleftrightarrow>
    28 \<le> bufsize \<and> (\<exists>h. fdt_header_size m fdt = Some h \<and> h \<le> bufsize) \<and>
    fdt_check_header m fdt = Some 0 \<and> (\<exists>n. fdt_totalsize m fdt = Some n \<and> n \<le> bufsize) \<and>
    (\<exists>k. reservations m fdt 0 k) \<and> structure_block m fdt 0"
proof -
  have s: "check_full_loop m fdt 0 0 False = Some 0 \<longleftrightarrow> structure_block m fdt 0"
    using check_loop_sound [OF _ assms] check_loop_complete by blast
  have r: "reservations m fdt 0 k \<longleftrightarrow> fdt_num_mem_rsv m fdt = Some k \<and> 0 \<le> k" for k
    using num_mem_rsv_iff [of 0 m fdt k] by (simp add: fdt_num_mem_rsv_def)
  show ?thesis
    unfolding fdt_check_full_def r s [symmetric]
    by (auto simp: bind_eq_Some_conv not_less split: if_splits)
qed

theorem check_full_iff_witness:
  "structure_block driver_mem driver_blob 0 \<and> fdt_check_full driver_mem driver_blob 231 \<noteq> Some 0"
proof -
  have c: "fdt_check_full driver_mem driver_blob 232 = Some 0" by code_simp
  have n: "fdt_totalsize driver_mem driver_blob = Some 232" by code_simp
  from c n check_full_iff [of driver_blob driver_mem 232] check_full_iff [of driver_blob driver_mem 231]
  show ?thesis by simp
qed

end
