(* ===== verification/Write_Props.thy ===== *)
theory Write_Props
  imports Fdt_Store Fdt_Open Ext_Create Driver_Props
begin

text \<open>
  The properties of the write access: edits of the properties of a node, new nodes, lists of
  numbers written and read back, and moving a tree to a larger buffer.
\<close>

section \<open>Trees that are written are valid\<close>

lemma layout_valid_blob:
  assumes "layout m fdt ts os ot S T"
  shows "valid_blob m fdt"
proof -
  note l' = layout_fields [OF assms]
  from assms obtain lc r where f: "fdt_last_comp_version m fdt = Some lc" "lc \<le> 17" "fdt mod 8 = 0"
    "fdt_off_mem_rsvmap m fdt = Some r" "40 \<le> r" "r + 16 \<le> os" unfolding layout_def by auto
  have "u32 (os + int (length S)) = os + int (length S)" "u32 (ot + int (length T)) = ot + int (length T)"
    using l' by (auto intro!: u32_id)
  then have "fdt_check_header m fdt = Some 0" using l' f
    by (simp add: fdt_check_header_def fdt_header_size_def fdt_header_size_of_def struct_size_v17_def
        check_blocks_def check_off_def check_block_def)
  with l' show ?thesis by (simp add: valid_blob_def)
qed

lemma node_at_valid:
  assumes "node_at (blob h) ts os (offset h) m ps"
  shows "valid_handle m h"
proof -
  from assms obtain ot pre he post T where v: "node_view m (blob h) ts os ot pre he ps post T" "offset h = int (length pre)"
    unfolding node_at_def by (elim exE conjE) (rule that)
  then obtain bs where l: "layout m (blob h) ts os ot (pre @ he @ bs @ post) T" unfolding node_view_def by blast
  note l' = layout_fields [OF l]
  have "int (length pre) < INT_MAX" using l' by simp
  with layout_valid_blob [OF l] v(2) show ?thesis by (simp add: valid_handle_def c_int_def)
qed

lemma lookup_prop_bytes:
  "fdt_lookup (blob h) (offset h) m name = Some (Some bs) \<Longrightarrow> valid_handle m h \<Longrightarrow> prop_bytes m h name = Some bs"
  by (auto simp: fdt_lookup_def prop_bytes_def split: option.splits if_splits bind_splits)

section \<open>Numbers written and read back\<close>

text \<open>
  A list of values below \<open>256 ^ w\<close> that \<open>add_prop_list\<close> stored is what the reader of the same width
  returns; when it reports an error the properties are as before.
\<close>

lemma add_prop_list_read:
  assumes at: "node_at (blob h) ts os (offset h) m ps" and name: "0 \<notin> set name" "int (length name) < INT_MAX"
    and vals: "\<And>v. v \<in> set vals \<Longrightarrow> 0 \<le> v \<and> v < 256 ^ w" "w * length vals \<le> 1000000000"
    and w: "0 < w" and sel: "sel \<noteq> dt_boolean" "width sel = w"
  shows "\<exists>c vals' m'. add_prop_list w m (Some h) (Some name) (Some vals) (int (length vals)) = Some (Ret c, Some vals', m') \<and>
    kept m m' (blob h) os ts \<and>
    (c = 0 \<longrightarrow> fdt_get_uintX_prop_list m' (Some h) (Some name) True (int (w * length vals)) 0 0 sel = Some (NOERROR, Some vals)) \<and>
    (c \<noteq> 0 \<longrightarrow> node_at (blob h) ts os (offset h) m' ps)"
proof -
  define vs where "vs = map (cpu_to_fdt w) vals"
  define bs where "bs = array_bytes w vs"
  have lb: "length bs = w * length vals" by (simp add: bs_def vs_def array_bytes_length)
  have n: "int (length vals) \<le> 1000000000"
  proof -
    have "length vals \<le> w * length vals" using w by simp
    with vals(2) show ?thesis by linarith
  qed
  have sz: "s32 (int (length vals) * int w) = int (length bs)"
    using lb vals(2) by (simp add: mult.commute s32_id flip: of_nat_mult)
  have "int (length bs) \<le> 1000000000" using lb vals(2) by linarith
  with name have "fdt_edit_ok (Setprop name bs)" by simp
  from fdt_edit_step [OF at this] obtain c m' where
    m': "fdt_setprop m (blob h) (offset h) name bs (int (length bs)) = Some (c, m')" "kept m m' (blob h) os ts"
      "node_at (blob h) ts os (offset h) m' (if c = 0 then set_prop name bs ps else ps)"
    unfolding fdt_edit.simps edit_effect.simps by blast
  have add: "add_prop_list w m (Some h) (Some name) (Some vals) (int (length vals)) = Some (Ret c, Some vs, m')"
    using n m'(1) sz by (simp add: add_prop_list_def vs_def bs_def)
  have "fdt_get_uintX_prop_list m' (Some h) (Some name) True (int (w * length vals)) 0 0 sel = Some (NOERROR, Some vals)"
    if "c = 0"
  proof -
    from m'(3) that have at': "node_at (blob h) ts os (offset h) m' (set_prop name bs ps)" by simp
    from node_at_lookup [OF this, of name] node_at_valid [OF at'] have pb: "prop_bytes m' h name = Some bs"
      by (intro lookup_prop_bytes) (simp_all add: map_of_set_prop)
    have "map (\<lambda>v. v mod 256 ^ w) vals = vals"
      by (rule map_idI) (simp add: vals(1))
    then have "be_elems w bs = vals" using be_elems_array [OF w, of vals] by (simp add: bs_def vs_def)
    moreover have "int (w * length vals) \<le> 2147483647" using vals(2) by linarith
    ultimately show ?thesis
      using uintX_prop_list_spec [OF node_at_valid [OF at'] pb sel(1), of "w * length vals"] sel(2) lb w
      by (simp add: read_spec_def del: of_nat_mult)
  qed
  with add m'(2,3) show ?thesis by (intro exI [of _ c] exI [of _ vs] exI [of _ m']) (cases "c = 0"; simp)
qed

section \<open>A tree that can be edited\<close>

text \<open>The tree of the driver queries in a buffer of 272 bytes.\<close>

definition edit_mem :: mem where
  "edit_mem = driver_mem(8198 := Some 1, 8199 := Some 16)"

definition edit_strings :: "byte list" where
  "edit_strings = chars ''reg'' @ [0] @ chars ''compatible'' @ [0] @ chars ''reg-names'' @ [0]"

definition uart_props :: "(byte list \<times> byte list) list" where
  "uart_props =
     [(chars ''compatible'', chars ''v,uart'' @ [0] @ chars ''ns16550'' @ [0]),
      (chars ''reg-names'', chars ''ctl'' @ [0] @ chars ''dat'' @ [0]),
      (chars ''reg'', [0, 0, 0, 1, 0, 0, 32, 0, 0, 0, 0, 16, 0, 0, 0, 1, 0, 0, 48, 0, 0, 0, 0, 32])]"

definition uart_head :: "byte list" where
  "uart_head = be32 FDT_BEGIN_NODE @ chars ''uart'' @ [0] @ [0, 0, 0]"

definition uart_before :: "byte list" where
  "uart_before = be32 FDT_BEGIN_NODE @ [0, 0, 0, 0] @ be32 FDT_BEGIN_NODE @ chars ''mem'' @ [0] @
     be32 FDT_PROP @ be32 8 @ be32 0 @ be32 1 @ be32 0 @ be32 FDT_END_NODE"

definition encoded :: "nat \<Rightarrow> byte list \<Rightarrow> byte list" where
  "encoded k v = be32 FDT_PROP @ be32 (int (length v)) @ be32 (int k) @ v @ replicate (talign (length v) - length v) 0"

definition uart_enc :: "byte list" where
  "uart_enc = encoded 4 (snd (uart_props ! 0)) @ encoded 15 (snd (uart_props ! 1)) @ encoded 0 (snd (uart_props ! 2)) @ []"

definition uart_after :: "byte list" where
  "uart_after = be32 FDT_END_NODE @ be32 FDT_END_NODE @ be32 FDT_END"

lemma edit_layout:
  "layout edit_mem driver_blob 272 56 204 (uart_before @ uart_head @ uart_enc @ uart_after) edit_strings"
proof -
  let ?S = "uart_before @ uart_head @ uart_enc @ uart_after"
  have h: "fdt_magic edit_mem driver_blob = Some FDT_MAGIC" "fdt_version edit_mem driver_blob = Some 17"
    "fdt_last_comp_version edit_mem driver_blob = Some 16" "fdt_totalsize edit_mem driver_blob = Some 272"
    "fdt_off_dt_struct edit_mem driver_blob = Some 56" "fdt_off_dt_strings edit_mem driver_blob = Some 204"
    "fdt_off_mem_rsvmap edit_mem driver_blob = Some 40" "fdt_size_dt_struct edit_mem driver_blob = Some 148"
    "fdt_size_dt_strings edit_mem driver_blob = Some 25" by code_simp+
  have l: "length ?S = 148" "length edit_strings = 25" by code_simp+
  have "rd_bytes edit_mem 8248 148 = Some ?S" "rd_bytes edit_mem 8396 25 = Some edit_strings" by code_simp+
  moreover have "mapped edit_mem driver_blob 272" using driver_mapped by (auto simp: mapped_def edit_mem_def)
  ultimately show ?thesis using h unfolding layout_def l by simp
qed

lemma encoded_enc: "name_at T k n \<Longrightarrow> prop_enc T n v (encoded k v)"
  using talign_bounds(1) [of "length v"] unfolding prop_enc_def encoded_def by (intro exI conjI refl) auto

lemma uart_props_enc: "props_enc edit_strings uart_props uart_enc"
proof -
  have "name_at edit_strings 4 (chars ''compatible'')" "name_at edit_strings 15 (chars ''reg-names'')"
    "name_at edit_strings 0 (chars ''reg'')" by code_simp+
  then show ?thesis unfolding uart_enc_def uart_props_def
    by (intro props_enc.intros) (simp_all add: encoded_enc)
qed

lemma uart_view: "node_view edit_mem driver_blob 272 56 204 uart_before uart_head uart_props uart_after edit_strings"
proof -
  have "node_head (chars ''uart'') uart_head" unfolding node_head_def
    by (rule exI [of _ "[0, 0, 0]"]) code_simp
  moreover have "props_end uart_after" unfolding props_end_def uart_after_def by blast
  moreover have "length uart_before mod 4 = 0" by code_simp
  ultimately show ?thesis using edit_layout uart_props_enc unfolding node_view_def
    by (intro exI [of _ uart_enc] exI [of _ "chars ''uart''"] conjI)
qed

lemma uart_at: "node_at driver_blob 272 56 40 edit_mem uart_props"
proof -
  have "(40 :: int) = int (length uart_before)" by code_simp
  then show ?thesis by (intro node_atI [OF uart_view]) simp_all
qed

section \<open>Edits of the properties of a node\<close>

text \<open>
  C9: a sequence of the calls \<open>fdt_setprop\<close>, \<open>fdt_setprop_inplace\<close>, \<open>fdt_appendprop\<close>,
  \<open>fdt_delprop\<close> and \<open>fdt_nop_property\<close> on a node of a tree is defined, writes nothing outside the
  blocks of the tree, and \<open>fdt_getprop\<close> afterwards returns for every name what the same edits of a
  list of names and values give; an edit that reports an error, for lack of space or of the
  property, has no effect.
\<close>

theorem edits_refine_list:
  assumes "node_at fdt ts os off m ps" and "\<forall>e\<in>set es. fdt_edit_ok e"
  shows "\<exists>cs m'. run_edits (fdt_edit fdt off) es m = Some (cs, m') \<and> length cs = length es \<and>
    kept m m' fdt os ts \<and>
    (\<forall>name. fdt_lookup fdt off m' name = Some (map_of (run_effects edit_effect es cs ps) name))"
  by (rule fdt_store.edits_get [OF assms(1)]) (use assms(2) in blast)

theorem edits_refine_list_witness:
  "\<exists>cs m'. run_edits (fdt_edit driver_blob 40)
      [Setprop (chars ''irq'') [0, 0, 0, 7], Delprop (chars ''reg''), Appendprop (chars ''irq'') [1]] edit_mem = Some (cs, m') \<and>
    length cs = 3 \<and> kept edit_mem m' driver_blob 56 272"
proof -
  have "0 \<notin> set (chars ''irq'')" "length (chars ''irq'') = 3" by code_simp+
  then have "\<forall>e\<in>set [Setprop (chars ''irq'') [0, 0, 0, 7], Delprop (chars ''reg''), Appendprop (chars ''irq'') [1]]. fdt_edit_ok e"
    by simp
  from edits_refine_list [OF uart_at this] obtain cs m' where
    r: "run_edits (fdt_edit driver_blob 40)
      [Setprop (chars ''irq'') [0, 0, 0, 7], Delprop (chars ''reg''), Appendprop (chars ''irq'') [1]] edit_mem = Some (cs, m')"
      "length cs = 3" "kept edit_mem m' driver_blob 56 272" unfolding list.size by auto
  show ?thesis by (intro exI conjI) (rule r)+
qed

section \<open>Lists of numbers\<close>

text \<open>
  C11: a list of 16, 32 or 64 bit numbers that \<open>fdt_add_prop_list_u16\<close>, \<open>_u32\<close> or \<open>_u64\<close> stored in a
  node is returned by the reader of the same width; when the tree has no room, libfdt's error is
  returned and the node keeps its properties.
\<close>

theorem add_list_then_get:
  assumes "node_at (blob h) ts os (offset h) m ps" and "0 \<notin> set name" "int (length name) < INT_MAX"
    and "(w, add, get) \<in> {(2, fdt_add_prop_list_u16, fdt_get_uint16_prop_list),
      (4, fdt_add_prop_list_u32, fdt_get_uint32_prop_list), (8, fdt_add_prop_list_u64, fdt_get_uint64_prop_list)}"
    and "\<forall>v\<in>set vals. 0 \<le> v \<and> v < 256 ^ w" and "w * length vals \<le> 1000000000"
  shows "\<exists>c vals' m'. add m (Some h) (Some name) (Some vals) (int (length vals)) = Some (Ret c, Some vals', m') \<and>
    kept m m' (blob h) os ts \<and>
    (c = 0 \<longrightarrow> get m' (Some h) (Some name) True (int (w * length vals)) = Some (NOERROR, Some vals)) \<and>
    (c \<noteq> 0 \<longrightarrow> node_at (blob h) ts os (offset h) m' ps)"
proof -
  have r: "\<exists>c vals' m'. add_prop_list w m (Some h) (Some name) (Some vals) (int (length vals)) = Some (Ret c, Some vals', m') \<and>
      kept m m' (blob h) os ts \<and>
      (c = 0 \<longrightarrow> fdt_get_uintX_prop_list m' (Some h) (Some name) True (int (w * length vals)) 0 0 sel = Some (NOERROR, Some vals)) \<and>
      (c \<noteq> 0 \<longrightarrow> node_at (blob h) ts os (offset h) m' ps)" if "sel \<noteq> dt_boolean" "width sel = w" for sel
    using that assms(4,5) by (intro add_prop_list_read [OF assms(1-3) _ assms(6)]) auto
  from assms(4) consider "w = 2" "add = fdt_add_prop_list_u16" "get = fdt_get_uint16_prop_list"
    | "w = 4" "add = fdt_add_prop_list_u32" "get = fdt_get_uint32_prop_list"
    | "w = 8" "add = fdt_add_prop_list_u64" "get = fdt_get_uint64_prop_list" by auto
  then show ?thesis
  proof cases
    case 1
    show ?thesis unfolding 1 fdt_add_prop_list_u16_def fdt_get_uint16_prop_list_def by (rule r [unfolded 1]) simp_all
  next
    case 2
    show ?thesis unfolding 2 fdt_add_prop_list_u32_def fdt_get_uint32_prop_list_def by (rule r [unfolded 2]) simp_all
  next
    case 3
    show ?thesis unfolding 3 fdt_add_prop_list_u64_def fdt_get_uint64_prop_list_def by (rule r [unfolded 3]) simp_all
  qed
qed

theorem add_list_then_get_witness:
  "\<exists>c vals' m'. fdt_add_prop_list_u32 edit_mem (Some uart_node) (Some (chars ''irq'')) (Some [7, 4294967295]) 2 =
      Some (Ret c, Some vals', m') \<and> kept edit_mem m' driver_blob 56 272 \<and>
    (c = 0 \<longrightarrow> fdt_get_uint32_prop_list m' (Some uart_node) (Some (chars ''irq'')) True 8 = Some (NOERROR, Some [7, 4294967295])) \<and>
    (c \<noteq> 0 \<longrightarrow> node_at driver_blob 272 56 40 m' uart_props)"
proof -
  have "0 \<notin> set (chars ''irq'')" "length (chars ''irq'') = 3" by code_simp+
  with add_list_then_get [of uart_node 272 56 edit_mem uart_props "chars ''irq''" 4 fdt_add_prop_list_u32
      fdt_get_uint32_prop_list "[7, 4294967295]"] uart_at
  show ?thesis by simp
qed

section \<open>New nodes\<close>

text \<open>
  C10: \<open>fdt_add_node\<close> on a tree in which the parent has no subnode of that name either reports
  \<open>FDT_ERR_NOSPACE\<close> and leaves the memory as it was, or returns the offset of a node without
  properties which a search for the name in the parent finds; the properties of the parent are kept.
\<close>

theorem add_node_then_find:
  assumes "node_at (blob h) ts os (offset h) m ps" and "0 \<notin> set name" "47 \<notin> set name" "int (length name) \<le> 2147483000"
    and "fdt_subnode_offset m (blob h) (offset h) name = Some (- FDT_ERR_NOTFOUND)"
  shows "fdt_add_node m (Some h) (Some name) True = Some (Ret (- FDT_ERR_NOSPACE), None, m) \<or>
    (\<exists>off m'. fdt_add_node m (Some h) (Some name) True = Some (NOERROR, Some off, m') \<and>
       fdt_subnode_offset m' (blob h) (offset h) name = Some off \<and>
       node_at (blob h) ts os off m' [] \<and> node_at (blob h) ts os (offset h) m' ps \<and> kept m m' (blob h) os ts)"
proof -
  from assms(1) obtain ot pre he post T where v: "node_view m (blob h) ts os ot pre he ps post T"
    and off: "offset h = int (length pre)" and ts: "ts \<le> 1000000000" unfolding node_at_def by (elim exE conjE) (rule that)
  have red: "fdt_add_node m (Some h) (Some name) True = do {
      (r, m) \<leftarrow> fdt_add_subnode m (blob h) (offset h) name;
      if r \<ge> 0 then Some (NOERROR, Some r, m) else Some (Ret r, None, m) }"
    using assms(3) off by (simp add: fdt_add_node_def)
  from node_view_add_subnode [OF v assms(2,4) assms(5) [unfolded off]] show ?thesis unfolding off [symmetric]
  proof (elim disjE exE conjE, goal_cases)
    case (1 m' ot' pre' he')
    have "fdt_add_node m (Some h) (Some name) True = Some (NOERROR, Some (int (length pre')), m')" using 1 by (simp add: red)
    with 1 node_atI [OF 1(3) off ts] node_atI [OF 1(5) refl ts] show ?case by blast
  qed (simp add: red)
qed

theorem add_node_then_find_witness:
  "fdt_add_node edit_mem (Some uart_node) (Some (chars ''dma'')) True = Some (Ret (- FDT_ERR_NOSPACE), None, edit_mem) \<or>
    (\<exists>off m'. fdt_add_node edit_mem (Some uart_node) (Some (chars ''dma'')) True = Some (NOERROR, Some off, m') \<and>
       fdt_subnode_offset m' driver_blob 40 (chars ''dma'') = Some off \<and>
       node_at driver_blob 272 56 off m' [] \<and> node_at driver_blob 272 56 40 m' uart_props \<and>
       kept edit_mem m' driver_blob 56 272)"
proof -
  have "0 \<notin> set (chars ''dma'')" "47 \<notin> set (chars ''dma'')" "length (chars ''dma'') = 3" by code_simp+
  moreover have "fdt_subnode_offset edit_mem driver_blob 40 (chars ''dma'') = Some (- FDT_ERR_NOTFOUND)" by code_simp
  ultimately show ?thesis using add_node_then_find [of uart_node 272 56 edit_mem uart_props "chars ''dma''"] uart_at by simp
qed

section \<open>A larger buffer\<close>

text \<open>
  C12: \<open>fdt_open_into\<close> of a tree of version 17 (\<open>blocks\<close>: a good header and the list of
  reservations with its terminator, the structure and the strings anywhere inside the tree)
  into a writable buffer, aligned to 8 bytes and smaller than \<open>INT_MAX\<close>, apart from the tree
  or overlapping it, also in place, that is large enough, gives a writable tree of the size of
  the buffer with the same reservations, structure and strings, and writes nothing outside the
  buffer. Blocks that are in order keep their offsets and everything between the header and
  the structure, and nothing behind the copy is written; other blocks are packed behind the
  header, the reservations first, which needs room behind a tree that the buffer overlaps
  (\<open>pack_room\<close>).
\<close>

theorem open_into_copies:
  assumes "blocks m fdt ts r R os S ot T"
    and "0 < buf" "buf mod 8 = 0" "mapped m buf bufsize" "bufsize < INT_MAX"
    and "if in_order r R os S ot then ts \<le> bufsize
      else pack_room fdt ts buf bufsize (40 + int (length R) + int (length S) + int (length T))"
  shows "\<exists>m' r' os' ot'. fdt_open_into m fdt buf bufsize = Some (0, m') \<and> layout m' buf bufsize os' ot' S T \<and>
    fdt_off_mem_rsvmap m' buf = Some r' \<and> rd_bytes m' (buf + r') (length R) = Some R \<and>
    (\<forall>x. x < buf \<or> buf + bufsize \<le> x \<longrightarrow> m' x = m x) \<and>
    (if in_order r R os S ot
     then r' = r \<and> os' = os \<and> ot' = ot \<and> (\<forall>x. buf + ts \<le> x \<longrightarrow> m' x = m x) \<and>
       (\<forall>i. 40 \<le> i \<and> i < os \<longrightarrow> m' (buf + i) = m (fdt + i))
     else r' = 40 \<and> os' = 40 + int (length R) \<and> ot' = 40 + int (length R) + int (length S))"
  by (rule open_any_ok [OF assms])

text \<open>
  A tree with one empty node whose strings are in front of its reservations, and these in front of
  the structure. It is opened in place; the blob of the drivers is opened in its own buffer.
\<close>

definition mixed_bytes :: "byte list" where
  "mixed_bytes =
     [208, 13, 254, 237, 0, 0, 0, 80, 0, 0, 0, 64, 0, 0, 0, 40, 0, 0, 0, 48, 0, 0, 0, 17, 0, 0, 0, 16, 0, 0, 0, 0,
      0, 0, 0, 4, 0, 0, 0, 16, 114, 101, 103, 0, 0, 0, 0, 0, 0, 0, 0, 0, 0, 0, 0, 0, 0, 0, 0, 0, 0, 0, 0, 0,
      0, 0, 0, 1, 0, 0, 0, 0, 0, 0, 0, 2, 0, 0, 0, 9]"

definition mixed_mem :: mem where
  "mixed_mem a = (if 4096 \<le> a \<and> a < 4256 then Some (if a < 4176 then mixed_bytes ! nat (a - 4096) else 0) else None)"

definition mixed_struct :: "byte list" where "mixed_struct = [0, 0, 0, 1, 0, 0, 0, 0, 0, 0, 0, 2, 0, 0, 0, 9]"
definition mixed_strings :: "byte list" where "mixed_strings = [114, 101, 103, 0]"

lemma mixed_mapped: "mapped mixed_mem 4096 160"
  by (simp add: mapped_def mixed_mem_def)

lemma mixed_blocks:
  "blocks mixed_mem 4096 80 48 (replicate 16 0) 64 mixed_struct 40 mixed_strings"
proof -
  have "fdt_magic mixed_mem 4096 = Some FDT_MAGIC" "fdt_version mixed_mem 4096 = Some 17"
    "fdt_last_comp_version mixed_mem 4096 = Some 16" "fdt_totalsize mixed_mem 4096 = Some 80"
    "fdt_off_mem_rsvmap mixed_mem 4096 = Some 48" "fdt_off_dt_struct mixed_mem 4096 = Some 64"
    "fdt_off_dt_strings mixed_mem 4096 = Some 40" "fdt_size_dt_struct mixed_mem 4096 = Some 16"
    "fdt_size_dt_strings mixed_mem 4096 = Some 4" "fdt_num_mem_rsv mixed_mem 4096 = Some 0"
    "length mixed_struct = 16" "length mixed_strings = 4" by code_simp+
  moreover have "rd_bytes mixed_mem 4144 16 = Some (replicate 16 0)"
    "rd_bytes mixed_mem 4160 16 = Some mixed_struct"
    "rd_bytes mixed_mem 4136 4 = Some mixed_strings" by code_simp+
  moreover have "mapped mixed_mem 4096 80" by (rule mapped_sub [OF mixed_mapped]) simp_all
  ultimately show ?thesis by (simp add: blocks_def)
qed

lemma edit_blocks:
  "blocks edit_mem driver_blob 272 40 (replicate 16 0) 56 (uart_before @ uart_head @ uart_enc @ uart_after) 204 edit_strings"
proof -
  note l = layout_fields [OF edit_layout]
  have "fdt_num_mem_rsv edit_mem driver_blob = Some 0" "fdt_off_mem_rsvmap edit_mem driver_blob = Some 40"
    "rd_bytes edit_mem 8232 16 = Some (replicate 16 0)" by code_simp+
  moreover have "\<exists>lc. fdt_last_comp_version edit_mem driver_blob = Some lc \<and> lc \<le> 17"
    using edit_layout by (auto simp: layout_def)
  ultimately show ?thesis using l unfolding blocks_def by auto
qed

theorem open_into_copies_witness:
  "(\<exists>m'. fdt_open_into mixed_mem 4096 4096 160 = Some (0, m') \<and> rd_bytes m' 4136 16 = Some (replicate 16 0) \<and>
     layout m' 4096 160 56 72 mixed_struct mixed_strings) \<and>
   (\<exists>m'. fdt_open_into edit_mem driver_blob 8192 272 = Some (0, m') \<and>
     layout m' 8192 272 56 204 (uart_before @ uart_head @ uart_enc @ uart_after) edit_strings)"
proof -
  have "mapped edit_mem driver_blob 272" by (rule layout_fields(13) [OF edit_layout])
  moreover have "length (uart_before @ uart_head @ uart_enc @ uart_after) = 148" by code_simp
  moreover have "length mixed_struct = 16" "length mixed_strings = 4" by code_simp+
  ultimately show ?thesis
    using open_into_copies [OF mixed_blocks _ _ mixed_mapped] open_into_copies [OF edit_blocks, of 8192 272]
    by (auto simp: in_order_def pack_room_def)
qed

end
