(* ===== verification/DT_Env.thy ===== *)
theory DT_Env
  imports DT_Prelude
begin

text \<open>
  The environment of the selection library (\<open>Environment/dt_select_env.c\<close>): the wrappers of
  the allocator, \<open>memcpy\<close> and the format string translation, for the two targets.

  The allocators behind the wrappers are not part of the sources. They are a function \<open>al\<close>:
  request number \<open>k\<close> for \<open>n\<close> bytes is answered by the address \<open>al k n\<close>, NULL when it fails.
  The heap records the live allocations, so that a release of memory that is not allocated is
  undefined (\<open>None\<close>) and a leak is visible.
\<close>

datatype target = XBL | UEFI

datatype mem_kind = Pool | Pages

record heap =
  target :: target
  requests :: nat
  live :: "(addr \<times> mem_kind) list"

abbreviation (input) SIZE_4KB :: int where "SIZE_4KB \<equiv> 4096"

definition kind_of :: "target \<Rightarrow> int \<Rightarrow> mem_kind" where
  "kind_of t n = (if t = UEFI \<and> n \<ge> SIZE_4KB then Pages else Pool)"

definition MALLOC_WRAPPER :: "(nat \<Rightarrow> int \<Rightarrow> addr) \<Rightarrow> heap \<Rightarrow> int \<Rightarrow> addr \<times> heap" where
  "MALLOC_WRAPPER al hp n =
     (let p = al (requests hp) n
      in (p, hp \<lparr> requests := requests hp + 1,
                  live := (if p = NULL then live hp else (p, kind_of (target hp) n) # live hp) \<rparr>))"

definition release :: "addr \<Rightarrow> mem_kind \<Rightarrow> heap \<Rightarrow> heap option" where
  "release p k hp = (if (p, k) \<in> set (live hp) then Some (hp \<lparr> live := remove1 (p, k) (live hp) \<rparr>) else None)"

text \<open>
  On UEFI a large block is released as pages and then, with no \<open>else\<close>, as pool memory again.
\<close>

definition FREE_WRAPPER :: "heap \<Rightarrow> addr \<Rightarrow> int \<Rightarrow> heap option" where
  "FREE_WRAPPER hp p n =
     (case target hp of
        XBL \<Rightarrow> release p Pool hp
      | UEFI \<Rightarrow> do {
          hp' \<leftarrow> (if n \<ge> SIZE_4KB then release p Pages hp else Some hp);
          release p Pool hp' })"

text \<open>\<open>MEMCPY_WRAPPER\<close>: the number of bytes copied.\<close>

definition MEMCPY_WRAPPER :: "mem \<Rightarrow> int \<Rightarrow> addr \<Rightarrow> int \<Rightarrow> (int \<times> byte list) option" where
  "MEMCPY_WRAPPER m dst_size source_ptr src_size =
     (let n = (if src_size > dst_size then dst_size else src_size)
      in do { bs \<leftarrow> rd_bytes m source_ptr (nat n); Some (n, bs) })"

text \<open>
  \<open>_replace_percent_s_with_percent_a\<close>: the loop over the characters of \<open>src\<close> before
  \<open>src_len\<close>, as the list that is left; the result is the new content of \<open>dest\<close> with its
  terminator. A \<open>dest\<close> of no bytes would be written at offset -1.
\<close>

fun replace_loop :: "byte list \<Rightarrow> byte list" where
  "replace_loop [] = []"
| "replace_loop [c] = (if c = 0 then [] else [c])"
| "replace_loop (c # d # cs) =
     (if c = 0 then []
      else if c = 37 \<and> d = 115 then c # 97 # replace_loop cs
      else c # replace_loop (d # cs))"

definition replace_percent_s_with_percent_a :: "byte list \<Rightarrow> nat \<Rightarrow> byte list option" where
  "replace_percent_s_with_percent_a src n =
     (if n = 0 then None
      else let src_len = (if length src \<ge> n then n - 1 else length src)
           in Some (replace_loop (take src_len src) @ [0]))"

section \<open>Allocation\<close>

text \<open>A size whose release is balanced on the target.\<close>

definition balanced :: "target \<Rightarrow> int \<Rightarrow> bool" where
  "balanced t n \<longleftrightarrow> t = XBL \<or> n < SIZE_4KB"

lemma malloc_free:
  assumes "MALLOC_WRAPPER al hp n = (p, hp')" and "p \<noteq> NULL" and "balanced (target hp) n"
  shows "\<exists>hp''. FREE_WRAPPER hp' p n = Some hp'' \<and> live hp'' = live hp \<and> target hp'' = target hp"
  using assms
  by (cases "target hp")
    (auto simp: MALLOC_WRAPPER_def FREE_WRAPPER_def release_def kind_of_def balanced_def Let_def)

text \<open>Every large block is released twice on UEFI.\<close>

lemma malloc_free_pages_twice:
  assumes "MALLOC_WRAPPER al hp n = (p, hp')" and "p \<noteq> NULL" and "target hp = UEFI" and "SIZE_4KB \<le> n"
    and "(p, Pool) \<notin> set (live hp)"
  shows "FREE_WRAPPER hp' p n = None"
  using assms
  by (auto simp: MALLOC_WRAPPER_def FREE_WRAPPER_def release_def kind_of_def Let_def)

section \<open>The format string\<close>

lemma replace_loop_length: "length (replace_loop s) \<le> length s"
  by (induction s rule: replace_loop.induct) auto

lemma replace_loop_id: "0 \<notin> set s \<Longrightarrow> length (replace_loop s) = length s"
  by (induction s rule: replace_loop.induct) auto

text \<open>The conversion \<open>%s\<close> in a string.\<close>

fun has_pair :: "byte list \<Rightarrow> bool" where
  "has_pair (a # b # s) = (a = 37 \<and> b = 115 \<or> has_pair (b # s))"
| "has_pair s = False"

lemma has_pair_iff: "has_pair s \<longleftrightarrow> (\<exists>xs ys. s = xs @ 37 # 115 # ys)"
proof
  show "has_pair s \<Longrightarrow> \<exists>xs ys. s = xs @ 37 # 115 # ys"
  proof (induction s rule: has_pair.induct)
    case (1 a b s)
    show ?case
    proof (cases "a = 37 \<and> b = 115")
      case True
      then show ?thesis by (intro exI [of _ "[]"] exI [of _ s]) simp
    next
      case False
      with 1 obtain xs ys where "b # s = xs @ 37 # 115 # ys" by auto
      then show ?thesis by (intro exI [of _ "a # xs"] exI [of _ ys]) simp
    qed
  qed simp_all
next
  have "has_pair (xs @ 37 # 115 # ys)" for xs ys
    by (induction xs rule: has_pair.induct) auto
  then show "\<exists>xs ys. s = xs @ 37 # 115 # ys \<Longrightarrow> has_pair s" by blast
qed

lemma replace_loop_hd: "replace_loop (d # cs) = [] \<or> (\<exists>r. replace_loop (d # cs) = d # r)"
  by (cases cs) auto

lemma has_pair_Cons: "has_pair (a # s) \<longleftrightarrow> a = 37 \<and> (\<exists>r. s = 115 # r) \<or> has_pair s"
  by (cases s) auto

lemma replace_loop_no_pair: "\<not> has_pair (replace_loop s @ [0])"
proof (induction s rule: replace_loop.induct)
  case (3 c d cs)
  consider "c = 0" | "c = 37" "d = 115" | "c \<noteq> 0" "\<not> (c = 37 \<and> d = 115)" by blast
  then show ?case
  proof cases
    case 2
    with "3.IH"(1) show ?thesis by (simp add: has_pair_Cons)
  next
    case 3
    with "3.IH"(2) have "\<not> has_pair (replace_loop (d # cs) @ [0])" by blast
    moreover have "\<not> (c = 37 \<and> (\<exists>r. replace_loop (d # cs) @ [0] = 115 # r))"
      using 3 replace_loop_hd [of d cs] by auto
    moreover have "replace_loop (c # d # cs) = c # replace_loop (d # cs)" using 3 by auto
    ultimately show ?thesis by (simp only: append_Cons has_pair_Cons) simp
  qed simp
qed simp_all

end
