(* ===== verification/DT_Select.thy ===== *)
theory DT_Select
  imports Ext_Blob DT_Env
begin

text \<open>
  The selection library (\<open>libs/DTSelectLib/dt_select.c\<close>): the evaluation of one blob of an
  image against the device's parameters, the comparison with the best blob so far, and the loop
  over the blobs of the image.

  The pointer arguments of the static functions are addresses of variables of their callers;
  they are passed as values, and their tests for NULL, which never fire, are left out. A
  function returns its status, the variables it changes and the heap. A buffer that holds a
  property is a list of its elements; its address matters for the allocator and for the
  overflow tests only.
\<close>

section \<open>Types\<close>

abbreviation (input) SUCCESS :: rc where "SUCCESS \<equiv> Ret 0"
abbreviation (input) FAIL :: rc where "FAIL \<equiv> Ret (- 1)"
abbreviation (input) MALLOC_FAIL :: rc where "MALLOC_FAIL \<equiv> Ret (- 2)"
abbreviation (input) INVALID_PARAMETER :: rc where "INVALID_PARAMETER \<equiv> Ret (- 3)"
abbreviation (input) INVALID_BLOB_ENTRY :: rc where "INVALID_BLOB_ENTRY \<equiv> Ret (- 5)"
abbreviation (input) GET_ROOT_NODE_FAILED :: rc where "GET_ROOT_NODE_FAILED \<equiv> Ret (- 6)"
abbreviation (input) POINTER_ARITHMETIC_OVERFLOW :: rc where "POINTER_ARITHMETIC_OVERFLOW \<equiv> Ret (- 8)"
abbreviation (input) UINT32_ARITHMETIC_OVERFLOW :: rc where "UINT32_ARITHMETIC_OVERFLOW \<equiv> Ret (- 9)"
abbreviation (input) READ_BLOB_TYPE_MISMATCH :: rc where "READ_BLOB_TYPE_MISMATCH \<equiv> Ret (- 10)"
abbreviation (input) MEMCOPY_FAIL :: rc where "MEMCOPY_FAIL \<equiv> Ret (- 11)"
abbreviation (input) READ_BLOB_SIZE_MISMATCH :: rc where "READ_BLOB_SIZE_MISMATCH \<equiv> Ret (- 12)"

abbreviation (input) DT_SELECT_LIBRARY_ID :: int where "DT_SELECT_LIBRARY_ID \<equiv> 0x445453454c454354"

text \<open>\<open>dt_select.h\<close>\<close>

record chip_plat_info_property =
  chip_family :: "16 word"
  chip_id :: "16 word"
  chip_maj_version :: "16 word"
  chip_min_version :: "16 word"
  platform_type :: "8 word"
  platform_subtype :: "8 word"
  platform_maj_version :: "8 word"
  platform_min_version :: "8 word"
  oem_var :: "32 word"
  dtb_compatible_string_starts_with :: "byte list option"
  soc_dtbo_compatible_string_starts_with :: "byte list option"
  plat_dtbo_compatible_string_starts_with :: "byte list option"

record property_list =
  prop_name :: "byte list option"
  prop_size_bytes :: int
  value_buffer :: addr

datatype blob_type = BASE_DTB | SOC_DTBO | PLATFORM_DTBO | READ_BLOB_MAX

text \<open>\<open>dt_select_internal.h\<close>. The prefixes tell equal field names apart.\<close>

type_synonym version_datatype = "32 word"

record handle_data =
  data_guard :: int
  dtbs_image_start_address :: addr
  base_dtb_ptr :: addr
  base_dtb_size :: int
  soc_dtbo_ptr :: addr
  soc_dtbo_size :: int
  plat_dtbo_ptr :: addr
  plat_dtbo_size :: int

record handle_input_data =
  dtbs_image_size :: int
  Input_chip_plat_info_prop :: chip_plat_info_property
  Input_prop_list :: "property_list list option"
  prop_num_entries :: nat
  in_chipinfo_version_calc :: version_datatype
  in_platforminfo_version_calc :: version_datatype

record handle_entry_data =
  node :: fdt_node_handle
  cur_blob_size :: int
  device_tree_type :: blob_type
  DT_chipinfo_selected :: "16 word list"
  DT_platforminfo_selected :: "8 word list"
  cur_rank :: int
  candidacy_status :: bool
  cur_chipinfo_version_calc :: version_datatype
  cur_platforminfo_version_calc :: version_datatype

record handle_selected_dtbo =
  sel_rank :: int
  sel_blob_size :: int
  sel_chipinfo_version_calc :: version_datatype
  sel_platforminfo_version_calc :: version_datatype

abbreviation (input) CHIPINFO_FAMILY :: nat where "CHIPINFO_FAMILY \<equiv> 0"
abbreviation (input) CHIPINFO_ID :: nat where "CHIPINFO_ID \<equiv> 1"
abbreviation (input) CHIPINFO_MAJOR :: nat where "CHIPINFO_MAJOR \<equiv> 2"
abbreviation (input) CHIPINFO_MINOR :: nat where "CHIPINFO_MINOR \<equiv> 3"
abbreviation (input) PLATFORMINFO_TYPE :: nat where "PLATFORMINFO_TYPE \<equiv> 0"
abbreviation (input) PLATFORMINFO_SUB_TYPE :: nat where "PLATFORMINFO_SUB_TYPE \<equiv> 1"
abbreviation (input) PLATFORMINFO_MAJOR :: nat where "PLATFORMINFO_MAJOR \<equiv> 2"
abbreviation (input) PLATFORMINFO_MINOR :: nat where "PLATFORMINFO_MINOR \<equiv> 3"

definition CHIPINFO_PROP_NAME :: "byte list" where "CHIPINFO_PROP_NAME = chars ''chip-info''"
definition PLATFORMINFO_PROP_NAME :: "byte list" where "PLATFORMINFO_PROP_NAME = chars ''board-info''"
definition IS_OVERLAY_PROP_NAME :: "byte list" where "IS_OVERLAY_PROP_NAME = chars ''is-overlay''"
definition COMPATIBLE_PROP_NAME :: "byte list" where "COMPATIBLE_PROP_NAME = chars ''proc-name''"
definition OEM_VAR_PROP_NAME :: "byte list" where "OEM_VAR_PROP_NAME = chars ''oem-var''"
definition ROOT_NODE :: "byte list" where "ROOT_NODE = chars ''/board-id/''"

text \<open>\<open>CALCULATE_CHIP_PLAT_INFO_VERSION\<close> for 16-bit and 8-bit versions.\<close>

definition chip_version_calc :: "16 word \<Rightarrow> 16 word \<Rightarrow> version_datatype" where
  "chip_version_calc major minor = or (push_bit 16 (ucast major)) (ucast minor)"

definition plat_version_calc :: "8 word \<Rightarrow> 8 word \<Rightarrow> version_datatype" where
  "plat_version_calc major minor = or (push_bit 8 (ucast major)) (ucast minor)"

text \<open>\<open>_is_safe_to_add_pointer\<close>: the offset is a \<open>uint32_t\<close>.\<close>

definition is_safe_to_add_pointer :: "addr \<Rightarrow> int \<Rightarrow> bool" where
  "is_safe_to_add_pointer pointer off \<longleftrightarrow> \<not> u64 (pointer + u32 off) < pointer"

definition is_safe_to_subtract_uint32 :: "int \<Rightarrow> int \<Rightarrow> bool" where
  "is_safe_to_subtract_uint32 a b \<longleftrightarrow> \<not> a < b"

section \<open>Initial values\<close>

definition init_handle_data :: "addr \<Rightarrow> handle_data" where
  "init_handle_data start =
     \<lparr> data_guard = DT_SELECT_LIBRARY_ID, dtbs_image_start_address = start,
       base_dtb_ptr = 0, base_dtb_size = 0, soc_dtbo_ptr = 0, soc_dtbo_size = 0,
       plat_dtbo_ptr = 0, plat_dtbo_size = 0 \<rparr>"

definition init_handle_entry_data :: handle_entry_data where
  "init_handle_entry_data =
     \<lparr> node = \<lparr> blob = NULL, offset = 0 \<rparr>, cur_blob_size = 0, device_tree_type = BASE_DTB,
       DT_chipinfo_selected = [0, 0, 0, 0], DT_platforminfo_selected = [0, 0, 0, 0],
       cur_rank = - 1, candidacy_status = False,
       cur_chipinfo_version_calc = 0, cur_platforminfo_version_calc = 0 \<rparr>"

definition init_handle_selected_dtb_dtbo :: handle_selected_dtbo where
  "init_handle_selected_dtb_dtbo =
     \<lparr> sel_rank = - 1, sel_blob_size = 0, sel_chipinfo_version_calc = 0,
       sel_platforminfo_version_calc = 0 \<rparr>"

text \<open>\<open>_init_handle_input_data\<close>, without the print of the parameters at its end.\<close>

definition init_handle_input_data ::
  "int \<Rightarrow> chip_plat_info_property \<Rightarrow> property_list list option \<Rightarrow> nat \<Rightarrow> handle_input_data" where
  "init_handle_input_data image_size info props num =
     (let empty = (props = None \<or> num = 0)
      in \<lparr> dtbs_image_size = image_size, Input_chip_plat_info_prop = info,
           Input_prop_list = (if empty then None else props),
           prop_num_entries = (if empty then 0 else num),
           in_chipinfo_version_calc = chip_version_calc (chip_maj_version info) (chip_min_version info),
           in_platforminfo_version_calc =
             plat_version_calc (platform_maj_version info) (platform_min_version info) \<rparr>)"

section \<open>The checks on one blob\<close>

text \<open>
  \<open>p = MALLOC_WRAPPER (n); if (!p) return MALLOC_FAIL;\<close> and what follows. \<open>fail\<close> is the result
  of the failing return.
\<close>

definition with_alloc ::
  "(nat \<Rightarrow> int \<Rightarrow> addr) \<Rightarrow> heap \<Rightarrow> int \<Rightarrow> (heap \<Rightarrow> 'r) \<Rightarrow> (addr \<Rightarrow> heap \<Rightarrow> 'r option) \<Rightarrow> 'r option" where
  "with_alloc al hp n fail f =
     (case MALLOC_WRAPPER al hp n of (p, hp1) \<Rightarrow> if p = NULL then Some (fail hp1) else f p hp1)"

lemma with_alloc_Some:
  "with_alloc al hp n fail f = Some r \<longleftrightarrow>
     (\<exists>p hp1. MALLOC_WRAPPER al hp n = (p, hp1) \<and>
        (p = NULL \<and> r = fail hp1 \<or> p \<noteq> NULL \<and> f p hp1 = Some r))"
  by (auto simp: with_alloc_def split: prod.split)

text \<open>The first four consecutive elements that start with \<open>f\<close>, over all groups of four.\<close>

fun find_quad :: "'a \<Rightarrow> 'a list \<Rightarrow> 'a list option" where
  "find_quad f (a # b # c # d # xs) = (if a = f then Some [a, b, c, d] else find_quad f xs)"
| "find_quad f _ = None"

text \<open>Reading the \<open>chip-info\<close> property into the buffer \<open>p\<close> of \<open>n\<close> bytes and searching it.\<close>

definition search_chipinfo ::
  "mem \<Rightarrow> handle_input_data \<Rightarrow> handle_entry_data \<Rightarrow> int \<Rightarrow> addr \<Rightarrow> heap \<Rightarrow>
     (rc \<times> handle_entry_data \<times> heap) option" where
  "search_chipinfo m inp e n p hp1 = do {
     (r, vals) \<leftarrow> fdt_get_uint16_prop_list m (Some (node e)) (Some CHIPINFO_PROP_NAME) True n;
     if r \<noteq> NOERROR then do { hp2 \<leftarrow> FREE_WRAPPER hp1 p n; Some (SUCCESS, e, hp2) }
     else if \<not> is_safe_to_add_pointer p n then Some (POINTER_ARITHMETIC_OVERFLOW, e, hp1)
     else do {
       vs \<leftarrow> vals;
       let e' = (case find_quad (chip_family (Input_chip_plat_info_prop inp)) (map word_of_int vs) of
           Some q \<Rightarrow> e \<lparr> DT_chipinfo_selected := q, candidacy_status := True \<rparr>
         | None \<Rightarrow> e);
       hp2 \<leftarrow> FREE_WRAPPER hp1 p n;
       Some (SUCCESS, e', hp2) } }"

definition is_chipinfo_family_match ::
  "(nat \<Rightarrow> int \<Rightarrow> addr) \<Rightarrow> mem \<Rightarrow> handle_input_data \<Rightarrow> handle_entry_data \<Rightarrow> heap \<Rightarrow>
     (rc \<times> handle_entry_data \<times> heap) option" where
  "is_chipinfo_family_match al m inp e0 hp =
     (let e = e0 \<lparr> candidacy_status := False \<rparr> in do {
        (r, sz) \<leftarrow> fdt_get_prop_size m (Some (node e)) (Some CHIPINFO_PROP_NAME) True;
        if r \<noteq> NOERROR then Some (SUCCESS, e, hp)
        else do {
          n \<leftarrow> sz;
          if n mod 8 \<noteq> 0 then Some (SUCCESS, e, hp)
          else with_alloc al hp n (\<lambda>hp1. (MALLOC_FAIL, e, hp1)) (search_chipinfo m inp e n) } })"

definition search_platforminfo ::
  "mem \<Rightarrow> handle_input_data \<Rightarrow> handle_entry_data \<Rightarrow> int \<Rightarrow> addr \<Rightarrow> heap \<Rightarrow>
     (rc \<times> handle_entry_data \<times> heap) option" where
  "search_platforminfo m inp e n p hp1 = do {
     (r, vals) \<leftarrow> fdt_get_uint8_prop_list m (Some (node e)) (Some PLATFORMINFO_PROP_NAME) True n;
     if r \<noteq> NOERROR then do { hp2 \<leftarrow> FREE_WRAPPER hp1 p n; Some (SUCCESS, e, hp2) }
     else if \<not> is_safe_to_add_pointer p n then Some (POINTER_ARITHMETIC_OVERFLOW, e, hp1)
     else do {
       vs \<leftarrow> vals;
       let e' = (case find_quad (platform_type (Input_chip_plat_info_prop inp)) (map word_of_int vs) of
           Some q \<Rightarrow> e \<lparr> DT_platforminfo_selected := q, candidacy_status := True \<rparr>
         | None \<Rightarrow> e);
       hp2 \<leftarrow> FREE_WRAPPER hp1 p n;
       Some (SUCCESS, e', hp2) } }"

text \<open>The branch of an overlay: SOC or platform, by the presence of \<open>board-info\<close>.\<close>

definition identify_overlay ::
  "(nat \<Rightarrow> int \<Rightarrow> addr) \<Rightarrow> mem \<Rightarrow> handle_input_data \<Rightarrow> handle_entry_data \<Rightarrow> heap \<Rightarrow>
     (rc \<times> handle_entry_data \<times> heap) option" where
  "identify_overlay al m inp e0 hp =
     (let e = e0 \<lparr> device_tree_type := SOC_DTBO \<rparr> in do {
        (r, sz) \<leftarrow> fdt_get_prop_size m (Some (node e)) (Some PLATFORMINFO_PROP_NAME) True;
        if r \<noteq> NOERROR \<and> r \<noteq> Ret (- FDT_ERR_NOTFOUND) then Some (SUCCESS, e, hp)
        else if r = Ret (- FDT_ERR_NOTFOUND) then Some (SUCCESS, e \<lparr> candidacy_status := True \<rparr>, hp)
        else do {
          n \<leftarrow> sz;
          if n mod 4 \<noteq> 0 then Some (SUCCESS, e, hp)
          else
            let e = e \<lparr> device_tree_type := PLATFORM_DTBO \<rparr>
            in with_alloc al hp n (\<lambda>hp1. (MALLOC_FAIL, e, hp1)) (search_platforminfo m inp e n) } })"

definition identify_blob_type_and_get_platforminfo ::
  "(nat \<Rightarrow> int \<Rightarrow> addr) \<Rightarrow> mem \<Rightarrow> handle_input_data \<Rightarrow> handle_entry_data \<Rightarrow> heap \<Rightarrow>
     (rc \<times> handle_entry_data \<times> heap) option" where
  "identify_blob_type_and_get_platforminfo al m inp e0 hp =
     (let e = e0 \<lparr> candidacy_status := False, device_tree_type := BASE_DTB \<rparr> in do {
        (r, vals) \<leftarrow> fdt_get_bool_prop m (Some (node e)) (Some IS_OVERLAY_PROP_NAME);
        if r \<noteq> NOERROR then
          if r = Ret (- FDT_ERR_NOTFOUND) then Some (SUCCESS, e \<lparr> candidacy_status := True \<rparr>, hp)
          else Some (SUCCESS, e, hp)
        else identify_overlay al m inp e hp })"

text \<open>\<open>strncmp (s, t, strlen (t)) == 0\<close> for a string \<open>t\<close> and the bytes from \<open>s\<close> on.\<close>

fun starts_with :: "byte list \<Rightarrow> byte list \<Rightarrow> bool" where
  "starts_with s [] = True"
| "starts_with [] (c # t) = False"
| "starts_with (b # s) (c # t) = (b = c \<and> (b = 0 \<or> starts_with s t))"

text \<open>
  The loop over the strings of the \<open>proc-name\<close> property: \<open>l\<close> is the part of the buffer from
  \<open>current_string_ptr\<close> on, so its length is \<open>compatible_property_size\<close>. The result is an error
  or whether a string was found. \<open>strlen\<close> of a buffer without terminator is undefined.
\<close>

function (sequential) compat_loop :: "addr \<Rightarrow> byte list \<Rightarrow> byte list \<Rightarrow> (rc \<times> bool) option" where
  "compat_loop p l inp_str =
     (if l = [] then Some (SUCCESS, False)
      else if 0 \<notin> set l then None
      else
        let sz = length (takeWhile (\<lambda>c. c \<noteq> 0) l) + 1
        in if starts_with l inp_str then Some (SUCCESS, True)
           else if \<not> is_safe_to_add_pointer p (int sz) then Some (POINTER_ARITHMETIC_OVERFLOW, False)
           else if \<not> is_safe_to_subtract_uint32 (int (length l)) (int sz)
             then Some (UINT32_ARITHMETIC_OVERFLOW, False)
           else compat_loop (u64 (p + int sz)) (drop sz l) inp_str)"
  by pat_completeness auto

termination compat_loop
  by (relation "measure (\<lambda>(p, l, s). length l)") (auto simp: Let_def)

declare compat_loop.simps [simp del]

definition search_compatible ::
  "mem \<Rightarrow> byte list \<Rightarrow> handle_entry_data \<Rightarrow> int \<Rightarrow> addr \<Rightarrow> heap \<Rightarrow> (rc \<times> handle_entry_data \<times> heap) option" where
  "search_compatible m s e n p hp1 = do {
     (r, bytes) \<leftarrow> fdt_get_string_prop_list m (Some (node e)) (Some COMPATIBLE_PROP_NAME) True n;
     if r \<noteq> NOERROR then do { hp2 \<leftarrow> FREE_WRAPPER hp1 p n; Some (SUCCESS, e, hp2) }
     else do {
       l \<leftarrow> bytes;
       (st, found) \<leftarrow> compat_loop p l s;
       if st \<noteq> SUCCESS then Some (st, e, hp1)
       else do {
         hp2 \<leftarrow> FREE_WRAPPER hp1 p n;
         Some (SUCCESS, e \<lparr> candidacy_status := found \<rparr>, hp2) } } }"

text \<open>The client's string for a type of blob.\<close>

definition input_compatible_string :: "chip_plat_info_property \<Rightarrow> blob_type \<Rightarrow> byte list option" where
  "input_compatible_string info t =
     (if t = SOC_DTBO then soc_dtbo_compatible_string_starts_with info
      else if t = PLATFORM_DTBO then plat_dtbo_compatible_string_starts_with info
      else dtb_compatible_string_starts_with info)"

definition validate_compatible_string ::
  "(nat \<Rightarrow> int \<Rightarrow> addr) \<Rightarrow> mem \<Rightarrow> handle_input_data \<Rightarrow> handle_entry_data \<Rightarrow> heap \<Rightarrow>
     (rc \<times> handle_entry_data \<times> heap) option" where
  "validate_compatible_string al m inp e0 hp =
     (let e = e0 \<lparr> candidacy_status := False \<rparr>
      in case input_compatible_string (Input_chip_plat_info_prop inp) (device_tree_type e) of
           None \<Rightarrow> Some (SUCCESS, e \<lparr> candidacy_status := True \<rparr>, hp)
         | Some s \<Rightarrow> do {
             (r, sz) \<leftarrow> fdt_get_prop_size m (Some (node e)) (Some COMPATIBLE_PROP_NAME) True;
             if r \<noteq> NOERROR \<or> sz = Some 0 then Some (SUCCESS, e, hp)
             else if s = [] then Some (SUCCESS, e \<lparr> candidacy_status := True \<rparr>, hp)
             else do {
               n \<leftarrow> sz;
               with_alloc al hp n (\<lambda>hp1. (MALLOC_FAIL, e, hp1)) (search_compatible m s e n) } })"

definition is_compatible_string_match ::
  "(nat \<Rightarrow> int \<Rightarrow> addr) \<Rightarrow> mem \<Rightarrow> handle_input_data \<Rightarrow> handle_entry_data \<Rightarrow> heap \<Rightarrow>
     (rc \<times> handle_entry_data \<times> heap) option" where
  "is_compatible_string_match al m inp e0 hp = do {
     (st, e, hp1) \<leftarrow> identify_blob_type_and_get_platforminfo al m inp (e0 \<lparr> candidacy_status := False \<rparr>) hp;
     if st \<noteq> SUCCESS \<or> \<not> candidacy_status e then Some (st, e, hp1)
     else validate_compatible_string al m inp (e \<lparr> candidacy_status := False \<rparr>) hp1 }"

text \<open>
  One round of the outer loop of \<open>_is_property_list_valid\<close>: whether the loop goes on, the
  status, the entry and the heap. The values are compared with the client's value, a native
  integer of the given size.
\<close>

definition read_prop_list ::
  "mem \<Rightarrow> fdt_node_handle \<Rightarrow> property_list \<Rightarrow> int \<Rightarrow> (rc \<times> int list option) option" where
  "read_prop_list m h pl n =
     (if prop_size_bytes pl = 1 then fdt_get_uint8_prop_list m (Some h) (prop_name pl) True n
      else if prop_size_bytes pl = 2 then fdt_get_uint16_prop_list m (Some h) (prop_name pl) True n
      else if prop_size_bytes pl = 4 then fdt_get_uint32_prop_list m (Some h) (prop_name pl) True n
      else if prop_size_bytes pl = 8 then fdt_get_uint64_prop_list m (Some h) (prop_name pl) True n
      else Some (Ret (- 1), None))"

definition client_value :: "mem \<Rightarrow> property_list \<Rightarrow> int option" where
  "client_value m pl =
     (if prop_size_bytes pl = 1 then rd m (value_buffer pl)
      else if prop_size_bytes pl = 2 then ld16_le m (value_buffer pl)
      else if prop_size_bytes pl = 4 then ld32_le m (value_buffer pl)
      else ld64_le m (value_buffer pl))"

definition search_prop_list ::
  "mem \<Rightarrow> property_list \<Rightarrow> handle_entry_data \<Rightarrow> int \<Rightarrow> addr \<Rightarrow> heap \<Rightarrow>
     (bool \<times> rc \<times> handle_entry_data \<times> heap) option" where
  "search_prop_list m pl e n p hp1 = do {
     (r, vals) \<leftarrow> read_prop_list m (node e) pl n;
     if r \<noteq> NOERROR then do { hp2 \<leftarrow> FREE_WRAPPER hp1 p n; Some (False, SUCCESS, e, hp2) }
     else if \<not> is_safe_to_add_pointer p n then Some (False, POINTER_ARITHMETIC_OVERFLOW, e, hp1)
     else do {
       vs \<leftarrow> vals;
       v \<leftarrow> client_value m pl;
       hp2 \<leftarrow> FREE_WRAPPER hp1 p n;
       Some (v \<in> set vs, SUCCESS, e \<lparr> candidacy_status := v \<in> set vs \<rparr>, hp2) } }"

definition prop_list_step ::
  "(nat \<Rightarrow> int \<Rightarrow> addr) \<Rightarrow> mem \<Rightarrow> property_list \<Rightarrow> handle_entry_data \<Rightarrow> heap \<Rightarrow>
     (bool \<times> rc \<times> handle_entry_data \<times> heap) option" where
  "prop_list_step al m pl e0 hp =
     (let e = e0 \<lparr> candidacy_status := False \<rparr> in do {
        (r, sz) \<leftarrow> fdt_get_prop_size m (Some (node e)) (prop_name pl) True;
        if r \<noteq> NOERROR then Some (False, SUCCESS, e, hp)
        else do {
          n \<leftarrow> sz;
          if n = 0 then Some (False, SUCCESS, e, hp)
          else if prop_size_bytes pl = 0 \<or> n mod prop_size_bytes pl \<noteq> 0 then Some (False, SUCCESS, e, hp)
          else with_alloc al hp n (\<lambda>hp1. (False, MALLOC_FAIL, e, hp1)) (search_prop_list m pl e n) } })"

fun prop_list_loop ::
  "(nat \<Rightarrow> int \<Rightarrow> addr) \<Rightarrow> mem \<Rightarrow> nat \<Rightarrow> property_list list \<Rightarrow> handle_entry_data \<Rightarrow> heap \<Rightarrow>
     (rc \<times> handle_entry_data \<times> heap) option" where
  "prop_list_loop al m 0 pls e hp = Some (SUCCESS, e, hp)"
| "prop_list_loop al m (Suc k) [] e hp = None"
| "prop_list_loop al m (Suc k) (pl # pls) e hp = do {
     (go, st, e', hp') \<leftarrow> prop_list_step al m pl e hp;
     if go then prop_list_loop al m k pls e' hp' else Some (st, e', hp') }"

definition is_property_list_valid ::
  "(nat \<Rightarrow> int \<Rightarrow> addr) \<Rightarrow> mem \<Rightarrow> handle_input_data \<Rightarrow> handle_entry_data \<Rightarrow> heap \<Rightarrow>
     (rc \<times> handle_entry_data \<times> heap) option" where
  "is_property_list_valid al m inp e hp =
     (case Input_prop_list inp of
        None \<Rightarrow> Some (SUCCESS, e \<lparr> candidacy_status := True \<rparr>, hp)
      | Some pls \<Rightarrow>
          if prop_num_entries inp = 0 then Some (SUCCESS, e \<lparr> candidacy_status := True \<rparr>, hp)
          else prop_list_loop al m (prop_num_entries inp) pls e hp)"

definition is_it_dtb_dtbo_candidate ::
  "(nat \<Rightarrow> int \<Rightarrow> addr) \<Rightarrow> mem \<Rightarrow> handle_input_data \<Rightarrow> handle_entry_data \<Rightarrow> heap \<Rightarrow>
     (rc \<times> handle_entry_data \<times> heap) option" where
  "is_it_dtb_dtbo_candidate al m inp e0 hp = do {
     (st, e, hp1) \<leftarrow> is_chipinfo_family_match al m inp e0 hp;
     if st \<noteq> SUCCESS \<or> \<not> candidacy_status e then Some (st, e, hp1)
     else do {
       (st, e, hp2) \<leftarrow> is_compatible_string_match al m inp e hp1;
       if st \<noteq> SUCCESS \<or> \<not> candidacy_status e then Some (st, e, hp2)
       else is_property_list_valid al m inp e hp2 } }"

section \<open>The end of the image\<close>

text \<open>
  \<open>_address_within_image_range_and_pointer_overflow_check\<close>: the size is converted to
  \<open>uint32_t\<close> for the overflow test.
\<close>

definition address_within_image_range_and_pointer_overflow_check ::
  "addr \<Rightarrow> addr \<Rightarrow> int \<Rightarrow> rc \<times> bool" where
  "address_within_image_range_and_pointer_overflow_check address start sz =
     (if \<not> is_safe_to_add_pointer start sz then (POINTER_ARITHMETIC_OVERFLOW, False)
      else (SUCCESS, start \<le> address \<and> address < u64 (start + sz)))"

text \<open>The result has the entry and \<open>*end_of_dtb_dtbo_file\<close>.\<close>

definition is_fdtheader_at_end_of_image ::
  "mem \<Rightarrow> addr \<Rightarrow> handle_data \<Rightarrow> handle_input_data \<Rightarrow> handle_entry_data \<Rightarrow>
     (rc \<times> handle_entry_data \<times> bool) option" where
  "is_fdtheader_at_end_of_image m fdtheader hnd inp e0 =
     (if fdtheader = NULL \<or> dtbs_image_start_address hnd = NULL then Some (INVALID_PARAMETER, e0, True)
      else
        let e = e0 \<lparr> candidacy_status := False, node := (node e0) \<lparr> blob := fdtheader \<rparr> \<rparr>;
            start = dtbs_image_start_address hnd;
            isize = dtbs_image_size inp
        in if isize \<noteq> 0 then
             let (st, within) = address_within_image_range_and_pointer_overflow_check fdtheader start isize
             in if st \<noteq> SUCCESS then Some (st, e, True)
                else if \<not> within then Some (SUCCESS, e, True)
                else do {
                  c \<leftarrow> fdt_check_header m fdtheader;
                  if c \<noteq> 0 then Some (Ret c, e, True)
                  else do {
                    (r, sz) \<leftarrow> fdt_get_blob_size m (Some (node e)) True;
                    if r \<noteq> NOERROR then Some (r, e, True)
                    else do {
                      n \<leftarrow> sz;
                      let e = e \<lparr> cur_blob_size := n \<rparr>;
                      if n = 0 then Some (INVALID_BLOB_ENTRY, e, True)
                      else if \<not> is_safe_to_add_pointer fdtheader n then Some (POINTER_ARITHMETIC_OVERFLOW, e, True)
                      else
                        let (st, within) = address_within_image_range_and_pointer_overflow_check
                              (u64 (u64 (fdtheader + n) - 1)) start isize
                        in if st \<noteq> SUCCESS then Some (st, e, True)
                           else if \<not> within then Some (INVALID_BLOB_ENTRY, e, True)
                           else Some (SUCCESS, e \<lparr> candidacy_status := True \<rparr>, False) } } }
           else do {
             c \<leftarrow> fdt_check_header m fdtheader;
             if c = - FDT_ERR_BADMAGIC then Some (SUCCESS, e, True)
             else if c \<noteq> 0 then Some (Ret c, e, True)
             else do {
               (r, sz) \<leftarrow> fdt_get_blob_size m (Some (node e)) True;
               if r \<noteq> NOERROR then Some (INVALID_BLOB_ENTRY, e, True)
               else do {
                 n \<leftarrow> sz;
                 let e = e \<lparr> cur_blob_size := n \<rparr>;
                 if n = 0 then Some (INVALID_BLOB_ENTRY, e, True)
                 else if \<not> is_safe_to_add_pointer fdtheader n then Some (POINTER_ARITHMETIC_OVERFLOW, e, True)
                 else Some (SUCCESS, e \<lparr> candidacy_status := True \<rparr>, False) } } })"

section \<open>Comparison with the best blob so far\<close>

definition validate_and_select_base_dtb :: "handle_entry_data \<Rightarrow> handle_data \<Rightarrow> handle_entry_data" where
  "validate_and_select_base_dtb e hnd =
     e \<lparr> candidacy_status :=
           base_dtb_ptr hnd = 0 \<and> DT_chipinfo_selected e ! CHIPINFO_ID = 0 \<and>
           DT_chipinfo_selected e ! CHIPINFO_MAJOR = 1 \<and> DT_chipinfo_selected e ! CHIPINFO_MINOR = 0 \<rparr>"

definition validate_and_select_soc_dtbo ::
  "handle_entry_data \<Rightarrow> handle_input_data \<Rightarrow> handle_selected_dtbo \<Rightarrow> handle_entry_data" where
  "validate_and_select_soc_dtbo e0 inp sel =
     (let e = e0 \<lparr> candidacy_status := False \<rparr>;
          cid = DT_chipinfo_selected e ! CHIPINFO_ID
      in if cid \<noteq> 0 \<and> cid \<noteq> chip_id (Input_chip_plat_info_prop inp) then e
         else
           let e = e \<lparr> cur_rank := (if cid \<noteq> 0 then 1 else 0),
                       cur_chipinfo_version_calc := chip_version_calc
                         (DT_chipinfo_selected e ! CHIPINFO_MAJOR) (DT_chipinfo_selected e ! CHIPINFO_MINOR) \<rparr>
           in if cur_chipinfo_version_calc e > in_chipinfo_version_calc inp then e
              else if sel_rank sel > cur_rank e then e
              else if sel_rank sel = cur_rank e then
                if cur_chipinfo_version_calc e > sel_chipinfo_version_calc sel
                then e \<lparr> candidacy_status := True \<rparr>
                else e \<lparr> candidacy_status := False \<rparr>
              else e \<lparr> candidacy_status := True \<rparr>)"

definition search_oem_variant ::
  "mem \<Rightarrow> handle_input_data \<Rightarrow> handle_entry_data \<Rightarrow> int \<Rightarrow> addr \<Rightarrow> heap \<Rightarrow>
     (rc \<times> handle_entry_data \<times> heap) option" where
  "search_oem_variant m inp e n p hp1 = do {
     (r, vals) \<leftarrow> fdt_get_uint32_prop_list m (Some (node e)) (Some OEM_VAR_PROP_NAME) True n;
     if r \<noteq> NOERROR then do { hp2 \<leftarrow> FREE_WRAPPER hp1 p n; Some (SUCCESS, e, hp2) }
     else do {
       vs \<leftarrow> vals;
       hp2 \<leftarrow> FREE_WRAPPER hp1 p n;
       Some (SUCCESS, e \<lparr> candidacy_status :=
               uint (oem_var (Input_chip_plat_info_prop inp)) \<in> set vs \<rparr>, hp2) } }"

definition validate_oem_variant ::
  "(nat \<Rightarrow> int \<Rightarrow> addr) \<Rightarrow> mem \<Rightarrow> handle_input_data \<Rightarrow> handle_entry_data \<Rightarrow> heap \<Rightarrow>
     (rc \<times> handle_entry_data \<times> heap) option" where
  "validate_oem_variant al m inp e0 hp =
     (let e = e0 \<lparr> candidacy_status := False \<rparr> in do {
        (r, sz) \<leftarrow> fdt_get_prop_size m (Some (node e)) (Some OEM_VAR_PROP_NAME) True;
        if r \<noteq> NOERROR \<or> sz = Some 0 then
          if r = Ret (- FDT_ERR_NOTFOUND) then Some (SUCCESS, e \<lparr> candidacy_status := True \<rparr>, hp)
          else Some (SUCCESS, e, hp)
        else do {
          n \<leftarrow> sz;
          if n mod 4 \<noteq> 0 then Some (SUCCESS, e, hp)
          else with_alloc al hp n (\<lambda>hp1. (MALLOC_FAIL, e, hp1)) (search_oem_variant m inp e n) } })"

definition platform_dtbo_version_check ::
  "handle_entry_data \<Rightarrow> handle_input_data \<Rightarrow> handle_selected_dtbo \<Rightarrow> handle_entry_data" where
  "platform_dtbo_version_check e0 inp sel =
     (let e = e0 \<lparr> candidacy_status := False \<rparr>
      in if cur_platforminfo_version_calc e > in_platforminfo_version_calc inp \<or>
            cur_chipinfo_version_calc e > in_chipinfo_version_calc inp
         then e
         else if sel_rank sel > cur_rank e then e
         else if sel_rank sel = cur_rank e then
           if cur_platforminfo_version_calc e > sel_platforminfo_version_calc sel
           then e \<lparr> candidacy_status := True \<rparr>
           else if cur_platforminfo_version_calc e = sel_platforminfo_version_calc sel then
             if cur_chipinfo_version_calc e > sel_chipinfo_version_calc sel
             then e \<lparr> candidacy_status := True \<rparr>
             else e \<lparr> candidacy_status := False \<rparr>
           else e
         else e \<lparr> candidacy_status := True \<rparr>)"

definition platform_rank :: "8 word \<Rightarrow> 16 word \<Rightarrow> int" where
  "platform_rank sub_type cid =
     (if sub_type \<noteq> 0 \<and> cid \<noteq> 0 then 3
      else if sub_type \<noteq> 0 \<and> cid = 0 then 2
      else if sub_type = 0 \<and> cid \<noteq> 0 then 1
      else 0)"

definition validate_and_select_platform_dtbo ::
  "(nat \<Rightarrow> int \<Rightarrow> addr) \<Rightarrow> mem \<Rightarrow> handle_entry_data \<Rightarrow> handle_input_data \<Rightarrow> handle_selected_dtbo \<Rightarrow> heap \<Rightarrow>
     (rc \<times> handle_entry_data \<times> heap) option" where
  "validate_and_select_platform_dtbo al m e0 inp sel hp =
     (let e = e0 \<lparr> candidacy_status := False \<rparr>;
          info = Input_chip_plat_info_prop inp
      in if DT_platforminfo_selected e ! PLATFORMINFO_TYPE \<noteq> platform_type info then Some (SUCCESS, e, hp)
         else do {
           (st, e, hp1) \<leftarrow> validate_oem_variant al m inp e hp;
           if st \<noteq> SUCCESS then Some (FAIL, e, hp1)
           else if \<not> candidacy_status e then Some (SUCCESS, e, hp1)
           else
             let e = e \<lparr> candidacy_status := False \<rparr>;
                 sub_type = DT_platforminfo_selected e ! PLATFORMINFO_SUB_TYPE;
                 cid = DT_chipinfo_selected e ! CHIPINFO_ID
             in if sub_type \<noteq> 0 \<and> sub_type \<noteq> platform_subtype info then Some (SUCCESS, e, hp1)
                else if cid \<noteq> 0 \<and> cid \<noteq> chip_id info then Some (SUCCESS, e, hp1)
                else
                  let e = e \<lparr> cur_rank := platform_rank sub_type cid,
                    cur_chipinfo_version_calc := chip_version_calc
                      (DT_chipinfo_selected e ! CHIPINFO_MAJOR) (DT_chipinfo_selected e ! CHIPINFO_MINOR),
                    cur_platforminfo_version_calc := plat_version_calc
                      (DT_platforminfo_selected e ! PLATFORMINFO_MAJOR)
                      (DT_platforminfo_selected e ! PLATFORMINFO_MINOR) \<rparr>
                  in Some (SUCCESS, platform_dtbo_version_check e inp sel, hp1) })"

section \<open>The loop over the image\<close>

text \<open>
  The variables of \<open>_select_dtb_and_dtbos\<close> that live across rounds. A blob is compared by its
  type; the status of the comparison is not looked at.
\<close>

record select_vars =
  handle :: handle_data
  soc_dtbo_selected :: handle_selected_dtbo
  platform_dtbo_selected :: handle_selected_dtbo
  sel_heap :: heap

definition select_entry ::
  "(nat \<Rightarrow> int \<Rightarrow> addr) \<Rightarrow> mem \<Rightarrow> handle_input_data \<Rightarrow> handle_entry_data \<Rightarrow> select_vars \<Rightarrow> select_vars option" where
  "select_entry al m inp e0 v =
     (let e = e0 \<lparr> candidacy_status := False \<rparr>
      in case device_tree_type e of
           BASE_DTB \<Rightarrow>
             let e = validate_and_select_base_dtb e (handle v)
             in Some (if candidacy_status e
                  then v \<lparr> handle := (handle v) \<lparr> base_dtb_ptr := blob (node e), base_dtb_size := cur_blob_size e \<rparr> \<rparr>
                  else v)
         | SOC_DTBO \<Rightarrow>
             let e = validate_and_select_soc_dtbo e inp (soc_dtbo_selected v)
             in Some (if candidacy_status e
                  then v \<lparr> handle := (handle v) \<lparr> soc_dtbo_ptr := blob (node e), soc_dtbo_size := cur_blob_size e \<rparr>,
                           soc_dtbo_selected := (soc_dtbo_selected v) \<lparr> sel_rank := cur_rank e,
                             sel_blob_size := cur_blob_size e,
                             sel_chipinfo_version_calc := cur_chipinfo_version_calc e \<rparr> \<rparr>
                  else v)
         | PLATFORM_DTBO \<Rightarrow> do {
             (st, e, hp) \<leftarrow> validate_and_select_platform_dtbo al m e inp (platform_dtbo_selected v) (sel_heap v);
             let v = v \<lparr> sel_heap := hp \<rparr>;
             Some (if candidacy_status e
                  then v \<lparr> handle := (handle v) \<lparr> plat_dtbo_ptr := blob (node e), plat_dtbo_size := cur_blob_size e \<rparr>,
                           platform_dtbo_selected := \<lparr> sel_rank = cur_rank e, sel_blob_size = cur_blob_size e,
                             sel_chipinfo_version_calc = cur_chipinfo_version_calc e,
                             sel_platforminfo_version_calc = cur_platforminfo_version_calc e \<rparr> \<rparr>
                  else v) }
         | READ_BLOB_MAX \<Rightarrow> Some v)"

text \<open>A blob that is not the end of the image moves the header pointer forward.\<close>

lemma safe_add_forward:
  assumes "is_safe_to_add_pointer fh n" and "0 < n" and "n < 4294967296"
  shows "fh < u64 (fh + n)" and "u64 (fh + n) < 18446744073709551616"
    and "0 \<le> fh \<Longrightarrow> u64 (fh + n) = fh + n"
proof -
  have n: "u32 n = n" using assms by (simp add: u32_id)
  with assms(1) have ge: "fh \<le> u64 (fh + n)" by (simp add: is_safe_to_add_pointer_def)
  show lt: "u64 (fh + n) < 18446744073709551616" by simp
  have "u64 (fh + n) \<noteq> fh"
  proof
    assume eq: "u64 (fh + n) = fh"
    then have "0 \<le> fh" "fh < 18446744073709551616" using u64_nonneg [of "fh + n"] lt by simp_all
    show False
    proof (cases "fh + n < 18446744073709551616")
      case True
      with eq \<open>0 \<le> fh\<close> assms(2) show False by (simp add: u64_id)
    next
      case False
      have "u64 (fh + n) = (fh + n - 18446744073709551616) mod 18446744073709551616"
        unfolding u64_def by (rule minus_mod_self2 [symmetric])
      also have "\<dots> = fh + n - 18446744073709551616"
        using False assms \<open>fh < 18446744073709551616\<close> by (intro mod_pos_pos_trivial) linarith+
      finally show False using eq assms by linarith
    qed
  qed
  with ge show "fh < u64 (fh + n)" by simp
  show "u64 (fh + n) = fh + n" if "0 \<le> fh"
  proof (cases "fh + n < 18446744073709551616")
    case True
    with that assms show ?thesis by (simp add: u64_id)
  next
    case False
    from ge lt have "fh < 18446744073709551616" by linarith
    have "u64 (fh + n) = (fh + n - 18446744073709551616) mod 18446744073709551616"
      unfolding u64_def by (rule minus_mod_self2 [symmetric])
    also have "\<dots> = fh + n - 18446744073709551616"
      using False assms \<open>fh < 18446744073709551616\<close> by (intro mod_pos_pos_trivial) linarith+
    finally show ?thesis using ge assms by linarith
  qed
qed

lemma blob_size_Some:
  "fdt_get_blob_size m (Some h) True = Some (r, sz) \<Longrightarrow> r = NOERROR \<Longrightarrow>
     \<exists>n. sz = Some n \<and> fdt_totalsize m (blob h) = Some n \<and> 0 \<le> n \<and> n < 4294967296"
  by (auto simp: fdt_get_blob_size_def fdt_totalsize_def bind_eq_Some_conv dest: fdt32_ld_range split: if_splits)

text \<open>What an entry that is not the end has passed.\<close>

lemma not_at_end:
  assumes "is_fdtheader_at_end_of_image m fh hnd inp e0 = Some (st, e, False)"
  shows "\<exists>n. st = SUCCESS \<and> fdt_check_header m fh = Some 0 \<and> fdt_totalsize m fh = Some n \<and>
    0 < n \<and> n < 4294967296 \<and> is_safe_to_add_pointer fh n \<and> fh \<noteq> NULL \<and>
    e = e0 \<lparr> candidacy_status := True, node := (node e0) \<lparr> blob := fh \<rparr>, cur_blob_size := n \<rparr> \<and>
    (dtbs_image_size inp \<noteq> 0 \<longrightarrow>
       address_within_image_range_and_pointer_overflow_check fh
         (dtbs_image_start_address hnd) (dtbs_image_size inp) = (SUCCESS, True) \<and>
       address_within_image_range_and_pointer_overflow_check (u64 (u64 (fh + n) - 1))
         (dtbs_image_start_address hnd) (dtbs_image_size inp) = (SUCCESS, True))"
proof -
  let ?h = "(node e0) \<lparr> blob := fh \<rparr>"
  from assms have nn: "fh \<noteq> NULL" by (auto simp: is_fdtheader_at_end_of_image_def)
  from assms obtain r sz where b: "fdt_get_blob_size m (Some ?h) True = Some (r, sz)" "r = NOERROR"
    "fdt_check_header m fh = Some 0"
    by (auto simp: is_fdtheader_at_end_of_image_def Let_def bind_eq_Some_conv split: if_split_asm prod.split_asm)
  from blob_size_Some [OF b(1,2)] obtain n where n: "sz = Some n" "fdt_totalsize m fh = Some n"
    "0 \<le> n" "n < 4294967296" by auto
  show ?thesis
    using assms nn b n
    by (auto simp: is_fdtheader_at_end_of_image_def Let_def split: if_split_asm prod.split_asm)
qed

text \<open>The checks keep the node and the size of the entry.\<close>

abbreviation (input) same_blob :: "handle_entry_data \<Rightarrow> handle_entry_data \<Rightarrow> bool" where
  "same_blob e e' \<equiv> node e' = node e \<and> cur_blob_size e' = cur_blob_size e"

lemma search_same_blob:
  "search_chipinfo m inp e n p hp = Some (st, e', hp') \<Longrightarrow> same_blob e e'"
  "search_platforminfo m inp e n p hp = Some (st, e', hp') \<Longrightarrow> same_blob e e'"
  "search_compatible m s e n p hp = Some (st, e', hp') \<Longrightarrow> same_blob e e'"
  "search_prop_list m pl e n p hp = Some (go, st, e', hp') \<Longrightarrow> same_blob e e'"
  unfolding search_chipinfo_def search_platforminfo_def search_compatible_def search_prop_list_def
  by (auto simp: bind_eq_Some_conv split: if_split_asm option.split_asm)

lemma chipinfo_same_blob:
  "is_chipinfo_family_match al m inp e hp = Some (st, e', hp') \<Longrightarrow> same_blob e e'"
  by (auto simp: is_chipinfo_family_match_def Let_def bind_eq_Some_conv with_alloc_Some
      dest: search_same_blob split: if_split_asm)

lemma overlay_same_blob:
  "identify_overlay al m inp e hp = Some (st, e', hp') \<Longrightarrow> same_blob e e'"
  by (auto simp: identify_overlay_def Let_def bind_eq_Some_conv with_alloc_Some
      dest: search_same_blob split: if_split_asm)

lemma blob_type_same_blob:
  "identify_blob_type_and_get_platforminfo al m inp e hp = Some (st, e', hp') \<Longrightarrow> same_blob e e'"
  by (auto simp: identify_blob_type_and_get_platforminfo_def Let_def bind_eq_Some_conv
      dest: overlay_same_blob split: if_split_asm)

lemma compat_same_blob:
  "validate_compatible_string al m inp e hp = Some (st, e', hp') \<Longrightarrow> same_blob e e'"
  by (auto simp: validate_compatible_string_def Let_def bind_eq_Some_conv with_alloc_Some
      dest: search_same_blob split: if_split_asm option.split_asm)

lemma compatible_match_same_blob:
  assumes "is_compatible_string_match al m inp e hp = Some (st, e', hp')"
  shows "same_blob e e'"
proof -
  from assms obtain st1 e1 hp1 where
    i: "identify_blob_type_and_get_platforminfo al m inp (e \<lparr> candidacy_status := False \<rparr>) hp = Some (st1, e1, hp1)"
    by (auto simp: is_compatible_string_match_def bind_eq_Some_conv)
  from blob_type_same_blob [OF i] have "same_blob e e1" by simp
  moreover have "e' = e1 \<or>
      validate_compatible_string al m inp (e1 \<lparr> candidacy_status := False \<rparr>) hp1 = Some (st, e', hp')"
    using assms i by (simp add: is_compatible_string_match_def split: if_split_asm)
  ultimately show ?thesis by (auto dest: compat_same_blob)
qed

lemma prop_list_step_same_blob:
  "prop_list_step al m pl e hp = Some (go, st, e', hp') \<Longrightarrow> same_blob e e'"
  by (auto simp: prop_list_step_def Let_def bind_eq_Some_conv with_alloc_Some
      dest: search_same_blob split: if_split_asm)

lemma prop_list_loop_same_blob:
  "prop_list_loop al m k pls e hp = Some (st, e', hp') \<Longrightarrow> same_blob e e'"
proof (induction al m k pls e hp rule: prop_list_loop.induct)
  case (3 al m k pl pls e hp)
  from "3.prems" obtain go st1 e1 hp1 where s: "prop_list_step al m pl e hp = Some (go, st1, e1, hp1)"
    by (auto simp: bind_eq_Some_conv)
  from "3.IH" [OF s refl refl refl] "3.prems" s prop_list_step_same_blob [OF s]
  show ?case by (auto split: if_splits)
qed simp_all

lemma property_list_same_blob:
  "is_property_list_valid al m inp e hp = Some (st, e', hp') \<Longrightarrow> same_blob e e'"
  by (auto simp: is_property_list_valid_def dest: prop_list_loop_same_blob split: option.splits if_splits)

lemma candidate_same_blob:
  assumes "is_it_dtb_dtbo_candidate al m inp e hp = Some (st, e', hp')"
  shows "same_blob e e'"
proof -
  from assms obtain st1 e1 hp1 where c: "is_chipinfo_family_match al m inp e hp = Some (st1, e1, hp1)"
    by (auto simp: is_it_dtb_dtbo_candidate_def bind_eq_Some_conv)
  note c1 = chipinfo_same_blob [OF c]
  show ?thesis
  proof (cases "st1 \<noteq> SUCCESS \<or> \<not> candidacy_status e1")
    case True
    with assms c c1 show ?thesis by (simp add: is_it_dtb_dtbo_candidate_def)
  next
    case False
    with assms c obtain st2 e2 hp2 where d: "is_compatible_string_match al m inp e1 hp1 = Some (st2, e2, hp2)"
      by (auto simp: is_it_dtb_dtbo_candidate_def bind_eq_Some_conv)
    have "e' = e2 \<or> is_property_list_valid al m inp e2 hp2 = Some (st, e', hp')"
      using assms c d False by (simp add: is_it_dtb_dtbo_candidate_def split: if_split_asm)
    then show ?thesis using c1 compatible_match_same_blob [OF d] by (auto dest: property_list_same_blob)
  qed
qed

function (sequential) select_loop ::
  "(nat \<Rightarrow> int \<Rightarrow> addr) \<Rightarrow> mem \<Rightarrow> ext_state \<Rightarrow> handle_input_data \<Rightarrow> addr \<Rightarrow> select_vars \<Rightarrow>
     (rc \<times> select_vars) option" where
  "select_loop al m xs inp fdtheader v = do {
     (st, e, end_of_file) \<leftarrow> is_fdtheader_at_end_of_image m fdtheader (handle v) inp init_handle_entry_data;
     if st \<noteq> SUCCESS then Some (st, v)
     else if end_of_file then Some (SUCCESS, v)
     else do {
       (r, nd) \<leftarrow> fdt_get_node_handle m xs (Some (node e)) (blob (node e)) (Some ROOT_NODE);
       if r \<noteq> NOERROR then Some (GET_ROOT_NODE_FAILED, v)
       else do {
         h \<leftarrow> nd;
         (st, e, hp) \<leftarrow> is_it_dtb_dtbo_candidate al m inp (e \<lparr> node := h \<rparr>) (sel_heap v);
         let v = v \<lparr> sel_heap := hp \<rparr>;
         if st \<noteq> SUCCESS then Some (st, v)
         else do {
           v' \<leftarrow> (if candidacy_status e then select_entry al m inp e v else Some v);
           select_loop al m xs inp (u64 (fdtheader + cur_blob_size e)) v' } } } }"
  by pat_completeness auto

termination select_loop
proof (relation "measure (\<lambda>(al, m, xs, inp, fh, v). nat (18446744073709551616 - fh))", goal_cases)
  case (2 al m xs inp fh v a st b e eof c r nd h d st2 f e2 hp v2 v')
  then have "cur_blob_size e2 = cur_blob_size e"
    by (auto dest!: candidate_same_blob)
  moreover from 2 not_at_end [of m fh "handle v" inp init_handle_entry_data st e]
  have "is_safe_to_add_pointer fh (cur_blob_size e)" "0 < cur_blob_size e" "cur_blob_size e < 4294967296"
    by auto
  ultimately have "fh < u64 (fh + cur_blob_size e2)" using safe_add_forward(1) [of fh "cur_blob_size e"] by simp
  moreover from this u64_less [of "fh + cur_blob_size e2"] have "fh < 18446744073709551616" by linarith
  ultimately show ?case by simp
qed simp

declare select_loop.simps [simp del]

definition select_dtb_and_dtbos ::
  "(nat \<Rightarrow> int \<Rightarrow> addr) \<Rightarrow> mem \<Rightarrow> ext_state \<Rightarrow> handle_data \<Rightarrow> handle_input_data \<Rightarrow> heap \<Rightarrow>
     (rc \<times> handle_data \<times> heap) option" where
  "select_dtb_and_dtbos al m xs hnd inp hp =
     (if dtbs_image_start_address hnd = NULL then Some (INVALID_PARAMETER, hnd, hp)
      else do {
        (st, v) \<leftarrow> select_loop al m xs inp (dtbs_image_start_address hnd)
          \<lparr> handle = hnd, soc_dtbo_selected = init_handle_selected_dtb_dtbo,
            platform_dtbo_selected = init_handle_selected_dtb_dtbo, sel_heap = hp \<rparr>;
        Some (st, handle v, sel_heap v) })"

section \<open>Reading and closing\<close>

text \<open>\<open>_handle_check\<close> of a handle that is NULL or points to the data.\<close>

definition handle_check :: "handle_data option \<Rightarrow> rc" where
  "handle_check h =
     (case h of None \<Rightarrow> FAIL
      | Some d \<Rightarrow> if data_guard d \<noteq> DT_SELECT_LIBRARY_ID then FAIL else SUCCESS)"

text \<open>
  \<open>dt_select_read_blob\<close>: the status, \<open>*blob_ptr\<close> and the bytes copied to the address it held.
  \<open>blob_ptr\<close> is NULL (\<open>None\<close>) or points to an address.
\<close>

definition blob_of_type :: "handle_data \<Rightarrow> blob_type \<Rightarrow> (addr \<times> int) option" where
  "blob_of_type d t =
     (case t of
        BASE_DTB \<Rightarrow> Some (base_dtb_ptr d, base_dtb_size d)
      | SOC_DTBO \<Rightarrow> Some (soc_dtbo_ptr d, soc_dtbo_size d)
      | PLATFORM_DTBO \<Rightarrow> Some (plat_dtbo_ptr d, plat_dtbo_size d)
      | READ_BLOB_MAX \<Rightarrow> None)"

definition dt_select_read_blob ::
  "mem \<Rightarrow> handle_data option \<Rightarrow> blob_type \<Rightarrow> addr option \<Rightarrow> int \<Rightarrow>
     (rc \<times> addr option \<times> byte list) option" where
  "dt_select_read_blob m h t blob_ptr blob_size =
     (case (h, blob_ptr) of
        (Some d, Some q) \<Rightarrow>
          if handle_check h \<noteq> SUCCESS then Some (INVALID_PARAMETER, blob_ptr, [])
          else (case blob_of_type d t of
             None \<Rightarrow> Some (READ_BLOB_TYPE_MISMATCH, blob_ptr, [])
           | Some (address, sz) \<Rightarrow>
               if sz \<noteq> 0 \<and> blob_size = sz then do {
                 (r, n) \<leftarrow> fdt_get_blob_size m (Some \<lparr> blob = address, offset = 0 \<rparr>) True;
                 if r \<noteq> NOERROR then Some (r, blob_ptr, [])
                 else do {
                   low \<leftarrow> n;
                   let sz = (sz div 4294967296) * 4294967296 + low;
                   if sz = blob_size then
                     if q = NULL then Some (SUCCESS, Some address, [])
                     else do {
                       (k, bs) \<leftarrow> MEMCPY_WRAPPER m blob_size address sz;
                       Some (if k \<noteq> sz then MEMCOPY_FAIL else SUCCESS, blob_ptr, bs) }
                   else Some (READ_BLOB_SIZE_MISMATCH, blob_ptr, []) } }
               else Some (READ_BLOB_SIZE_MISMATCH, blob_ptr, []))
      | _ \<Rightarrow> Some (INVALID_PARAMETER, blob_ptr, []))"

text \<open>\<open>dt_select_close\<close>: the handle, when it is not NULL, is the block at \<open>hp_ptr\<close> of 64 bytes.\<close>

definition dt_select_close :: "heap \<Rightarrow> addr \<Rightarrow> handle_data option \<Rightarrow> (rc \<times> heap) option" where
  "dt_select_close hp hp_ptr h =
     (if hp_ptr = NULL \<or> handle_check h \<noteq> SUCCESS then Some (INVALID_PARAMETER, hp)
      else do { hp' \<leftarrow> FREE_WRAPPER hp hp_ptr 64; Some (SUCCESS, hp') })"

end
