(* ===== verification/DT_Print.thy ===== *)
theory DT_Print
  imports DT_Select
begin

text \<open>
  Printing the selected blobs and opening the library (\<open>_print_property_value\<close>,
  \<open>_print_board_id\<close>, \<open>_print_selected_dtb_dtbos\<close> and \<open>dt_select_open\<close> of \<open>dt_select.c\<close>).

  The printed text itself is not modelled; what matters to the rest is the status, the heap, and
  the position \<open>len\<close> up to which a buffer of \<open>BUFFER_SIZE\<close> bytes is filled.
\<close>

abbreviation (input) INVALID_RETURN_PTR :: rc where "INVALID_RETURN_PTR \<equiv> Ret (- 13)"
abbreviation (input) BUFFER_SIZE :: int where "BUFFER_SIZE \<equiv> 200"

section \<open>Formatted output\<close>

text \<open>
  \<open>SNPRINTF_WRAPPER (print_buffer + len, BUFFER_SIZE - len, ...)\<close> for an output of \<open>n\<close>
  characters: the value it returns. The room \<open>BUFFER_SIZE - len\<close> is converted to \<open>size_t\<close>, so a
  position behind the buffer is a write outside of it (\<open>None\<close>). On XBL the C library returns the
  length of the whole output, whether it fits or not. On UEFI the format string is first copied to
  a block of as many bytes as there is room, and the length written is returned.
\<close>

definition SNPRINTF_WRAPPER :: "(nat \<Rightarrow> int \<Rightarrow> addr) \<Rightarrow> heap \<Rightarrow> int \<Rightarrow> int \<Rightarrow> (int \<times> heap) option" where
  "SNPRINTF_WRAPPER al hp len n =
     (if len < 0 \<or> len > BUFFER_SIZE then None
      else
        let room = BUFFER_SIZE - len
        in case target hp of
             XBL \<Rightarrow> Some (n, hp)
           | UEFI \<Rightarrow>
               (case MALLOC_WRAPPER al hp room of (str_a, hp1) \<Rightarrow>
                  if str_a = NULL then Some (0, hp1)
                  else if room = 0 then None
                  else do {
                    hp2 \<leftarrow> FREE_WRAPPER hp1 str_a room;
                    Some (if n < room then n else room - 1, hp2) }))"

text \<open>\<open>len += SNPRINTF_WRAPPER (...)\<close>: the addition is unsigned, the result an \<open>int\<close> again.\<close>

definition append_text :: "(nat \<Rightarrow> int \<Rightarrow> addr) \<Rightarrow> int \<Rightarrow> int \<Rightarrow> heap \<Rightarrow> (int \<times> heap) option" where
  "append_text al n len hp = do {
     (k, hp') \<leftarrow> SNPRINTF_WRAPPER al hp len n;
     Some (s32 (len + k), hp') }"

text \<open>\<open>DEFAULT_LOG_MESSAGE\<close>: formatting into the static buffer; the log itself is output.\<close>

definition log_message :: "(nat \<Rightarrow> int \<Rightarrow> addr) \<Rightarrow> heap \<Rightarrow> heap option" where
  "log_message al hp = do { (k, hp') \<leftarrow> SNPRINTF_WRAPPER al hp 0 0; Some hp' }"

fun log_messages :: "(nat \<Rightarrow> int \<Rightarrow> addr) \<Rightarrow> nat \<Rightarrow> heap \<Rightarrow> heap option" where
  "log_messages al 0 hp = Some hp"
| "log_messages al (Suc k) hp = do { hp' \<leftarrow> log_message al hp; log_messages al k hp' }"

text \<open>The number of characters of \<open>%x\<close>.\<close>

fun hex_len :: "nat \<Rightarrow> int" where
  "hex_len n = (if n < 16 then 1 else 1 + hex_len (n div 16))"

declare hex_len.simps [simp del]

definition get_size_tag :: "int \<Rightarrow> byte list" where
  "get_size_tag n =
     (if n = 1 then chars ''/bits/ 8''
      else if n = 2 then chars ''/bits/ 16''
      else if n = 4 then []
      else if n = 8 then chars ''/bits/ 64''
      else chars ''/bits/ 8'')"

section \<open>The input parameters\<close>

text \<open>
  The line of one property of the client: the name, then the size tag and the value. The block
  \<open>print_buffer\<close> is used without a test for NULL. A value of 64 bits is passed for \<open>%x\<close>, which
  prints its low word.
\<close>

definition print_input_property ::
  "(nat \<Rightarrow> int \<Rightarrow> addr) \<Rightarrow> mem \<Rightarrow> addr \<Rightarrow> property_list \<Rightarrow> heap \<Rightarrow> heap option" where
  "print_input_property al m print_buffer pl hp =
     (if print_buffer = NULL then None
      else do {
        name \<leftarrow> prop_name pl;
        (len, hp1) \<leftarrow> append_text al (4 + int (length name)) 0 hp;
        hp2 \<leftarrow> (if prop_size_bytes pl \<in> {1, 2, 4, 8} then do {
                  v \<leftarrow> client_value m pl;
                  (len', hp') \<leftarrow> append_text al (12 + int (length (get_size_tag (prop_size_bytes pl)))
                     + hex_len (nat (u32 v))) len hp1;
                  Some hp' }
                else log_message al hp1);
        log_message al hp2 })"

fun print_input_loop ::
  "(nat \<Rightarrow> int \<Rightarrow> addr) \<Rightarrow> mem \<Rightarrow> addr \<Rightarrow> nat \<Rightarrow> property_list list \<Rightarrow> heap \<Rightarrow> heap option" where
  "print_input_loop al m pb 0 pls hp = Some hp"
| "print_input_loop al m pb (Suc k) [] hp = None"
| "print_input_loop al m pb (Suc k) (pl # pls) hp = do {
     hp' \<leftarrow> print_input_property al m pb pl hp;
     print_input_loop al m pb k pls hp' }"

text \<open>
  \<open>_print_input_parameters\<close>: eleven lines, the property list when there is one, and a last line.
\<close>

definition print_input_parameters ::
  "(nat \<Rightarrow> int \<Rightarrow> addr) \<Rightarrow> mem \<Rightarrow> property_list list option \<Rightarrow> nat \<Rightarrow> heap \<Rightarrow> (rc \<times> heap) option" where
  "print_input_parameters al m props num hp =
     (if props = None \<and> num \<noteq> 0 \<or> props \<noteq> None \<and> num = 0
      then do { hp1 \<leftarrow> log_message al hp; Some (INVALID_PARAMETER, hp1) }
      else do {
        hp1 \<leftarrow> log_messages al 11 hp;
        hp2 \<leftarrow> (case props of
            None \<Rightarrow> Some hp1
          | Some pls \<Rightarrow> do {
              hp2 \<leftarrow> log_message al hp1;
              case MALLOC_WRAPPER al hp2 BUFFER_SIZE of (pb, hp3) \<Rightarrow> do {
                hp4 \<leftarrow> print_input_loop al m pb num pls hp3;
                if pb = NULL then Some hp4 else FREE_WRAPPER hp4 pb BUFFER_SIZE } });
        hp3 \<leftarrow> log_message al hp2;
        Some (SUCCESS, hp3) })"

section \<open>The value of a property\<close>

text \<open>The bytes of one element, two digits each.\<close>

fun print_element :: "(nat \<Rightarrow> int \<Rightarrow> addr) \<Rightarrow> mem \<Rightarrow> nat \<Rightarrow> addr \<Rightarrow> int \<Rightarrow> heap \<Rightarrow> (int \<times> heap) option" where
  "print_element al m 0 current_ptr len hp = Some (len, hp)"
| "print_element al m (Suc k) current_ptr len hp = do {
     b \<leftarrow> rd m current_ptr;
     (len', hp') \<leftarrow> append_text al 2 len hp;
     print_element al m k (current_ptr + 1) len' hp' }"

text \<open>
  The loop over the elements. An element size of 0, which the client's property list can have,
  makes it go on without end, so it is a partial function.
\<close>

partial_function (option) print_elements ::
  "(nat \<Rightarrow> int \<Rightarrow> addr) \<Rightarrow> mem \<Rightarrow> int \<Rightarrow> int \<Rightarrow> addr \<Rightarrow> int \<Rightarrow> heap \<Rightarrow> (rc \<times> int \<times> heap) option" where
  "print_elements al m elem_size value_size current_ptr len hp =
     (if value_size = 0 then Some (SUCCESS, len, hp)
      else do {
        (len1, hp1) \<leftarrow> append_text al 3 len hp;
        (len2, hp2) \<leftarrow> print_element al m (nat elem_size) current_ptr len1 hp1;
        if \<not> is_safe_to_subtract_uint32 value_size elem_size then Some (UINT32_ARITHMETIC_OVERFLOW, len2, hp2)
        else print_elements al m elem_size (value_size - elem_size) (current_ptr + elem_size) len2 hp2 })"

declare print_elements.simps [code]

text \<open>The loop over the strings of \<open>proc-name\<close>. A string of \<open>INT_MAX\<close> characters has no \<open>int\<close> length.\<close>

partial_function (option) print_strings ::
  "(nat \<Rightarrow> int \<Rightarrow> addr) \<Rightarrow> mem \<Rightarrow> int \<Rightarrow> addr \<Rightarrow> int \<Rightarrow> heap \<Rightarrow> (rc \<times> int \<times> heap) option" where
  "print_strings al m value_size current_ptr len hp =
     (if value_size = 0 then Some (SUCCESS, len, hp)
      else do {
        n \<leftarrow> c_strlen m current_ptr;
        if n \<ge> INT_MAX then None
        else if \<not> is_safe_to_subtract_uint32 value_size (n + 1) then Some (UINT32_ARITHMETIC_OVERFLOW, len, hp)
        else do {
          (len1, hp1) \<leftarrow> append_text al (n + 2) len hp;
          if \<not> is_safe_to_add_pointer current_ptr (n + 1) then Some (POINTER_ARITHMETIC_OVERFLOW, len1, hp1)
          else do {
            (len2, hp2) \<leftarrow> append_text al 1 len1 hp1;
            print_strings al m (value_size - (n + 1)) (current_ptr + (n + 1)) len2 hp2 } } })"

declare print_strings.simps [code]

definition print_property_value ::
  "(nat \<Rightarrow> int \<Rightarrow> addr) \<Rightarrow> mem \<Rightarrow> fdt_node_handle \<Rightarrow> byte list \<Rightarrow> int \<Rightarrow> int \<Rightarrow> bool \<Rightarrow> heap \<Rightarrow> (rc \<times> heap) option" where
  "print_property_value al m h name len elem_size is_proc_name hp =
     (if blob h = NULL then do { hp1 \<leftarrow> log_message al hp; Some (INVALID_PARAMETER, hp1) }
      else do {
        (vptr, n) \<leftarrow> fdt_getprop m (blob h) (offset h) name;
        if vptr = NULL then do { hp1 \<leftarrow> log_message al hp; Some (INVALID_RETURN_PTR, hp1) }
        else if is_proc_name then do {
          (st, len', hp1) \<leftarrow> print_strings al m (u32 n) vptr len hp;
          Some (st, hp1) }
        else do {
          (len1, hp1) \<leftarrow> append_text al 1 len hp;
          (st, len2, hp2) \<leftarrow> print_elements al m elem_size (u32 n) vptr len1 hp1;
          if st \<noteq> SUCCESS then Some (st, hp2)
          else do { (len3, hp3) \<leftarrow> append_text al 3 len2 hp2; Some (SUCCESS, hp3) } } })"

section \<open>The node of a blob\<close>

text \<open>The size of the elements of a property, by its name; all ones stand for \<open>proc-name\<close>.\<close>

abbreviation (input) PROC_NAME_SIZE :: int where "PROC_NAME_SIZE \<equiv> 4294967295"

fun client_size :: "byte list \<Rightarrow> nat \<Rightarrow> property_list list \<Rightarrow> int option" where
  "client_size name 0 pls = Some 1"
| "client_size name (Suc k) [] = None"
| "client_size name (Suc k) (pl # pls) = do {
     s \<leftarrow> prop_name pl;
     if starts_with name s then Some (prop_size_bytes pl) else client_size name k pls }"

definition element_size :: "property_list list option \<Rightarrow> nat \<Rightarrow> byte list \<Rightarrow> int option" where
  "element_size props num name =
     (if starts_with name CHIPINFO_PROP_NAME then Some 2
      else if starts_with name PLATFORMINFO_PROP_NAME then Some 1
      else if starts_with name COMPATIBLE_PROP_NAME then Some PROC_NAME_SIZE
      else if starts_with name OEM_VAR_PROP_NAME then Some 4
      else case props of None \<Rightarrow> Some 1 | Some pls \<Rightarrow> client_size name num pls)"

text \<open>
  The property value with its size tag, while the block \<open>q\<close> of \<open>n\<close> bytes is held. The block is not
  tested for NULL and not used.
\<close>

definition print_value_with_block ::
  "(nat \<Rightarrow> int \<Rightarrow> addr) \<Rightarrow> mem \<Rightarrow> property_list list option \<Rightarrow> nat \<Rightarrow> fdt_node_handle \<Rightarrow> byte list \<Rightarrow> int \<Rightarrow> addr \<Rightarrow> int \<Rightarrow> heap \<Rightarrow>
     (bool \<times> rc \<times> addr \<times> int \<times> heap) option" where
  "print_value_with_block al m props num h name n q len hp = do {
     es \<leftarrow> element_size props num name;
     (len1, hp1) \<leftarrow> (if es \<noteq> PROC_NAME_SIZE
        then append_text al (int (length (get_size_tag es)) + 1) len hp else Some (len, hp));
     (st, hp2) \<leftarrow> print_property_value al m h name len1 es (es = PROC_NAME_SIZE) hp1;
     if st \<noteq> SUCCESS then Some (False, st, q, n, hp2)
     else do {
       hp3 \<leftarrow> FREE_WRAPPER hp2 q n;
       hp4 \<leftarrow> log_message al hp3;
       Some (True, SUCCESS, NULL, n, hp4) } }"

text \<open>
  One round of the loop of \<open>_print_board_id\<close>: whether it goes on, the status, and the block (with
  its size) that \<open>property_value_buffer_ptr\<close> points to. \<open>print_buffer\<close> is not tested for NULL.
\<close>

definition print_board_property ::
  "(nat \<Rightarrow> int \<Rightarrow> addr) \<Rightarrow> mem \<Rightarrow> property_list list option \<Rightarrow> nat \<Rightarrow> fdt_node_handle \<Rightarrow> addr \<Rightarrow> byte list \<Rightarrow> heap \<Rightarrow>
     (bool \<times> rc \<times> addr \<times> int \<times> heap) option" where
  "print_board_property al m props num h print_buffer name hp =
     (if print_buffer = NULL then None
      else do {
        (len1, hp1) \<leftarrow> append_text al (3 + int (length name)) 0 hp;
        (r, sz) \<leftarrow> fdt_get_prop_size m (Some h) (Some name) True;
        if r \<noteq> NOERROR then Some (False, r, NULL, 0, hp1)
        else do {
          n \<leftarrow> sz;
          if n = 0 then do {
            (len2, hp2) \<leftarrow> append_text al 31 len1 hp1;
            hp3 \<leftarrow> log_message al hp2;
            Some (True, SUCCESS, NULL, 0, hp3) }
          else do {
            (len2, hp2) \<leftarrow> append_text al 2 len1 hp1;
            case MALLOC_WRAPPER al hp2 n of (q, hp3) \<Rightarrow>
              print_value_with_block al m props num h name n q len2 hp3 } } })"

text \<open>
  The loop over the names: \<open>l\<close> is the part of the block of names from \<open>current_string_ptr\<close> on, as
  long as \<open>property_name_string_buffer_size\<close>. The first component of the result says that the
  function returns at once, without releasing anything.
\<close>

function (sequential) print_board_loop ::
  "(nat \<Rightarrow> int \<Rightarrow> addr) \<Rightarrow> mem \<Rightarrow> property_list list option \<Rightarrow> nat \<Rightarrow> fdt_node_handle \<Rightarrow> addr \<Rightarrow> addr \<Rightarrow> byte list \<Rightarrow>
     rc \<Rightarrow> heap \<Rightarrow> (bool \<times> rc \<times> addr \<times> int \<times> heap) option" where
  "print_board_loop al m props num h pb p l r hp =
     (if l = [] then Some (False, r, NULL, 0, hp)
      else if 0 \<notin> set l then None
      else
        let name = takeWhile (\<lambda>c. c \<noteq> 0) l; sz = length name + 1
        in if \<not> is_safe_to_subtract_uint32 (int (length l)) (int sz)
           then Some (True, UINT32_ARITHMETIC_OVERFLOW, NULL, 0, hp)
           else do {
             (go, st, q, n, hp1) \<leftarrow> print_board_property al m props num h pb name hp;
             if \<not> go then Some (False, st, q, n, hp1)
             else if \<not> is_safe_to_add_pointer p (int sz)
               then Some (True, POINTER_ARITHMETIC_OVERFLOW, NULL, 0, hp1)
             else print_board_loop al m props num h pb (u64 (p + int sz)) (drop sz l) st hp1 })"
  by pat_completeness auto

termination print_board_loop
  by (relation "measure (\<lambda>(al, m, props, num, h, pb, p, l, r, hp). length l)") (auto simp: Let_def)

declare print_board_loop.simps [simp del]

text \<open>\<open>if (NULL != ptr) FREE_WRAPPER (ptr, size);\<close>\<close>

definition free_if :: "addr \<Rightarrow> int \<Rightarrow> heap \<Rightarrow> heap option" where
  "free_if p n hp = (if p = NULL then Some hp else FREE_WRAPPER hp p n)"

text \<open>From the names in the block \<open>p\<close> of \<open>n\<close> bytes to the end of the function.\<close>

definition print_board_names ::
  "(nat \<Rightarrow> int \<Rightarrow> addr) \<Rightarrow> mem \<Rightarrow> property_list list option \<Rightarrow> nat \<Rightarrow> fdt_node_handle \<Rightarrow> addr \<Rightarrow> int \<Rightarrow> byte list \<Rightarrow> heap \<Rightarrow>
     (rc \<times> heap) option" where
  "print_board_names al m props num h p n l hp1 =
     (case MALLOC_WRAPPER al hp1 BUFFER_SIZE of (pb, hp2) \<Rightarrow> do {
        hp3 \<leftarrow> log_message al hp2;
        (early, st, q, k, hp4) \<leftarrow> print_board_loop al m props num h pb p l SUCCESS hp3;
        if early then Some (st, hp4)
        else do {
          hp5 \<leftarrow> (if st = SUCCESS then log_message al hp4 else Some hp4);
          hp6 \<leftarrow> FREE_WRAPPER hp5 p n;
          hp7 \<leftarrow> free_if q k hp6;
          hp8 \<leftarrow> free_if pb BUFFER_SIZE hp7;
          Some (st, hp8) } })"

definition print_board_id ::
  "(nat \<Rightarrow> int \<Rightarrow> addr) \<Rightarrow> mem \<Rightarrow> ext_state \<Rightarrow> addr \<Rightarrow> property_list list option \<Rightarrow> nat \<Rightarrow> heap \<Rightarrow> (rc \<times> heap) option" where
  "print_board_id al m xs fdtheader props0 num0 hp =
     (if fdtheader = NULL then do { hp1 \<leftarrow> log_message al hp; Some (INVALID_PARAMETER, hp1) }
      else
        let empty = (props0 = None \<or> num0 = 0);
            props = (if empty then None else props0);
            num = (if empty then 0 else num0)
        in do {
          (r, node) \<leftarrow> fdt_get_node_handle m xs (Some \<lparr> blob = fdtheader, offset = 0 \<rparr>) fdtheader (Some ROOT_NODE);
          h \<leftarrow> node;
          if r \<noteq> NOERROR \<or> blob h = NULL then do { hp1 \<leftarrow> log_message al hp; Some (SUCCESS, hp1) }
          else do {
            (r, size) \<leftarrow> fdt_get_prop_names_size_of_node m (Some h) True;
            n \<leftarrow> size;
            if r \<noteq> NOERROR then do { hp1 \<leftarrow> log_message al hp; Some (r, hp1) }
            else case MALLOC_WRAPPER al hp n of (p, hp1) \<Rightarrow>
              if p = NULL then do { hp2 \<leftarrow> log_message al hp1; Some (MALLOC_FAIL, hp2) }
              else do {
                (r, names) \<leftarrow> fdt_get_prop_names_of_node m (Some h) (Some (replicate (nat n) 0)) n;
                if r \<noteq> NOERROR then do {
                  hp2 \<leftarrow> log_message al hp1;
                  hp3 \<leftarrow> FREE_WRAPPER hp2 p n;
                  Some (r, hp3) }
                else do { l \<leftarrow> names; print_board_names al m props num h p n l hp1 } } } })"

text \<open>
  \<open>_print_selected_dtb_dtbos\<close>: a blob that was selected is printed, and the status is that of the
  last one printed; when none was selected it is \<open>INVALID_PARAMETER\<close>.
\<close>

fun print_selected_blobs ::
  "(nat \<Rightarrow> int \<Rightarrow> addr) \<Rightarrow> mem \<Rightarrow> ext_state \<Rightarrow> property_list list option \<Rightarrow> nat \<Rightarrow> (addr \<times> int) list \<Rightarrow> rc \<Rightarrow> heap \<Rightarrow>
     (rc \<times> heap) option" where
  "print_selected_blobs al m xs props num [] r hp = Some (r, hp)"
| "print_selected_blobs al m xs props num ((p, n) # bs) r hp = do {
     hp1 \<leftarrow> log_message al hp;
     if p \<noteq> NULL \<and> n \<noteq> 0 then do {
       (st, hp2) \<leftarrow> print_board_id al m xs p props num hp1;
       if st \<noteq> SUCCESS then Some (st, hp2) else print_selected_blobs al m xs props num bs st hp2 }
     else do {
       hp2 \<leftarrow> log_message al hp1;
       print_selected_blobs al m xs props num bs r hp2 } }"

definition print_selected_dtb_dtbos ::
  "(nat \<Rightarrow> int \<Rightarrow> addr) \<Rightarrow> mem \<Rightarrow> ext_state \<Rightarrow> handle_data \<Rightarrow> handle_input_data \<Rightarrow> heap \<Rightarrow> (rc \<times> heap) option" where
  "print_selected_dtb_dtbos al m xs d inp hp = do {
     hp1 \<leftarrow> log_message al hp;
     print_selected_blobs al m xs (Input_prop_list inp) (prop_num_entries inp)
       [(base_dtb_ptr d, base_dtb_size d), (soc_dtbo_ptr d, soc_dtbo_size d), (plat_dtbo_ptr d, plat_dtbo_size d)]
       INVALID_PARAMETER hp1 }"

section \<open>Opening the library\<close>

text \<open>What an open handle tells its client: the block, its content and the three sizes.\<close>

record opened =
  handle_ptr :: addr
  handle_content :: handle_data
  sizes :: "int \<times> int \<times> int"

definition dt_select_open ::
  "(nat \<Rightarrow> int \<Rightarrow> addr) \<Rightarrow> mem \<Rightarrow> ext_state \<Rightarrow> addr \<Rightarrow> int \<Rightarrow> chip_plat_info_property option \<Rightarrow>
     property_list list option \<Rightarrow> nat \<Rightarrow> bool \<Rightarrow> heap \<Rightarrow> (rc \<times> opened option \<times> heap) option" where
  "dt_select_open al m xs start image_size info props num sizes_ok hp =
     (case info of
        None \<Rightarrow> Some (INVALID_PARAMETER, None, hp)
      | Some ci \<Rightarrow>
          if start = 0 \<or> props \<noteq> None \<and> num = 0 \<or> props = None \<and> num \<noteq> 0 \<or> \<not> sizes_ok
          then Some (INVALID_PARAMETER, None, hp)
          else case MALLOC_WRAPPER al hp 64 of (p, hp1) \<Rightarrow>
            if p = NULL then Some (MALLOC_FAIL, None, hp1)
            else
              let d0 = init_handle_data start;
                  inp = init_handle_input_data image_size ci props num
              in do {
                (st, hp2) \<leftarrow> print_input_parameters al m (Input_prop_list inp) (prop_num_entries inp) hp1;
                (st, d, hp3) \<leftarrow> (if st \<noteq> SUCCESS then Some (st, d0, hp2)
                                 else select_dtb_and_dtbos al m xs d0 inp hp2);
                (st, hp4) \<leftarrow> (if st \<noteq> SUCCESS then Some (st, hp3)
                              else print_selected_dtb_dtbos al m xs d inp hp3);
                if st \<noteq> SUCCESS then do { hp5 \<leftarrow> FREE_WRAPPER hp4 p 64; Some (st, None, hp5) }
                else Some (SUCCESS, Some \<lparr> handle_ptr = p, handle_content = d,
                       sizes = (base_dtb_size d, soc_dtbo_size d, plat_dtbo_size d) \<rparr>, hp4) })"

end
