(* ===== verification/DT_Check.thy ===== *)
theory DT_Check
  imports DT_Select
begin

text \<open>
  What the checks on one blob decide: a specification on the bytes of the properties of the
  \<open>/board-id/\<close> node, and the proof that the functions of \<open>dt_select.c\<close> implement it, release
  every buffer they allocate, and stay in defined behaviour.
\<close>

section \<open>Specification of one blob\<close>

text \<open>The error code for a property that libfdt does not find.\<close>

definition prop_error :: "mem \<Rightarrow> fdt_node_handle \<Rightarrow> byte list \<Rightarrow> rc" where
  "prop_error m h name =
     (case fdt_getprop m (blob h) (offset h) name of
        Some (p, len) \<Rightarrow> len_error len | None \<Rightarrow> Qc FDTLIB_ERROR)"

text \<open>The first \<open>chip-info\<close> entry of the device's family.\<close>

definition chip_spec :: "mem \<Rightarrow> handle_input_data \<Rightarrow> fdt_node_handle \<Rightarrow> 16 word list option" where
  "chip_spec m inp h =
     (case prop_bytes m h CHIPINFO_PROP_NAME of
        None \<Rightarrow> None
      | Some bs \<Rightarrow>
          if length bs mod 8 = 0
          then find_quad (chip_family (Input_chip_plat_info_prop inp)) (map word_of_int (be_elems 2 bs))
          else None)"

text \<open>The type of the blob, with the first \<open>board-info\<close> entry of the device's platform type.\<close>

definition kind_spec :: "mem \<Rightarrow> handle_input_data \<Rightarrow> fdt_node_handle \<Rightarrow> (blob_type \<times> 8 word list) option" where
  "kind_spec m inp h =
     (case prop_bytes m h IS_OVERLAY_PROP_NAME of
        None \<Rightarrow>
          if prop_error m h IS_OVERLAY_PROP_NAME = Ret (- FDT_ERR_NOTFOUND)
          then Some (BASE_DTB, [0, 0, 0, 0]) else None
      | Some _ \<Rightarrow>
          (case prop_bytes m h PLATFORMINFO_PROP_NAME of
             None \<Rightarrow>
               if prop_error m h PLATFORMINFO_PROP_NAME = Ret (- FDT_ERR_NOTFOUND)
               then Some (SOC_DTBO, [0, 0, 0, 0]) else None
           | Some bs \<Rightarrow>
               if length bs mod 4 = 0
               then map_option (\<lambda>q. (PLATFORM_DTBO, q))
                      (find_quad (platform_type (Input_chip_plat_info_prop inp)) (map word_of_int (be_elems 1 bs)))
               else None))"

text \<open>
  The client's string for the type is a prefix of one of the strings of \<open>proc-name\<close>. The last
  byte of the property is taken as a terminator. A blob of version below 16 has no strings.
\<close>

definition compat_spec :: "mem \<Rightarrow> handle_input_data \<Rightarrow> fdt_node_handle \<Rightarrow> blob_type \<Rightarrow> bool" where
  "compat_spec m inp h t =
     (case input_compatible_string (Input_chip_plat_info_prop inp) t of
        None \<Rightarrow> True
      | Some s \<Rightarrow>
          (case prop_bytes m h COMPATIBLE_PROP_NAME of
             None \<Rightarrow> False
           | Some bs \<Rightarrow>
               bs \<noteq> [] \<and>
               (s = [] \<or>
                (case fdt_version m (blob h) of None \<Rightarrow> False
                 | Some v \<Rightarrow> v \<ge> 16 \<and>
                     (\<exists>t\<in>set (c_strings (bs[length bs - 1 := 0])). take (length s) t = s)))))"

definition prop_spec :: "mem \<Rightarrow> fdt_node_handle \<Rightarrow> property_list \<Rightarrow> bool" where
  "prop_spec m h pl =
     (case prop_name pl of None \<Rightarrow> False
      | Some name \<Rightarrow>
          (case prop_bytes m h name of None \<Rightarrow> False
           | Some bs \<Rightarrow>
               bs \<noteq> [] \<and> prop_size_bytes pl \<in> {1, 2, 4, 8} \<and> int (length bs) mod prop_size_bytes pl = 0 \<and>
               (case client_value m pl of None \<Rightarrow> False
                | Some v \<Rightarrow> v \<in> set (be_elems (nat (prop_size_bytes pl)) bs))))"

definition prop_list_spec :: "mem \<Rightarrow> handle_input_data \<Rightarrow> fdt_node_handle \<Rightarrow> bool" where
  "prop_list_spec m inp h =
     (case Input_prop_list inp of None \<Rightarrow> True
      | Some pls \<Rightarrow> list_all (prop_spec m h) (take (prop_num_entries inp) pls))"

text \<open>A candidate: its type, its chip entry and its platform entry.\<close>

definition candidate_spec ::
  "mem \<Rightarrow> handle_input_data \<Rightarrow> fdt_node_handle \<Rightarrow> (blob_type \<times> 16 word list \<times> 8 word list) option" where
  "candidate_spec m inp h =
     (case (chip_spec m inp h, kind_spec m inp h) of
        (Some q, Some (t, pq)) \<Rightarrow>
          if compat_spec m inp h t \<and> prop_list_spec m inp h then Some (t, q, pq) else None
      | _ \<Rightarrow> None)"

text \<open>The properties of a blob that the checks can handle without undefined behaviour.\<close>

definition tame :: "target \<Rightarrow> mem \<Rightarrow> fdt_node_handle \<Rightarrow> bool" where
  "tame t m h \<longleftrightarrow> valid_handle m h \<and>
     (\<forall>bs. prop_bytes m h IS_OVERLAY_PROP_NAME = Some bs \<longrightarrow> bs = []) \<and>
     (t = XBL \<or> (\<forall>name bs. prop_bytes m h name = Some bs \<longrightarrow> length bs < 4096))"

text \<open>The client's property list is as long as it says, with readable values.\<close>

definition client_ok :: "mem \<Rightarrow> handle_input_data \<Rightarrow> bool" where
  "client_ok m inp \<longleftrightarrow>
     (case Input_prop_list inp of None \<Rightarrow> True
      | Some pls \<Rightarrow> prop_num_entries inp \<le> length pls \<and>
          (\<forall>pl\<in>set (take (prop_num_entries inp) pls). 0 \<le> prop_size_bytes pl \<and> client_value m pl \<noteq> None)) \<and>
     (\<forall>t s. input_compatible_string (Input_chip_plat_info_prop inp) t = Some s \<longrightarrow> 0 \<notin> set s)"

section \<open>Outcomes\<close>

text \<open>
  The allocator answers with NULL or with a block inside the address space; \<open>no_fail\<close> excludes
  the first.
\<close>

definition alloc_fits :: "(nat \<Rightarrow> int \<Rightarrow> addr) \<Rightarrow> bool" where
  "alloc_fits al \<longleftrightarrow>
     (\<forall>k n. 0 \<le> n \<and> n \<le> 2147483647 \<longrightarrow> 0 \<le> al k n \<and> al k n + n < 18446744073709551616)"

definition no_fail :: "(nat \<Rightarrow> int \<Rightarrow> addr) \<Rightarrow> bool" where
  "no_fail al \<longleftrightarrow> (\<forall>k n. 0 \<le> n \<and> n \<le> 2147483647 \<longrightarrow> al k n \<noteq> NULL)"

definition same_heap :: "heap \<Rightarrow> heap \<Rightarrow> bool" where
  "same_heap hp hp' \<longleftrightarrow> live hp' = live hp \<and> target hp' = target hp"

lemma same_heap_refl [simp]: "same_heap hp hp"
  by (simp add: same_heap_def)

lemma same_heap_trans: "same_heap a b \<Longrightarrow> same_heap b c \<Longrightarrow> same_heap a c"
  by (simp add: same_heap_def)

definition outcome ::
  "(nat \<Rightarrow> int \<Rightarrow> addr) \<Rightarrow> heap \<Rightarrow> ('e \<Rightarrow> bool) \<Rightarrow> (rc \<times> 'e \<times> heap) option \<Rightarrow> bool" where
  "outcome al hp P res \<longleftrightarrow>
     (\<exists>st e hp'. res = Some (st, e, hp') \<and> same_heap hp hp' \<and>
        (st = SUCCESS \<and> P e \<or> st = MALLOC_FAIL \<and> \<not> no_fail al))"

lemma outcome_now: "same_heap hp hp' \<Longrightarrow> P e \<Longrightarrow> outcome al hp P (Some (SUCCESS, e, hp'))"
  by (auto simp: outcome_def)

lemma outcome_mono: "outcome al hp P res \<Longrightarrow> (\<And>e. P e \<Longrightarrow> Q e) \<Longrightarrow> outcome al hp Q res"
  by (auto simp: outcome_def)

lemma outcomeE:
  assumes "outcome al hp P res"
  obtains e hp' where "res = Some (SUCCESS, e, hp')" "same_heap hp hp'" "P e"
  | e hp' where "res = Some (MALLOC_FAIL, e, hp')" "same_heap hp hp'" "\<not> no_fail al"
  using assms by (auto simp: outcome_def)

text \<open>A call that succeeds hands its entry and heap on, a failing one ends the caller.\<close>

lemma outcome_bind:
  assumes "outcome al hp P res"
    and "\<And>e hp'. same_heap hp hp' \<Longrightarrow> P e \<Longrightarrow> outcome al hp' Q (f SUCCESS e hp')"
    and "\<And>e hp'. f MALLOC_FAIL e hp' = Some (MALLOC_FAIL, e, hp')"
  shows "outcome al hp Q (do { (st, e, hp') \<leftarrow> res; f st e hp' })"
  using assms(1)
proof (cases rule: outcomeE)
  case (1 e hp')
  with assms(2) [of hp' e] show ?thesis by (auto simp: outcome_def dest: same_heap_trans)
next
  case (2 e hp')
  with assms(3) show ?thesis by (auto simp: outcome_def)
qed

lemma safe_block:
  assumes "0 \<le> p" and "0 \<le> n" and "n < 4294967296" and "p + n < 18446744073709551616"
  shows "is_safe_to_add_pointer p n"
  using assms by (simp add: is_safe_to_add_pointer_def u32_id u64_id)

text \<open>The allocation pattern: the buffer is released on every way out.\<close>

lemma outcome_with_alloc:
  assumes al: "alloc_fits al" and n: "0 \<le> n" "n \<le> 2147483647" and b: "balanced (target hp) n"
    and f: "\<And>p hp1 hp2. FREE_WRAPPER hp1 p n = Some hp2 \<Longrightarrow> is_safe_to_add_pointer p n \<Longrightarrow>
        0 \<le> p \<Longrightarrow> p + n < 18446744073709551616 \<Longrightarrow>
        \<exists>e'. f p hp1 = Some (SUCCESS, e', hp2) \<and> P e'"
  shows "outcome al hp P (with_alloc al hp n (\<lambda>hp1. (MALLOC_FAIL, e, hp1)) f)"
proof -
  obtain p hp1 where m: "MALLOC_WRAPPER al hp n = (p, hp1)" by (cases "MALLOC_WRAPPER al hp n")
  then have p: "p = al (requests hp) n" by (simp add: MALLOC_WRAPPER_def Let_def)
  show ?thesis
  proof (cases "p = NULL")
    case True
    then have "\<not> no_fail al" using p n by (auto simp: no_fail_def)
    moreover have "same_heap hp hp1" using m True by (auto simp: MALLOC_WRAPPER_def Let_def same_heap_def)
    ultimately show ?thesis using m True by (auto simp: with_alloc_def outcome_def)
  next
    case False
    from malloc_free [OF m False b] obtain hp2 where
      fr: "FREE_WRAPPER hp1 p n = Some hp2" "same_heap hp hp2" by (auto simp: same_heap_def)
    from al n p have pn: "0 \<le> p" "p + n < 18446744073709551616" by (auto simp: alloc_fits_def)
    have "is_safe_to_add_pointer p n" using pn n by (intro safe_block) simp_all
    from f [OF fr(1) this pn] obtain e' where "f p hp1 = Some (SUCCESS, e', hp2)" "P e'" by blast
    with m False fr(2) show ?thesis by (auto simp: with_alloc_def outcome_def)
  qed
qed

section \<open>The readers on a valid handle\<close>

lemma prop_bytes_size: "valid_handle m h \<Longrightarrow> prop_bytes m h name = Some bs \<Longrightarrow> length bs \<le> 2147483647"
  using prop_bytes_Some by blast

lemma prop_size_found:
  "valid_handle m h \<Longrightarrow> prop_bytes m h name = Some bs \<Longrightarrow>
     fdt_get_prop_size m (Some h) (Some name) True = Some (NOERROR, Some (int (length bs)))"
  using prop_bytes_Some [of m h name bs] by (auto simp: fdt_get_prop_size_def)

lemma prop_size_missing:
  "valid_handle m h \<Longrightarrow> prop_bytes m h name = None \<Longrightarrow>
     fdt_get_prop_size m (Some h) (Some name) True = Some (prop_error m h name, None) \<and>
     prop_error m h name \<noteq> NOERROR"
  using prop_bytes_None [of m h name] by (auto simp: fdt_get_prop_size_def prop_error_def)

lemma bool_prop:
  "valid_handle m h \<Longrightarrow> prop_bytes m h name = Some [] \<Longrightarrow> fdt_get_bool_prop m (Some h) (Some name) = Some (NOERROR, None)"
  "valid_handle m h \<Longrightarrow> prop_bytes m h name = None \<Longrightarrow>
     fdt_get_bool_prop m (Some h) (Some name) = Some (prop_error m h name, None)"
  using prop_bytes_Some [of m h name "[]"] prop_bytes_None [of m h name]
  by (auto simp: fdt_get_bool_prop_def fdt_get_uintX_prop_list_def prop_error_def)

text \<open>A boolean property with a value divides by the width 0 of its elements.\<close>

lemma bool_prop_value:
  "valid_handle m h \<Longrightarrow> prop_bytes m h name = Some bs \<Longrightarrow> bs \<noteq> [] \<Longrightarrow>
     fdt_get_bool_prop m (Some h) (Some name) = None"
  using prop_bytes_Some [of m h name bs]
  by (auto simp: fdt_get_bool_prop_def fdt_get_uintX_prop_list_def copy_elems_def)

lemma read_whole:
  assumes "valid_handle m h" and "prop_bytes m h name = Some bs" and "sel \<noteq> dt_boolean"
  shows "fdt_get_uintX_prop_list m (Some h) (Some name) True (int (length bs)) 0 0 sel =
    Some (NOERROR, Some (be_elems (width sel) bs))"
proof -
  have "length bs \<le> 2147483647" using assms(1,2) by (rule prop_bytes_size)
  from uintX_prop_list_spec [OF assms this] show ?thesis by (simp add: read_spec_def Let_def)
qed

lemmas read_whole_lists =
  read_whole [where sel = dt_uint8, simplified]
  read_whole [where sel = dt_uint16, simplified]
  read_whole [where sel = dt_uint32, simplified]
  read_whole [where sel = dt_uint64, simplified]

lemma read_whole_string:
  assumes v: "valid_handle m h" and bs: "prop_bytes m h name = Some bs" and ver: "fdt_version m (blob h) = Some ver"
  shows "fdt_get_string_prop_list m (Some h) (Some name) True (int (length bs)) =
    Some (if ver \<ge> 16 then (NOERROR, Some (bs[length bs - 1 := 0])) else (Ret (- FDT_ERR_BADVERSION), None))"
proof (cases "ver \<ge> 16")
  case False
  with ver show ?thesis by (simp add: fdt_get_string_prop_list_def fdt_get_property_def len_error_def)
next
  case True
  from prop_bytes_Some [OF v bs] obtain p where
    p: "fdt_getprop m (blob h) (offset h) name = Some (p, int (length bs))" "p \<noteq> NULL"
      "rd_bytes m p (length bs) = Some bs" "length bs \<le> 2147483647" by blast
  from p(1,2) obtain q po where q: "get_property_namelen m (blob h) (offset h) name = Some (q, int (length bs), po)"
    "q \<noteq> NULL" "p = q + 12"
    using True ver by (auto simp: fdt_getprop_def bind_eq_Some_conv prop_data_def split: if_split_asm)
  have "u32 (int (length bs)) = int (length bs)" using p(4) by (intro u32_id) linarith+
  moreover have "nat (int (length bs) - 1) = length bs - 1" by linarith
  moreover have "bs = [] \<Longrightarrow> bs[length bs - 1 := 0] = bs" by simp
  ultimately show ?thesis using q p(3) ver True
    by (auto simp: fdt_get_string_prop_list_def fdt_get_property_def)
qed

lemma tame_valid: "tame t m h \<Longrightarrow> valid_handle m h"
  by (simp add: tame_def)

lemma tame_balanced: "tame t m h \<Longrightarrow> prop_bytes m h name = Some bs \<Longrightarrow> balanced t (int (length bs))"
  by (auto simp: tame_def balanced_def)

section \<open>The checks implement the specification\<close>

text \<open>The fields of the entry that a check sets when it marks the entry valid.\<close>

definition sets ::
  "handle_entry_data \<Rightarrow> 'a option \<Rightarrow> ('a \<Rightarrow> handle_entry_data \<Rightarrow> handle_entry_data) \<Rightarrow> handle_entry_data \<Rightarrow> bool" where
  "sets e r upd e' \<longleftrightarrow>
     (case r of Some x \<Rightarrow> e' = (upd x e) \<lparr> candidacy_status := True \<rparr>
      | None \<Rightarrow> \<not> candidacy_status e')"

lemma chipinfo_outcome:
  assumes al: "alloc_fits al" and t: "tame (target hp) m (node e)"
  shows "outcome al hp (sets e (chip_spec m inp (node e)) (\<lambda>q e. e \<lparr> DT_chipinfo_selected := q \<rparr>))
    (is_chipinfo_family_match al m inp e hp)"
proof (cases "prop_bytes m (node e) CHIPINFO_PROP_NAME")
  case None
  with prop_size_missing [OF tame_valid [OF t] None] show ?thesis
    by (auto simp: is_chipinfo_family_match_def chip_spec_def sets_def intro: outcome_now)
next
  case (Some bs)
  note sz = prop_size_found [OF tame_valid [OF t] Some]
  show ?thesis
  proof (cases "length bs mod 8 = 0")
    case False
    then have "int (length bs) mod 8 \<noteq> 0" by presburger
    with False sz Some show ?thesis
      by (auto simp: is_chipinfo_family_match_def chip_spec_def sets_def intro: outcome_now)
  next
    case True
    then have m8: "int (length bs) mod 8 = 0" by presburger
    let ?e = "e \<lparr> candidacy_status := False \<rparr>"
    have "outcome al hp (sets e (chip_spec m inp (node e)) (\<lambda>q e. e \<lparr> DT_chipinfo_selected := q \<rparr>))
      (with_alloc al hp (int (length bs)) (\<lambda>hp1. (MALLOC_FAIL, ?e, hp1)) (search_chipinfo m inp ?e (int (length bs))))"
    proof (rule outcome_with_alloc [OF al])
      fix p hp1 hp2
      assume a: "FREE_WRAPPER hp1 p (int (length bs)) = Some hp2" "is_safe_to_add_pointer p (int (length bs))"
      with True Some read_whole_lists(2) [OF tame_valid [OF t] Some]
      show "\<exists>e'. search_chipinfo m inp ?e (int (length bs)) p hp1 = Some (SUCCESS, e', hp2) \<and>
          sets e (chip_spec m inp (node e)) (\<lambda>q e. e \<lparr> DT_chipinfo_selected := q \<rparr>) e'"
        by (auto simp: search_chipinfo_def fdt_get_uint16_prop_list_def chip_spec_def sets_def split: option.split)
    qed (use tame_balanced [OF t Some] prop_bytes_size [OF tame_valid [OF t] Some] in simp_all)
    with sz m8 show ?thesis by (simp add: is_chipinfo_family_match_def Let_def)
  qed
qed

abbreviation (input) set_kind ::
  "blob_type \<times> 8 word list \<Rightarrow> handle_entry_data \<Rightarrow> handle_entry_data" where
  "set_kind k e \<equiv> e \<lparr> device_tree_type := fst k, DT_platforminfo_selected := snd k \<rparr>"

lemma keep_platforminfo:
  "DT_platforminfo_selected e = q \<Longrightarrow> e \<lparr> DT_platforminfo_selected := q \<rparr> = e"
  by auto

text \<open>What \<open>identify_overlay\<close> decides, for an overlay.\<close>

lemma overlay_outcome:
  assumes al: "alloc_fits al" and t: "tame (target hp) m (node e)"
    and ov: "prop_bytes m (node e) IS_OVERLAY_PROP_NAME = Some bs0"
    and init: "DT_platforminfo_selected e = [0, 0, 0, 0]" "\<not> candidacy_status e"
  shows "outcome al hp (sets e (kind_spec m inp (node e)) set_kind) (identify_overlay al m inp e hp)"
proof (cases "prop_bytes m (node e) PLATFORMINFO_PROP_NAME")
  case None
  with prop_size_missing [OF tame_valid [OF t] None] ov init show ?thesis
    by (cases e)
      (auto simp: identify_overlay_def kind_spec_def sets_def Let_def intro!: outcome_now)
next
  case (Some bs)
  note sz = prop_size_found [OF tame_valid [OF t] Some]
  show ?thesis
  proof (cases "length bs mod 4 = 0")
    case False
    then have "int (length bs) mod 4 \<noteq> 0" by presburger
    with False sz Some ov init show ?thesis
      by (auto simp: identify_overlay_def kind_spec_def sets_def intro!: outcome_now)
  next
    case True
    then have m4: "int (length bs) mod 4 = 0" by presburger
    let ?e = "e \<lparr> device_tree_type := PLATFORM_DTBO \<rparr>"
    have "outcome al hp (sets e (kind_spec m inp (node e)) set_kind)
      (with_alloc al hp (int (length bs)) (\<lambda>hp1. (MALLOC_FAIL, ?e, hp1))
        (search_platforminfo m inp ?e (int (length bs))))"
    proof (rule outcome_with_alloc [OF al])
      fix p hp1 hp2
      assume a: "FREE_WRAPPER hp1 p (int (length bs)) = Some hp2" "is_safe_to_add_pointer p (int (length bs))"
      with True Some ov init read_whole_lists(1) [OF tame_valid [OF t] Some]
      show "\<exists>e'. search_platforminfo m inp ?e (int (length bs)) p hp1 = Some (SUCCESS, e', hp2) \<and>
          sets e (kind_spec m inp (node e)) set_kind e'"
        by (auto simp: search_platforminfo_def fdt_get_uint8_prop_list_def kind_spec_def sets_def
            split: option.split)
    qed (use tame_balanced [OF t Some] prop_bytes_size [OF tame_valid [OF t] Some] in simp_all)
    with sz m4 show ?thesis by (simp add: identify_overlay_def Let_def)
  qed
qed

lemma blob_type_outcome:
  assumes al: "alloc_fits al" and t: "tame (target hp) m (node e)"
    and init: "DT_platforminfo_selected e = [0, 0, 0, 0]"
  shows "outcome al hp (sets e (kind_spec m inp (node e)) set_kind)
    (identify_blob_type_and_get_platforminfo al m inp e hp)"
proof (cases "prop_bytes m (node e) IS_OVERLAY_PROP_NAME")
  case None
  with bool_prop(2) [OF tame_valid [OF t] None] prop_size_missing [OF tame_valid [OF t] None] init
  show ?thesis
    by (cases e)
      (auto simp: identify_blob_type_and_get_platforminfo_def kind_spec_def sets_def Let_def intro!: outcome_now)
next
  case (Some bs)
  with t have bs: "prop_bytes m (node e) IS_OVERLAY_PROP_NAME = Some []" by (auto simp: tame_def)
  let ?e = "e \<lparr> candidacy_status := False, device_tree_type := BASE_DTB \<rparr>"
  have "outcome al hp (sets ?e (kind_spec m inp (node ?e)) set_kind) (identify_overlay al m inp ?e hp)"
    using t bs init by (intro overlay_outcome [OF al]) simp_all
  then have "outcome al hp (sets e (kind_spec m inp (node e)) set_kind) (identify_overlay al m inp ?e hp)"
    by (rule outcome_mono) (auto simp: sets_def split: option.splits)
  with bool_prop(1) [OF tame_valid [OF t] bs] show ?thesis
    by (simp add: identify_blob_type_and_get_platforminfo_def Let_def)
qed

text \<open>The search of the compatible strings.\<close>

lemma starts_with_prefix:
  "0 \<notin> set t \<Longrightarrow> 0 \<in> set s \<Longrightarrow>
     starts_with s t = (take (length t) (takeWhile (\<lambda>c. c \<noteq> 0) s) = t)"
  by (induction s t rule: starts_with.induct) auto

lemma last_zero_in_set: "l \<noteq> [] \<Longrightarrow> last l = 0 \<Longrightarrow> 0 \<in> set l"
  using last_in_set by metis

lemma takeWhile_less:
  assumes "0 \<in> set (l :: byte list)"
  shows "length (takeWhile (\<lambda>c. c \<noteq> 0) l) < length l"
proof -
  from assms have "takeWhile (\<lambda>c. c \<noteq> 0) l \<noteq> l" by (metis set_takeWhileD)
  moreover have "length (takeWhile (\<lambda>c. c \<noteq> 0) l) \<le> length l" by (rule length_takeWhile_le)
  ultimately show ?thesis by (metis le_neq_implies_less take_all takeWhile_eq_take)
qed

lemma compat_loop_spec:
  "0 \<notin> set s \<Longrightarrow> 0 \<le> p \<Longrightarrow> p + int (length l) < 18446744073709551616 \<Longrightarrow> length l \<le> 2147483647 \<Longrightarrow>
    (l = [] \<or> last l = 0) \<Longrightarrow>
    compat_loop p l s = Some (SUCCESS, \<exists>t\<in>set (c_strings l). take (length s) t = s)"
proof (induction p l s rule: compat_loop.induct)
  case (1 p l s)
  show ?case
  proof (cases "l = []")
    case True
    then show ?thesis by (simp add: compat_loop.simps [of p])
  next
    case False
    with "1.prems"(5) have z: "last l = 0" "0 \<in> set l" by (simp_all add: last_zero_in_set)
    define k where "k = length (takeWhile (\<lambda>c. c \<noteq> 0) l) + 1"
    have k: "k \<le> length l" "0 < k" using takeWhile_less [OF z(2)] by (simp_all add: k_def)
    have st: "starts_with l s = (take (length s) (takeWhile (\<lambda>c. c \<noteq> 0) l) = s)"
      using "1.prems"(1) z(2) by (rule starts_with_prefix)
    have cs: "c_strings l = takeWhile (\<lambda>c. c \<noteq> 0) l # c_strings (drop k l)"
      using c_strings_unfold [OF False] by (simp add: k_def)
    have safe: "is_safe_to_add_pointer p (int k)"
      using "1.prems"(2-4) k by (intro safe_block) linarith+
    have sub: "is_safe_to_subtract_uint32 (int (length l)) (int k)"
      using k by (simp add: is_safe_to_subtract_uint32_def)
    have u: "u64 (p + int k) = p + int k" using "1.prems"(2,3) k by (intro u64_id) linarith+
    have unf: "compat_loop p l s =
        (if starts_with l s then Some (SUCCESS, True) else compat_loop (p + int k) (drop k l) s)"
      using False z(2) safe sub u unfolding k_def
      by (subst compat_loop.simps) (simp add: Let_def)
    show ?thesis
    proof (cases "starts_with l s")
      case True
      with unf st cs show ?thesis by simp
    next
      case nsw: False
      have "compat_loop (p + int k) (drop k l) s =
          Some (SUCCESS, \<exists>t\<in>set (c_strings (drop k l)). take (length s) t = s)"
      proof (rule "1.IH" [of k, unfolded u])
        show "drop k l = [] \<or> last (drop k l) = 0" using z(1) by (cases "k < length l") simp_all
      qed (use False z(2) nsw safe sub "1.prems" k in \<open>auto simp: k_def\<close>)
      with unf nsw st cs show ?thesis by simp
    qed
  qed
qed

text \<open>An entry that only gets its validity.\<close>

abbreviation (input) decides :: "handle_entry_data \<Rightarrow> bool \<Rightarrow> handle_entry_data \<Rightarrow> bool" where
  "decides e b e' \<equiv> e' = e \<lparr> candidacy_status := b \<rparr>"

lemma client_string_no_zero:
  "client_ok m inp \<Longrightarrow> input_compatible_string (Input_chip_plat_info_prop inp) t = Some s \<Longrightarrow> 0 \<notin> set s"
  by (simp add: client_ok_def)

lemma compat_outcome:
  assumes al: "alloc_fits al" and t: "tame (target hp) m (node e)" and cl: "client_ok m inp"
  shows "outcome al hp (decides e (compat_spec m inp (node e) (device_tree_type e)))
    (validate_compatible_string al m inp e hp)"
proof (cases "input_compatible_string (Input_chip_plat_info_prop inp) (device_tree_type e)")
  case None
  then show ?thesis
    by (auto simp: validate_compatible_string_def compat_spec_def intro: outcome_now)
next
  case inp_str: (Some s)
  note v = tame_valid [OF t]
  show ?thesis
  proof (cases "prop_bytes m (node e) COMPATIBLE_PROP_NAME")
    case None
    with inp_str prop_size_missing [OF v None] show ?thesis
      by (auto simp: validate_compatible_string_def compat_spec_def intro: outcome_now)
  next
    case (Some bs)
    note sz = prop_size_found [OF v Some]
    show ?thesis
    proof (cases "bs = [] \<or> s = []")
      case True
      then have "compat_spec m inp (node e) (device_tree_type e) = (bs \<noteq> [])"
        using inp_str Some by (auto simp: compat_spec_def)
      moreover have "validate_compatible_string al m inp e hp =
          Some (SUCCESS, e \<lparr> candidacy_status := (bs \<noteq> []) \<rparr>, hp)"
        using True inp_str sz by (cases "bs = []") (simp_all add: validate_compatible_string_def Let_def)
      ultimately show ?thesis by (simp add: outcome_now)
    next
      case False
      let ?e = "e \<lparr> candidacy_status := False \<rparr>" and ?n = "int (length bs)"
      let ?l = "bs[length bs - 1 := 0]"
      from v have "valid_blob m (blob (node e))" by (simp add: valid_handle_def)
      then obtain ver where ver: "fdt_version m (blob (node e)) = Some ver"
        by (rule valid_blob_header) blast
      note rw = read_whole_string [OF v Some ver]
      have n: "length bs \<le> 2147483647" by (rule prop_bytes_size [OF v Some])
      have "outcome al hp (decides e (compat_spec m inp (node e) (device_tree_type e)))
        (with_alloc al hp ?n (\<lambda>hp1. (MALLOC_FAIL, ?e, hp1)) (search_compatible m s ?e ?n))"
      proof (rule outcome_with_alloc [OF al])
        fix p hp1 hp2
        assume a: "FREE_WRAPPER hp1 p ?n = Some hp2" "0 \<le> p" "p + ?n < 18446744073709551616"
        have "last ?l = 0" using False by (simp add: last_list_update)
        with a n client_string_no_zero [OF cl inp_str]
        have "compat_loop p ?l s = Some (SUCCESS, \<exists>t\<in>set (c_strings ?l). take (length s) t = s)"
          by (intro compat_loop_spec) simp_all
        then have "search_compatible m s ?e ?n p hp1 =
            Some (SUCCESS, ?e \<lparr> candidacy_status := (ver \<ge> 16 \<and>
              (\<exists>t\<in>set (c_strings ?l). take (length s) t = s)) \<rparr>, hp2)"
          using a(1) rw by (cases "ver \<ge> 16") (simp_all add: search_compatible_def)
        moreover have "compat_spec m inp (node e) (device_tree_type e) =
            (ver \<ge> 16 \<and> (\<exists>t\<in>set (c_strings ?l). take (length s) t = s))"
          using inp_str Some False ver by (simp add: compat_spec_def)
        ultimately show "\<exists>e'. search_compatible m s ?e ?n p hp1 = Some (SUCCESS, e', hp2) \<and>
            decides e (compat_spec m inp (node e) (device_tree_type e)) e'" by simp
      qed (use tame_balanced [OF t Some] n in simp_all)
      with sz inp_str False show ?thesis by (simp add: validate_compatible_string_def Let_def)
    qed
  qed
qed

lemma compatible_match_outcome:
  assumes al: "alloc_fits al" and t: "tame (target hp) m (node e)" and cl: "client_ok m inp"
    and init: "DT_platforminfo_selected e = [0, 0, 0, 0]"
  shows "outcome al hp (sets e
      (case kind_spec m inp (node e) of None \<Rightarrow> None
       | Some k \<Rightarrow> if compat_spec m inp (node e) (fst k) then Some k else None) set_kind)
    (is_compatible_string_match al m inp e hp)"
  unfolding is_compatible_string_match_def
proof (rule outcome_bind)
  let ?e = "e \<lparr> candidacy_status := False \<rparr>"
  show "outcome al hp (sets ?e (kind_spec m inp (node ?e)) set_kind)
      (identify_blob_type_and_get_platforminfo al m inp ?e hp)"
    using t init by (intro blob_type_outcome [OF al]) simp_all
  fix e1 hp1
  assume h: "same_heap hp hp1" and s: "sets ?e (kind_spec m inp (node ?e)) set_kind e1"
  show "outcome al hp1 (sets e
      (case kind_spec m inp (node e) of None \<Rightarrow> None
       | Some k \<Rightarrow> if compat_spec m inp (node e) (fst k) then Some k else None) set_kind)
    (if SUCCESS \<noteq> SUCCESS \<or> \<not> candidacy_status e1 then Some (SUCCESS, e1, hp1)
     else validate_compatible_string al m inp (e1 \<lparr> candidacy_status := False \<rparr>) hp1)"
  proof (cases "kind_spec m inp (node e)")
    case None
    with s have "\<not> candidacy_status e1" by (simp add: sets_def)
    with None show ?thesis by (auto simp: sets_def intro: outcome_now)
  next
    case (Some k)
    with s have e1: "e1 = (set_kind k ?e) \<lparr> candidacy_status := True \<rparr>" by (simp add: sets_def)
    let ?e2 = "e1 \<lparr> candidacy_status := False \<rparr>"
    have "outcome al hp1 (decides ?e2 (compat_spec m inp (node ?e2) (device_tree_type ?e2)))
        (validate_compatible_string al m inp ?e2 hp1)"
      using t h e1 by (intro compat_outcome [OF al _ cl]) (simp add: same_heap_def)
    then have "outcome al hp1 (sets e (if compat_spec m inp (node e) (fst k) then Some k else None) set_kind)
        (validate_compatible_string al m inp ?e2 hp1)"
      by (rule outcome_mono) (auto simp: sets_def e1)
    with Some e1 show ?thesis by simp
  qed
qed simp

text \<open>The property list.\<close>

lemma read_prop_list_found:
  assumes v: "valid_handle m h" and name: "prop_name pl = Some nm" and bs: "prop_bytes m h nm = Some bs"
  shows "read_prop_list m h pl (int (length bs)) =
    Some (if prop_size_bytes pl \<in> {1, 2, 4, 8}
      then (NOERROR, Some (be_elems (nat (prop_size_bytes pl)) bs)) else (Ret (- 1), None))"
  using read_whole_lists [OF v bs] name
  by (auto simp: read_prop_list_def fdt_get_uint8_prop_list_def fdt_get_uint16_prop_list_def
      fdt_get_uint32_prop_list_def fdt_get_uint64_prop_list_def)

text \<open>One round, on the pair of whether the loop goes on and the entry.\<close>

definition step_outcome where
  "step_outcome al hp e b res \<longleftrightarrow>
     (\<exists>go st e' hp'. res = Some (go, st, e', hp') \<and> same_heap hp hp' \<and>
        (st = SUCCESS \<and> go = b \<and> decides e b e' \<or> st = MALLOC_FAIL \<and> \<not> go \<and> \<not> no_fail al))"

lemma prop_list_step_outcome:
  assumes al: "alloc_fits al" and t: "tame (target hp) m (node e)"
    and cl: "client_value m pl \<noteq> None" "0 \<le> prop_size_bytes pl"
  shows "step_outcome al hp e (prop_spec m (node e) pl) (prop_list_step al m pl e hp)"
proof (cases "prop_name pl")
  case None
  then show ?thesis
    by (auto simp: prop_list_step_def fdt_get_prop_size_def prop_spec_def step_outcome_def)
next
  case name: (Some nm)
  note v = tame_valid [OF t]
  show ?thesis
  proof (cases "prop_bytes m (node e) nm")
    case None
    with name prop_size_missing [OF v None] show ?thesis
      by (auto simp: prop_list_step_def prop_spec_def step_outcome_def)
  next
    case (Some bs)
    note sz = prop_size_found [OF v Some]
    let ?e = "e \<lparr> candidacy_status := False \<rparr>" and ?n = "int (length bs)"
    have n: "length bs \<le> 2147483647" by (rule prop_bytes_size [OF v Some])
    show ?thesis
    proof (cases "bs = [] \<or> prop_size_bytes pl = 0 \<or> ?n mod prop_size_bytes pl \<noteq> 0")
      case True
      with name sz Some show ?thesis
        by (auto simp: prop_list_step_def prop_spec_def step_outcome_def Let_def)
    next
      case False
      obtain p hp1 where m: "MALLOC_WRAPPER al hp ?n = (p, hp1)" by (cases "MALLOC_WRAPPER al hp ?n")
      then have p: "p = al (requests hp) ?n" by (simp add: MALLOC_WRAPPER_def Let_def)
      have unf: "prop_list_step al m pl e hp =
          with_alloc al hp ?n (\<lambda>hp1. (False, MALLOC_FAIL, ?e, hp1)) (search_prop_list m pl ?e ?n)"
        using False name sz by (simp add: prop_list_step_def Let_def)
      show ?thesis
      proof (cases "p = NULL")
        case True
        have "same_heap hp hp1" using m True by (auto simp: MALLOC_WRAPPER_def Let_def same_heap_def)
        moreover have "\<not> no_fail al"
          using p True n by (auto simp: no_fail_def intro!: exI [of _ "requests hp"] exI [of _ ?n])
        ultimately show ?thesis using True m by (auto simp: unf with_alloc_def step_outcome_def)
      next
        case pn: False
        from malloc_free [OF m pn tame_balanced [OF t Some]] obtain hp2 where
          fr: "FREE_WRAPPER hp1 p ?n = Some hp2" "same_heap hp hp2" by (auto simp: same_heap_def)
        have "is_safe_to_add_pointer p ?n"
          using al n p unfolding alloc_fits_def by (intro safe_block) simp_all
        with fr False pn m name Some cl read_prop_list_found [OF v name Some] show ?thesis
          by (auto simp: unf with_alloc_def step_outcome_def search_prop_list_def prop_spec_def
              split: if_split_asm)
      qed
    qed
  qed
qed


lemma prop_list_loop_outcome:
  "alloc_fits al \<Longrightarrow> tame (target hp) m (node e) \<Longrightarrow> k \<le> length pls \<Longrightarrow>
   (\<forall>pl\<in>set (take k pls). 0 \<le> prop_size_bytes pl \<and> client_value m pl \<noteq> None) \<Longrightarrow>
   k > 0 \<or> candidacy_status e \<Longrightarrow>
   outcome al hp (decides e (list_all (prop_spec m (node e)) (take k pls))) (prop_list_loop al m k pls e hp)"
proof (induction al m k pls e hp rule: prop_list_loop.induct)
  case (1 al m pls e hp)
  then show ?case by (simp add: outcome_now)
next
  case (3 al m k pl pls e hp)
  have "step_outcome al hp e (prop_spec m (node e) pl) (prop_list_step al m pl e hp)"
    using 3 by (intro prop_list_step_outcome) simp_all
  then obtain go st e' hp' where s: "prop_list_step al m pl e hp = Some (go, st, e', hp')" "same_heap hp hp'"
    and c: "st = SUCCESS \<and> go = prop_spec m (node e) pl \<and> decides e go e' \<or>
      st = MALLOC_FAIL \<and> \<not> go \<and> \<not> no_fail al"
    by (auto simp: step_outcome_def)
  show ?case
  proof (cases go)
    case False
    with s c show ?thesis by (auto simp: outcome_def)
  next
    case True
    with c have e': "prop_spec m (node e) pl" "decides e True e'" by simp_all
    have "outcome al hp' (decides e' (list_all (prop_spec m (node e')) (take k pls))) (prop_list_loop al m k pls e' hp')"
      using "3.prems" s(2) e'(2) True by (intro "3.IH" [OF s(1) refl refl refl]) (simp_all add: same_heap_def)
    then show ?thesis using s True e'
      by (auto simp: outcome_def dest: same_heap_trans)
  qed
qed simp

lemma property_list_outcome:
  assumes "alloc_fits al" and "tame (target hp) m (node e)" and "client_ok m inp"
  shows "outcome al hp (decides e (prop_list_spec m inp (node e))) (is_property_list_valid al m inp e hp)"
proof (cases "Input_prop_list inp")
  case None
  then show ?thesis by (simp add: is_property_list_valid_def prop_list_spec_def outcome_now)
next
  case (Some pls)
  show ?thesis
  proof (cases "prop_num_entries inp = 0")
    case True
    with Some show ?thesis by (simp add: is_property_list_valid_def prop_list_spec_def outcome_now)
  next
    case False
    with Some assms prop_list_loop_outcome [OF assms(1,2), of "prop_num_entries inp" pls] show ?thesis
      by (simp add: is_property_list_valid_def prop_list_spec_def client_ok_def)
  qed
qed

text \<open>The candidate check as a whole.\<close>

abbreviation (input) set_candidate ::
  "blob_type \<times> 16 word list \<times> 8 word list \<Rightarrow> handle_entry_data \<Rightarrow> handle_entry_data" where
  "set_candidate c e \<equiv> e \<lparr> device_tree_type := fst c, DT_chipinfo_selected := fst (snd c),
     DT_platforminfo_selected := snd (snd c) \<rparr>"

lemma candidate_outcome:
  assumes al: "alloc_fits al" and t: "tame (target hp) m (node e)" and cl: "client_ok m inp"
    and init: "DT_platforminfo_selected e = [0, 0, 0, 0]"
  shows "outcome al hp (sets e (candidate_spec m inp (node e)) set_candidate)
    (is_it_dtb_dtbo_candidate al m inp e hp)"
  unfolding is_it_dtb_dtbo_candidate_def
proof (rule outcome_bind [OF chipinfo_outcome [OF al t, of inp]])
  fix e1 hp1
  assume h: "same_heap hp hp1"
    and s1: "sets e (chip_spec m inp (node e)) (\<lambda>q e. e \<lparr> DT_chipinfo_selected := q \<rparr>) e1"
  let ?rest = "\<lambda>st e1 hp1. if st \<noteq> SUCCESS \<or> \<not> candidacy_status e1 then Some (st, e1, hp1)
     else do {
       (st, e, hp2) \<leftarrow> is_compatible_string_match al m inp e1 hp1;
       if st \<noteq> SUCCESS \<or> \<not> candidacy_status e then Some (st, e, hp2)
       else is_property_list_valid al m inp e hp2 }"
  show "outcome al hp1 (sets e (candidate_spec m inp (node e)) set_candidate) (?rest SUCCESS e1 hp1)"
  proof (cases "chip_spec m inp (node e)")
    case None
    with s1 have "\<not> candidacy_status e1" by (simp add: sets_def)
    with None show ?thesis by (auto simp: sets_def candidate_spec_def intro: outcome_now)
  next
    case (Some q)
    with s1 have e1: "e1 = e \<lparr> DT_chipinfo_selected := q, candidacy_status := True \<rparr>" by (simp add: sets_def)
    let ?k = "case kind_spec m inp (node e1) of None \<Rightarrow> None
       | Some k \<Rightarrow> if compat_spec m inp (node e1) (fst k) then Some k else None"
    have "outcome al hp1 (sets e1 ?k set_kind) (is_compatible_string_match al m inp e1 hp1)"
      using t h e1 init by (intro compatible_match_outcome [OF al _ cl]) (simp_all add: same_heap_def)
    then have "outcome al hp1 (sets e (candidate_spec m inp (node e)) set_candidate)
      (do { (st, e, hp2) \<leftarrow> is_compatible_string_match al m inp e1 hp1;
            if st \<noteq> SUCCESS \<or> \<not> candidacy_status e then Some (st, e, hp2)
            else is_property_list_valid al m inp e hp2 })"
    proof (rule outcome_bind)
      fix e2 hp2
      assume h2: "same_heap hp1 hp2" and s2: "sets e1 ?k set_kind e2"
      show "outcome al hp2 (sets e (candidate_spec m inp (node e)) set_candidate)
        (if SUCCESS \<noteq> SUCCESS \<or> \<not> candidacy_status e2 then Some (SUCCESS, e2, hp2)
         else is_property_list_valid al m inp e2 hp2)"
      proof (cases ?k)
        case None
        with s2 have n: "\<not> candidacy_status e2" by (simp add: sets_def)
        from None Some e1 have "candidate_spec m inp (node e) = None"
          by (auto simp: candidate_spec_def split: option.splits if_splits)
        with n show ?thesis by (auto simp: sets_def intro: outcome_now)
      next
        case k: (Some kk)
        with s2 have e2: "e2 = (set_kind kk e1) \<lparr> candidacy_status := True \<rparr>" by (simp add: sets_def)
        from k e1 have kk: "kind_spec m inp (node e) = Some kk" "compat_spec m inp (node e) (fst kk)"
          by (auto split: option.splits if_splits)
        have "outcome al hp2 (decides e2 (prop_list_spec m inp (node e2))) (is_property_list_valid al m inp e2 hp2)"
          using t h h2 e1 e2 by (intro property_list_outcome [OF al _ cl]) (simp add: same_heap_def)
        then have "outcome al hp2 (sets e (candidate_spec m inp (node e)) set_candidate)
            (is_property_list_valid al m inp e2 hp2)"
          by (rule outcome_mono)
            (use kk Some e1 e2 in \<open>cases kk, auto simp: sets_def candidate_spec_def split: option.splits if_splits\<close>)
        with e2 show ?thesis by simp
      qed
    qed simp
    with e1 show ?thesis by simp
  qed
qed simp

section \<open>The platform overlay\<close>

text \<open>An overlay without \<open>oem-var\<close> fits every device; otherwise the device's variant is listed.\<close>

definition oem_spec :: "mem \<Rightarrow> handle_input_data \<Rightarrow> fdt_node_handle \<Rightarrow> bool" where
  "oem_spec m inp h =
     (case prop_bytes m h OEM_VAR_PROP_NAME of
        None \<Rightarrow> prop_error m h OEM_VAR_PROP_NAME = Ret (- FDT_ERR_NOTFOUND)
      | Some bs \<Rightarrow> length bs mod 4 = 0 \<and> uint (oem_var (Input_chip_plat_info_prop inp)) \<in> set (be_elems 4 bs))"

lemma be_elems_Nil [simp]: "be_elems n [] = []"
  by (simp add: be_elems_def)

lemma oem_outcome:
  assumes al: "alloc_fits al" and t: "tame (target hp) m (node e)"
  shows "outcome al hp (decides e (oem_spec m inp (node e))) (validate_oem_variant al m inp e hp)"
proof (cases "prop_bytes m (node e) OEM_VAR_PROP_NAME")
  case None
  with prop_size_missing [OF tame_valid [OF t] None] show ?thesis
    by (simp add: validate_oem_variant_def oem_spec_def Let_def outcome_now)
next
  case (Some bs)
  note sz = prop_size_found [OF tame_valid [OF t] Some]
  show ?thesis
  proof (cases "bs = [] \<or> length bs mod 4 \<noteq> 0")
    case True
    moreover have "length bs mod 4 \<noteq> 0 \<longleftrightarrow> int (length bs) mod 4 \<noteq> 0" by presburger
    ultimately have "bs = [] \<or> int (length bs) mod 4 \<noteq> 0" by simp
    with True sz Some show ?thesis
      by (auto simp: validate_oem_variant_def oem_spec_def Let_def intro!: outcome_now)
  next
    case False
    then have "length bs mod 4 = 0" by simp
    then have m4: "int (length bs) mod 4 = 0" by presburger
    let ?e = "e \<lparr> candidacy_status := False \<rparr>"
    have "outcome al hp (decides e (oem_spec m inp (node e)))
      (with_alloc al hp (int (length bs)) (\<lambda>hp1. (MALLOC_FAIL, ?e, hp1)) (search_oem_variant m inp ?e (int (length bs))))"
    proof (rule outcome_with_alloc [OF al])
      fix p hp1 hp2
      assume a: "FREE_WRAPPER hp1 p (int (length bs)) = Some hp2"
      with False Some read_whole_lists(3) [OF tame_valid [OF t] Some]
      show "\<exists>e'. search_oem_variant m inp ?e (int (length bs)) p hp1 = Some (SUCCESS, e', hp2) \<and>
          decides e (oem_spec m inp (node e)) e'"
        by (simp add: search_oem_variant_def fdt_get_uint32_prop_list_def oem_spec_def)
    qed (use tame_balanced [OF t Some] prop_bytes_size [OF tame_valid [OF t] Some] in simp_all)
    with sz m4 False show ?thesis by (simp add: validate_oem_variant_def Let_def)
  qed
qed

end
