(* ===== verification/DT_Best.thy ===== *)
theory DT_Best
  imports DT_Prelude
begin

text \<open>
  The choice of the best item of a list: a scan that replaces the item chosen so far when the
  next one is strictly better. The locale states what the comparison must satisfy; its lemma
  says that the scan ends with the first of the best items. It is interpreted on the keys of the
  SOC overlays (rank and chip version) and of the platform overlays (rank, platform version and
  chip version), compared as \<open>dt_select.c\<close> compares them.
\<close>

text \<open>One round: \<open>key\<close> is \<open>None\<close> for an item that is not admissible.\<close>

definition pick :: "('k \<Rightarrow> 'k \<Rightarrow> bool) \<Rightarrow> ('b \<Rightarrow> 'k option) \<Rightarrow> 'b \<Rightarrow> ('k \<times> 'b) option \<Rightarrow> ('k \<times> 'b) option" where
  "pick better key b sel =
     (case key b of None \<Rightarrow> sel
      | Some k \<Rightarrow>
          (case sel of None \<Rightarrow> Some (k, b)
           | Some (k', b') \<Rightarrow> if better k k' then Some (k, b) else sel))"

text \<open>The first of the best items, as a specification.\<close>

definition first_best :: "('k \<Rightarrow> 'k \<Rightarrow> bool) \<Rightarrow> ('b \<Rightarrow> 'k option) \<Rightarrow> 'b list \<Rightarrow> ('k \<times> 'b) option \<Rightarrow> bool" where
  "first_best better key bs sel \<longleftrightarrow>
     (case sel of
        None \<Rightarrow> \<forall>b\<in>set bs. key b = None
      | Some (k, b) \<Rightarrow> \<exists>xs ys. bs = xs @ b # ys \<and> key b = Some k \<and>
          (\<forall>b'\<in>set xs. \<forall>k'. key b' = Some k' \<longrightarrow> better k k') \<and>
          (\<forall>b'\<in>set ys. \<forall>k'. key b' = Some k' \<longrightarrow> \<not> better k' k))"

lemma first_bestI:
  assumes "bs = xs @ b # ys" and "key b = Some k"
    and "\<And>c l. c \<in> set xs \<Longrightarrow> key c = Some l \<Longrightarrow> better k l"
    and "\<And>c l. c \<in> set ys \<Longrightarrow> key c = Some l \<Longrightarrow> \<not> better l k"
  shows "first_best better key bs (Some (k, b))"
  unfolding first_best_def using assms by (simp, intro exI [of _ xs] exI [of _ ys]) auto

lemma split_compare:
  assumes "xs @ b # ys = xs' @ b' # ys'"
  shows "xs = xs' \<and> b = b' \<or> b \<in> set xs' \<and> b' \<in> set ys \<or> b' \<in> set xs \<and> b \<in> set ys'"
  using assms by (auto simp: append_eq_append_conv2 append_eq_Cons_conv Cons_eq_append_conv)

locale selection =
  fixes better :: "'k \<Rightarrow> 'k \<Rightarrow> bool"
  assumes asym: "better a b \<Longrightarrow> \<not> better b a"
    and trans: "better a b \<Longrightarrow> better b c \<Longrightarrow> better a c"
    and weak: "better a c \<Longrightarrow> better a b \<or> better b c"
begin

lemma first_best_step:
  assumes "first_best better key bs sel"
  shows "first_best better key (bs @ [b]) (pick better key b sel)"
proof (cases "key b")
  case None
  show ?thesis
  proof (cases sel)
    case None
    with \<open>key b = None\<close> assms show ?thesis by (auto simp: pick_def first_best_def)
  next
    case (Some kb)
    obtain k b' where kb: "kb = (k, b')" by (cases kb)
    with assms Some obtain xs ys where "bs = xs @ b' # ys" "key b' = Some k"
      "\<forall>c\<in>set xs. \<forall>k'. key c = Some k' \<longrightarrow> better k k'"
      "\<forall>c\<in>set ys. \<forall>k'. key c = Some k' \<longrightarrow> \<not> better k' k" by (auto simp: first_best_def)
    then have "first_best better key (bs @ [b]) (Some (k, b'))"
      using None by (intro first_bestI [of _ xs b' "ys @ [b]"]) auto
    with None Some kb show ?thesis by (simp add: pick_def)
  qed
next
  case key: (Some k)
  show ?thesis
  proof (cases sel)
    case None
    then have "\<forall>c\<in>set bs. key c = None" using assms by (simp add: first_best_def)
    then have "first_best better key (bs @ [b]) (Some (k, b))"
      using key by (intro first_bestI [of _ bs b "[]"]) auto
    with key None show ?thesis by (simp add: pick_def)
  next
    case (Some kb)
    obtain k' b' where kb: "kb = (k', b')" by (cases kb)
    with assms Some obtain xs ys where s: "bs = xs @ b' # ys" "key b' = Some k'"
      "\<forall>c\<in>set xs. \<forall>l. key c = Some l \<longrightarrow> better k' l"
      "\<forall>c\<in>set ys. \<forall>l. key c = Some l \<longrightarrow> \<not> better l k'" by (auto simp: first_best_def)
    show ?thesis
    proof (cases "better k k'")
      case True
      have "better k l" if "c \<in> set bs" "key c = Some l" for c l
        using that s True trans [of k k' l] weak [of k k' l] by auto
      then have "first_best better key (bs @ [b]) (Some (k, b))"
        using key by (intro first_bestI [of _ bs b "[]"]) auto
      with True key Some kb show ?thesis by (simp add: pick_def)
    next
      case False
      then have "first_best better key (bs @ [b]) (Some (k', b'))"
        using key s by (intro first_bestI [of _ xs b' "ys @ [b]"]) auto
      with False key Some kb show ?thesis by (simp add: pick_def)
    qed
  qed
qed

lemma fold_first_best:
  "first_best better key bs sel \<Longrightarrow> first_best better key (bs @ cs) (fold (pick better key) cs sel)"
proof (induction cs arbitrary: bs sel)
  case (Cons c cs)
  from Cons.IH [OF first_best_step [OF Cons.prems]] show ?case by simp
qed simp

lemma pick_first_best: "first_best better key bs (fold (pick better key) bs None)"
  using fold_first_best [of key "[]" None bs] by (simp add: first_best_def)

text \<open>The specification determines the choice.\<close>

lemma first_best_key:
  assumes "first_best better key bs (Some (k, b))" and "b' \<in> set bs" and "key b' = Some k'"
  shows "\<not> better k' k"
  using assms asym [of k k'] asym [of k k] by (auto simp: first_best_def)

lemma first_best_unique:
  assumes "first_best better key bs s" and "first_best better key bs t"
  shows "s = t"
proof (cases s)
  case None
  with assms show ?thesis by (auto simp: first_best_def split: option.splits)
next
  case s: (Some kb)
  then obtain k b where kb: "kb = (k, b)" by (cases kb)
  show ?thesis
  proof (cases t)
    case None
    with assms s kb show ?thesis by (auto simp: first_best_def)
  next
    case t: (Some kb')
    then obtain k' b' where kb': "kb' = (k', b')" by (cases kb')
    from assms(1) s kb obtain xs ys where 1: "bs = xs @ b # ys" "key b = Some k"
      "\<forall>c\<in>set xs. \<forall>l. key c = Some l \<longrightarrow> better k l" "\<forall>c\<in>set ys. \<forall>l. key c = Some l \<longrightarrow> \<not> better l k"
      by (auto simp: first_best_def)
    from assms(2) t kb' obtain xs' ys' where 2: "bs = xs' @ b' # ys'" "key b' = Some k'"
      "\<forall>c\<in>set xs'. \<forall>l. key c = Some l \<longrightarrow> better k' l" "\<forall>c\<in>set ys'. \<forall>l. key c = Some l \<longrightarrow> \<not> better l k'"
      by (auto simp: first_best_def)
    from 1(1) 2(1) have "xs @ b # ys = xs' @ b' # ys'" by simp
    from split_compare [OF this] 1 2 s t kb kb' show ?thesis by auto
  qed
qed

lemma first_best_fold: "first_best better key bs s \<Longrightarrow> s = fold (pick better key) bs None"
  using first_best_unique pick_first_best by blast

end

section \<open>The comparisons of the selection\<close>

text \<open>Rank and chip version of a SOC overlay.\<close>

definition soc_better :: "int \<times> 32 word \<Rightarrow> int \<times> 32 word \<Rightarrow> bool" where
  "soc_better a b \<longleftrightarrow> fst b < fst a \<or> fst b = fst a \<and> snd b < snd a"

text \<open>Rank, platform version and chip version of a platform overlay.\<close>

definition plat_better :: "int \<times> 32 word \<times> 32 word \<Rightarrow> int \<times> 32 word \<times> 32 word \<Rightarrow> bool" where
  "plat_better a b \<longleftrightarrow> fst b < fst a \<or> fst b = fst a \<and>
     (fst (snd b) < fst (snd a) \<or> fst (snd b) = fst (snd a) \<and> snd (snd b) < snd (snd a))"

interpretation soc: selection soc_better
  by unfold_locales (auto simp: soc_better_def)

interpretation plat: selection plat_better
  by unfold_locales (auto simp: plat_better_def)

end
