(* ===== verification/DT_Loop.thy ===== *)
theory DT_Loop
  imports DT_Check DT_Best
begin

text \<open>
  What the loop over the image selects. An image is a sequence of valid blobs; the loop walks it
  and ends with the first base DTB that fits, the first of the best SOC overlays and the first
  of the best platform overlays, with the heap as it was.
\<close>

section \<open>Specification of the selection\<close>

text \<open>A blob of the image: the handle of its \<open>/board-id/\<close> node and its size.\<close>

type_synonym item = "fdt_node_handle \<times> int"

definition base_ok :: "mem \<Rightarrow> handle_input_data \<Rightarrow> item \<Rightarrow> bool" where
  "base_ok m inp i =
     (case candidate_spec m inp (fst i) of
        Some (BASE_DTB, q, pq) \<Rightarrow> q ! CHIPINFO_ID = 0 \<and> q ! CHIPINFO_MAJOR = 1 \<and> q ! CHIPINFO_MINOR = 0
      | _ \<Rightarrow> False)"

text \<open>The key of a chip entry: rank 1 for the device's chip, 0 for any chip, and the version.\<close>

definition soc_rank_key :: "handle_input_data \<Rightarrow> 16 word list \<Rightarrow> (int \<times> 32 word) option" where
  "soc_rank_key inp q =
     (let cid = q ! CHIPINFO_ID; ver = chip_version_calc (q ! CHIPINFO_MAJOR) (q ! CHIPINFO_MINOR)
      in if (cid = 0 \<or> cid = chip_id (Input_chip_plat_info_prop inp)) \<and> ver \<le> in_chipinfo_version_calc inp
         then Some (if cid \<noteq> 0 then 1 else 0, ver) else None)"

definition soc_key :: "mem \<Rightarrow> handle_input_data \<Rightarrow> item \<Rightarrow> (int \<times> 32 word) option" where
  "soc_key m inp i =
     (case candidate_spec m inp (fst i) of Some (SOC_DTBO, q, pq) \<Rightarrow> soc_rank_key inp q | _ \<Rightarrow> None)"

definition plat_rank_key ::
  "handle_input_data \<Rightarrow> 16 word list \<Rightarrow> 8 word list \<Rightarrow> (int \<times> 32 word \<times> 32 word) option" where
  "plat_rank_key inp q pq =
     (let info = Input_chip_plat_info_prop inp;
          cid = q ! CHIPINFO_ID; sub_type = pq ! PLATFORMINFO_SUB_TYPE;
          cver = chip_version_calc (q ! CHIPINFO_MAJOR) (q ! CHIPINFO_MINOR);
          pver = plat_version_calc (pq ! PLATFORMINFO_MAJOR) (pq ! PLATFORMINFO_MINOR)
      in if pq ! PLATFORMINFO_TYPE = platform_type info \<and>
            (sub_type = 0 \<or> sub_type = platform_subtype info) \<and> (cid = 0 \<or> cid = chip_id info) \<and>
            pver \<le> in_platforminfo_version_calc inp \<and> cver \<le> in_chipinfo_version_calc inp
         then Some (platform_rank sub_type cid, pver, cver) else None)"

definition plat_key :: "mem \<Rightarrow> handle_input_data \<Rightarrow> item \<Rightarrow> (int \<times> 32 word \<times> 32 word) option" where
  "plat_key m inp i =
     (case candidate_spec m inp (fst i) of
        Some (PLATFORM_DTBO, q, pq) \<Rightarrow>
          if oem_spec m inp (fst i) then plat_rank_key inp q pq else None
      | _ \<Rightarrow> None)"

text \<open>The three choices, and the variables of the loop that stand for them.\<close>

type_synonym choice =
  "item option \<times> ((int \<times> 32 word) \<times> item) option \<times> ((int \<times> 32 word \<times> 32 word) \<times> item) option"

definition scan :: "mem \<Rightarrow> handle_input_data \<Rightarrow> item \<Rightarrow> choice \<Rightarrow> choice" where
  "scan m inp i c =
     (if fst c = None \<and> base_ok m inp i then Some i else fst c,
      pick soc_better (soc_key m inp) i (fst (snd c)),
      pick plat_better (plat_key m inp) i (snd (snd c)))"

definition item_ptr :: "item option \<Rightarrow> addr" where
  "item_ptr i = (case i of None \<Rightarrow> 0 | Some j \<Rightarrow> blob (fst j))"

definition item_size :: "item option \<Rightarrow> int" where
  "item_size i = (case i of None \<Rightarrow> 0 | Some j \<Rightarrow> snd j)"

definition chosen_handle :: "handle_data \<Rightarrow> choice \<Rightarrow> handle_data" where
  "chosen_handle hnd c = hnd \<lparr>
     base_dtb_ptr := item_ptr (fst c), base_dtb_size := item_size (fst c),
     soc_dtbo_ptr := item_ptr (map_option snd (fst (snd c))),
     soc_dtbo_size := item_size (map_option snd (fst (snd c))),
     plat_dtbo_ptr := item_ptr (map_option snd (snd (snd c))),
     plat_dtbo_size := item_size (map_option snd (snd (snd c))) \<rparr>"

definition chosen_soc :: "choice \<Rightarrow> handle_selected_dtbo" where
  "chosen_soc c =
     (case fst (snd c) of None \<Rightarrow> init_handle_selected_dtb_dtbo
      | Some ((r, v), i) \<Rightarrow> \<lparr> sel_rank = r, sel_blob_size = snd i, sel_chipinfo_version_calc = v,
          sel_platforminfo_version_calc = 0 \<rparr>)"

definition chosen_plat :: "choice \<Rightarrow> handle_selected_dtbo" where
  "chosen_plat c =
     (case snd (snd c) of None \<Rightarrow> init_handle_selected_dtb_dtbo
      | Some ((r, pv, cv), i) \<Rightarrow> \<lparr> sel_rank = r, sel_blob_size = snd i, sel_chipinfo_version_calc = cv,
          sel_platforminfo_version_calc = pv \<rparr>)"

definition chosen_vars :: "handle_data \<Rightarrow> choice \<Rightarrow> heap \<Rightarrow> select_vars" where
  "chosen_vars hnd c hp =
     \<lparr> handle = chosen_handle hnd c, soc_dtbo_selected = chosen_soc c,
       platform_dtbo_selected = chosen_plat c, sel_heap = hp \<rparr>"

text \<open>Ranks are not negative, and a chosen base DTB has an address.\<close>

definition choice_ok :: "choice \<Rightarrow> bool" where
  "choice_ok c \<longleftrightarrow> (\<forall>i. fst c = Some i \<longrightarrow> blob (fst i) \<noteq> 0) \<and>
     (\<forall>k i. fst (snd c) = Some (k, i) \<longrightarrow> 0 \<le> fst k) \<and>
     (\<forall>k i. snd (snd c) = Some (k, i) \<longrightarrow> 0 \<le> fst k)"

lemma platform_rank_nonneg: "0 \<le> platform_rank s c"
  by (simp add: platform_rank_def)

lemma scan_ok: "choice_ok c \<Longrightarrow> blob (fst i) \<noteq> 0 \<Longrightarrow> choice_ok (scan m inp i c)"
  using platform_rank_nonneg
  by (auto simp: choice_ok_def scan_def pick_def soc_key_def soc_rank_key_def plat_key_def plat_rank_key_def Let_def
      split: option.splits if_splits prod.splits blob_type.splits)

section \<open>The comparison of one blob\<close>

text \<open>The SOC check by the key of the blob.\<close>

lemma soc_check_None:
  assumes "soc_rank_key inp (DT_chipinfo_selected e) = None"
  shows "\<not> candidacy_status (validate_and_select_soc_dtbo e inp sel)"
proof -
  let ?q = "DT_chipinfo_selected e"
  consider "?q ! CHIPINFO_ID \<noteq> 0 \<and> ?q ! CHIPINFO_ID \<noteq> chip_id (Input_chip_plat_info_prop inp)"
    | "\<not> (?q ! CHIPINFO_ID \<noteq> 0 \<and> ?q ! CHIPINFO_ID \<noteq> chip_id (Input_chip_plat_info_prop inp))"
      "in_chipinfo_version_calc inp < chip_version_calc (?q ! CHIPINFO_MAJOR) (?q ! CHIPINFO_MINOR)"
    using assms by (auto simp: soc_rank_key_def Let_def not_le split: if_split_asm)
  then show ?thesis by cases (simp_all add: validate_and_select_soc_dtbo_def Let_def)
qed

lemma soc_check_Some:
  assumes "soc_rank_key inp (DT_chipinfo_selected e) = Some (r, v)"
  shows "validate_and_select_soc_dtbo e inp sel =
    e \<lparr> cur_rank := r, cur_chipinfo_version_calc := v,
        candidacy_status := soc_better (r, v) (sel_rank sel, sel_chipinfo_version_calc sel) \<rparr>"
proof -
  let ?q = "DT_chipinfo_selected e"
  have c: "?q ! CHIPINFO_ID = 0 \<or> ?q ! CHIPINFO_ID = chip_id (Input_chip_plat_info_prop inp)"
    "r = (if ?q ! CHIPINFO_ID \<noteq> 0 then 1 else 0)"
    "v = chip_version_calc (?q ! CHIPINFO_MAJOR) (?q ! CHIPINFO_MINOR)" "v \<le> in_chipinfo_version_calc inp"
    using assms by (auto simp: soc_rank_key_def Let_def split: if_split_asm)
  have "validate_and_select_soc_dtbo e inp sel =
    (let e = e \<lparr> candidacy_status := False, cur_rank := r, cur_chipinfo_version_calc := v \<rparr>
     in if sel_rank sel > r then e
        else if sel_rank sel = r then
          if v > sel_chipinfo_version_calc sel then e \<lparr> candidacy_status := True \<rparr> else e
        else e \<lparr> candidacy_status := True \<rparr>)"
    using c(1,4) unfolding validate_and_select_soc_dtbo_def c(2,3) Let_def by auto
  also have "\<dots> = e \<lparr> cur_rank := r, cur_chipinfo_version_calc := v,
        candidacy_status := soc_better (r, v) (sel_rank sel, sel_chipinfo_version_calc sel) \<rparr>"
    by (simp add: soc_better_def Let_def)
  finally show ?thesis .
qed

text \<open>The platform version check by the key.\<close>

lemma plat_check:
  assumes "cur_platforminfo_version_calc e \<le> in_platforminfo_version_calc inp"
    and "cur_chipinfo_version_calc e \<le> in_chipinfo_version_calc inp"
  shows "platform_dtbo_version_check e inp sel = e \<lparr> candidacy_status :=
    plat_better (cur_rank e, cur_platforminfo_version_calc e, cur_chipinfo_version_calc e)
      (sel_rank sel, sel_platforminfo_version_calc sel, sel_chipinfo_version_calc sel) \<rparr>"
proof -
  from assms have "\<not> (cur_platforminfo_version_calc e > in_platforminfo_version_calc inp \<or>
      cur_chipinfo_version_calc e > in_chipinfo_version_calc inp)" by auto
  then show ?thesis by (auto simp: platform_dtbo_version_check_def plat_better_def Let_def)
qed

text \<open>What the comparison of a platform overlay leaves in the entry.\<close>

definition plat_entry ::
  "handle_entry_data \<Rightarrow> handle_selected_dtbo \<Rightarrow> (int \<times> 32 word \<times> 32 word) option \<Rightarrow> handle_entry_data \<Rightarrow> bool" where
  "plat_entry e sel k e' \<longleftrightarrow>
     (case k of None \<Rightarrow> \<not> candidacy_status e'
      | Some (r, pv, cv) \<Rightarrow> e' = e \<lparr> cur_rank := r, cur_platforminfo_version_calc := pv,
          cur_chipinfo_version_calc := cv, candidacy_status := plat_better (r, pv, cv)
            (sel_rank sel, sel_platforminfo_version_calc sel, sel_chipinfo_version_calc sel) \<rparr>)"

lemma plat_after_oem:
  fixes e inp
  defines "info \<equiv> Input_chip_plat_info_prop inp" and "q \<equiv> DT_chipinfo_selected e" and "pq \<equiv> DT_platforminfo_selected e"
  assumes type: "pq ! PLATFORMINFO_TYPE = platform_type info"
  shows "\<exists>e'. (let e = e \<lparr> candidacy_status := False \<rparr>;
      sub_type = DT_platforminfo_selected e ! PLATFORMINFO_SUB_TYPE;
      cid = DT_chipinfo_selected e ! CHIPINFO_ID
    in if sub_type \<noteq> 0 \<and> sub_type \<noteq> platform_subtype info then Some (SUCCESS, e, hp)
       else if cid \<noteq> 0 \<and> cid \<noteq> chip_id info then Some (SUCCESS, e, hp)
       else
         let e = e \<lparr> cur_rank := platform_rank sub_type cid,
           cur_chipinfo_version_calc := chip_version_calc
             (DT_chipinfo_selected e ! CHIPINFO_MAJOR) (DT_chipinfo_selected e ! CHIPINFO_MINOR),
           cur_platforminfo_version_calc := plat_version_calc
             (DT_platforminfo_selected e ! PLATFORMINFO_MAJOR) (DT_platforminfo_selected e ! PLATFORMINFO_MINOR) \<rparr>
         in Some (SUCCESS, platform_dtbo_version_check e inp sel, hp)) = Some (SUCCESS, e', hp) \<and>
    plat_entry e sel (plat_rank_key inp q pq) e'"
proof -
  let ?sub = "pq ! PLATFORMINFO_SUB_TYPE" and ?cid = "q ! CHIPINFO_ID"
  let ?cv = "chip_version_calc (q ! CHIPINFO_MAJOR) (q ! CHIPINFO_MINOR)"
  let ?pv = "plat_version_calc (pq ! PLATFORMINFO_MAJOR) (pq ! PLATFORMINFO_MINOR)"
  let ?e = "e \<lparr> candidacy_status := False, cur_rank := platform_rank ?sub ?cid,
    cur_chipinfo_version_calc := ?cv, cur_platforminfo_version_calc := ?pv \<rparr>"
  consider "?sub \<noteq> 0 \<and> ?sub \<noteq> platform_subtype info \<or> ?cid \<noteq> 0 \<and> ?cid \<noteq> chip_id info"
    | "?sub = 0 \<or> ?sub = platform_subtype info" "?cid = 0 \<or> ?cid = chip_id info"
      "\<not> (?pv \<le> in_platforminfo_version_calc inp \<and> ?cv \<le> in_chipinfo_version_calc inp)"
    | "?sub = 0 \<or> ?sub = platform_subtype info" "?cid = 0 \<or> ?cid = chip_id info"
      "?pv \<le> in_platforminfo_version_calc inp" "?cv \<le> in_chipinfo_version_calc inp"
    by blast
  then show ?thesis
  proof cases
    case 1
    then have "plat_rank_key inp q pq = None" by (auto simp: plat_rank_key_def info_def Let_def)
    with 1 show ?thesis unfolding q_def pq_def Let_def by (auto simp: plat_entry_def)
  next
    case 2
    from 2(3) have "\<not> candidacy_status (platform_dtbo_version_check ?e inp sel)"
      by (auto simp: platform_dtbo_version_check_def Let_def not_le)
    moreover have "plat_rank_key inp q pq = None" using 2(3) by (auto simp: plat_rank_key_def Let_def)
    ultimately show ?thesis using 2(1,2) unfolding q_def pq_def Let_def by (auto simp: plat_entry_def)
  next
    case 3
    then have "plat_rank_key inp q pq = Some (platform_rank ?sub ?cid, ?pv, ?cv)"
      using type by (simp add: plat_rank_key_def info_def Let_def)
    moreover from 3(3,4) have "platform_dtbo_version_check ?e inp sel = ?e \<lparr> candidacy_status :=
        plat_better (platform_rank ?sub ?cid, ?pv, ?cv)
          (sel_rank sel, sel_platforminfo_version_calc sel, sel_chipinfo_version_calc sel) \<rparr>"
      by (subst plat_check) simp_all
    ultimately show ?thesis using 3(1,2) unfolding q_def pq_def Let_def by (auto simp: plat_entry_def)
  qed
qed

lemma plat_comparison:
  assumes al: "alloc_fits al" "no_fail al" and t: "tame (target hp) m (node e)"
  shows "\<exists>e' hp'. validate_and_select_platform_dtbo al m e inp sel hp = Some (SUCCESS, e', hp') \<and> same_heap hp hp' \<and>
    plat_entry e sel (if oem_spec m inp (node e)
      then plat_rank_key inp (DT_chipinfo_selected e) (DT_platforminfo_selected e) else None) e'"
proof (cases "DT_platforminfo_selected e ! PLATFORMINFO_TYPE = platform_type (Input_chip_plat_info_prop inp)")
  case False
  then show ?thesis
    by (simp add: validate_and_select_platform_dtbo_def plat_entry_def plat_rank_key_def Let_def)
next
  case True
  let ?e = "e \<lparr> candidacy_status := False \<rparr>"
  have "outcome al hp (decides ?e (oem_spec m inp (node ?e))) (validate_oem_variant al m inp ?e hp)"
    using t by (intro oem_outcome [OF al(1)]) simp
  then obtain e1 hp1 where o: "validate_oem_variant al m inp ?e hp = Some (SUCCESS, e1, hp1)" "same_heap hp hp1"
    "decides ?e (oem_spec m inp (node e)) e1" using al(2) by (auto simp: outcome_def)
  show ?thesis
  proof (cases "oem_spec m inp (node e)")
    case False
    with o True show ?thesis
      by (simp add: validate_and_select_platform_dtbo_def plat_entry_def Let_def)
  next
    case oem: True
    from plat_after_oem [of e1 inp hp1 sel] True o(3) obtain e' where
      "validate_and_select_platform_dtbo al m e inp sel hp = Some (SUCCESS, e', hp1)"
      "plat_entry e1 sel (plat_rank_key inp (DT_chipinfo_selected e1) (DT_platforminfo_selected e1)) e'"
      using o(1) oem by (auto simp: validate_and_select_platform_dtbo_def Let_def)
    with o(2,3) oem show ?thesis by (auto simp: plat_entry_def split: option.splits prod.splits)
  qed
qed

section \<open>One blob of the loop\<close>

lemma no_key_scan:
  assumes "candidate_spec m inp (fst i) = None"
  shows "scan m inp i c = c"
  using assms by (cases c) (simp add: scan_def base_ok_def soc_key_def plat_key_def pick_def)

lemma base_step:
  assumes c: "choice_ok c" and b: "blob h \<noteq> 0" and cand: "candidate_spec m inp h = Some (BASE_DTB, q, pq)"
    and e: "node e = h" "cur_blob_size e = n" "device_tree_type e = BASE_DTB" "DT_chipinfo_selected e = q"
  shows "select_entry al m inp e (chosen_vars hnd c hp) = Some (chosen_vars hnd (scan m inp (h, n) c) hp)"
proof -
  have ptr: "base_dtb_ptr (chosen_handle hnd c) = 0 \<longleftrightarrow> fst c = None"
    using c by (auto simp: chosen_handle_def item_ptr_def choice_ok_def split: option.split)
  have sc: "scan m inp (h, n) c = (if fst c = None \<and> base_ok m inp (h, n) then Some (h, n) else fst c, snd c)"
    by (simp add: scan_def soc_key_def plat_key_def pick_def cand)
  have ok: "base_ok m inp (h, n) \<longleftrightarrow> q ! CHIPINFO_ID = 0 \<and> q ! CHIPINFO_MAJOR = 1 \<and> q ! CHIPINFO_MINOR = 0"
    by (simp add: base_ok_def cand)
  have hd: "handle (chosen_vars hnd c hp) = chosen_handle hnd c" by (simp add: chosen_vars_def)
  show ?thesis
  proof (cases "fst c = None \<and> base_ok m inp (h, n)")
    case True
    then have "candidacy_status (validate_and_select_base_dtb (e \<lparr> candidacy_status := False \<rparr>)
        (chosen_handle hnd c))"
      using ptr ok e by (simp add: validate_and_select_base_dtb_def)
    with True e show ?thesis
      by (simp add: select_entry_def hd sc)
        (simp add: chosen_vars_def validate_and_select_base_dtb_def chosen_handle_def item_ptr_def item_size_def
          chosen_soc_def chosen_plat_def)
  next
    case False
    then have "\<not> candidacy_status (validate_and_select_base_dtb (e \<lparr> candidacy_status := False \<rparr>)
        (chosen_handle hnd c))"
      using ptr ok e by (auto simp: validate_and_select_base_dtb_def)
    moreover have "scan m inp (h, n) c = c" using False sc by (cases c) auto
    ultimately show ?thesis using e by (simp add: select_entry_def hd)
  qed
qed

lemma soc_pick:
  assumes "choice_ok c" and "0 \<le> r"
  shows "soc_better (r, v) (sel_rank (chosen_soc c), sel_chipinfo_version_calc (chosen_soc c)) \<longleftrightarrow>
    (case fst (snd c) of None \<Rightarrow> True | Some (k, i) \<Rightarrow> soc_better (r, v) k)"
  using assms by (auto simp: chosen_soc_def init_handle_selected_dtb_dtbo_def soc_better_def split: option.split)

lemma plat_pick:
  assumes "choice_ok c" and "0 \<le> r"
  shows "plat_better (r, pv, cv) (sel_rank (chosen_plat c), sel_platforminfo_version_calc (chosen_plat c),
      sel_chipinfo_version_calc (chosen_plat c)) \<longleftrightarrow>
    (case snd (snd c) of None \<Rightarrow> True | Some (k, i) \<Rightarrow> plat_better (r, pv, cv) k)"
  using assms by (auto simp: chosen_plat_def init_handle_selected_dtb_dtbo_def plat_better_def split: option.split)

lemma soc_rank_key_nonneg: "soc_rank_key inp q = Some (r, v) \<Longrightarrow> 0 \<le> r"
  by (auto simp: soc_rank_key_def Let_def split: if_split_asm)

lemma plat_rank_key_nonneg: "plat_rank_key inp q pq = Some (r, v) \<Longrightarrow> 0 \<le> r"
  using platform_rank_nonneg by (auto simp: plat_rank_key_def Let_def split: if_split_asm)

lemma soc_step:
  assumes c: "choice_ok c" and cand: "candidate_spec m inp h = Some (SOC_DTBO, q, pq)"
    and e: "node e = h" "cur_blob_size e = n" "device_tree_type e = SOC_DTBO" "DT_chipinfo_selected e = q"
  shows "select_entry al m inp e (chosen_vars hnd c hp) = Some (chosen_vars hnd (scan m inp (h, n) c) hp)"
proof -
  let ?e = "e \<lparr> candidacy_status := False \<rparr>"
  have sel: "soc_dtbo_selected (chosen_vars hnd c hp) = chosen_soc c" by (simp add: chosen_vars_def)
  have key: "soc_key m inp (h, n) = soc_rank_key inp q" by (simp add: soc_key_def cand)
  have sc: "scan m inp (h, n) c = (fst c, pick soc_better (soc_key m inp) (h, n) (fst (snd c)), snd (snd c))"
    by (simp add: scan_def base_ok_def plat_key_def pick_def cand)
  show ?thesis
  proof (cases "soc_rank_key inp q")
    case None
    then have "\<not> candidacy_status (validate_and_select_soc_dtbo ?e inp (chosen_soc c))"
      using e by (intro soc_check_None) simp
    moreover have "scan m inp (h, n) c = c" using None sc key by (cases c) (simp add: pick_def)
    ultimately show ?thesis using e by (simp add: select_entry_def sel)
  next
    case (Some rv)
    then obtain r v where k: "soc_rank_key inp q = Some (r, v)" by (cases rv) auto
    have chk: "validate_and_select_soc_dtbo ?e inp (chosen_soc c) = ?e \<lparr> cur_rank := r, cur_chipinfo_version_calc := v,
        candidacy_status := (case fst (snd c) of None \<Rightarrow> True | Some (k, i) \<Rightarrow> soc_better (r, v) k) \<rparr>"
      using soc_check_Some [of inp ?e r v "chosen_soc c"] k e soc_pick [OF c soc_rank_key_nonneg [OF k]] by simp
    show ?thesis
    proof (cases "case fst (snd c) of None \<Rightarrow> True | Some (k, i) \<Rightarrow> soc_better (r, v) k")
      case True
      then have "scan m inp (h, n) c = (fst c, Some ((r, v), (h, n)), snd (snd c))"
        using sc key k by (auto simp: pick_def split: option.splits)
      with True chk e show ?thesis
        by (simp add: select_entry_def sel)
          (simp add: chosen_vars_def chosen_handle_def item_ptr_def item_size_def chosen_soc_def
            chosen_plat_def init_handle_selected_dtb_dtbo_def split: option.split)
    next
      case False
      then have "scan m inp (h, n) c = c"
        using sc key k by (cases c) (auto simp: pick_def split: option.splits)
      with False chk e show ?thesis by (simp add: select_entry_def sel)
    qed
  qed
qed

lemma plat_step:
  assumes al: "alloc_fits al" "no_fail al" and t: "tame (target hp) m h"
    and c: "choice_ok c" and cand: "candidate_spec m inp h = Some (PLATFORM_DTBO, q, pq)"
    and e: "node e = h" "cur_blob_size e = n" "device_tree_type e = PLATFORM_DTBO"
      "DT_chipinfo_selected e = q" "DT_platforminfo_selected e = pq"
  shows "\<exists>hp'. same_heap hp hp' \<and>
    select_entry al m inp e (chosen_vars hnd c hp) = Some (chosen_vars hnd (scan m inp (h, n) c) hp')"
proof -
  let ?e = "e \<lparr> candidacy_status := False \<rparr>"
  let ?k = "if oem_spec m inp h then plat_rank_key inp q pq else None"
  have sel: "platform_dtbo_selected (chosen_vars hnd c hp) = chosen_plat c" "sel_heap (chosen_vars hnd c hp) = hp"
    by (simp_all add: chosen_vars_def)
  have key: "plat_key m inp (h, n) = ?k" by (simp add: plat_key_def cand)
  have sc: "scan m inp (h, n) c = (fst c, fst (snd c), pick plat_better (plat_key m inp) (h, n) (snd (snd c)))"
    by (simp add: scan_def base_ok_def soc_key_def pick_def cand)
  have heap: "chosen_vars hnd c hp \<lparr> sel_heap := hp' \<rparr> = chosen_vars hnd c hp'" for c hp'
    by (simp add: chosen_vars_def)
  have f: "node ?e = h" "DT_chipinfo_selected ?e = q" "DT_platforminfo_selected ?e = pq"
    using e by simp_all
  have "tame (target hp) m (node ?e)" using t f by simp
  from plat_comparison [OF al this, of inp "chosen_plat c", unfolded f] obtain e' hp' where
    v: "validate_and_select_platform_dtbo al m ?e inp (chosen_plat c) hp = Some (SUCCESS, e', hp')" "same_heap hp hp'"
    and pe: "plat_entry ?e (chosen_plat c) ?k e'" by blast
  show ?thesis
  proof (cases ?k)
    case None
    then have "\<not> candidacy_status e'" using pe by (simp add: plat_entry_def)
    moreover have "scan m inp (h, n) c = c" using None sc key by (cases c) (simp add: pick_def)
    ultimately show ?thesis using e v(1,2) by (intro exI [of _ hp']) (simp add: select_entry_def sel heap)
  next
    case (Some kk)
    then obtain r pv cv where k: "?k = Some (r, pv, cv)" by (cases kk) auto
    then have "0 \<le> r" by (auto intro: plat_rank_key_nonneg split: if_split_asm)
    with pe k plat_pick [OF c] have e': "e' = ?e \<lparr> cur_rank := r, cur_platforminfo_version_calc := pv,
        cur_chipinfo_version_calc := cv, candidacy_status :=
          (case snd (snd c) of None \<Rightarrow> True | Some (k, i) \<Rightarrow> plat_better (r, pv, cv) k) \<rparr>"
      by (simp add: plat_entry_def)
    show ?thesis
    proof (cases "case snd (snd c) of None \<Rightarrow> True | Some (k, i) \<Rightarrow> plat_better (r, pv, cv) k")
      case True
      then have "scan m inp (h, n) c = (fst c, fst (snd c), Some ((r, pv, cv), (h, n)))"
        using sc key k by (auto simp: pick_def split: option.splits)
      with True v e' e have "select_entry al m inp e (chosen_vars hnd c hp) =
          Some (chosen_vars hnd (scan m inp (h, n) c) hp')"
        by (simp add: select_entry_def sel)
          (simp add: chosen_vars_def chosen_handle_def item_ptr_def item_size_def chosen_soc_def chosen_plat_def)
      with v(2) show ?thesis by blast
    next
      case False
      then have "scan m inp (h, n) c = c"
        using sc key k by (cases c) (auto simp: pick_def split: option.splits)
      with False v e' e show ?thesis by (intro exI [of _ hp']) (simp add: select_entry_def sel heap)
    qed
  qed
qed

lemma entry_step:
  assumes al: "alloc_fits al" "no_fail al" and t: "tame (target hp) m h"
    and c: "choice_ok c" and b: "blob h \<noteq> 0" and cand: "candidate_spec m inp h = Some k"
    and e: "e = (set_candidate k e0) \<lparr> candidacy_status := True \<rparr>" "node e0 = h" "cur_blob_size e0 = n"
  shows "\<exists>hp'. same_heap hp hp' \<and>
    select_entry al m inp e (chosen_vars hnd c hp) = Some (chosen_vars hnd (scan m inp (h, n) c) hp')"
proof -
  obtain ty q pq where k: "k = (ty, q, pq)" by (cases k) auto
  have f: "node e = h" "cur_blob_size e = n" "device_tree_type e = ty"
    "DT_chipinfo_selected e = q" "DT_platforminfo_selected e = pq"
    using e k by simp_all
  show ?thesis
  proof (cases ty)
    case BASE_DTB
    with base_step [OF c b] cand k f show ?thesis by (intro exI [of _ hp]) simp
  next
    case SOC_DTBO
    with soc_step [OF c] cand k f show ?thesis by (intro exI [of _ hp]) simp
  next
    case PLATFORM_DTBO
    with plat_step [OF al t c] cand k f show ?thesis by simp
  next
    case READ_BLOB_MAX
    with cand k have "scan m inp (h, n) c = c"
      by (cases c) (simp add: scan_def base_ok_def soc_key_def plat_key_def pick_def)
    with READ_BLOB_MAX f show ?thesis by (intro exI [of _ hp]) (simp add: select_entry_def)
  qed
qed

section \<open>The image\<close>

text \<open>
  \<open>dtb_image t m isize start fh is\<close>: from the address \<open>fh\<close> on, the image that starts at \<open>start\<close>
  holds the blobs \<open>is\<close>, and then ends: at its size, or, when the size is not given (0), at the
  first address without the magic number.
\<close>

inductive dtb_image :: "target \<Rightarrow> mem \<Rightarrow> int \<Rightarrow> addr \<Rightarrow> addr \<Rightarrow> item list \<Rightarrow> bool"
  for t m isize start where
  sized_end: "0 < isize \<Longrightarrow> fh = start + isize \<Longrightarrow> dtb_image t m isize start fh []"
| magic_end: "isize = 0 \<Longrightarrow> 0 < fh \<Longrightarrow> fdt_check_header m fh = Some (- FDT_ERR_BADMAGIC) \<Longrightarrow>
    dtb_image t m isize start fh []"
| blob_at: "valid_blob m fh \<Longrightarrow> fdt_totalsize m fh = Some n \<Longrightarrow> start \<le> fh \<Longrightarrow>
    fh + n < 18446744073709551616 \<Longrightarrow> 0 < isize \<Longrightarrow> fh + n \<le> start + isize \<Longrightarrow>
    fdt_path_offset m fh ROOT_NODE = Some off \<Longrightarrow> 0 \<le> off \<Longrightarrow> tame t m \<lparr> blob = fh, offset = off \<rparr> \<Longrightarrow>
    dtb_image t m isize start (fh + n) is \<Longrightarrow> dtb_image t m isize start fh ((\<lparr> blob = fh, offset = off \<rparr>, n) # is)"
| blob_at_unsized: "valid_blob m fh \<Longrightarrow> fdt_totalsize m fh = Some n \<Longrightarrow>
    fh + n < 18446744073709551616 \<Longrightarrow> isize = 0 \<Longrightarrow>
    fdt_path_offset m fh ROOT_NODE = Some off \<Longrightarrow> 0 \<le> off \<Longrightarrow> tame t m \<lparr> blob = fh, offset = off \<rparr> \<Longrightarrow>
    dtb_image t m isize start (fh + n) is \<Longrightarrow> dtb_image t m isize start fh ((\<lparr> blob = fh, offset = off \<rparr>, n) # is)"

text \<open>The range check for an image that ends inside the address space.\<close>

lemma range_check:
  assumes "0 \<le> start" and "0 < isize" and "start + isize < 18446744073709551616"
  shows "address_within_image_range_and_pointer_overflow_check a start isize =
    (SUCCESS, start \<le> a \<and> a < start + isize)"
proof -
  have "u32 isize \<le> isize" using assms(2) unfolding u32_def by (intro zmod_le_nonneg_dividend) simp
  moreover have "0 \<le> u32 isize" by (rule u32_nonneg)
  ultimately have "u64 (start + u32 isize) = start + u32 isize" using assms by (intro u64_id) linarith+
  with \<open>0 \<le> u32 isize\<close> assms show ?thesis
    by (simp add: address_within_image_range_and_pointer_overflow_check_def is_safe_to_add_pointer_def u64_id not_less)
qed

text \<open>The test for the end at a blob and at the end.\<close>

lemma valid_blob_size:
  assumes "valid_blob m fh" and "fdt_totalsize m fh = Some n"
  shows "fdt_check_header m fh = Some 0" and "0 < fh" and "32 \<le> n" and "n \<le> INT_MAX"
proof -
  from assms(1) show "fdt_check_header m fh = Some 0" "0 < fh" by (simp_all add: valid_blob_def)
  from assms show "32 \<le> n" "n \<le> INT_MAX" by (auto elim: valid_blob_header)
qed

lemma at_blob:
  assumes v: "valid_blob m fh" "fdt_totalsize m fh = Some n" and sp: "fh + n < 18446744073709551616"
    and hnd: "dtbs_image_start_address hnd = start" "0 < start" and inp: "dtbs_image_size inp = isize"
    and rng: "isize \<noteq> 0 \<Longrightarrow> 0 < isize \<and> start \<le> fh \<and> fh + n \<le> start + isize \<and>
      start + isize < 18446744073709551616"
  shows "is_fdtheader_at_end_of_image m fh hnd inp e0 = Some (SUCCESS,
    e0 \<lparr> candidacy_status := True, node := (node e0) \<lparr> blob := fh \<rparr>, cur_blob_size := n \<rparr>, False)"
proof -
  note s = valid_blob_size [OF v]
  have add: "is_safe_to_add_pointer fh n" using s sp by (intro safe_block) linarith+
  have u: "u64 (fh + n) = fh + n" "u64 (fh + n - 1) = fh + n - 1" using s sp by (auto intro: u64_id)
  have b: "fdt_get_blob_size m (Some (node e0 \<lparr> blob := fh \<rparr>)) True = Some (NOERROR, Some n)"
    using s v by (simp add: fdt_get_blob_size_def)
  show ?thesis
  proof (cases "isize = 0")
    case True
    with s add b hnd inp show ?thesis by (simp add: is_fdtheader_at_end_of_image_def Let_def)
  next
    case False
    with rng have r: "0 < isize" "start \<le> fh" "fh + n \<le> start + isize" "start + isize < 18446744073709551616"
      by simp_all
    have "address_within_image_range_and_pointer_overflow_check a start isize =
        (SUCCESS, start \<le> a \<and> a < start + isize)" for a
      using hnd r by (intro range_check) simp_all
    with False s add b u r hnd inp show ?thesis
      by (simp add: is_fdtheader_at_end_of_image_def Let_def)
  qed
qed

lemma at_end:
  assumes fh: "0 < fh" and hnd: "dtbs_image_start_address hnd = start" "0 < start" and inp: "dtbs_image_size inp = isize"
    and stop: "0 < isize \<and> fh = start + isize \<and> start + isize < 18446744073709551616 \<or>
      isize = 0 \<and> fdt_check_header m fh = Some (- FDT_ERR_BADMAGIC)"
  shows "\<exists>e. is_fdtheader_at_end_of_image m fh hnd inp e0 = Some (SUCCESS, e, True)"
proof (cases "isize = 0")
  case True
  with assms show ?thesis by (simp add: is_fdtheader_at_end_of_image_def Let_def)
next
  case False
  with stop have r: "0 < isize" "fh = start + isize" "start + isize < 18446744073709551616" by auto
  with hnd have "address_within_image_range_and_pointer_overflow_check fh start isize = (SUCCESS, False)"
    using range_check [of start isize fh] by simp
  with False fh hnd inp show ?thesis by (simp add: is_fdtheader_at_end_of_image_def Let_def)
qed

section \<open>The loop implements the selection\<close>

lemma chosen_vars_simps [simp]:
  "dtbs_image_start_address (chosen_handle hnd c) = dtbs_image_start_address hnd"
  "handle (chosen_vars hnd c hp) = chosen_handle hnd c" "sel_heap (chosen_vars hnd c hp) = hp"
  "chosen_vars hnd c hp \<lparr> sel_heap := hp' \<rparr> = chosen_vars hnd c hp'"
  by (simp_all add: chosen_vars_def chosen_handle_def)

text \<open>One round of the loop at a blob.\<close>

lemma loop_blob:
  assumes al: "alloc_fits al" "no_fail al" and cl: "client_ok m inp" and c: "choice_ok c"
    and v: "valid_blob m fh" "fdt_totalsize m fh = Some n"
    and off: "fdt_path_offset m fh ROOT_NODE = Some off" "0 \<le> off"
    and t: "tame (target hp) m \<lparr> blob = fh, offset = off \<rparr>"
    and blob: "is_fdtheader_at_end_of_image m fh (chosen_handle hnd c) inp init_handle_entry_data = Some (SUCCESS,
      init_handle_entry_data \<lparr> candidacy_status := True, node := (node init_handle_entry_data) \<lparr> blob := fh \<rparr>,
        cur_blob_size := n \<rparr>, False)"
    and u: "u64 (fh + n) = fh + n"
  shows "\<exists>hp'. same_heap hp hp' \<and> select_loop al m xs inp fh (chosen_vars hnd c hp) =
    select_loop al m xs inp (fh + n) (chosen_vars hnd (scan m inp (\<lparr> blob = fh, offset = off \<rparr>, n) c) hp')"
proof -
  let ?h = "\<lparr> blob = fh, offset = off \<rparr>"
  let ?e = "init_handle_entry_data \<lparr> candidacy_status := True, cur_blob_size := n, node := ?h \<rparr>"
  have fh: "fh \<noteq> NULL" using v(1) by (auto simp: valid_blob_def)
  have nd: "fdt_get_node_handle m xs (Some (node init_handle_entry_data \<lparr> blob := fh \<rparr>)) fh (Some ROOT_NODE) =
      Some (NOERROR, Some ?h)"
    using off fh by (simp add: fdt_get_node_handle_def)
  have e: "node ?e = ?h" "cur_blob_size ?e = n" "DT_platforminfo_selected ?e = [0, 0, 0, 0]"
    by (simp_all add: init_handle_entry_data_def)
  have "outcome al hp (sets ?e (candidate_spec m inp (node ?e)) set_candidate) (is_it_dtb_dtbo_candidate al m inp ?e hp)"
    using t e by (intro candidate_outcome [OF al(1) _ cl]) simp_all
  then obtain e' hp1 where cand: "is_it_dtb_dtbo_candidate al m inp ?e hp = Some (SUCCESS, e', hp1)" "same_heap hp hp1"
    "sets ?e (candidate_spec m inp ?h) set_candidate e'"
    using al(2) e(1) by (auto simp: outcome_def)
  from candidate_same_blob [OF cand(1)] e have sz: "cur_blob_size e' = n" by simp
  have round: "select_loop al m xs inp fh (chosen_vars hnd c hp) = do {
      v' \<leftarrow> (if candidacy_status e' then select_entry al m inp e' (chosen_vars hnd c hp1)
             else Some (chosen_vars hnd c hp1));
      select_loop al m xs inp (fh + n) v' }"
    using blob nd cand(1) sz u by (subst select_loop.simps) simp
  show ?thesis
  proof (cases "candidate_spec m inp ?h")
    case None
    with cand(3) have "\<not> candidacy_status e'" by (simp add: sets_def)
    with None cand(2) round show ?thesis by (intro exI [of _ hp1]) (simp add: no_key_scan)
  next
    case (Some k)
    with cand(3) have e': "e' = (set_candidate k ?e) \<lparr> candidacy_status := True \<rparr>" by (simp add: sets_def)
    have "tame (target hp1) m ?h" using t cand(2) by (simp add: same_heap_def)
    from entry_step [OF al this c _ Some e'] fh e obtain hp2 where
      "same_heap hp1 hp2" "select_entry al m inp e' (chosen_vars hnd c hp1) =
        Some (chosen_vars hnd (scan m inp (?h, n) c) hp2)" by auto
    with e' round cand(2) show ?thesis by (intro exI [of _ hp2]) (auto dest: same_heap_trans)
  qed
qed

lemma loop_image:
  assumes al: "alloc_fits al" "no_fail al" and cl: "client_ok m inp" and start: "0 < start" "0 \<le> isize"
    and sp: "0 < isize \<Longrightarrow> start + isize < 18446744073709551616"
    and inp: "dtbs_image_size inp = isize" and hnd: "dtbs_image_start_address hnd = start"
  shows "dtb_image t m isize start fh is \<Longrightarrow> target hp = t \<Longrightarrow> choice_ok c \<Longrightarrow>
    \<exists>hp'. same_heap hp hp' \<and> select_loop al m xs inp fh (chosen_vars hnd c hp) =
      Some (SUCCESS, chosen_vars hnd (fold (scan m inp) is c) hp')"
proof (induction arbitrary: hp c rule: dtb_image.induct)
  case (sized_end fh)
  with at_end [of fh "chosen_handle hnd c" start inp isize m init_handle_entry_data] start sp inp hnd show ?case
    by (intro exI [of _ hp]) (subst select_loop.simps, auto)
next
  case (magic_end fh)
  with at_end [of fh "chosen_handle hnd c" start inp isize m init_handle_entry_data] start sp inp hnd show ?case
    by (intro exI [of _ hp]) (subst select_loop.simps, auto)
next
  case (blob_at fh n off "is")
  note s = valid_blob_size [OF blob_at.hyps(1,2)]
  have u: "u64 (fh + n) = fh + n" using s blob_at.hyps(4) by (intro u64_id) linarith+
  have "is_fdtheader_at_end_of_image m fh (chosen_handle hnd c) inp init_handle_entry_data = Some (SUCCESS,
      init_handle_entry_data \<lparr> candidacy_status := True, node := (node init_handle_entry_data) \<lparr> blob := fh \<rparr>,
        cur_blob_size := n \<rparr>, False)"
    using blob_at.hyps start sp inp hnd by (intro at_blob) auto
  from loop_blob [OF al cl blob_at.prems(2) blob_at.hyps(1,2,7,8) _ this u] blob_at.hyps(9) blob_at.prems(1)
  obtain hp1 where r: "same_heap hp hp1" "select_loop al m xs inp fh (chosen_vars hnd c hp) =
    select_loop al m xs inp (fh + n) (chosen_vars hnd (scan m inp (\<lparr> blob = fh, offset = off \<rparr>, n) c) hp1)" by blast
  have "target hp1 = t" using r(1) blob_at.prems(1) by (simp add: same_heap_def)
  moreover have "choice_ok (scan m inp (\<lparr> blob = fh, offset = off \<rparr>, n) c)"
    using s blob_at.prems(2) by (intro scan_ok) simp_all
  ultimately obtain hp2 where "same_heap hp1 hp2" "select_loop al m xs inp (fh + n)
      (chosen_vars hnd (scan m inp (\<lparr> blob = fh, offset = off \<rparr>, n) c) hp1) = Some (SUCCESS, chosen_vars hnd
        (fold (scan m inp) is (scan m inp (\<lparr> blob = fh, offset = off \<rparr>, n) c)) hp2)"
    using blob_at.IH [of hp1] by blast
  with same_heap_trans [OF r(1) this(1)] r(2) show ?case by (intro exI [of _ hp2]) simp
next
  case (blob_at_unsized fh n off "is")
  note s = valid_blob_size [OF blob_at_unsized.hyps(1,2)]
  have u: "u64 (fh + n) = fh + n" using s blob_at_unsized.hyps(3) by (intro u64_id) linarith+
  have "is_fdtheader_at_end_of_image m fh (chosen_handle hnd c) inp init_handle_entry_data = Some (SUCCESS,
      init_handle_entry_data \<lparr> candidacy_status := True, node := (node init_handle_entry_data) \<lparr> blob := fh \<rparr>,
        cur_blob_size := n \<rparr>, False)"
    using blob_at_unsized.hyps start inp hnd by (intro at_blob) auto
  from loop_blob [OF al cl blob_at_unsized.prems(2) blob_at_unsized.hyps(1,2,5,6) _ this u]
    blob_at_unsized.hyps(7) blob_at_unsized.prems(1)
  obtain hp1 where r: "same_heap hp hp1" "select_loop al m xs inp fh (chosen_vars hnd c hp) =
    select_loop al m xs inp (fh + n) (chosen_vars hnd (scan m inp (\<lparr> blob = fh, offset = off \<rparr>, n) c) hp1)" by blast
  have "target hp1 = t" using r(1) blob_at_unsized.prems(1) by (simp add: same_heap_def)
  moreover have "choice_ok (scan m inp (\<lparr> blob = fh, offset = off \<rparr>, n) c)"
    using s blob_at_unsized.prems(2) by (intro scan_ok) simp_all
  ultimately obtain hp2 where "same_heap hp1 hp2" "select_loop al m xs inp (fh + n)
      (chosen_vars hnd (scan m inp (\<lparr> blob = fh, offset = off \<rparr>, n) c) hp1) = Some (SUCCESS, chosen_vars hnd
        (fold (scan m inp) is (scan m inp (\<lparr> blob = fh, offset = off \<rparr>, n) c)) hp2)"
    using blob_at_unsized.IH [of hp1] by blast
  with same_heap_trans [OF r(1) this(1)] r(2) show ?case by (intro exI [of _ hp2]) simp
qed

text \<open>The choice over the whole list, by its three parts.\<close>

definition selection_of :: "mem \<Rightarrow> handle_input_data \<Rightarrow> item list \<Rightarrow> choice" where
  "selection_of m inp is =
     (find (base_ok m inp) is,
      fold (pick soc_better (soc_key m inp)) is None,
      fold (pick plat_better (plat_key m inp)) is None)"

lemma fold_scan:
  "fold (scan m inp) is (b, s, p) =
     (if b = None then find (base_ok m inp) is else b,
      fold (pick soc_better (soc_key m inp)) is s, fold (pick plat_better (plat_key m inp)) is p)"
  by (induction "is" arbitrary: b s p) (simp_all add: scan_def)

lemma select_image:
  assumes al: "alloc_fits al" "no_fail al" and cl: "client_ok m inp"
    and start: "0 < start" "0 \<le> dtbs_image_size inp" "0 < dtbs_image_size inp \<Longrightarrow> start + dtbs_image_size inp < 18446744073709551616"
    and img: "dtb_image (target hp) m (dtbs_image_size inp) start start is"
  shows "\<exists>hp'. same_heap hp hp' \<and> select_dtb_and_dtbos al m xs (init_handle_data start) inp hp =
    Some (SUCCESS, chosen_handle (init_handle_data start) (selection_of m inp is), hp')"
proof -
  let ?v = "chosen_vars (init_handle_data start) (None, None, None) hp"
  have "dtbs_image_start_address (init_handle_data start) = start" by (simp add: init_handle_data_def)
  moreover have "choice_ok (None, None, None)" by (simp add: choice_ok_def)
  ultimately obtain hp' where l: "same_heap hp hp'" "select_loop al m xs inp start ?v =
      Some (SUCCESS, chosen_vars (init_handle_data start) (selection_of m inp is) hp')"
    using loop_image [OF al cl start refl _ img refl, of "init_handle_data start" "(None, None, None)" xs]
    by (auto simp: fold_scan selection_of_def)
  have v: "\<lparr> handle = init_handle_data start, soc_dtbo_selected = init_handle_selected_dtb_dtbo,
      platform_dtbo_selected = init_handle_selected_dtb_dtbo, sel_heap = hp \<rparr> = ?v"
    by (simp add: chosen_vars_def chosen_handle_def chosen_soc_def chosen_plat_def item_ptr_def item_size_def
        init_handle_data_def)
  have "dtbs_image_start_address (init_handle_data start) = start" by (simp add: init_handle_data_def)
  with l start(1) show ?thesis
    by (intro exI [of _ hp']) (simp add: select_dtb_and_dtbos_def v)
qed

end
