(* ===== verification/DT_Safe.thy ===== *)
theory DT_Safe
  imports DT_Loop
begin

text \<open>
  Safety of the selection on arbitrary bytes: whatever a mapped image of a given size holds, the
  loop ends with a status, in defined behaviour, with the heap as it was, and what it selected
  are valid blobs inside the image.
\<close>

text \<open>A selected blob of the image, or nothing.\<close>

definition selected_in :: "mem \<Rightarrow> addr \<Rightarrow> int \<Rightarrow> addr \<Rightarrow> int \<Rightarrow> bool" where
  "selected_in m start isize p n \<longleftrightarrow> p = NULL \<and> n = 0 \<or>
     valid_blob m p \<and> fdt_totalsize m p = Some n \<and> start \<le> p \<and> p + n \<le> start + isize"

definition selection_in :: "mem \<Rightarrow> addr \<Rightarrow> int \<Rightarrow> handle_data \<Rightarrow> bool" where
  "selection_in m start isize d \<longleftrightarrow> dtbs_image_start_address d = start \<and> data_guard d = DT_SELECT_LIBRARY_ID \<and>
     selected_in m start isize (base_dtb_ptr d) (base_dtb_size d) \<and>
     selected_in m start isize (soc_dtbo_ptr d) (soc_dtbo_size d) \<and>
     selected_in m start isize (plat_dtbo_ptr d) (plat_dtbo_size d)"

text \<open>
  An image of a known size in the address space: 40 bytes behind it are readable, since the header
  of a blob is read before its size is known.
\<close>

definition sized_image :: "mem \<Rightarrow> addr \<Rightarrow> int \<Rightarrow> bool" where
  "sized_image m start isize \<longleftrightarrow> 0 < start \<and> 0 < isize \<and> start + isize < 18446744073709551616 \<and>
     mapped m start (isize + 40)"

text \<open>Such an image, when the properties of the \<open>/board-id/\<close> nodes of its blobs are tame.\<close>

definition image_mem :: "target \<Rightarrow> mem \<Rightarrow> addr \<Rightarrow> int \<Rightarrow> bool" where
  "image_mem t m start isize \<longleftrightarrow> 0 < start \<and> 0 < isize \<and> start + isize < 18446744073709551616 \<and>
     mapped m start (isize + 40) \<and>
     (\<forall>b off. start \<le> b \<and> b < start + isize \<and> valid_blob m b \<and>
        fdt_path_offset m b ROOT_NODE = Some off \<and> 0 \<le> off \<longrightarrow> tame t m \<lparr> blob = b, offset = off \<rparr>)"

lemma image_mem_sized: "image_mem t m start isize \<Longrightarrow> sized_image m start isize"
  by (simp add: image_mem_def sized_image_def)

section \<open>One blob\<close>

lemma search_oem_same_blob:
  "search_oem_variant m inp e n p hp = Some (st, e', hp') \<Longrightarrow> same_blob e e'"
  unfolding search_oem_variant_def
  by (auto simp: bind_eq_Some_conv split: if_split_asm)

lemma oem_same_blob:
  "validate_oem_variant al m inp e hp = Some (st, e', hp') \<Longrightarrow> same_blob e e'"
  by (auto simp: validate_oem_variant_def Let_def bind_eq_Some_conv with_alloc_Some
      dest: search_oem_same_blob split: if_split_asm)

lemma oem_safe:
  assumes "alloc_fits al" and "tame (target hp) m (node e)"
  shows "\<exists>st e' hp'. validate_oem_variant al m inp e hp = Some (st, e', hp') \<and> same_heap hp hp' \<and>
    same_blob e e'"
  using oem_outcome [OF assms, of inp] oem_same_blob [of al m inp e hp] by (auto simp: outcome_def)

lemma platform_safe:
  assumes "alloc_fits al" and "tame (target hp) m (node e)"
  shows "\<exists>st e' hp'. validate_and_select_platform_dtbo al m e inp sel hp = Some (st, e', hp') \<and> same_heap hp hp' \<and>
    same_blob e e'"
proof -
  let ?e = "e \<lparr> candidacy_status := False \<rparr>"
  have "tame (target hp) m (node ?e)" using assms(2) by simp
  from oem_safe [OF assms(1) this, of inp] obtain st1 e1 hp1 where
    o: "validate_oem_variant al m inp ?e hp = Some (st1, e1, hp1)" "same_heap hp hp1"
      "same_blob ?e e1" by blast
  have v: "same_blob e' (platform_dtbo_version_check e' inp sel)" for e'
    by (simp add: platform_dtbo_version_check_def Let_def)
  show ?thesis
    using o v by (simp add: validate_and_select_platform_dtbo_def Let_def)
qed

text \<open>The three ways in which an entry changes the selected blobs.\<close>

definition updated :: "addr \<Rightarrow> int \<Rightarrow> handle_data \<Rightarrow> handle_data \<Rightarrow> bool" where
  "updated p n d d' \<longleftrightarrow> d' = d \<or> d' = d \<lparr> base_dtb_ptr := p, base_dtb_size := n \<rparr> \<or>
     d' = d \<lparr> soc_dtbo_ptr := p, soc_dtbo_size := n \<rparr> \<or> d' = d \<lparr> plat_dtbo_ptr := p, plat_dtbo_size := n \<rparr>"

lemma updated_in:
  "updated p n d d' \<Longrightarrow> selection_in m start isize d \<Longrightarrow> selected_in m start isize p n \<Longrightarrow>
     selection_in m start isize d'"
  by (auto simp: updated_def selection_in_def)

lemma soc_same_blob: "same_blob e (validate_and_select_soc_dtbo e inp sel)"
  by (simp add: validate_and_select_soc_dtbo_def Let_def)

lemma select_entry_safe:
  assumes "alloc_fits al" and "tame (target (sel_heap v)) m (node e)"
  shows "\<exists>v'. select_entry al m inp e v = Some v' \<and> same_heap (sel_heap v) (sel_heap v') \<and>
    updated (blob (node e)) (cur_blob_size e) (handle v) (handle v')"
proof (cases "device_tree_type e")
  case BASE_DTB
  then show ?thesis
    by (simp add: select_entry_def updated_def validate_and_select_base_dtb_def Let_def)
next
  case SOC_DTBO
  then show ?thesis
    using soc_same_blob [of "e \<lparr> candidacy_status := False \<rparr>" inp "soc_dtbo_selected v"]
    by (simp add: select_entry_def updated_def Let_def)
next
  case PLATFORM_DTBO
  have "tame (target (sel_heap v)) m (node (e \<lparr> candidacy_status := False \<rparr>))" using assms(2) by simp
  from platform_safe [OF assms(1) this, of inp "platform_dtbo_selected v"] obtain st e' hp' where
    "validate_and_select_platform_dtbo al m (e \<lparr> candidacy_status := False \<rparr>) inp (platform_dtbo_selected v)
       (sel_heap v) = Some (st, e', hp')" "same_heap (sel_heap v) hp'"
    "same_blob (e \<lparr> candidacy_status := False \<rparr>) e'" by blast
  with PLATFORM_DTBO show ?thesis by (simp add: select_entry_def updated_def Let_def)
qed (simp add: select_entry_def updated_def)

section \<open>The loop\<close>

text \<open>The test for the end of a sized image is defined, and what passes it is a blob of the image.\<close>

lemma end_test_safe:
  assumes img: "sized_image m start (dtbs_image_size inp)" and hnd: "dtbs_image_start_address hnd = start" and fh: "0 < fh"
  shows "\<exists>st e eof. is_fdtheader_at_end_of_image m fh hnd inp e0 = Some (st, e, eof)"
proof -
  let ?n = "dtbs_image_size inp"
  from img have i: "0 < start" "0 < ?n" "start + ?n < 18446744073709551616" "mapped m start (?n + 40)"
    by (simp_all add: sized_image_def)
  have rng: "address_within_image_range_and_pointer_overflow_check a start ?n =
      (SUCCESS, start \<le> a \<and> a < start + ?n)" for a
    using i by (intro range_check) simp_all
  show ?thesis
  proof (cases "start \<le> fh \<and> fh < start + ?n")
    case False
    with i fh hnd rng show ?thesis by (auto simp: is_fdtheader_at_end_of_image_def Let_def)
  next
    case True
    then have "mapped m fh 40" by (intro mapped_sub [OF i(4)]) simp_all
    from fdt_check_header_safe [OF this] header_fields_ex [OF this] obtain r n where
      "fdt_check_header m fh = Some r" "fdt_totalsize m fh = Some n" by metis
    with True i fh hnd rng show ?thesis
      by (simp add: is_fdtheader_at_end_of_image_def fdt_get_blob_size_def Let_def ex_bool_eq)
  qed
qed

lemma passed_blob:
  assumes img: "sized_image m start (dtbs_image_size inp)" and hnd: "dtbs_image_start_address hnd = start" and fh: "0 < fh"
    and e: "is_fdtheader_at_end_of_image m fh hnd inp e0 = Some (st, e, False)"
  shows "\<exists>n. st = SUCCESS \<and> selected_in m start (dtbs_image_size inp) fh n \<and> valid_blob m fh \<and> 0 < n \<and>
    u64 (fh + n) = fh + n \<and> start \<le> fh \<and> fh < start + dtbs_image_size inp \<and>
    e = e0 \<lparr> candidacy_status := True, node := (node e0) \<lparr> blob := fh \<rparr>, cur_blob_size := n \<rparr>"
proof -
  let ?n = "dtbs_image_size inp"
  from img have i: "0 < start" "0 < ?n" "start + ?n < 18446744073709551616" "mapped m start (?n + 40)"
    by (simp_all add: sized_image_def)
  have rng: "address_within_image_range_and_pointer_overflow_check a start ?n =
      (SUCCESS, start \<le> a \<and> a < start + ?n)" for a
    using i by (intro range_check) simp_all
  from not_at_end [OF e] i hnd rng obtain n where n: "st = SUCCESS" "fdt_check_header m fh = Some 0"
    "fdt_totalsize m fh = Some n" "0 < n" "n < 4294967296" "is_safe_to_add_pointer fh n"
    "e = e0 \<lparr> candidacy_status := True, node := (node e0) \<lparr> blob := fh \<rparr>, cur_blob_size := n \<rparr>"
    "start \<le> fh" "fh < start + ?n" "u64 (u64 (fh + n) - 1) < start + ?n" by auto
  have u: "u64 (fh + n) = fh + n" using safe_add_forward(3) [OF n(6,4,5)] fh by simp
  then have "fh + n < 18446744073709551616" using u64_less [of "fh + n"] by linarith
  with n u fh have "fh + n \<le> start + ?n" by (simp add: u64_id)
  moreover from this n have "mapped m fh n" by (intro mapped_sub [OF i(4)]) simp_all
  ultimately show ?thesis using n u fh by (intro exI [of _ n]) (simp add: selected_in_def valid_blob_def)
qed

lemma loop_safe:
  assumes al: "alloc_fits al" and cl: "client_ok m inp" and img: "image_mem t m start (dtbs_image_size inp)"
  shows "0 < fh \<Longrightarrow> target (sel_heap v) = t \<Longrightarrow> selection_in m start (dtbs_image_size inp) (handle v) \<Longrightarrow>
    \<exists>st v'. select_loop al m xs inp fh v = Some (st, v') \<and> same_heap (sel_heap v) (sel_heap v') \<and>
      selection_in m start (dtbs_image_size inp) (handle v')"
proof (induction "nat (18446744073709551616 - fh)" arbitrary: fh v rule: less_induct)
  case less
  let ?n = "dtbs_image_size inp"
  from less.prems(3) have hnd: "dtbs_image_start_address (handle v) = start" by (simp add: selection_in_def)
  from end_test_safe [OF image_mem_sized [OF img] hnd less.prems(1)] obtain st e eof where
    t: "is_fdtheader_at_end_of_image m fh (handle v) inp init_handle_entry_data = Some (st, e, eof)" by blast
  show ?case
  proof (cases "st \<noteq> SUCCESS \<or> eof")
    case True
    with t less.prems show ?thesis by (subst select_loop.simps) auto
  next
    case False
    with t have "is_fdtheader_at_end_of_image m fh (handle v) inp init_handle_entry_data = Some (st, e, False)" by simp
    from passed_blob [OF image_mem_sized [OF img] hnd less.prems(1) this] obtain n where
      n: "selected_in m start ?n fh n" "valid_blob m fh" "0 < n" "u64 (fh + n) = fh + n" "start \<le> fh"
        "fh < start + ?n" and
      e: "e = init_handle_entry_data \<lparr> candidacy_status := True,
        node := (node init_handle_entry_data) \<lparr> blob := fh \<rparr>, cur_blob_size := n \<rparr>" by blast
    from fdt_get_node_handle_ok [OF n(2), of xs "node e" ROOT_NODE] obtain r h where
      g: "fdt_get_node_handle m xs (Some (node e)) fh (Some ROOT_NODE) = Some (r, Some h)"
      and h: "r = NOERROR \<Longrightarrow> blob h = fh \<and> 0 \<le> offset h \<and>
        fdt_path_offset m fh ROOT_NODE = Some (offset h)" by blast
    show ?thesis
    proof (cases "r = NOERROR")
      case False
      with g e t \<open>\<not> (st \<noteq> SUCCESS \<or> eof)\<close> less.prems show ?thesis
        by (subst select_loop.simps) auto
    next
      case True
      let ?e = "e \<lparr> node := h \<rparr>"
      have "h = \<lparr> blob = fh, offset = offset h \<rparr>" using h [OF True] by (cases h) simp
      moreover have "tame t m \<lparr> blob = fh, offset = offset h \<rparr>"
        using img n h [OF True] unfolding image_mem_def by blast
      ultimately have tm: "tame (target (sel_heap v)) m (node ?e)" using less.prems(2) by simp
      have "DT_platforminfo_selected ?e = [0, 0, 0, 0]" by (simp add: e init_handle_entry_data_def)
      from candidate_outcome [OF al tm cl this] obtain st1 e1 hp1 where
        c: "is_it_dtb_dtbo_candidate al m inp ?e (sel_heap v) = Some (st1, e1, hp1)" "same_heap (sel_heap v) hp1"
        by (auto simp: outcome_def)
      from candidate_same_blob [OF c(1)] have sb: "node e1 = h" "cur_blob_size e1 = n" by (simp_all add: e)
      let ?v = "v \<lparr> sel_heap := hp1 \<rparr>"
      show ?thesis
      proof (cases "st1 = SUCCESS")
        case False
        with c t g True e \<open>\<not> (st \<noteq> SUCCESS \<or> eof)\<close> less.prems show ?thesis
          by (subst select_loop.simps) (simp add: Let_def)
      next
        case ok: True
        have "\<exists>v'. (if candidacy_status e1 then select_entry al m inp e1 ?v else Some ?v) = Some v' \<and>
            same_heap (sel_heap v) (sel_heap v') \<and> selection_in m start ?n (handle v')"
        proof (cases "candidacy_status e1")
          case True
          have "tame (target (sel_heap ?v)) m (node e1)" using tm c(2) sb by (simp add: same_heap_def)
          from select_entry_safe [OF al this, of inp] obtain v' where
            "select_entry al m inp e1 ?v = Some v'" "same_heap hp1 (sel_heap v')"
            "updated fh n (handle v) (handle v')" using sb h \<open>r = NOERROR\<close> by auto
          with True c(2) updated_in less.prems(3) n(1) show ?thesis by (auto dest: same_heap_trans)
        qed (use c(2) less.prems(3) in simp)
        then obtain v' where v': "(if candidacy_status e1 then select_entry al m inp e1 ?v else Some ?v) = Some v'"
          "same_heap (sel_heap v) (sel_heap v')" "selection_in m start ?n (handle v')" by blast
        have "select_loop al m xs inp fh v = select_loop al m xs inp (fh + n) v'"
          using t g True c(1) ok v'(1) sb e n(4) \<open>\<not> (st \<noteq> SUCCESS \<or> eof)\<close>
          by (subst select_loop.simps) (simp add: Let_def)
        moreover have "nat (18446744073709551616 - (fh + n)) < nat (18446744073709551616 - fh)"
          using n(3,4) u64_less [of "fh + n"] by simp
        moreover have "target (sel_heap v') = t" using v'(2) less.prems(2) by (simp add: same_heap_def)
        ultimately show ?thesis
          using less.hyps [of "fh + n" v'] v'(2,3) less.prems(1) n(3) by (auto dest: same_heap_trans)
      qed
    qed
  qed
qed

lemma select_safe:
  assumes "alloc_fits al" and "client_ok m inp" and "image_mem (target hp) m start (dtbs_image_size inp)"
  shows "\<exists>st d hp'. select_dtb_and_dtbos al m xs (init_handle_data start) inp hp = Some (st, d, hp') \<and>
    same_heap hp hp' \<and> selection_in m start (dtbs_image_size inp) d"
proof -
  let ?v = "\<lparr> handle = init_handle_data start, soc_dtbo_selected = init_handle_selected_dtb_dtbo,
      platform_dtbo_selected = init_handle_selected_dtb_dtbo, sel_heap = hp \<rparr>"
  have s: "0 < start" using assms(3) by (simp add: image_mem_def)
  have "selection_in m start (dtbs_image_size inp) (handle ?v)"
    by (simp add: selection_in_def selected_in_def init_handle_data_def)
  from loop_safe [OF assms s _ this, of xs] obtain st v' where
    "select_loop al m xs inp start ?v = Some (st, v')" "same_heap hp (sel_heap v')"
    "selection_in m start (dtbs_image_size inp) (handle v')" by auto
  moreover have "dtbs_image_start_address (init_handle_data start) = start" by (simp add: init_handle_data_def)
  ultimately show ?thesis using s by (simp add: select_dtb_and_dtbos_def)
qed

text \<open>Reading a selected blob.\<close>

lemma read_in_selection:
  assumes "selection_in m start isize d" and "mapped m start isize"
    and "blob_of_type d t = Some (p, n)" and "n \<noteq> 0"
  shows "dt_select_read_blob m (Some d) t (Some NULL) n = Some (SUCCESS, Some p, []) \<and>
    (q \<noteq> NULL \<longrightarrow> (\<exists>bs. rd_bytes m p (nat n) = Some bs \<and>
      dt_select_read_blob m (Some d) t (Some q) n = Some (SUCCESS, Some q, bs))) \<and>
    (k \<noteq> n \<longrightarrow> dt_select_read_blob m (Some d) t (Some q) k = Some (READ_BLOB_SIZE_MISMATCH, Some q, [])) \<and>
    dt_select_read_blob m (Some d) READ_BLOB_MAX (Some q) k = Some (READ_BLOB_TYPE_MISMATCH, Some q, [])"
proof -
  from assms(1,3) have sel: "selected_in m start isize p n" and g: "handle_check (Some d) = SUCCESS"
    by (auto simp: selection_in_def blob_of_type_def handle_check_def split: blob_type.splits)
  from sel assms(4) have v: "valid_blob m p" "fdt_totalsize m p = Some n" "start \<le> p" "p + n \<le> start + isize"
    by (auto simp: selected_in_def)
  note s = valid_blob_size [OF v(1,2)]
  have sz: "fdt_get_blob_size m (Some \<lparr> blob = p, offset = 0 \<rparr>) True = Some (NOERROR, Some n)"
    using v s by (simp add: fdt_get_blob_size_def)
  have "n div 4294967296 = 0" using s by (intro div_pos_pos_trivial) linarith+
  moreover have "mapped m p (int (nat n))" using s v by (intro mapped_sub [OF assms(2)]) simp_all
  then obtain bs where "rd_bytes m p (nat n) = Some bs" using rd_bytes_ex by blast
  ultimately show ?thesis using g assms(3,4) sz
    by (simp add: dt_select_read_blob_def MEMCPY_WRAPPER_def blob_of_type_def)
qed

end
