(* ===== verification/Open_Safe.thy ===== *)
theory Open_Safe
  imports DT_Print DT_Safe
begin

text \<open>
  The printing functions and \<open>dt_select_open\<close> leave the heap as it was, and where a text goes
  behind its buffer.
\<close>

lemma bind_pairE:
  assumes "do { (a, b) \<leftarrow> res; f a b } = Some y"
  obtains a b where "res = Some (a, b)" and "f a b = Some y"
  using assms by (cases res) auto

section \<open>Formatted output\<close>

lemma same_heap_sym: "same_heap a b \<Longrightarrow> same_heap b a"
  by (simp add: same_heap_def)

lemma malloc_heap:
  "MALLOC_WRAPPER al hp n = (p, hp') \<Longrightarrow> target hp' = target hp \<and> p = al (requests hp) n \<and>
     live hp' = (if p = NULL then live hp else (p, kind_of (target hp) n) # live hp)"
  by (auto simp: MALLOC_WRAPPER_def Let_def)

lemma malloc_free_same:
  assumes "MALLOC_WRAPPER al hp n = (p, hp1)" and "same_heap hp1 hp2" and "FREE_WRAPPER hp2 p n = Some hp3"
    and "p \<noteq> NULL" and "balanced (target hp) n"
  shows "same_heap hp hp3"
  using assms malloc_heap [OF assms(1)]
  by (cases "target hp2")
    (auto simp: same_heap_def FREE_WRAPPER_def release_def kind_of_def balanced_def bind_eq_Some_conv split: if_splits)

lemma append_text_heap: "append_text al n len hp = Some (len', hp') \<Longrightarrow> same_heap hp hp'"
  using malloc_free_same [OF _ same_heap_refl]
  by (auto simp: append_text_def SNPRINTF_WRAPPER_def bind_eq_Some_conv Let_def balanced_def
      dest: malloc_heap split: if_splits target.splits prod.splits) (auto simp: same_heap_def dest: malloc_heap)

lemma log_message_heap: "log_message al hp = Some hp' \<Longrightarrow> same_heap hp hp'"
  using append_text_heap [of al 0 0 hp]
  by (auto simp: log_message_def append_text_def bind_eq_Some_conv)

lemma log_messages_heap: "log_messages al k hp = Some hp' \<Longrightarrow> same_heap hp hp'"
  by (induction k arbitrary: hp) (auto simp: bind_eq_Some_conv dest!: log_message_heap intro: same_heap_trans)

lemma print_element_heap: "print_element al m k p len hp = Some (len', hp') \<Longrightarrow> same_heap hp hp'"
  by (induction k arbitrary: p len hp)
    (auto simp: bind_eq_Some_conv dest!: append_text_heap intro: same_heap_trans)

lemma print_elements_heap:
  assumes "print_elements al m es n p len hp = Some y"
  shows "same_heap hp (snd (snd y))"
  by (rule print_elements.raw_induct [where P = "\<lambda>al m es n p len hp y. same_heap hp (snd (snd y))", OF _ assms])
    (fastforce simp: bind_eq_Some_conv split: if_splits
      dest!: append_text_heap print_element_heap intro: same_heap_trans)

lemma print_strings_heap:
  assumes "print_strings al m n p len hp = Some y"
  shows "same_heap hp (snd (snd y))"
  by (rule print_strings.raw_induct [where P = "\<lambda>al m n p len hp y. same_heap hp (snd (snd y))", OF _ assms])
    (fastforce simp: bind_eq_Some_conv split: if_splits dest!: append_text_heap intro: same_heap_trans)

lemma print_property_value_heap:
  assumes "print_property_value al m h name len es b hp = Some (st, hp')"
  shows "same_heap hp hp'"
  using assms print_elements_heap print_strings_heap
  by (fastforce simp: print_property_value_def bind_eq_Some_conv split: if_splits
      dest!: append_text_heap log_message_heap intro: same_heap_trans)

section \<open>The node of a blob\<close>

text \<open>
  The names of the properties of a node fit into a block, and on UEFI the blocks for its names and
  values are smaller than a page.
\<close>

definition print_small :: "target \<Rightarrow> mem \<Rightarrow> fdt_node_handle \<Rightarrow> bool" where
  "print_small t m h \<longleftrightarrow>
     (\<forall>r n. fdt_get_prop_names_size_of_node m (Some h) True = Some (r, Some n) \<longrightarrow> n \<le> INT_MAX) \<and>
     (t = XBL \<or>
      (\<forall>name r n. fdt_get_prop_size m (Some h) (Some name) True = Some (r, Some n) \<longrightarrow> n < 4096) \<and>
      (\<forall>r n. fdt_get_prop_names_size_of_node m (Some h) True = Some (r, Some n) \<longrightarrow> n < 4096))"

text \<open>NULL is not allocated, so it cannot be released.\<close>

definition heap_ok :: "heap \<Rightarrow> bool" where
  "heap_ok hp \<longleftrightarrow> NULL \<notin> fst ` set (live hp)"

lemma heap_ok_same: "same_heap a b \<Longrightarrow> heap_ok b = heap_ok a"
  by (simp add: same_heap_def heap_ok_def)

lemma heap_ok_malloc: "MALLOC_WRAPPER al hp n = (p, hp') \<Longrightarrow> heap_ok hp \<Longrightarrow> heap_ok hp'"
  by (auto simp: heap_ok_def split: if_splits dest!: malloc_heap)

lemma free_null: "heap_ok hp \<Longrightarrow> FREE_WRAPPER hp NULL n = None"
  by (auto simp: heap_ok_def FREE_WRAPPER_def release_def image_iff split: target.splits)

text \<open>What the property printed last has left on the heap: nothing, or the block it returns.\<close>

definition left_over :: "heap \<Rightarrow> addr \<Rightarrow> int \<Rightarrow> heap \<Rightarrow> bool" where
  "left_over hp q n hp' \<longleftrightarrow> target hp' = target hp \<and>
     (if q = NULL then live hp' = live hp
      else live hp' = (q, kind_of (target hp) n) # live hp \<and> balanced (target hp) n)"

lemma left_over_same: "left_over hp NULL n hp' \<longleftrightarrow> same_heap hp hp'"
  by (auto simp: left_over_def same_heap_def)

lemma left_over_trans: "same_heap a b \<Longrightarrow> left_over b q n c \<Longrightarrow> left_over a q n c"
  by (auto simp: left_over_def same_heap_def)

lemma print_small_prop:
  "print_small t m h \<Longrightarrow> fdt_get_prop_size m (Some h) (Some name) True = Some (r, Some n) \<Longrightarrow> balanced t n"
  by (auto simp: print_small_def balanced_def)

lemma print_value_with_block_heap:
  assumes r: "print_value_with_block al m props num h name k p len hp1 = Some (go, st, q, n, hp')"
    and mal: "MALLOC_WRAPPER al hp k = (p, hp1)" and bal: "balanced (target hp) k" and ok: "heap_ok hp"
  shows "left_over hp q n hp' \<and> (go \<longrightarrow> q = NULL \<and> st = SUCCESS)"
proof -
  from r obtain es where es: "element_size props num name = Some es"
    by (auto simp: print_value_with_block_def bind_eq_Some_conv)
  with r obtain len1 hp2 st' hp3 where
    2: "(if es \<noteq> PROC_NAME_SIZE then append_text al (int (length (get_size_tag es)) + 1) len hp1
        else Some (len, hp1)) = Some (len1, hp2)"
      "print_property_value al m h name len1 es (es = PROC_NAME_SIZE) hp2 = Some (st', hp3)"
    and res: "(if st' \<noteq> SUCCESS then Some (False, st', p, k, hp3)
        else do { hp6 \<leftarrow> FREE_WRAPPER hp3 p k; hp7 \<leftarrow> log_message al hp6;
                  Some (True, SUCCESS, NULL, k, hp7) }) = Some (go, st, q, n, hp')"
    unfolding print_value_with_block_def es Option.bind.simps by (elim bind_pairE) blast
  have "same_heap hp1 hp2" using 2(1) append_text_heap by (auto split: if_splits)
  with print_property_value_heap [OF 2(2)] have h5: "same_heap hp1 hp3" by (auto intro: same_heap_trans)
  show ?thesis
  proof (cases "st' = SUCCESS")
    case True
    with res obtain hp6 where 3: "FREE_WRAPPER hp3 p k = Some hp6" "log_message al hp6 = Some hp'"
      "go" "st = SUCCESS" "q = NULL" by (auto simp: bind_eq_Some_conv)
    have "p \<noteq> NULL"
      using 3(1) free_null [of hp3 k] heap_ok_same [OF h5] heap_ok_malloc [OF mal ok] by auto
    from malloc_free_same [OF mal h5 3(1) this bal] 3 log_message_heap [OF 3(2)] show ?thesis
      by (auto simp: left_over_same intro: same_heap_trans)
  next
    case False
    with res malloc_heap [OF mal] h5 bal show ?thesis
      by (auto simp: left_over_def same_heap_def)
  qed
qed

lemma print_board_property_heap:
  assumes "print_board_property al m props num h pb name hp = Some (go, st, q, n, hp')"
    and "print_small (target hp) m h" and "heap_ok hp"
  shows "left_over hp q n hp' \<and> (go \<longrightarrow> q = NULL \<and> st = SUCCESS)"
proof -
  from assms(1) obtain len1 hp1 r sz where 1: "append_text al (3 + int (length name)) 0 hp = Some (len1, hp1)"
    "fdt_get_prop_size m (Some h) (Some name) True = Some (r, sz)"
    by (auto simp: print_board_property_def bind_eq_Some_conv split: if_splits)
  note h1 = append_text_heap [OF 1(1)]
  consider (err) "r \<noteq> NOERROR" | (empty) "r = NOERROR" "sz = Some 0"
    | (val) k where "r = NOERROR" "sz = Some k" "k \<noteq> 0"
    using assms(1) 1 by (cases sz) (auto simp: print_board_property_def split: if_splits)
  then show ?thesis
  proof cases
    case err
    with assms(1) 1 h1 show ?thesis by (auto simp: print_board_property_def left_over_same split: if_splits)
  next
    case empty
    with assms(1) 1 obtain len2 hp2 where "append_text al 31 len1 hp1 = Some (len2, hp2)"
      "log_message al hp2 = Some hp'" "q = NULL" "st = SUCCESS"
      by (auto simp: print_board_property_def bind_eq_Some_conv split: if_splits)
    with same_heap_trans [OF h1 same_heap_trans [OF append_text_heap log_message_heap]]
    show ?thesis by (simp add: left_over_same)
  next
    case (val k)
    with assms(1) 1 obtain len2 hp2 where 2: "append_text al 2 len1 hp1 = Some (len2, hp2)"
      and r: "(case MALLOC_WRAPPER al hp2 k of (p, hp3) \<Rightarrow> print_value_with_block al m props num h name k p len2 hp3) =
        Some (go, st, q, n, hp')"
      by (auto simp: print_board_property_def split: if_split_asm elim: bind_pairE)
    obtain p hp3 where 3: "MALLOC_WRAPPER al hp2 k = (p, hp3)" by (cases "MALLOC_WRAPPER al hp2 k")
    with r have 4: "print_value_with_block al m props num h name k p len2 hp3 = Some (go, st, q, n, hp')" by simp
    have h2: "same_heap hp hp2" using h1 append_text_heap [OF 2] by (rule same_heap_trans)
    then have "target hp2 = target hp" by (simp add: same_heap_def)
    with print_small_prop [OF assms(2)] 1(2) val heap_ok_same [OF h2] assms(3)
    have "balanced (target hp2) k" "heap_ok hp2" by auto
    from print_value_with_block_heap [OF 4 3 this] left_over_trans [OF h2] show ?thesis by blast
  qed
qed

text \<open>The loop never leaves at once: the names are a block inside the address space.\<close>

lemma print_board_loop_heap:
  assumes "print_board_loop al m props num h pb p l r hp = Some (early, st, q, n, hp')"
    and "print_small (target hp) m h" and "heap_ok hp"
    and "0 \<le> p" and "p + int (length l) < 18446744073709551616" and "length l < 4294967296"
  shows "\<not> early \<and> left_over hp q n hp'"
  using assms
proof (induction al m props num h pb p l r hp rule: print_board_loop.induct)
  case (1 al m props num h pb p l r hp)
  show ?case
  proof (cases "l = []")
    case True
    with "1.prems"(1) show ?thesis by (auto simp: print_board_loop.simps left_over_same)
  next
    case False
    let ?name = "takeWhile (\<lambda>c. c \<noteq> 0) l" and ?sz = "length (takeWhile (\<lambda>c. c \<noteq> 0) l) + 1"
    from False "1.prems"(1) have z: "0 \<in> set l" by (auto simp: print_board_loop.simps split: if_splits)
    then have le: "?sz \<le> length l"
      using takeWhile_less [of l] by simp
    then have sub: "is_safe_to_subtract_uint32 (int (length l)) (int ?sz)"
      by (simp add: is_safe_to_subtract_uint32_def)
    have add: "is_safe_to_add_pointer p (int ?sz)"
      using le "1.prems"(4-6) by (intro safe_block) linarith+
    have u: "u64 (p + int ?sz) = p + int ?sz"
      using le "1.prems"(4-6) by (intro u64_id) linarith+
    from "1.prems"(1) False z sub add obtain go st1 q1 n1 hp1 where
      b: "print_board_property al m props num h pb ?name hp = Some (go, st1, q1, n1, hp1)"
      and res: "(if \<not> go then Some (False, st1, q1, n1, hp1)
        else print_board_loop al m props num h pb (u64 (p + int ?sz)) (drop ?sz l) st1 hp1) =
        Some (early, st, q, n, hp')"
      by (subst (asm) print_board_loop.simps) (auto simp: Let_def bind_eq_Some_conv split: if_split_asm)
    note lo = print_board_property_heap [OF b "1.prems"(2,3)]
    show ?thesis
    proof (cases go)
      case True
      with lo have same: "same_heap hp hp1" by (auto simp: left_over_same)
      then have t: "target hp1 = target hp" by (simp add: same_heap_def)
      have "\<not> early \<and> left_over hp1 q n hp'"
        using "1.IH" [OF False _ refl refl _ b refl refl refl refl] z sub add True res "1.prems"(2-6) le u t
          heap_ok_same [OF same] by simp
      with left_over_trans [OF same] show ?thesis by blast
    next
      case False
      with lo res show ?thesis by auto
    qed
  qed
qed

section \<open>The size of the names\<close>

lemma each_property_inv:
  assumes "each_property m fdt p body s = Some s'" and "Inv s"
    and "\<forall>q a go b. body q a = Some (go, b) \<longrightarrow> Inv a \<longrightarrow> Inv b"
  shows "Inv s'"
  using assms
proof (induction m fdt p body s rule: each_property.induct)
  case (1 m fdt p body s)
  show ?case
  proof (cases "p < 0")
    case True
    with 1 show ?thesis by (simp add: each_property.simps)
  next
    case False
    with "1.prems"(1) obtain go s1 where b: "body p s = Some (go, s1)"
      and rest: "(if \<not> go then Some s1 else do {
          p' \<leftarrow> fdt_next_property_offset m fdt p;
          if p' < 0 then Some s1 else each_property m fdt p' body s1 }) = Some s'"
      by (subst (asm) each_property.simps) (auto elim: bind_pairE)
    from "1.prems"(2,3) b have "Inv s1" by blast
    with rest "1.IH" [OF False b refl] "1.prems"(3) show ?thesis
      by (auto simp: bind_eq_Some_conv split: if_splits)
  qed
qed

lemma for_each_property_inv:
  assumes "fdt_for_each_property_offset m fdt nd body s = Some s'" and "Inv s"
    and "\<forall>q a go b. body q a = Some (go, b) \<longrightarrow> Inv a \<longrightarrow> Inv b"
  shows "Inv s'"
  using assms each_property_inv [OF _ assms(2,3)]
  by (auto simp: fdt_for_each_property_offset_def bind_eq_Some_conv)

lemma names_size_range:
  assumes "fdt_get_prop_names_size_of_node m (Some h) True = Some (r, Some n)"
  shows "0 \<le> n \<and> n < 4294967296"
proof -
  let ?Inv = "\<lambda>(r :: rc, n). 0 \<le> n \<and> n < (4294967296 :: int)"
  let ?body = "\<lambda>property (r, n). do {
     (fdtp, pname, len) \<leftarrow> fdt_getprop_by_offset m (blob h) property;
     if fdtp = NULL \<or> len < 0 then Some (False, len_error len, n)
     else do { l \<leftarrow> c_strlen m pname; Some (True, r, u32 (n + u32 (l + 1))) } }"
  from assms have o: "fdt_for_each_property_offset m (blob h) (offset h) ?body (NOERROR, 0) = Some (r, n)"
    by (auto simp: fdt_get_prop_names_size_of_node_def elim!: bind_pairE)
  have "?Inv (r, n)"
  proof (rule for_each_property_inv [OF o])
    show "\<forall>q a go b. ?body q a = Some (go, b) \<longrightarrow> ?Inv a \<longrightarrow> ?Inv b"
      by (fastforce simp: bind_eq_Some_conv split: if_splits)
  qed simp
  then show ?thesis by simp
qed

lemma names_length:
  assumes "fdt_get_prop_names_of_node m (Some h) (Some buf) n = Some (r, Some l)"
    and "int (length buf) = n" and "n < 4294967296"
  shows "int (length l) = n"
proof -
  let ?body = "\<lambda>property (r, out). do {
     (fdtp, pname, len) \<leftarrow> fdt_getprop_by_offset m (blob h) property;
     if fdtp = NULL \<or> len < 0 then Some (False, len_error len, out)
     else do { l \<leftarrow> c_strlen m pname; append_name m pname (s32 l) n (QcPos TRUNCATED) (r, out) } }"
  let ?Inv = "\<lambda>(r :: rc, out :: byte list). int (length out) \<le> n"
  from assms(1) obtain r' out where o: "fdt_for_each_property_offset m (blob h) (offset h) ?body (NOERROR, []) = Some (r', out)"
    and l: "l = (let buf' = put_bytes buf 0 out
       in if r' = NOERROR \<and> n > 0 then buf'[nat (n - 1) := 0] else buf')"
    by (auto simp: fdt_get_prop_names_of_node_def Let_def elim!: bind_pairE)
  have step: "?Inv b" if "append_name m p len n full a = Some (go, b)" "?Inv a" for p len full a go b
  proof -
    obtain ra oa where a: "a = (ra, oa)" by (cases a)
    show ?thesis
    proof (cases "len < INT_MAX \<and> u32 (len + 1) \<le> u32 (n - int (length oa))")
      case True
      with that a obtain bs where bs: "rd_bytes m p (nat (len + 1)) = Some bs" "b = (ra, oa @ bs)" "len + 1 \<le> 65535"
        by (auto simp: append_name_def Let_def bind_eq_Some_conv split: if_splits)
      have "u32 (n - int (length oa)) = n - int (length oa)"
        using that(2) a assms(3) by (intro u32_id) auto
      moreover have "0 \<le> len + 1 \<Longrightarrow> u32 (len + 1) = len + 1" using bs(3) by (intro u32_id) auto
      ultimately show ?thesis using True bs rd_bytes_length [OF bs(1)] that(2) a by (cases "0 \<le> len + 1") auto
    next
      case False
      with that a show ?thesis by (auto simp: append_name_def Let_def split: if_splits)
    qed
  qed
  have "?Inv (r', out)"
  proof (rule for_each_property_inv [OF o])
    show "?Inv (NOERROR, [])" using assms(2) by auto
    show "\<forall>q a go b. ?body q a = Some (go, b) \<longrightarrow> ?Inv a \<longrightarrow> ?Inv b"
      using step by (fastforce simp: bind_eq_Some_conv split: if_splits)
  qed
  with l assms(2) show ?thesis by (auto simp: put_bytes_0 Let_def)
qed

section \<open>Releasing the blocks\<close>

lemma free_balanced: "balanced (target hp) n \<Longrightarrow> FREE_WRAPPER hp p n = release p Pool hp"
  by (auto simp: balanced_def FREE_WRAPPER_def split: target.splits)

lemma kind_balanced: "balanced t n \<Longrightarrow> kind_of t n = Pool"
  by (auto simp: balanced_def kind_of_def)

lemma release_Some:
  "release p k hp = Some hp' \<longleftrightarrow> (p, k) \<in> set (live hp) \<and> hp' = hp \<lparr> live := remove1 (p, k) (live hp) \<rparr>"
  by (auto simp: release_def)

lemma print_board_names_heap:
  assumes r: "print_board_names al m props num h p n l hp1 = Some (st, hp')"
    and mal: "MALLOC_WRAPPER al hp n = (p, hp1)" "p \<noteq> NULL" and bal: "balanced (target hp) n" and ok: "heap_ok hp"
    and small: "print_small (target hp) m h"
    and p: "0 \<le> p" "p + int (length l) < 18446744073709551616" "length l < 4294967296"
  shows "same_heap hp hp'"
proof -
  obtain pb hp2 where m2: "MALLOC_WRAPPER al hp1 BUFFER_SIZE = (pb, hp2)" by (cases "MALLOC_WRAPPER al hp1 BUFFER_SIZE")
  with r obtain hp3 early q k hp4 where 3: "log_message al hp2 = Some hp3"
    "print_board_loop al m props num h pb p l SUCCESS hp3 = Some (early, st, q, k, hp4)"
    and res: "(if early then Some (st, hp4) else do {
          hp5 \<leftarrow> (if st = SUCCESS then log_message al hp4 else Some hp4);
          hp6 \<leftarrow> FREE_WRAPPER hp5 p n; hp7 \<leftarrow> free_if q k hp6; hp8 \<leftarrow> free_if pb BUFFER_SIZE hp7;
          Some (st, hp8) }) = Some (st, hp')"
    unfolding print_board_names_def
    by (auto simp: bind_eq_Some_conv split: if_splits)
  note h1 = malloc_heap [OF mal(1)] and h2 = malloc_heap [OF m2] and h3 = log_message_heap [OF 3(1)]
  have t: "target hp1 = target hp" "target hp2 = target hp" "target hp3 = target hp"
    using h1 h2 h3 by (simp_all add: same_heap_def)
  have "heap_ok hp3" using heap_ok_same [OF h3] heap_ok_malloc [OF m2 heap_ok_malloc [OF mal(1) ok]] by simp
  from print_board_loop_heap [OF 3(2) _ this p] small t have lo: "\<not> early" "left_over hp3 q k hp4" by auto
  with res obtain hp5 hp6 hp7 where 4: "(if st = SUCCESS then log_message al hp4 else Some hp4) = Some hp5"
    "FREE_WRAPPER hp5 p n = Some hp6" "free_if q k hp6 = Some hp7" "free_if pb BUFFER_SIZE hp7 = Some hp'"
    by (auto simp: bind_eq_Some_conv)
  have s5: "same_heap hp4 hp5" using 4(1) log_message_heap by (auto split: if_splits)
  have pool: "kind_of t BUFFER_SIZE = Pool" "balanced t BUFFER_SIZE" for t
    by (simp_all add: kind_of_def balanced_def)
  let ?L = "(if q = NULL then [] else [(q, Pool)]) @ (if pb = NULL then [] else [(pb, Pool)]) @ (p, Pool) # live hp"
  have l5: "live hp5 = ?L" and t5: "target hp5 = target hp"
    using s5 lo h3 h2 h1 mal(2) t pool kind_balanced [OF bal] kind_balanced [of "target hp" k]
    by (auto simp: same_heap_def left_over_def)
  have bq: "q \<noteq> NULL \<Longrightarrow> balanced (target hp) k" using lo t by (simp add: left_over_def)
  have 6: "hp6 = hp5 \<lparr> live := remove1 (p, Pool) ?L \<rparr>"
    using 4(2) free_balanced [of hp5 n p] bal t5 l5 by (simp add: release_Some)
  then have t6: "target hp6 = target hp" using t5 by simp
  have 7: "hp7 = (if q = NULL then hp6 else hp6 \<lparr> live := remove1 (q, Pool) (live hp6) \<rparr>)"
    using 4(3) free_balanced [of hp6 k q] bq t6 by (auto simp: free_if_def release_Some)
  then have t7: "target hp7 = target hp" using t6 by simp
  have 8: "hp' = (if pb = NULL then hp7 else hp7 \<lparr> live := remove1 (pb, Pool) (live hp7) \<rparr>)"
    using 4(4) free_balanced [of hp7 BUFFER_SIZE pb] pool by (auto simp: free_if_def release_Some)
  then show ?thesis using t7 7 6 by (auto simp: same_heap_def)
qed

text \<open>The node of a blob that is printed.\<close>

definition board_small :: "target \<Rightarrow> mem \<Rightarrow> addr \<Rightarrow> bool" where
  "board_small t m b \<longleftrightarrow>
     (\<forall>off. fdt_path_offset m b ROOT_NODE = Some off \<and> 0 \<le> off \<longrightarrow> print_small t m \<lparr> blob = b, offset = off \<rparr>)"

lemma print_board_id_heap:
  assumes r: "print_board_id al m xs b props num hp = Some (st, hp')"
    and al: "alloc_fits al" and ok: "heap_ok hp" and small: "board_small (target hp) m b"
  shows "same_heap hp hp'"
proof (cases "b = NULL")
  case True
  with r log_message_heap show ?thesis by (auto simp: print_board_id_def bind_eq_Some_conv)
next
  case False
  let ?props = "if props = None \<or> num = 0 then None else props"
  let ?num = "if props = None \<or> num = 0 then 0 else num"
  from False r obtain r0 nd where
    g: "fdt_get_node_handle m xs (Some \<lparr> blob = b, offset = 0 \<rparr>) b (Some ROOT_NODE) = Some (r0, nd)"
    by (auto simp: print_board_id_def Let_def bind_eq_Some_conv split: if_splits)
  then have nd: "\<exists>h. nd = Some h \<and> blob h = b \<and>
      (r0 = NOERROR \<longrightarrow> fdt_path_offset m b ROOT_NODE = Some (offset h) \<and> 0 \<le> offset h)"
    using False by (auto simp: fdt_get_node_handle_def bind_eq_Some_conv split: if_splits)
  then obtain h where h: "nd = Some h" "blob h = b" 
    "r0 = NOERROR \<Longrightarrow> fdt_path_offset m b ROOT_NODE = Some (offset h) \<and> 0 \<le> offset h"
    by blast
  show ?thesis
  proof (cases "r0 = NOERROR")
    case r0: False
    with False r g h log_message_heap show ?thesis
      by (auto simp: print_board_id_def Let_def bind_eq_Some_conv split: if_splits)
  next
    case True
    with h small have ps: "print_small (target hp) m h" by (cases h) (simp add: board_small_def)
    from True False r g h obtain r1 n where
      sz: "fdt_get_prop_names_size_of_node m (Some h) True = Some (r1, Some n)"
      and r2: "(if r1 \<noteq> NOERROR then do { hp1 \<leftarrow> log_message al hp; Some (r1, hp1) }
            else case MALLOC_WRAPPER al hp n of (p, hp1) \<Rightarrow>
              if p = NULL then do { hp2 \<leftarrow> log_message al hp1; Some (MALLOC_FAIL, hp2) }
              else do {
                (r, names) \<leftarrow> fdt_get_prop_names_of_node m (Some h) (Some (replicate (nat n) 0)) n;
                if r \<noteq> NOERROR then do { hp2 \<leftarrow> log_message al hp1; hp3 \<leftarrow> FREE_WRAPPER hp2 p n; Some (r, hp3) }
                else do { l \<leftarrow> names; print_board_names al m ?props ?num h p n l hp1 } }) = Some (st, hp')"
      by (auto simp: print_board_id_def Let_def bind_eq_Some_conv [of "fdt_get_prop_names_size_of_node m (Some h) True"]
          bind_eq_Some_conv [of "_ :: int option"] simp del: split_paired_Ex)
    from sz ps have nb: "n \<le> INT_MAX" "balanced (target hp) n" by (auto simp: print_small_def balanced_def)
    note n0 = names_size_range [OF sz]
    obtain p hp1 where mal: "MALLOC_WRAPPER al hp n = (p, hp1)" by (cases "MALLOC_WRAPPER al hp n")
    show ?thesis
    proof (cases "r1 \<noteq> NOERROR \<or> p = NULL")
      case True
      with r2 mal malloc_heap [OF mal] log_message_heap show ?thesis
        by (fastforce simp: bind_eq_Some_conv same_heap_def split: if_splits)
    next
      case ok1: False
      with r2 mal obtain r names where
        nm: "fdt_get_prop_names_of_node m (Some h) (Some (replicate (nat n) 0)) n = Some (r, names)"
        and r3: "(if r \<noteq> NOERROR then do { hp2 \<leftarrow> log_message al hp1; hp3 \<leftarrow> FREE_WRAPPER hp2 p n; Some (r, hp3) }
                else do { l \<leftarrow> names; print_board_names al m ?props ?num h p n l hp1 }) = Some (st, hp')"
        by (auto elim: bind_pairE)
      have p: "p \<noteq> NULL" using ok1 by simp
      show ?thesis
      proof (cases "r = NOERROR")
        case False
        with r3 obtain hp2 where "log_message al hp1 = Some hp2" "FREE_WRAPPER hp2 p n = Some hp'"
          by (auto simp: bind_eq_Some_conv)
        with malloc_free_same [OF mal log_message_heap] p nb show ?thesis by blast
      next
        case True
        with r3 obtain l where l: "names = Some l" "print_board_names al m ?props ?num h p n l hp1 = Some (st, hp')"
          by (auto simp: bind_eq_Some_conv)
        have len: "int (length l) = n" using names_length nm l n0 by simp
        have "p = al (requests hp) n" using malloc_heap [OF mal] by simp
        with al n0 nb have pf: "0 \<le> p" "p + n < 18446744073709551616" by (auto simp: alloc_fits_def)
        show ?thesis
          using len pf n0 by (intro print_board_names_heap [OF l(2) mal p nb(2) ok ps]) auto
      qed
    qed
  qed
qed

section \<open>The selected blobs and the input\<close>

lemma print_selected_blobs_heap:
  assumes "print_selected_blobs al m xs props num bs r hp = Some (st, hp')"
    and "alloc_fits al" and "heap_ok hp"
    and "\<And>p n. (p, n) \<in> set bs \<Longrightarrow> p \<noteq> NULL \<Longrightarrow> n \<noteq> 0 \<Longrightarrow> board_small (target hp) m p"
  shows "same_heap hp hp'"
  using assms
proof (induction bs arbitrary: r hp)
  case (Cons b bs)
  obtain p n where b: "b = (p, n)" by (cases b)
  with Cons.prems(1) obtain hp1 where l: "log_message al hp = Some hp1" by (auto simp: bind_eq_Some_conv)
  note s1 = log_message_heap [OF l]
  then have t: "target hp1 = target hp" by (simp add: same_heap_def)
  show ?case
  proof (cases "p \<noteq> NULL \<and> n \<noteq> 0")
    case True
    with Cons.prems(1) l b obtain st1 hp2 where
      p: "print_board_id al m xs p props num hp1 = Some (st1, hp2)"
      and rest: "(if st1 \<noteq> SUCCESS then Some (st1, hp2) else print_selected_blobs al m xs props num bs st1 hp2) = Some (st, hp')"
      by (auto simp: bind_eq_Some_conv)
    have s2: "same_heap hp hp2"
      using print_board_id_heap [OF p Cons.prems(2)] heap_ok_same [OF s1] Cons.prems(3) Cons.prems(4) [of p n] b True t
        same_heap_trans [OF s1] by auto
    show ?thesis
    proof (cases "st1 = SUCCESS")
      case True
      with rest have "print_selected_blobs al m xs props num bs st1 hp2 = Some (st, hp')" by simp
      from Cons.IH [OF this Cons.prems(2)] Cons.prems(3,4) heap_ok_same [OF s2] s2 same_heap_trans [OF s2] show ?thesis
        by (auto simp: same_heap_def)
    qed (use rest s2 in auto)
  next
    case False
    with Cons.prems(1) l b obtain hp2 where l2: "log_message al hp1 = Some hp2"
      and rest: "print_selected_blobs al m xs props num bs r hp2 = Some (st, hp')"
      by (auto simp: bind_eq_Some_conv)
    note s2 = same_heap_trans [OF s1 log_message_heap [OF l2]]
    from Cons.IH [OF rest Cons.prems(2)] Cons.prems(3,4) heap_ok_same [OF s2] s2 same_heap_trans [OF s2] show ?thesis
      by (auto simp: same_heap_def)
  qed
qed simp

lemma print_input_property_heap:
  assumes "print_input_property al m pb pl hp = Some hp'"
  shows "same_heap hp hp'"
proof -
  from assms have pb: "pb \<noteq> NULL" by (auto simp: print_input_property_def)
  from assms obtain name where name: "prop_name pl = Some name"
    by (cases "prop_name pl") (auto simp: print_input_property_def split: if_split_asm)
  from assms obtain len hp1 where 1: "append_text al (4 + int (length name)) 0 hp = Some (len, hp1)"
    and r: "do { hp2 \<leftarrow> (if prop_size_bytes pl \<in> {1, 2, 4, 8} then do {
                  v \<leftarrow> client_value m pl;
                  (len', hp') \<leftarrow> append_text al (12 + int (length (get_size_tag (prop_size_bytes pl)))
                     + hex_len (nat (u32 v))) len hp1;
                  Some hp' }
                else log_message al hp1);
        log_message al hp2 } = Some hp'"
    unfolding print_input_property_def if_not_P [OF pb] name Option.bind.simps by (rule bind_pairE)
  from r obtain hp2 where
    2: "(if prop_size_bytes pl \<in> {1, 2, 4, 8} then do {
                  v \<leftarrow> client_value m pl;
                  (len', hp') \<leftarrow> append_text al (12 + int (length (get_size_tag (prop_size_bytes pl)))
                     + hex_len (nat (u32 v))) len hp1;
                  Some hp' }
                else log_message al hp1) = Some hp2" "log_message al hp2 = Some hp'"
    unfolding bind_eq_Some_conv by blast
  have "same_heap hp1 hp2"
  proof (cases "prop_size_bytes pl \<in> {1, 2, 4, 8}")
    case True
    from 2(1) [unfolded if_P [OF True]] show ?thesis
      by (auto simp: bind_eq_Some_conv simp del: insert_iff dest: append_text_heap)
  next
    case False
    from 2(1) [unfolded if_not_P [OF False]] show ?thesis by (rule log_message_heap)
  qed
  with append_text_heap [OF 1] log_message_heap [OF 2(2)] show ?thesis by (blast intro: same_heap_trans)
qed

lemma print_input_loop_heap: "print_input_loop al m pb k pls hp = Some hp' \<Longrightarrow> same_heap hp hp'"
proof (induction al m pb k pls hp rule: print_input_loop.induct)
  case (3 al m pb k pl pls hp)
  from "3.prems" obtain hp1 where 1: "print_input_property al m pb pl hp = Some hp1"
    "print_input_loop al m pb k pls hp1 = Some hp'" by (auto simp: bind_eq_Some_conv)
  from print_input_property_heap [OF 1(1)] "3.IH" [OF 1] show ?case by (rule same_heap_trans)
qed simp_all

lemma print_input_parameters_heap:
  assumes "print_input_parameters al m props num hp = Some (st, hp')"
  shows "same_heap hp hp'"
proof (cases "props = None \<and> num \<noteq> 0 \<or> props \<noteq> None \<and> num = 0")
  case True
  with assms log_message_heap show ?thesis by (auto simp: print_input_parameters_def bind_eq_Some_conv)
next
  case False
  with assms obtain hp1 hp2 where 1: "log_messages al 11 hp = Some hp1" "log_message al hp2 = Some hp'"
    and r: "(case props of None \<Rightarrow> Some hp1
          | Some pls \<Rightarrow> do {
              hp2 \<leftarrow> log_message al hp1;
              case MALLOC_WRAPPER al hp2 BUFFER_SIZE of (pb, hp3) \<Rightarrow> do {
                hp4 \<leftarrow> print_input_loop al m pb num pls hp3;
                if pb = NULL then Some hp4 else FREE_WRAPPER hp4 pb BUFFER_SIZE } }) = Some hp2"
    unfolding print_input_parameters_def if_not_P [OF False] by (auto simp: bind_eq_Some_conv)
  have "same_heap hp1 hp2"
  proof (cases props)
    case (Some pls)
    with r obtain hp3 where 2: "log_message al hp1 = Some hp3" by (auto simp: bind_eq_Some_conv)
    obtain pb hp4 where m: "MALLOC_WRAPPER al hp3 BUFFER_SIZE = (pb, hp4)" by (cases "MALLOC_WRAPPER al hp3 BUFFER_SIZE")
    with 2 r Some obtain hp5 where 3: "print_input_loop al m pb num pls hp4 = Some hp5"
      "(if pb = NULL then Some hp5 else FREE_WRAPPER hp5 pb BUFFER_SIZE) = Some hp2"
      by (auto simp: bind_eq_Some_conv)
    note s5 = print_input_loop_heap [OF 3(1)]
    have "same_heap hp3 hp2"
      using malloc_free_same [OF m s5] 3(2) malloc_heap [OF m] s5
      by (auto simp: balanced_def same_heap_def split: if_splits)
    with log_message_heap [OF 2] show ?thesis by (rule same_heap_trans)
  qed (use r in simp)
  with log_messages_heap [OF 1(1)] log_message_heap [OF 1(2)] show ?thesis by (blast intro: same_heap_trans)
qed

section \<open>Opening\<close>

lemma print_selected_heap:
  assumes "print_selected_dtb_dtbos al m xs d inp hp = Some (st, hp')"
    and "alloc_fits al" and "heap_ok hp" and sel: "selection_in m start isize d"
    and small: "\<And>b. start \<le> b \<Longrightarrow> b < start + isize \<Longrightarrow> valid_blob m b \<Longrightarrow> board_small (target hp) m b"
  shows "same_heap hp hp'"
proof -
  from assms(1) obtain hp1 where 1: "log_message al hp = Some hp1"
    "print_selected_blobs al m xs (Input_prop_list inp) (prop_num_entries inp)
       [(base_dtb_ptr d, base_dtb_size d), (soc_dtbo_ptr d, soc_dtbo_size d), (plat_dtbo_ptr d, plat_dtbo_size d)]
       INVALID_PARAMETER hp1 = Some (st, hp')"
    unfolding print_selected_dtb_dtbos_def bind_eq_Some_conv by blast
  note s1 = log_message_heap [OF 1(1)]
  have in_range: "board_small (target hp1) m p" if "selected_in m start isize p n" "p \<noteq> NULL" "n \<noteq> 0" for p n
  proof -
    from that have v: "valid_blob m p" "fdt_totalsize m p = Some n" "start \<le> p" "p + n \<le> start + isize"
      by (auto simp: selected_in_def)
    with valid_blob_size [OF v(1,2)] that(3) small [of p] s1 show ?thesis by (simp add: same_heap_def)
  qed
  have "same_heap hp1 hp'"
    by (rule print_selected_blobs_heap [OF 1(2) assms(2)])
      (use heap_ok_same [OF s1] assms(3) sel in_range in \<open>auto simp: selection_in_def\<close>)
  with s1 show ?thesis by (rule same_heap_trans)
qed

lemma open_outcome:
  assumes "dt_select_open al m xs start isize (Some info) props num True hp = Some (st, res, hp')"
    and al: "alloc_fits al" and ok: "heap_ok hp"
    and cl: "client_ok m (init_handle_input_data isize info props num)"
    and img: "image_mem (target hp) m start isize"
    and small: "\<And>b. start \<le> b \<Longrightarrow> b < start + isize \<Longrightarrow> valid_blob m b \<Longrightarrow> board_small (target hp) m b"
  shows "case res of
      None \<Rightarrow> st \<noteq> SUCCESS \<and> same_heap hp hp'
    | Some op \<Rightarrow> st = SUCCESS \<and> handle_ptr op \<noteq> NULL \<and> target hp' = target hp \<and>
        live hp' = (handle_ptr op, Pool) # live hp \<and> selection_in m start isize (handle_content op) \<and>
        sizes op = (base_dtb_size (handle_content op), soc_dtbo_size (handle_content op),
          plat_dtbo_size (handle_content op))"
proof -
  let ?inp = "init_handle_input_data isize info props num"
  obtain p hp1 where mal: "MALLOC_WRAPPER al hp 64 = (p, hp1)" by (cases "MALLOC_WRAPPER al hp 64")
  show ?thesis
  proof (cases "start = 0 \<or> props \<noteq> None \<and> num = 0 \<or> props = None \<and> num \<noteq> 0 \<or> p = NULL")
    case True
    with assms(1) mal malloc_heap [OF mal] show ?thesis
      by (auto simp: dt_select_open_def same_heap_def split: if_split_asm)
  next
    case False
    then have p: "p \<noteq> NULL" by simp
    have bal: "balanced (target hp) 64" by (simp add: balanced_def)
    note h1 = malloc_heap [OF mal]
    have ok1: "heap_ok hp1" by (rule heap_ok_malloc [OF mal ok])
    from assms(1) mal False obtain st2 hp2 st3 d hp3 st4 hp4 where
      2: "print_input_parameters al m (Input_prop_list ?inp) (prop_num_entries ?inp) hp1 = Some (st2, hp2)"
      and 3: "(if st2 \<noteq> SUCCESS then Some (st2, init_handle_data start, hp2)
          else select_dtb_and_dtbos al m xs (init_handle_data start) ?inp hp2) = Some (st3, d, hp3)"
      and 4: "(if st3 \<noteq> SUCCESS then Some (st3, hp3) else print_selected_dtb_dtbos al m xs d ?inp hp3) = Some (st4, hp4)"
      and res: "(if st4 \<noteq> SUCCESS then do { hp5 \<leftarrow> FREE_WRAPPER hp4 p 64; Some (st4, None, hp5) }
          else Some (SUCCESS, Some \<lparr> handle_ptr = p, handle_content = d,
                 sizes = (base_dtb_size d, soc_dtbo_size d, plat_dtbo_size d) \<rparr>, hp4)) = Some (st, res, hp')"
      unfolding dt_select_open_def by (auto simp: Let_def elim!: bind_pairE)
    note s2 = print_input_parameters_heap [OF 2]
    have t2: "target hp2 = target hp" using s2 h1 by (simp add: same_heap_def)
    have img2: "image_mem (target hp2) m start (dtbs_image_size ?inp)"
      using img t2 by (simp add: init_handle_input_data_def Let_def)
    from select_safe [OF al cl img2, of xs] obtain st' d' hp3' where
      sel: "select_dtb_and_dtbos al m xs (init_handle_data start) ?inp hp2 = Some (st', d', hp3')"
      "same_heap hp2 hp3'" "selection_in m start (dtbs_image_size ?inp) d'" by blast
    have s3: "same_heap hp2 hp3" using 3 sel by (auto split: if_splits)
    have isz: "dtbs_image_size ?inp = isize" by (simp add: init_handle_input_data_def Let_def)
    have d: "st3 = SUCCESS \<Longrightarrow> selection_in m start isize d" using 3 sel isz by (auto split: if_splits)
    have t3: "target hp3 = target hp" using s3 t2 by (simp add: same_heap_def)
    have ok3: "heap_ok hp3" using heap_ok_same [OF s3] heap_ok_same [OF s2] ok1 by simp
    have s4: "same_heap hp3 hp4"
    proof (cases "st3 = SUCCESS")
      case True
      with 4 have "print_selected_dtb_dtbos al m xs d ?inp hp3 = Some (st4, hp4)" by simp
      from print_selected_heap [OF this al ok3 d [OF True]] small t3 show ?thesis by simp
    qed (use 4 in simp)
    have s: "same_heap hp1 hp4" using s2 s3 s4 by (blast intro: same_heap_trans)
    show ?thesis
    proof (cases "st4 = SUCCESS")
      case True
      with 4 have "st3 = SUCCESS" by (auto split: if_splits)
      with True res d s h1 p kind_balanced [OF bal] show ?thesis
        by (auto simp: same_heap_def)
    next
      case False
      with res malloc_free_same [OF mal s _ p bal] show ?thesis by (auto simp: bind_eq_Some_conv)
    qed
  qed
qed

section \<open>Where the text of a value ends\<close>

lemma append_text_xbl:
  assumes "target hp = XBL" and "0 \<le> len" and "0 \<le> n" and "n \<le> 1000"
  shows "append_text al n len hp = (if len \<le> BUFFER_SIZE then Some (len + n, hp) else None)"
  using assms by (auto simp: append_text_def SNPRINTF_WRAPPER_def s32_id)

lemma print_element_xbl:
  assumes "target hp = XBL" and "0 \<le> len" and "mapped m p (int k)"
  shows "len + 2 * int k \<le> BUFFER_SIZE \<Longrightarrow> print_element al m k p len hp = Some (len + 2 * int k, hp)"
    and "print_element al m k p len hp = Some (len', hp') \<Longrightarrow> len' = len + 2 * int k \<and> hp' = hp"
proof -
  have "(len + 2 * int k \<le> BUFFER_SIZE \<longrightarrow> print_element al m k p len hp = Some (len + 2 * int k, hp)) \<and>
    (\<forall>len' hp'. print_element al m k p len hp = Some (len', hp') \<longrightarrow> len' = len + 2 * int k \<and> hp' = hp)"
    using assms
  proof (induction k arbitrary: p len)
    case (Suc k)
    from Suc.prems(3) have "mapped m (p + 1) (int k)" by (rule mapped_sub) simp_all
    note IH = Suc.IH [OF Suc.prems(1) _ this, of "len + 2"]
    obtain b where "rd m p = Some b" using mapped_rd [OF Suc.prems(3), of p] by auto
    then have unf: "print_element al m (Suc k) p len hp =
        (if len \<le> BUFFER_SIZE then print_element al m k (p + 1) (len + 2) hp else None)"
      using Suc.prems(1,2) by (simp add: append_text_xbl)
    have e: "len + 2 * int (Suc k) = len + 2 + 2 * int k" by simp
    have "0 \<le> len + 2" using Suc.prems(2) by simp
    note ih = IH [OF this]
    show ?case
    proof (cases "len \<le> BUFFER_SIZE")
      case True
      then have eq: "print_element al m (Suc k) p len hp = print_element al m k (p + 1) (len + 2) hp"
        unfolding unf by simp
      from ih show ?thesis unfolding e eq .
    next
      case False
      then show ?thesis unfolding unf by simp
    qed
  qed simp
  then show "len + 2 * int k \<le> BUFFER_SIZE \<Longrightarrow> print_element al m k p len hp = Some (len + 2 * int k, hp)"
    and "print_element al m k p len hp = Some (len', hp') \<Longrightarrow> len' = len + 2 * int k \<and> hp' = hp" by blast+
qed

lemma print_elements_xbl:
  assumes "target hp = XBL" and "0 < es" and "0 \<le> len" and "mapped m p (int c * es)"
  shows "len + (3 + 2 * es) * int c \<le> BUFFER_SIZE \<Longrightarrow>
      print_elements al m es (int c * es) p len hp = Some (SUCCESS, len + (3 + 2 * es) * int c, hp)"
    and "print_elements al m es (int c * es) p len hp = Some (st, len', hp') \<Longrightarrow>
      st = SUCCESS \<and> len' = len + (3 + 2 * es) * int c \<and> hp' = hp"
proof -
  let ?P = "\<lambda>c len p. (len + (3 + 2 * es) * int c \<le> BUFFER_SIZE \<longrightarrow>
      print_elements al m es (int c * es) p len hp = Some (SUCCESS, len + (3 + 2 * es) * int c, hp)) \<and>
    (\<forall>st len' hp'. print_elements al m es (int c * es) p len hp = Some (st, len', hp') \<longrightarrow>
      st = SUCCESS \<and> len' = len + (3 + 2 * es) * int c \<and> hp' = hp)"
  have "?P c len p"
    using assms(3,4)
  proof (induction c arbitrary: p len)
    case 0
    show ?case by (simp add: print_elements.simps)
  next
    case (Suc c)
    have e: "int (Suc c) * es = es + int c * es" by (simp add: algebra_simps)
    have pos: "0 \<le> int c * es" using assms(2) by simp
    have mp: "mapped m p (int (nat es))" "mapped m (p + es) (int c * es)"
      using pos assms(2) by (auto intro!: mapped_sub [OF Suc.prems(2) [unfolded e]])
    have len2: "0 \<le> len + 3 + 2 * es" using Suc.prems(1) assms(2) by simp
    note IH = Suc.IH [OF len2 mp(2)]
    have sub: "is_safe_to_subtract_uint32 (int (Suc c) * es) es" and nz: "int (Suc c) * es \<noteq> 0"
      using pos assms(2) unfolding e is_safe_to_subtract_uint32_def by linarith+
    have d: "int (Suc c) * es - es = int c * es" unfolding e by simp
    have total: "len + (3 + 2 * es) * int (Suc c) = len + 3 + 2 * es + (3 + 2 * es) * int c"
      by (simp add: algebra_simps)
    have pos2: "0 \<le> (3 + 2 * es) * int c" using assms(2) by simp
    have unf: "print_elements al m es (int (Suc c) * es) p len hp =
        do { (len1, hp1) \<leftarrow> append_text al 3 len hp;
             (len2, hp2) \<leftarrow> print_element al m (nat es) p len1 hp1;
             print_elements al m es (int c * es) (p + es) len2 hp2 }"
      using sub nz d by (subst print_elements.simps) simp
    note el = print_element_xbl [OF assms(1) _ mp(1), of "len + 3"]
    show ?case
    proof (intro conjI impI allI)
      assume "len + (3 + 2 * es) * int (Suc c) \<le> BUFFER_SIZE"
      then have fits: "len + 3 + 2 * es + (3 + 2 * es) * int c \<le> BUFFER_SIZE" unfolding total .
      with pos2 have "len + 3 + 2 * es \<le> BUFFER_SIZE" by linarith
      then have 1: "append_text al 3 len hp = Some (len + 3, hp)"
        and 2: "print_element al m (nat es) p (len + 3) hp = Some (len + 3 + 2 * es, hp)"
        using el(1) assms(1,2) Suc.prems(1) by (simp_all add: append_text_xbl)
      from IH fits have 3: "print_elements al m es (int c * es) (p + es) (len + 3 + 2 * es) hp =
        Some (SUCCESS, len + 3 + 2 * es + (3 + 2 * es) * int c, hp)" by blast
      show "print_elements al m es (int (Suc c) * es) p len hp =
          Some (SUCCESS, len + (3 + 2 * es) * int (Suc c), hp)"
        unfolding unf total by (simp only: 1 2 3 Option.bind.simps prod.case)
    next
      fix st len' hp'
      assume r: "print_elements al m es (int (Suc c) * es) p len hp = Some (st, len', hp')"
      then have "len \<le> BUFFER_SIZE"
        using Suc.prems(1) assms(1) unfolding unf by (simp add: append_text_xbl split: if_split_asm)
      with r obtain len2 hp2 where 2: "print_element al m (nat es) p (len + 3) hp = Some (len2, hp2)"
        "print_elements al m es (int c * es) (p + es) len2 hp2 = Some (st, len', hp')"
        using Suc.prems(1) assms(1) unfolding unf by (auto simp: append_text_xbl elim: bind_pairE)
      from el(2) [OF _ 2(1)] Suc.prems(1) assms(2) have "len2 = len + 3 + 2 * es" "hp2 = hp" by simp_all
      with 2(2) IH show "st = SUCCESS" "len' = len + (3 + 2 * es) * int (Suc c)" "hp' = hp"
        unfolding total by blast+
    qed
  qed
  then show "len + (3 + 2 * es) * int c \<le> BUFFER_SIZE \<Longrightarrow>
      print_elements al m es (int c * es) p len hp = Some (SUCCESS, len + (3 + 2 * es) * int c, hp)"
    and "print_elements al m es (int c * es) p len hp = Some (st, len', hp') \<Longrightarrow>
      st = SUCCESS \<and> len' = len + (3 + 2 * es) * int c \<and> hp' = hp" by blast+
qed

lemma print_property_value_xbl:
  assumes hp: "target hp = XBL" and es: "0 < es" "es dvd n" and len: "0 \<le> len" "len \<le> BUFFER_SIZE"
    and g: "fdt_getprop m (blob h) (offset h) name = Some (p, n)" "p \<noteq> NULL" "blob h \<noteq> NULL"
    and n: "mapped m p n" "0 \<le> n" "n \<le> INT_MAX"
  shows "print_property_value al m h name len es False hp =
    (if len + 1 + (3 + 2 * es) * (n div es) \<le> BUFFER_SIZE then Some (SUCCESS, hp) else None)"
proof -
  define c where "c = nat (n div es)"
  have c2: "int c = n div es" using es n(2) by (simp add: c_def pos_imp_zdiv_nonneg_iff)
  then have c: "n = int c * es" "int c = n div es" using es(2) by simp_all
  have "u32 n = n" using n(2,3) by (simp add: u32_id)
  then have u: "u32 n = int c * es" using c(1) by (rule trans)
  let ?X = "len + 1 + (3 + 2 * es) * (n div es)"
  have X: "0 \<le> ?X" using len es by (simp add: c(2) [symmetric])
  have "mapped m p (int c * es)" using n(1) c(1) by simp
  note el = print_elements_xbl [OF hp es(1) _ this, of "len + 1" al]
  show ?thesis
  proof (cases "?X \<le> BUFFER_SIZE")
    case True
    then show ?thesis using el(1) hp len g u X
      by (simp add: print_property_value_def append_text_xbl c(2))
  next
    case False
    have "print_property_value al m h name len es False hp = None"
    proof (cases "print_elements al m es (int c * es) p (len + 1) hp")
      case None
      then show ?thesis using hp len g u by (simp add: print_property_value_def append_text_xbl)
    next
      case (Some r)
      obtain st len' hp' where r: "r = (st, len', hp')" by (cases r)
      with el(2) Some len have "st = SUCCESS" "len' = ?X" "hp' = hp" by (auto simp: c(2))
      then show ?thesis using Some r hp len g u False X by (simp add: print_property_value_def append_text_xbl)
    qed
    then show ?thesis using False by simp
  qed
qed

text \<open>On UEFI every text is cut to its buffer, whatever the allocator answers.\<close>

lemma append_text_uefi:
  assumes "target hp = UEFI" and "0 \<le> len" and "len < BUFFER_SIZE" and "0 \<le> n"
  shows "\<exists>len' hp'. append_text al n len hp = Some (len', hp') \<and> len \<le> len' \<and> len' < BUFFER_SIZE \<and> same_heap hp hp'"
proof -
  let ?room = "BUFFER_SIZE - len"
  obtain p hp1 where mal: "MALLOC_WRAPPER al hp ?room = (p, hp1)" by (cases "MALLOC_WRAPPER al hp ?room")
  note h1 = malloc_heap [OF mal]
  have bal: "balanced (target hp) ?room" using assms by (simp add: balanced_def)
  show ?thesis
  proof (cases "p = NULL")
    case True
    with mal h1 assms show ?thesis
      by (auto simp: append_text_def SNPRINTF_WRAPPER_def Let_def s32_id same_heap_def)
  next
    case False
    from malloc_free [OF mal False bal] obtain hp2 where f: "FREE_WRAPPER hp1 p ?room = Some hp2" by blast
    let ?k = "if n < ?room then n else ?room - 1"
    have "s32 (len + ?k) = len + ?k" using assms by (intro s32_id) auto
    with mal False f assms have "append_text al n len hp = Some (len + ?k, hp2)"
      by (auto simp: append_text_def SNPRINTF_WRAPPER_def Let_def)
    moreover have "same_heap hp hp2" by (rule malloc_free_same [OF mal same_heap_refl f False bal])
    ultimately show ?thesis using assms by (intro exI [of _ "len + ?k"] exI [of _ hp2]) auto
  qed
qed

lemma print_element_uefi:
  assumes "target hp = UEFI" and "0 \<le> len" and "len < BUFFER_SIZE" and "mapped m p (int k)"
  shows "\<exists>len' hp'. print_element al m k p len hp = Some (len', hp') \<and> 0 \<le> len' \<and> len' < BUFFER_SIZE \<and> same_heap hp hp'"
  using assms
proof (induction k arbitrary: p len hp)
  case (Suc k)
  obtain b where b: "rd m p = Some b" using mapped_rd [OF Suc.prems(4), of p] by auto
  from append_text_uefi [OF Suc.prems(1-3), of 2 al] obtain len1 hp1 where
    1: "append_text al 2 len hp = Some (len1, hp1)" "len \<le> len1" "len1 < BUFFER_SIZE" "same_heap hp hp1" by auto
  have "mapped m (p + 1) (int k)" using Suc.prems(4) by (rule mapped_sub) simp_all
  with Suc.IH [of hp1 len1 "p + 1"] 1 Suc.prems(1,2) obtain len2 hp2 where
    "print_element al m k (p + 1) len1 hp1 = Some (len2, hp2)" "0 \<le> len2" "len2 < BUFFER_SIZE" "same_heap hp1 hp2"
    by (auto simp: same_heap_def)
  with b 1 show ?case by (auto intro: same_heap_trans)
qed simp

lemma print_elements_uefi:
  assumes "target hp = UEFI" and "0 < es" and "0 \<le> len" and "len < BUFFER_SIZE" and "mapped m p (int c * es)"
  shows "\<exists>len' hp'. print_elements al m es (int c * es) p len hp = Some (SUCCESS, len', hp') \<and>
    0 \<le> len' \<and> len' < BUFFER_SIZE \<and> same_heap hp hp'"
  using assms(1,3-5)
proof (induction c arbitrary: p len hp)
  case 0
  then show ?case by (simp add: print_elements.simps)
next
  case (Suc c)
  have e: "int (Suc c) * es = es + int c * es" by (simp add: algebra_simps)
  have pos: "0 \<le> int c * es" using assms(2) by simp
  have mp: "mapped m p (int (nat es))" "mapped m (p + es) (int c * es)"
    using pos assms(2) by (auto intro!: mapped_sub [OF Suc.prems(4) [unfolded e]])
  have sub: "is_safe_to_subtract_uint32 (int (Suc c) * es) es" and nz: "int (Suc c) * es \<noteq> 0"
    using pos assms(2) unfolding e is_safe_to_subtract_uint32_def by linarith+
  have d: "int (Suc c) * es - es = int c * es" unfolding e by simp
  from append_text_uefi [OF Suc.prems(1-3), of 3 al] obtain len1 hp1 where
    1: "append_text al 3 len hp = Some (len1, hp1)" "len \<le> len1" "len1 < BUFFER_SIZE" "same_heap hp hp1" by auto
  then have t1: "target hp1 = UEFI" using Suc.prems(1) by (simp add: same_heap_def)
  from print_element_uefi [OF t1 _ 1(3) mp(1), of al] 1(2) Suc.prems(2) obtain len2 hp2 where
    2: "print_element al m (nat es) p len1 hp1 = Some (len2, hp2)" "0 \<le> len2" "len2 < BUFFER_SIZE" "same_heap hp1 hp2" by auto
  then have t2: "target hp2 = UEFI" using t1 by (simp add: same_heap_def)
  from Suc.IH [OF t2 2(2,3) mp(2)] obtain len3 hp3 where
    3: "print_elements al m es (int c * es) (p + es) len2 hp2 = Some (SUCCESS, len3, hp3)"
      "0 \<le> len3" "len3 < BUFFER_SIZE" "same_heap hp2 hp3" by auto
  have "print_elements al m es (int (Suc c) * es) p len hp = Some (SUCCESS, len3, hp3)"
    using sub nz d 1(1) 2(1) 3(1) by (subst print_elements.simps) simp
  with 3 1(4) 2(4) show ?case by (blast intro: same_heap_trans)
qed

lemma print_property_value_uefi:
  assumes hp: "target hp = UEFI" and es: "0 < es" "es dvd n" and len: "0 \<le> len" "len < BUFFER_SIZE"
    and g: "fdt_getprop m (blob h) (offset h) name = Some (p, n)" "p \<noteq> NULL" "blob h \<noteq> NULL"
    and n: "mapped m p n" "0 \<le> n" "n \<le> INT_MAX"
  shows "\<exists>hp'. print_property_value al m h name len es False hp = Some (SUCCESS, hp') \<and> same_heap hp hp'"
proof -
  define c where "c = nat (n div es)"
  have c2: "int c = n div es" using es n(2) by (simp add: c_def pos_imp_zdiv_nonneg_iff)
  then have c: "n = int c * es" using es(2) by simp
  have "u32 n = n" using n(2,3) by (simp add: u32_id)
  then have u: "u32 n = int c * es" using c by (rule trans)
  have mp: "mapped m p (int c * es)" using n(1) c by simp
  from append_text_uefi [OF hp len, of 1 al] obtain len1 hp1 where
    1: "append_text al 1 len hp = Some (len1, hp1)" "len \<le> len1" "len1 < BUFFER_SIZE" "same_heap hp hp1" by auto
  then have t1: "target hp1 = UEFI" using hp by (simp add: same_heap_def)
  from print_elements_uefi [OF t1 es(1) _ 1(3) mp, of al] 1(2) len obtain len2 hp2 where
    2: "print_elements al m es (int c * es) p len1 hp1 = Some (SUCCESS, len2, hp2)" "0 \<le> len2" "len2 < BUFFER_SIZE"
      "same_heap hp1 hp2" by auto
  then have t2: "target hp2 = UEFI" using t1 by (simp add: same_heap_def)
  from append_text_uefi [OF t2 2(2,3), of 3 al] obtain len3 hp3 where
    3: "append_text al 3 len2 hp2 = Some (len3, hp3)" "same_heap hp2 hp3" by auto
  have "print_property_value al m h name len es False hp = Some (SUCCESS, hp3)"
    using g u 1(1) 2(1) 3(1) by (simp add: print_property_value_def)
  with 1(4) 2(4) 3(2) show ?thesis by (blast intro: same_heap_trans)
qed

text \<open>Logging is always defined.\<close>

lemma log_message_ex: "\<exists>hp'. log_message al hp = Some hp'"
proof (cases "target hp")
  case XBL
  then show ?thesis by (simp add: log_message_def SNPRINTF_WRAPPER_def)
next
  case UEFI
  from append_text_uefi [OF UEFI, of 0 0 al] show ?thesis
    by (auto simp: log_message_def append_text_def bind_eq_Some_conv)
qed

lemma log_messages_ex: "\<exists>hp'. log_messages al k hp = Some hp'"
proof (induction k arbitrary: hp)
  case (Suc k)
  from log_message_ex [of al hp] obtain hp1 where "log_message al hp = Some hp1" by blast
  with Suc [of hp1] show ?case by auto
qed simp

end
