(* ===== verification/DT_Bytes.thy ===== *)
theory DT_Bytes
  imports DT_Safe
begin

text \<open>
  The selection on arbitrary bytes. The lemmas here have no assumption on what the properties of
  the blobs are: each function of the selection either has no defined result, or leaves the heap as
  it was. The only undefined runs are those on an image that has a wild blob: a valued
  \<open>is-overlay\<close>, or on UEFI a property of a page or more.
\<close>

section \<open>Allocation\<close>

text \<open>The allocator does not hand out a pool block that the client still holds.\<close>

definition fresh_blocks :: "(nat \<Rightarrow> int \<Rightarrow> addr) \<Rightarrow> heap \<Rightarrow> bool" where
  "fresh_blocks al hp \<longleftrightarrow> (\<forall>k n. (al k n, Pool) \<notin> set (live hp))"

lemma fresh_same: "same_heap hp hp' \<Longrightarrow> fresh_blocks al hp \<Longrightarrow> fresh_blocks al hp'"
  by (simp add: same_heap_def fresh_blocks_def)

definition restores :: "heap \<Rightarrow> (rc \<times> 'e \<times> heap) option \<Rightarrow> bool" where
  "restores hp res \<longleftrightarrow> (\<forall>st e hp'. res = Some (st, e, hp') \<longrightarrow> same_heap hp hp')"

lemma restoresD: "restores hp res \<Longrightarrow> res = Some (st, e, hp') \<Longrightarrow> same_heap hp hp'"
  by (simp add: restores_def)

lemma restores_same [simp]: "restores hp (Some (st, e, hp)) = True" "restores hp None = True"
  by (simp_all add: restores_def)

lemma restores_bind:
  assumes "restores hp res"
    and "\<And>st e hp'. res = Some (st, e, hp') \<Longrightarrow> same_heap hp hp' \<Longrightarrow> restores hp' (f st e hp')"
  shows "restores hp (do { (st, e, hp') \<leftarrow> res; f st e hp' })"
proof (cases res)
  case (Some x)
  obtain st e hp' where x: "x = (st, e, hp')" by (cases x)
  with Some assms(1) have s: "same_heap hp hp'" by (simp add: restores_def)
  from assms(2) [OF _ s] Some x s show ?thesis by (auto simp: restores_def dest: same_heap_trans)
qed simp

text \<open>What has been released was the block of the request.\<close>

lemma free_same:
  assumes "MALLOC_WRAPPER al hp n = (p, hp1)" and "p \<noteq> NULL" and "FREE_WRAPPER hp1 p n = Some hp2"
    and "fresh_blocks al hp"
  shows "same_heap hp hp2"
  using assms
  by (cases "target hp")
    (auto simp: MALLOC_WRAPPER_def FREE_WRAPPER_def release_def kind_of_def fresh_blocks_def same_heap_def Let_def
      split: if_split_asm)

lemma failed_malloc_same: "MALLOC_WRAPPER al hp n = (NULL, hp1) \<Longrightarrow> same_heap hp hp1"
  by (auto simp: MALLOC_WRAPPER_def same_heap_def Let_def)

lemma with_alloc_restores:
  assumes al: "alloc_fits al" and fr: "fresh_blocks al hp" and n: "0 \<le> n" "n \<le> 2147483647"
    and fail: "\<And>hp1. hp_of (fail hp1) = hp1"
    and f: "\<And>p hp1 r. f p hp1 = Some r \<Longrightarrow> is_safe_to_add_pointer p n \<Longrightarrow> 0 \<le> p \<Longrightarrow>
        p + n < 18446744073709551616 \<Longrightarrow> FREE_WRAPPER hp1 p n = Some (hp_of r)"
    and r: "with_alloc al hp n fail f = Some r"
  shows "same_heap hp (hp_of r)"
proof -
  obtain p hp1 where m: "MALLOC_WRAPPER al hp n = (p, hp1)" by (cases "MALLOC_WRAPPER al hp n")
  then have p: "p = al (requests hp) n" by (simp add: MALLOC_WRAPPER_def Let_def)
  show ?thesis
  proof (cases "p = NULL")
    case True
    with r m fail failed_malloc_same [of al hp n hp1] show ?thesis by (auto simp: with_alloc_def)
  next
    case False
    from al n p have pn: "0 \<le> p" "p + n < 18446744073709551616" by (auto simp: alloc_fits_def)
    have "is_safe_to_add_pointer p n" using pn n by (intro safe_block) simp_all
    from f [OF _ this pn] r m False have "FREE_WRAPPER hp1 p n = Some (hp_of r)" by (simp add: with_alloc_def)
    then show ?thesis by (rule free_same [OF m False _ fr])
  qed
qed

lemma restores_with_alloc:
  assumes "alloc_fits al" and "fresh_blocks al hp" and "0 \<le> n" and "n \<le> 2147483647"
    and "\<And>p hp1 st e' hp2. f p hp1 = Some (st, e', hp2) \<Longrightarrow> is_safe_to_add_pointer p n \<Longrightarrow> 0 \<le> p \<Longrightarrow>
        p + n < 18446744073709551616 \<Longrightarrow> FREE_WRAPPER hp1 p n = Some hp2"
  shows "restores hp (with_alloc al hp n (\<lambda>hp1. (st0, e, hp1)) f)"
  unfolding restores_def
proof (intro allI impI)
  fix st e' hp'
  assume r: "with_alloc al hp n (\<lambda>hp1. (st0, e, hp1)) f = Some (st, e', hp')"
  have "same_heap hp ((\<lambda>(st, e, hp). hp) (st, e', hp'))"
    using assms(5) by (intro with_alloc_restores [OF assms(1-4) _ _ r]) auto
  then show "same_heap hp hp'" by simp
qed

section \<open>The searches release their buffer\<close>

lemma prop_size_range:
  assumes "valid_handle m h" and "fdt_get_prop_size m (Some h) nm True = Some (NOERROR, sz)"
  obtains n where "sz = Some n" "0 \<le> n" "n \<le> 2147483647"
proof (cases nm)
  case None
  with assms show ?thesis by (simp add: fdt_get_prop_size_def)
next
  case (Some name)
  show ?thesis
  proof (cases "prop_bytes m h name")
    case None
    with prop_size_missing [OF assms(1) None] assms(2) Some show ?thesis by simp
  next
    case bs: (Some bs)
    with prop_size_found [OF assms(1) bs] prop_bytes_size [OF assms(1) bs] assms(2) Some that [of "int (length bs)"]
    show ?thesis by auto
  qed
qed

lemma search_frees:
  "search_chipinfo m inp e n p hp1 = Some (st, e', hp2) \<Longrightarrow> is_safe_to_add_pointer p n \<Longrightarrow>
     FREE_WRAPPER hp1 p n = Some hp2"
  "search_platforminfo m inp e n p hp1 = Some (st, e', hp2) \<Longrightarrow> is_safe_to_add_pointer p n \<Longrightarrow>
     FREE_WRAPPER hp1 p n = Some hp2"
  "search_oem_variant m inp e n p hp1 = Some (st, e', hp2) \<Longrightarrow> FREE_WRAPPER hp1 p n = Some hp2"
  "search_prop_list m pl e n p hp1 = Some (go, st, e', hp2) \<Longrightarrow> is_safe_to_add_pointer p n \<Longrightarrow>
     FREE_WRAPPER hp1 p n = Some hp2"
  by (auto simp: search_chipinfo_def search_platforminfo_def search_oem_variant_def search_prop_list_def
      bind_eq_Some_conv split: if_split_asm)

lemma compat_loop_status:
  "compat_loop p l s = Some (st, found) \<Longrightarrow> 0 \<le> p \<Longrightarrow> p + int (length l) < 18446744073709551616 \<Longrightarrow>
    length l \<le> 2147483647 \<Longrightarrow> st = SUCCESS"
proof (induction p l s rule: compat_loop.induct)
  case (1 p l s)
  show ?case
  proof (cases "l = [] \<or> 0 \<notin> set l")
    case True
    with "1.prems"(1) show ?thesis by (auto simp: compat_loop.simps [of p] split: if_split_asm)
  next
    case False
    define k where "k = length (takeWhile (\<lambda>c. c \<noteq> 0) l) + 1"
    have k: "k \<le> length l" using takeWhile_less [of l] False by (simp add: k_def)
    have a: "is_safe_to_add_pointer p (int k)" "u64 (p + int k) = p + int k"
      "is_safe_to_subtract_uint32 (int (length l)) (int k)"
      using k "1.prems"(2-4) by (auto simp: is_safe_to_subtract_uint32_def u64_id intro!: safe_block)
    have unf: "compat_loop p l s = (if starts_with l s then Some (SUCCESS, True) else compat_loop (p + int k) (drop k l) s)"
      using False a by (subst compat_loop.simps) (simp add: k_def Let_def)
    show ?thesis
    proof (cases "starts_with l s")
      case True
      with unf "1.prems"(1) show ?thesis by simp
    next
      case ns: False
      have "compat_loop (u64 (p + int k)) (drop k l) s = Some (st, found)" using unf ns "1.prems"(1) a(2) by simp
      then show ?thesis
        using "1.IH" [OF _ _ k_def ns] False a k "1.prems"(2-4) by simp
    qed
  qed
qed

lemma search_compatible_frees:
  assumes v: "valid_handle m (node e)"
    and sz: "fdt_get_prop_size m (Some (node e)) (Some COMPATIBLE_PROP_NAME) True = Some (NOERROR, Some n)"
    and c: "search_compatible m s e n p hp1 = Some (st, e', hp2)"
    and p: "0 \<le> p" "p + n < 18446744073709551616"
  shows "FREE_WRAPPER hp1 p n = Some hp2"
proof (cases "prop_bytes m (node e) COMPATIBLE_PROP_NAME")
  case None
  with prop_size_missing [OF v None] sz show ?thesis by simp
next
  case (Some bs)
  from prop_size_found [OF v Some] sz have n: "n = int (length bs)" by simp
  from v have "valid_blob m (blob (node e))" by (simp add: valid_handle_def)
  then obtain ver where ver: "fdt_version m (blob (node e)) = Some ver"
    by (rule valid_blob_header) blast
  note rw = read_whole_string [OF v Some ver]
  show ?thesis
  proof (cases "ver \<ge> 16")
    case False
    with rw c n show ?thesis by (auto simp: search_compatible_def bind_eq_Some_conv)
  next
    case True
    let ?l = "bs[length bs - 1 := 0]"
    from c rw n True obtain st1 found where l: "compat_loop p ?l s = Some (st1, found)"
      by (auto simp: search_compatible_def bind_eq_Some_conv)
    have "st1 = SUCCESS" using p n prop_bytes_size [OF v Some] by (intro compat_loop_status [OF l]) simp_all
    with c rw n True l show ?thesis by (simp add: search_compatible_def bind_eq_Some_conv)
  qed
qed

section \<open>The checks restore the heap\<close>

text \<open>The size of a property is read first; an error ends the check.\<close>

lemma restores_size:
  assumes "valid_handle m h"
    and "\<And>n. 0 \<le> n \<Longrightarrow> n \<le> 2147483647 \<Longrightarrow> fdt_get_prop_size m (Some h) nm True = Some (NOERROR, Some n) \<Longrightarrow>
      restores hp (g NOERROR (Some n))"
    and "\<And>r sz. r \<noteq> NOERROR \<Longrightarrow> restores hp (g r sz)"
  shows "restores hp (do { (r, sz) \<leftarrow> fdt_get_prop_size m (Some h) nm True; g r sz })"
proof (cases "fdt_get_prop_size m (Some h) nm True")
  case (Some x)
  obtain r sz where x: "x = (r, sz)" by (cases x)
  show ?thesis
  proof (cases "r = NOERROR")
    case True
    with Some x have s: "fdt_get_prop_size m (Some h) nm True = Some (NOERROR, sz)" by simp
    from prop_size_range [OF assms(1) s] obtain n where n: "sz = Some n" "0 \<le> n" "n \<le> 2147483647" .
    from assms(2) [OF n(2,3)] s n(1) show ?thesis by simp
  next
    case False
    with assms(3) Some x show ?thesis by simp
  qed
qed simp

lemma chipinfo_restores:
  assumes "alloc_fits al" and "fresh_blocks al hp" and "valid_handle m (node e)"
  shows "restores hp (is_chipinfo_family_match al m inp e hp)"
  unfolding is_chipinfo_family_match_def Let_def using assms search_frees(1)
  by (intro restores_size) (auto intro: restores_with_alloc)

lemma overlay_restores:
  assumes "alloc_fits al" and "fresh_blocks al hp" and "valid_handle m (node e)"
  shows "restores hp (identify_overlay al m inp e hp)"
  unfolding identify_overlay_def Let_def using assms search_frees(2)
  by (intro restores_size) (auto intro: restores_with_alloc)

lemma blob_type_restores:
  assumes "alloc_fits al" and "fresh_blocks al hp" and "valid_handle m (node e)"
  shows "restores hp (identify_blob_type_and_get_platforminfo al m inp e hp)"
proof -
  let ?e = "e \<lparr> candidacy_status := False, device_tree_type := BASE_DTB \<rparr>"
  have "restores hp (identify_overlay al m inp ?e hp)" using assms by (intro overlay_restores) simp_all
  then show ?thesis
    by (cases "fdt_get_bool_prop m (Some (node e)) (Some IS_OVERLAY_PROP_NAME)")
      (auto simp: identify_blob_type_and_get_platforminfo_def Let_def)
qed

lemma compat_restores:
  assumes "alloc_fits al" and "fresh_blocks al hp" and "valid_handle m (node e)"
  shows "restores hp (validate_compatible_string al m inp e hp)"
proof (cases "input_compatible_string (Input_chip_plat_info_prop inp) (device_tree_type e)")
  case None
  then show ?thesis by (simp add: validate_compatible_string_def Let_def)
next
  case (Some s)
  let ?e = "e \<lparr> candidacy_status := False \<rparr>"
  have v: "valid_handle m (node ?e)" using assms(3) by simp
  show ?thesis
    unfolding validate_compatible_string_def Let_def using Some assms search_compatible_frees [OF v]
    by simp (intro restores_size, auto intro: restores_with_alloc)
qed

lemma oem_restores:
  assumes "alloc_fits al" and "fresh_blocks al hp" and "valid_handle m (node e)"
  shows "restores hp (validate_oem_variant al m inp e hp)"
  unfolding validate_oem_variant_def Let_def using assms search_frees(3)
  by (intro restores_size) (auto intro: restores_with_alloc)

lemma compatible_match_restores:
  assumes "alloc_fits al" and "fresh_blocks al hp" and "valid_handle m (node e)"
  shows "restores hp (is_compatible_string_match al m inp e hp)"
  unfolding is_compatible_string_match_def
proof (rule restores_bind)
  let ?e = "e \<lparr> candidacy_status := False \<rparr>"
  show "restores hp (identify_blob_type_and_get_platforminfo al m inp ?e hp)"
    using assms by (intro blob_type_restores) simp_all
  fix st e1 hp1
  assume r: "identify_blob_type_and_get_platforminfo al m inp ?e hp = Some (st, e1, hp1)" and h: "same_heap hp hp1"
  have "restores hp1 (validate_compatible_string al m inp (e1 \<lparr> candidacy_status := False \<rparr>) hp1)"
    using assms blob_type_same_blob [OF r] fresh_same [OF h] by (intro compat_restores) simp_all
  then show "restores hp1 (if st \<noteq> SUCCESS \<or> \<not> candidacy_status e1 then Some (st, e1, hp1)
     else validate_compatible_string al m inp (e1 \<lparr> candidacy_status := False \<rparr>) hp1)" by simp
qed

lemma prop_list_step_restores:
  assumes "alloc_fits al" and "fresh_blocks al hp" and "valid_handle m (node e)"
    and r: "prop_list_step al m pl e hp = Some (go, st, e', hp')"
  shows "same_heap hp hp'"
proof -
  let ?e = "e \<lparr> candidacy_status := False \<rparr>"
  from r obtain rc sz where s: "fdt_get_prop_size m (Some (node ?e)) (prop_name pl) True = Some (rc, sz)"
    by (auto simp: prop_list_step_def bind_eq_Some_conv Let_def)
  show ?thesis
  proof (cases "rc = NOERROR")
    case True
    have v: "valid_handle m (node ?e)" using assms(3) by simp
    from s True have s': "fdt_get_prop_size m (Some (node ?e)) (prop_name pl) True = Some (NOERROR, sz)" by simp
    from prop_size_range [OF v s'] obtain n where n: "sz = Some n" "0 \<le> n" "n \<le> 2147483647" .
    show ?thesis
    proof (cases "n = 0 \<or> prop_size_bytes pl = 0 \<or> n mod prop_size_bytes pl \<noteq> 0")
      case True
      with r s' n(1) show ?thesis by (auto simp: prop_list_step_def Let_def split: if_split_asm)
    next
      case False
      with r s' n(1) have w: "with_alloc al hp n (\<lambda>hp1. (False, MALLOC_FAIL, ?e, hp1)) (search_prop_list m pl ?e n) =
          Some (go, st, e', hp')"
        by (simp add: prop_list_step_def Let_def)
      have "same_heap hp ((\<lambda>(go, st, e, hp). hp) (go, st, e', hp'))"
        using search_frees(4) by (intro with_alloc_restores [OF assms(1,2) n(2,3) _ _ w]) auto
      then show ?thesis by simp
    qed
  qed (use r s in \<open>simp add: prop_list_step_def\<close>)
qed

lemma prop_list_loop_restores:
  "alloc_fits al \<Longrightarrow> fresh_blocks al hp \<Longrightarrow> valid_handle m (node e) \<Longrightarrow>
    restores hp (prop_list_loop al m k pls e hp)"
proof (induction al m k pls e hp rule: prop_list_loop.induct)
  case (3 al m k pl pls e hp)
  show ?case
  proof (cases "prop_list_step al m pl e hp")
    case (Some x)
    obtain go st e1 hp1 where x: "x = (go, st, e1, hp1)" by (cases x)
    with Some have s: "prop_list_step al m pl e hp = Some (go, st, e1, hp1)" by simp
    note h = prop_list_step_restores [OF "3.prems" s]
    have "go \<Longrightarrow> restores hp1 (prop_list_loop al m k pls e1 hp1)"
      using "3.prems" prop_list_step_same_blob [OF s] fresh_same [OF h]
      by (intro "3.IH" [OF s refl refl refl]) simp_all
    with s h show ?thesis by (auto simp: restores_def dest: same_heap_trans)
  qed simp
qed simp_all

lemma property_list_restores:
  assumes "alloc_fits al" and "fresh_blocks al hp" and "valid_handle m (node e)"
  shows "restores hp (is_property_list_valid al m inp e hp)"
  using prop_list_loop_restores [OF assms]
  by (simp add: is_property_list_valid_def split: option.split)

lemma candidate_restores:
  assumes "alloc_fits al" and "fresh_blocks al hp" and "valid_handle m (node e)"
  shows "restores hp (is_it_dtb_dtbo_candidate al m inp e hp)"
  unfolding is_it_dtb_dtbo_candidate_def
proof (rule restores_bind [OF chipinfo_restores [OF assms]])
  fix st e1 hp1
  assume c: "is_chipinfo_family_match al m inp e hp = Some (st, e1, hp1)" and h: "same_heap hp hp1"
  note a = assms(1) fresh_same [OF h assms(2)]
  have v: "valid_handle m (node e1)" using assms(3) chipinfo_same_blob [OF c] by simp
  have "restores hp1 (do { (st, e, hp2) \<leftarrow> is_compatible_string_match al m inp e1 hp1;
      if st \<noteq> SUCCESS \<or> \<not> candidacy_status e then Some (st, e, hp2) else is_property_list_valid al m inp e hp2 })"
  proof (rule restores_bind [OF compatible_match_restores [OF a v]])
    fix st2 e2 hp2
    assume c2: "is_compatible_string_match al m inp e1 hp1 = Some (st2, e2, hp2)" and h2: "same_heap hp1 hp2"
    have v2: "valid_handle m (node e2)" using v compatible_match_same_blob [OF c2] by simp
    show "restores hp2 (if st2 \<noteq> SUCCESS \<or> \<not> candidacy_status e2 then Some (st2, e2, hp2)
        else is_property_list_valid al m inp e2 hp2)"
      using property_list_restores [OF a(1) fresh_same [OF h2 a(2)] v2] by simp
  qed
  then show "restores hp1 (if st \<noteq> SUCCESS \<or> \<not> candidacy_status e1 then Some (st, e1, hp1)
     else do { (st, e, hp2) \<leftarrow> is_compatible_string_match al m inp e1 hp1;
       if st \<noteq> SUCCESS \<or> \<not> candidacy_status e then Some (st, e, hp2) else is_property_list_valid al m inp e hp2 })"
    by simp
qed

lemma platform_restores:
  assumes "alloc_fits al" and "fresh_blocks al hp" and "valid_handle m (node e)"
    and r: "validate_and_select_platform_dtbo al m e inp sel hp = Some (st, e', hp')"
  shows "same_heap hp hp' \<and> node e' = node e \<and> cur_blob_size e' = cur_blob_size e"
proof -
  let ?e = "e \<lparr> candidacy_status := False \<rparr>"
  have sb: "same_blob x (platform_dtbo_version_check x inp sel)" for x
    by (simp add: platform_dtbo_version_check_def Let_def)
  show ?thesis
  proof (cases "validate_oem_variant al m inp ?e hp")
    case None
    with r show ?thesis by (auto simp: validate_and_select_platform_dtbo_def Let_def split: if_split_asm)
  next
    case (Some x)
    obtain st1 e1 hp1 where x: "x = (st1, e1, hp1)" by (cases x)
    with Some have o: "validate_oem_variant al m inp ?e hp = Some (st1, e1, hp1)" by simp
    have "restores hp (validate_oem_variant al m inp ?e hp)" using assms by (intro oem_restores) simp_all
    from restoresD [OF this o] oem_same_blob [OF o] r o sb show ?thesis
      by (auto simp: validate_and_select_platform_dtbo_def Let_def split: if_split_asm)
  qed
qed

lemma select_entry_restores:
  assumes "alloc_fits al" and "fresh_blocks al (sel_heap v)" and "valid_handle m (node e)"
    and r: "select_entry al m inp e v = Some v'"
  shows "same_heap (sel_heap v) (sel_heap v') \<and> updated (blob (node e)) (cur_blob_size e) (handle v) (handle v')"
proof (cases "device_tree_type e")
  case BASE_DTB
  with r show ?thesis
    by (auto simp: select_entry_def updated_def validate_and_select_base_dtb_def Let_def)
next
  case SOC_DTBO
  with r show ?thesis
    using soc_same_blob [of "e \<lparr> candidacy_status := False \<rparr>" inp "soc_dtbo_selected v"]
    by (auto simp: select_entry_def updated_def Let_def)
next
  case PLATFORM_DTBO
  let ?e = "e \<lparr> candidacy_status := False \<rparr>"
  from r PLATFORM_DTBO obtain st e1 hp1 where
    p: "validate_and_select_platform_dtbo al m ?e inp (platform_dtbo_selected v) (sel_heap v) = Some (st, e1, hp1)"
    by (auto simp: select_entry_def Let_def bind_eq_Some_conv)
  have "valid_handle m (node ?e)" using assms(3) by simp
  from platform_restores [OF assms(1,2) this p] r PLATFORM_DTBO p show ?thesis
    by (auto simp: select_entry_def updated_def Let_def)
qed (use r in \<open>simp add: select_entry_def updated_def\<close>)

section \<open>The loop\<close>

lemma loop_restores:
  assumes al: "alloc_fits al" and img: "sized_image m start (dtbs_image_size inp)"
  shows "0 < fh \<Longrightarrow> fresh_blocks al (sel_heap v) \<Longrightarrow> selection_in m start (dtbs_image_size inp) (handle v) \<Longrightarrow>
    select_loop al m xs inp fh v = Some (st, v') \<Longrightarrow>
    same_heap (sel_heap v) (sel_heap v') \<and> selection_in m start (dtbs_image_size inp) (handle v')"
proof (induction "nat (18446744073709551616 - fh)" arbitrary: fh v rule: less_induct)
  case less
  let ?n = "dtbs_image_size inp"
  note unf = less.prems(4) [unfolded select_loop.simps [of al m xs inp fh v]]
  from less.prems(3) have hnd: "dtbs_image_start_address (handle v) = start" by (simp add: selection_in_def)
  from unf obtain st0 e eof where
    t: "is_fdtheader_at_end_of_image m fh (handle v) inp init_handle_entry_data = Some (st0, e, eof)"
    by (auto simp: bind_eq_Some_conv)
  show ?case
  proof (cases "st0 \<noteq> SUCCESS \<or> eof")
    case True
    with t unf less.prems(3) show ?thesis by (auto split: if_split_asm)
  next
    case False
    with t have "is_fdtheader_at_end_of_image m fh (handle v) inp init_handle_entry_data = Some (st0, e, False)" by simp
    from passed_blob [OF img hnd less.prems(1) this] obtain n where
      n: "selected_in m start ?n fh n" "valid_blob m fh" "0 < n" "u64 (fh + n) = fh + n" and
      e: "e = init_handle_entry_data \<lparr> candidacy_status := True,
        node := (node init_handle_entry_data) \<lparr> blob := fh \<rparr>, cur_blob_size := n \<rparr>" by blast
    from fdt_get_node_handle_ok [OF n(2), of xs "node e" ROOT_NODE] obtain r h where
      g: "fdt_get_node_handle m xs (Some (node e)) fh (Some ROOT_NODE) = Some (r, Some h)"
      and h: "r = NOERROR \<Longrightarrow> valid_handle m h \<and> blob h = fh" by blast
    show ?thesis
    proof (cases "r = NOERROR")
      case False
      with g e t \<open>\<not> (st0 \<noteq> SUCCESS \<or> eof)\<close> unf less.prems(3) show ?thesis by simp
    next
      case True
      let ?e = "e \<lparr> node := h \<rparr>"
      have v: "valid_handle m (node ?e)" using h [OF True] by simp
      from unf t g True e \<open>\<not> (st0 \<noteq> SUCCESS \<or> eof)\<close> obtain st1 e1 hp1 where
        c: "is_it_dtb_dtbo_candidate al m inp ?e (sel_heap v) = Some (st1, e1, hp1)"
        by (auto simp: bind_eq_Some_conv)
      have sh: "same_heap (sel_heap v) hp1"
        by (rule restoresD [OF candidate_restores [OF al less.prems(2) v] c])
      from candidate_same_blob [OF c] have sb: "node e1 = h" "cur_blob_size e1 = n" by (simp_all add: e)
      let ?v = "v \<lparr> sel_heap := hp1 \<rparr>"
      show ?thesis
      proof (cases "st1 = SUCCESS")
        case False
        with c t g True e sh \<open>\<not> (st0 \<noteq> SUCCESS \<or> eof)\<close> unf less.prems(3) show ?thesis by (auto simp: Let_def)
      next
        case ok: True
        from unf t g True e c ok sb n(4) \<open>\<not> (st0 \<noteq> SUCCESS \<or> eof)\<close> obtain v1 where
          v1: "(if candidacy_status e1 then select_entry al m inp e1 ?v else Some ?v) = Some v1"
            "select_loop al m xs inp (fh + n) v1 = Some (st, v')"
          by (auto simp: bind_eq_Some_conv Let_def)
        have f1: "fresh_blocks al (sel_heap ?v)" using fresh_same [OF sh less.prems(2)] by simp
        have "valid_handle m (node e1)" using v sb by simp
        note se = select_entry_restores [OF al f1 this]
        have u: "same_heap (sel_heap v) (sel_heap v1) \<and> selection_in m start ?n (handle v1)"
        proof (cases "candidacy_status e1")
          case True
          with v1(1) se [of inp v1] sb h [OF \<open>r = NOERROR\<close>] have "same_heap hp1 (sel_heap v1)"
            "updated fh n (handle v) (handle v1)" by auto
          with sh updated_in [OF _ less.prems(3) n(1)] show ?thesis by (auto dest: same_heap_trans)
        qed (use v1(1) sh less.prems(3) in auto)
        moreover have "nat (18446744073709551616 - (fh + n)) < nat (18446744073709551616 - fh)"
          using n(3,4) u64_less [of "fh + n"] by simp
        ultimately show ?thesis
          using less.hyps [of "fh + n" v1] v1(2) less.prems(1) n(3) fresh_same [of "sel_heap v" "sel_heap v1" al] less.prems(2)
          by (auto dest: same_heap_trans)
      qed
    qed
  qed
qed

lemma select_restores:
  assumes "alloc_fits al" and "fresh_blocks al hp" and "sized_image m start (dtbs_image_size inp)"
    and r: "select_dtb_and_dtbos al m xs (init_handle_data start) inp hp = Some (st, d, hp')"
  shows "same_heap hp hp' \<and> selection_in m start (dtbs_image_size inp) d"
proof -
  let ?v = "\<lparr> handle = init_handle_data start, soc_dtbo_selected = init_handle_selected_dtb_dtbo,
      platform_dtbo_selected = init_handle_selected_dtb_dtbo, sel_heap = hp \<rparr>"
  have s: "0 < start" using assms(3) by (simp add: sized_image_def)
  have "selection_in m start (dtbs_image_size inp) (handle ?v)"
    by (simp add: selection_in_def selected_in_def init_handle_data_def)
  moreover from r s obtain v' where "select_loop al m xs inp start ?v = Some (st, v')" "d = handle v'" "hp' = sel_heap v'"
    by (auto simp: select_dtb_and_dtbos_def bind_eq_Some_conv init_handle_data_def)
  ultimately show ?thesis using loop_restores [OF assms(1,3) s, of ?v xs st v'] assms(2) by simp
qed

section \<open>Wild blobs\<close>

text \<open>
  The properties on which the checks have no defined result: a valued \<open>is-overlay\<close>, which divides
  by the width 0 of a boolean, and on UEFI a value of a page or more, whose buffer is released twice.
\<close>

definition wild :: "target \<Rightarrow> mem \<Rightarrow> fdt_node_handle \<Rightarrow> bool" where
  "wild t m h \<longleftrightarrow> (\<exists>bs. prop_bytes m h IS_OVERLAY_PROP_NAME = Some bs \<and> bs \<noteq> []) \<or>
     (t = UEFI \<and> (\<exists>name bs. prop_bytes m h name = Some bs \<and> 4096 \<le> length bs))"

definition has_wild_blob :: "target \<Rightarrow> mem \<Rightarrow> addr \<Rightarrow> int \<Rightarrow> bool" where
  "has_wild_blob t m start isize \<longleftrightarrow>
     (\<exists>b off. start \<le> b \<and> b < start + isize \<and> valid_blob m b \<and>
        fdt_path_offset m b ROOT_NODE = Some off \<and> 0 \<le> off \<and> wild t m \<lparr> blob = b, offset = off \<rparr>)"

lemma tame_iff_not_wild: "valid_handle m h \<Longrightarrow> tame t m h \<longleftrightarrow> \<not> wild t m h"
  by (cases t) (auto simp: tame_def wild_def not_le)

lemma no_wild_blob:
  assumes "sized_image m start isize" and "\<not> has_wild_blob t m start isize"
  shows "image_mem t m start isize"
proof -
  have "tame t m \<lparr> blob = b, offset = off \<rparr>"
    if b: "start \<le> b" "b < start + isize" "valid_blob m b" "fdt_path_offset m b ROOT_NODE = Some off" "0 \<le> off" for b off
  proof -
    from fdt_path_offset_safe [OF b(3), of ROOT_NODE] b(4) have "c_int off" by auto
    with b(3) have "valid_handle m \<lparr> blob = b, offset = off \<rparr>" by (simp add: valid_handle_def)
    with b assms(2) show ?thesis by (auto simp: tame_iff_not_wild has_wild_blob_def)
  qed
  with assms(1) show ?thesis by (simp add: image_mem_def sized_image_def)
qed

lemma image_mem_not_wild: "image_mem t m start isize \<Longrightarrow> \<not> has_wild_blob t m start isize"
  using tame_iff_not_wild [OF tame_valid] by (simp add: image_mem_def has_wild_blob_def) blast

lemma select_defined:
  assumes "alloc_fits al" and "client_ok m inp" and "sized_image m start (dtbs_image_size inp)"
    and "select_dtb_and_dtbos al m xs (init_handle_data start) inp hp = None"
  shows "has_wild_blob (target hp) m start (dtbs_image_size inp)"
  using select_safe [OF assms(1,2) no_wild_blob [OF assms(3)], of hp xs] assms(4) by auto

end
