(* ===== verification/Select_Props.thy ===== *)
theory Select_Props
  imports DT_Bytes Ext_Props
begin

text \<open>
  The properties of the selection library, with witnesses on the sample image: a device with
  chip 7, version 1.1, and platform 8, subtype 2, version 1.0.
\<close>

definition sample_info :: chip_plat_info_property where
  "sample_info =
     \<lparr> chip_family = 0x1f, chip_id = 7, chip_maj_version = 1, chip_min_version = 1,
       platform_type = 8, platform_subtype = 2, platform_maj_version = 1, platform_min_version = 0,
       oem_var = 5, dtb_compatible_string_starts_with = Some (chars ''sdx''),
       soc_dtbo_compatible_string_starts_with = None, plat_dtbo_compatible_string_starts_with = None \<rparr>"

definition sample_input :: handle_input_data where
  "sample_input = init_handle_input_data 960 sample_info None 0"

abbreviation (input) board_id :: "addr \<Rightarrow> fdt_node_handle" where
  "board_id b \<equiv> \<lparr> blob = b, offset = 8 \<rparr>"

definition sample_items :: "item list" where
  "sample_items = [(board_id sample_base, 272), (board_id sample_soc1, 152), (board_id sample_soc2, 160),
     (board_id sample_plat1, 200), (board_id sample_plat2, 176)]"

text \<open>An allocator that always succeeds, and an empty heap.\<close>

definition sample_alloc :: "nat \<Rightarrow> int \<Rightarrow> addr" where
  "sample_alloc k n = 1048576"

definition empty_heap :: heap where
  "empty_heap = \<lparr> target = XBL, requests = 0, live = [] \<rparr>"

lemma sample_alloc_ok: "alloc_fits sample_alloc" "no_fail sample_alloc"
  by (simp_all add: alloc_fits_def no_fail_def sample_alloc_def)

lemma sample_strings: "input_compatible_string sample_info t = Some s \<Longrightarrow> s = [115, 100, 120]"
  by (auto simp: input_compatible_string_def sample_info_def chars_def split: if_splits)

lemma sample_input_simps:
  "Input_chip_plat_info_prop sample_input = sample_info" "Input_prop_list sample_input = None"
  "dtbs_image_size sample_input = 960"
  by (simp_all add: sample_input_def init_handle_input_data_def Let_def)

lemma sample_client: "client_ok sample_mem sample_input"
  by (auto simp: client_ok_def sample_input_simps dest!: sample_strings)

lemma sample_paths:
  "fdt_path_offset sample_mem sample_base ROOT_NODE = Some 8"
  "fdt_path_offset sample_mem sample_soc1 ROOT_NODE = Some 8"
  "fdt_path_offset sample_mem sample_soc2 ROOT_NODE = Some 8"
  "fdt_path_offset sample_mem sample_plat1 ROOT_NODE = Some 8"
  "fdt_path_offset sample_mem sample_plat2 ROOT_NODE = Some 8"
  by code_simp+

lemma sample_overlay:
  "prop_bytes sample_mem (board_id sample_base) IS_OVERLAY_PROP_NAME = None"
  "prop_bytes sample_mem (board_id sample_soc1) IS_OVERLAY_PROP_NAME = Some []"
  "prop_bytes sample_mem (board_id sample_soc2) IS_OVERLAY_PROP_NAME = Some []"
  "prop_bytes sample_mem (board_id sample_plat1) IS_OVERLAY_PROP_NAME = Some []"
  "prop_bytes sample_mem (board_id sample_plat2) IS_OVERLAY_PROP_NAME = Some []"
  by code_simp+

lemma sample_tame:
  "tame XBL sample_mem (board_id sample_base)" "tame XBL sample_mem (board_id sample_soc1)"
  "tame XBL sample_mem (board_id sample_soc2)" "tame XBL sample_mem (board_id sample_plat1)"
  "tame XBL sample_mem (board_id sample_plat2)"
  by (simp_all add: tame_def valid_handle_def sample_valid sample_overlay c_int_def)

lemma sample_image: "dtb_image XBL sample_mem 960 4096 4096 sample_items"
proof -
  have "dtb_image XBL sample_mem 960 4096 (sample_plat2 + 176) []" by (rule dtb_image.sized_end) simp_all
  then have "dtb_image XBL sample_mem 960 4096 (sample_plat1 + 200) [(board_id sample_plat2, 176)]"
    using dtb_image.blob_at [OF sample_valid(5) sample_sizes(5) _ _ _ _ sample_paths(5) _ sample_tame(5)] by simp
  then have "dtb_image XBL sample_mem 960 4096 (sample_soc2 + 160)
      [(board_id sample_plat1, 200), (board_id sample_plat2, 176)]"
    using dtb_image.blob_at [OF sample_valid(4) sample_sizes(4) _ _ _ _ sample_paths(4) _ sample_tame(4)] by simp
  then have "dtb_image XBL sample_mem 960 4096 (sample_soc1 + 152)
      [(board_id sample_soc2, 160), (board_id sample_plat1, 200), (board_id sample_plat2, 176)]"
    using dtb_image.blob_at [OF sample_valid(3) sample_sizes(3) _ _ _ _ sample_paths(3) _ sample_tame(3)] by simp
  then have "dtb_image XBL sample_mem 960 4096 (sample_base + 272)
      [(board_id sample_soc1, 152), (board_id sample_soc2, 160), (board_id sample_plat1, 200),
       (board_id sample_plat2, 176)]"
    using dtb_image.blob_at [OF sample_valid(2) sample_sizes(2) _ _ _ _ sample_paths(2) _ sample_tame(2)] by simp
  then show ?thesis
    using dtb_image.blob_at [OF sample_valid(1) sample_sizes(1) _ _ _ _ sample_paths(1) _ sample_tame(1)]
    by (simp add: sample_items_def)
qed

lemma sample_chips:
  "chip_spec sample_mem sample_input (board_id sample_base) = Some [0x1f, 0, 1, 0]"
  "chip_spec sample_mem sample_input (board_id sample_soc1) = Some [0x1f, 0, 1, 0]"
  "chip_spec sample_mem sample_input (board_id sample_soc2) = Some [0x1f, 7, 1, 1]"
  "chip_spec sample_mem sample_input (board_id sample_plat1) = Some [0x1f, 7, 1, 0]"
  "chip_spec sample_mem sample_input (board_id sample_plat2) = Some [0x1f, 0, 1, 0]"
  by code_simp+

lemma sample_kinds:
  "kind_spec sample_mem sample_input (board_id sample_base) = Some (BASE_DTB, [0, 0, 0, 0])"
  "kind_spec sample_mem sample_input (board_id sample_soc1) = Some (SOC_DTBO, [0, 0, 0, 0])"
  "kind_spec sample_mem sample_input (board_id sample_soc2) = Some (SOC_DTBO, [0, 0, 0, 0])"
  "kind_spec sample_mem sample_input (board_id sample_plat1) = Some (PLATFORM_DTBO, [8, 2, 1, 0])"
  "kind_spec sample_mem sample_input (board_id sample_plat2) = Some (PLATFORM_DTBO, [8, 0, 0, 0])"
  by code_simp+

lemma sample_compat:
  "compat_spec sample_mem sample_input (board_id sample_base) BASE_DTB"
  "t \<noteq> BASE_DTB \<Longrightarrow> t \<noteq> READ_BLOB_MAX \<Longrightarrow> compat_spec sample_mem sample_input h t"
  subgoal by code_simp
  subgoal by (cases t) (simp_all add: compat_spec_def sample_input_simps input_compatible_string_def sample_info_def)
  done

lemma sample_candidates:
  "candidate_spec sample_mem sample_input (board_id sample_base) = Some (BASE_DTB, [0x1f, 0, 1, 0], [0, 0, 0, 0])"
  "candidate_spec sample_mem sample_input (board_id sample_soc1) = Some (SOC_DTBO, [0x1f, 0, 1, 0], [0, 0, 0, 0])"
  "candidate_spec sample_mem sample_input (board_id sample_soc2) = Some (SOC_DTBO, [0x1f, 7, 1, 1], [0, 0, 0, 0])"
  "candidate_spec sample_mem sample_input (board_id sample_plat1) = Some (PLATFORM_DTBO, [0x1f, 7, 1, 0], [8, 2, 1, 0])"
  "candidate_spec sample_mem sample_input (board_id sample_plat2) = Some (PLATFORM_DTBO, [0x1f, 0, 1, 0], [8, 0, 0, 0])"
  by (simp_all add: candidate_spec_def prop_list_spec_def sample_chips sample_kinds sample_compat sample_input_simps)

lemma sample_oem:
  "oem_spec sample_mem sample_input (board_id sample_plat1)" "oem_spec sample_mem sample_input (board_id sample_plat2)"
  by code_simp+

text \<open>No other address of the image holds a header.\<close>

lemma sample_only_blobs:
  assumes "4096 \<le> b" and "b < 5056" and "valid_blob sample_mem b"
  shows "b \<in> {sample_base, sample_soc1, sample_soc2, sample_plat1, sample_plat2}"
proof -
  have "list_all (\<lambda>k. let b = 4096 + 8 * k in fdt32_ld sample_mem b \<noteq> Some FDT_MAGIC \<or>
      b \<in> set [sample_base, sample_soc1, sample_soc2, sample_plat1, sample_plat2]) [0..119]" by code_simp
  moreover from assms(3) have "b mod 8 = 0" "fdt32_ld sample_mem b = Some FDT_MAGIC"
    by (auto elim!: valid_blob_header simp: fdt_magic_def)
  moreover define k where "k = (b - 4096) div 8"
  then have "b = 4096 + 8 * k" "0 \<le> k" "k \<le> 119" using assms(1,2) \<open>b mod 8 = 0\<close> by presburger+
  ultimately show ?thesis by (auto simp: list_all_iff Let_def)
qed

lemma sample_image_mem: "image_mem XBL sample_mem 4096 960"
proof -
  have "tame XBL sample_mem \<lparr> blob = b, offset = off \<rparr>"
    if "4096 \<le> b" "b < 5056" "valid_blob sample_mem b" "fdt_path_offset sample_mem b ROOT_NODE = Some off" for b off
    using sample_only_blobs [OF that(1-3)] that(4) by (auto simp: sample_paths sample_tame)
  then show ?thesis using sample_mapped by (simp add: image_mem_def)
qed

section \<open>The selection\<close>

text \<open>
  C1: on an image of valid blobs, with memory, \<open>_select_dtb_and_dtbos\<close> succeeds and leaves the
  heap as it was. It selects the first base DTB that fits the device, the first of the best SOC
  overlays (by rank, then chip version) and the first of the best platform overlays (by rank,
  platform version, chip version).
\<close>

theorem selects_first_best:
  assumes "alloc_fits al" and "no_fail al" and "client_ok m inp"
    and "0 < start" and "0 \<le> dtbs_image_size inp"
    and "0 < dtbs_image_size inp \<Longrightarrow> start + dtbs_image_size inp < 18446744073709551616"
    and "dtb_image (target hp) m (dtbs_image_size inp) start start is"
  shows "\<exists>b s p hp'. select_dtb_and_dtbos al m xs (init_handle_data start) inp hp =
      Some (SUCCESS, chosen_handle (init_handle_data start) (b, s, p), hp') \<and>
    b = find (base_ok m inp) is \<and> first_best soc_better (soc_key m inp) is s \<and>
    first_best plat_better (plat_key m inp) is p \<and> same_heap hp hp'"
proof -
  from select_image [OF assms(1-6,7), of xs] obtain hp' where
    "same_heap hp hp'" "select_dtb_and_dtbos al m xs (init_handle_data start) inp hp =
      Some (SUCCESS, chosen_handle (init_handle_data start) (selection_of m inp is), hp')" by blast
  then show ?thesis
    unfolding selection_of_def using soc.pick_first_best plat.pick_first_best by blast
qed

theorem selects_first_best_witness:
  "\<exists>hp'. select_dtb_and_dtbos sample_alloc sample_mem empty_state (init_handle_data 4096) sample_input empty_heap =
      Some (SUCCESS, (init_handle_data 4096) \<lparr> base_dtb_ptr := sample_base, base_dtb_size := 272,
        soc_dtbo_ptr := sample_soc2, soc_dtbo_size := 160,
        plat_dtbo_ptr := sample_plat1, plat_dtbo_size := 200 \<rparr>, hp')"
proof -
  have img: "dtb_image (target empty_heap) sample_mem (dtbs_image_size sample_input) 4096 4096 sample_items"
    using sample_image by (simp add: empty_heap_def sample_input_simps)
  have v: "in_chipinfo_version_calc sample_input = 0x10001" "in_platforminfo_version_calc sample_input = 0x100"
    by code_simp+
  have c: "chip_version_calc 1 0 = 0x10000" "chip_version_calc 1 1 = 0x10001" "plat_version_calc 1 0 = 0x100"
    "plat_version_calc 0 0 = 0"
    by code_simp+
  have keys: "map (soc_key sample_mem sample_input) sample_items =
      [None, Some (0, 0x10000), Some (1, 0x10001), None, None]"
    "map (plat_key sample_mem sample_input) sample_items =
      [None, None, None, Some (3, 0x100, 0x10000), Some (0, 0, 0x10000)]"
    "map (base_ok sample_mem sample_input) sample_items = [True, False, False, False, False]"
    by (simp_all add: sample_items_def soc_key_def plat_key_def base_ok_def sample_candidates sample_oem
        soc_rank_key_def plat_rank_key_def platform_rank_def c v sample_input_simps sample_info_def Let_def)
  from selects_first_best [OF sample_alloc_ok sample_client _ _ _ img, of empty_state] obtain s p hp' where
    r: "select_dtb_and_dtbos sample_alloc sample_mem empty_state (init_handle_data 4096) sample_input empty_heap =
      Some (SUCCESS, chosen_handle (init_handle_data 4096) (find (base_ok sample_mem sample_input) sample_items, s, p), hp')"
    and b: "first_best soc_better (soc_key sample_mem sample_input) sample_items s"
      "first_best plat_better (plat_key sample_mem sample_input) sample_items p"
    by (auto simp: sample_input_simps)
  have "s = Some ((1, 0x10001), (board_id sample_soc2, 160))"
    using soc.first_best_fold [OF b(1)] keys(1) by (simp add: sample_items_def pick_def soc_better_def)
  moreover have "p = Some ((3, 0x100, 0x10000), (board_id sample_plat1, 200))"
    using plat.first_best_fold [OF b(2)] keys(2) by (simp add: sample_items_def pick_def plat_better_def)
  moreover have "find (base_ok sample_mem sample_input) sample_items = Some (board_id sample_base, 272)"
    using keys(3) by (simp add: sample_items_def)
  ultimately show ?thesis using r by (simp add: chosen_handle_def item_ptr_def item_size_def)
qed

text \<open>
  C2: on an image of known size (\<open>sized_image\<close>: inside the address space, with 40 readable bytes
  behind it), whatever its bytes are, and with an allocator that may fail but whose blocks lie in the
  address space and are not pool blocks still in use: when the selection returns, with any status,
  every buffer is released and each selected blob is empty or a valid blob inside the image. It is
  undefined only when the image has a wild blob, a valid blob that starts in it and whose
  \<open>/board-id/\<close> node has a valued \<open>is-overlay\<close> or, on UEFI, a property of 4096 bytes or more. The
  client's property list is as long as it says, with readable values, and its compatible strings
  have no zero byte inside (\<open>client_ok\<close>).
\<close>

theorem selection_safe:
  assumes "alloc_fits al" and "fresh_blocks al hp" and "client_ok m inp"
    and "sized_image m start (dtbs_image_size inp)"
  shows "case select_dtb_and_dtbos al m xs (init_handle_data start) inp hp of
      Some (st, d, hp') \<Rightarrow> same_heap hp hp' \<and> selection_in m start (dtbs_image_size inp) d
    | None \<Rightarrow> has_wild_blob (target hp) m start (dtbs_image_size inp)"
  using select_restores [OF assms(1,2,4)] select_defined [OF assms(1,3,4)]
  by (simp split: option.split)

theorem selection_safe_witness:
  "\<exists>st d hp'. select_dtb_and_dtbos (\<lambda>k n. NULL) sample_mem empty_state (init_handle_data 4096) sample_input empty_heap =
      Some (st, d, hp') \<and>
    same_heap empty_heap hp' \<and> selection_in sample_mem 4096 960 d"
proof -
  have a: "alloc_fits (\<lambda>k n. NULL)" "fresh_blocks (\<lambda>k n. NULL) empty_heap"
    by (simp_all add: alloc_fits_def fresh_blocks_def empty_heap_def)
  have s: "sized_image sample_mem 4096 (dtbs_image_size sample_input)"
    using image_mem_sized [OF sample_image_mem] by (simp add: sample_input_simps)
  have "\<not> has_wild_blob (target empty_heap) sample_mem 4096 (dtbs_image_size sample_input)"
    using image_mem_not_wild [OF sample_image_mem] by (simp add: empty_heap_def sample_input_simps)
  with selection_safe [OF a sample_client s, of empty_state] show ?thesis
    by (auto simp: sample_input_simps split: option.splits)
qed

text \<open>
  C3: the checks on one blob decide its candidacy as specified on the bytes of its properties
  (chip family, type of blob and platform type, compatible string, property list), set the type and
  the selected entries of a candidate, and release every buffer.
\<close>

theorem candidate_check_correct:
  assumes "alloc_fits al" and "no_fail al" and "client_ok m inp" and "tame (target hp) m (node e)"
    and "DT_platforminfo_selected e = [0, 0, 0, 0]"
  shows "\<exists>e' hp'. is_it_dtb_dtbo_candidate al m inp e hp = Some (SUCCESS, e', hp') \<and> same_heap hp hp' \<and>
    (case candidate_spec m inp (node e) of
       None \<Rightarrow> \<not> candidacy_status e'
     | Some (t, q, pq) \<Rightarrow> e' = e \<lparr> candidacy_status := True, device_tree_type := t,
         DT_chipinfo_selected := q, DT_platforminfo_selected := pq \<rparr>)"
  using candidate_outcome [OF assms(1,4,3,5)] assms(2)
  by (auto simp: outcome_def sets_def split: option.splits)

theorem candidate_check_correct_witness:
  "\<exists>e' hp'. is_it_dtb_dtbo_candidate sample_alloc sample_mem sample_input
      (init_handle_entry_data \<lparr> node := board_id sample_plat1 \<rparr>) empty_heap = Some (SUCCESS, e', hp') \<and>
    device_tree_type e' = PLATFORM_DTBO \<and> DT_platforminfo_selected e' = [8, 2, 1, 0]"
proof -
  have "tame (target empty_heap) sample_mem (node (init_handle_entry_data \<lparr> node := board_id sample_plat1 \<rparr>))"
    using sample_tame by (simp add: empty_heap_def)
  from candidate_check_correct [OF sample_alloc_ok sample_client this]
  show ?thesis by (auto simp: sample_candidates init_handle_entry_data_def)
qed

text \<open>
  C29: when the allocator fails the check of a blob still returns a status, \<open>SUCCESS\<close> or
  \<open>MALLOC_FAIL\<close>, and every buffer it got is released.
\<close>

theorem candidate_check_no_leak:
  assumes "alloc_fits al" and "client_ok m inp" and "tame (target hp) m (node e)"
    and "DT_platforminfo_selected e = [0, 0, 0, 0]"
  shows "\<exists>st e' hp'. is_it_dtb_dtbo_candidate al m inp e hp = Some (st, e', hp') \<and> live hp' = live hp \<and>
    (st = SUCCESS \<or> st = MALLOC_FAIL \<and> \<not> no_fail al)"
  using candidate_outcome [OF assms(1,3,2,4)] by (auto simp: outcome_def same_heap_def)

theorem candidate_check_no_leak_witness:
  "\<exists>st e' hp'. is_it_dtb_dtbo_candidate (\<lambda>k n. if k = 0 then 4096 else NULL) sample_mem sample_input
      (init_handle_entry_data \<lparr> node := board_id sample_plat1 \<rparr>) empty_heap = Some (st, e', hp') \<and> live hp' = [] \<and>
    (st = SUCCESS \<or> st = MALLOC_FAIL \<and> \<not> no_fail (\<lambda>k n. if k = 0 then 4096 else NULL))"
proof -
  have "tame (target empty_heap) sample_mem (node (init_handle_entry_data \<lparr> node := board_id sample_plat1 \<rparr>))"
    using sample_tame by (simp add: empty_heap_def)
  moreover have "alloc_fits (\<lambda>k n. if k = 0 then 4096 else NULL)" by (simp add: alloc_fits_def)
  moreover have "live empty_heap = []" by (simp add: empty_heap_def)
  ultimately show ?thesis
    using candidate_check_no_leak [OF _ sample_client, of "\<lambda>k n. if k = 0 then 4096 else NULL" empty_heap
      "init_handle_entry_data \<lparr> node := board_id sample_plat1 \<rparr>"]
    by (simp add: init_handle_entry_data_def)
qed

text \<open>What a blob must be to be selected as SOC or as platform overlay.\<close>

definition soc_fits :: "mem \<Rightarrow> handle_input_data \<Rightarrow> fdt_node_handle \<Rightarrow> bool" where
  "soc_fits m inp h \<longleftrightarrow> (\<exists>q pq. candidate_spec m inp h = Some (SOC_DTBO, q, pq) \<and>
     (q ! CHIPINFO_ID = 0 \<or> q ! CHIPINFO_ID = chip_id (Input_chip_plat_info_prop inp)) \<and>
     chip_version_calc (q ! CHIPINFO_MAJOR) (q ! CHIPINFO_MINOR) \<le> in_chipinfo_version_calc inp)"

definition plat_fits :: "mem \<Rightarrow> handle_input_data \<Rightarrow> fdt_node_handle \<Rightarrow> bool" where
  "plat_fits m inp h \<longleftrightarrow> (\<exists>q pq. candidate_spec m inp h = Some (PLATFORM_DTBO, q, pq) \<and> oem_spec m inp h \<and>
     (q ! CHIPINFO_ID = 0 \<or> q ! CHIPINFO_ID = chip_id (Input_chip_plat_info_prop inp)) \<and>
     chip_version_calc (q ! CHIPINFO_MAJOR) (q ! CHIPINFO_MINOR) \<le> in_chipinfo_version_calc inp \<and>
     pq ! PLATFORMINFO_TYPE = platform_type (Input_chip_plat_info_prop inp) \<and>
     (pq ! PLATFORMINFO_SUB_TYPE = 0 \<or>
      pq ! PLATFORMINFO_SUB_TYPE = platform_subtype (Input_chip_plat_info_prop inp)) \<and>
     plat_version_calc (pq ! PLATFORMINFO_MAJOR) (pq ! PLATFORMINFO_MINOR) \<le> in_platforminfo_version_calc inp)"

lemma key_fits:
  "soc_key m inp i = Some k \<Longrightarrow> soc_fits m inp (fst i)"
  "plat_key m inp i = Some k' \<Longrightarrow> plat_fits m inp (fst i)"
  by (auto simp: soc_key_def soc_rank_key_def plat_key_def plat_rank_key_def Let_def soc_fits_def plat_fits_def
      split: option.splits prod.splits blob_type.splits if_splits)

lemma selection_of_fits:
  assumes "selection_of m inp is = (b, s, p)"
  shows "s = Some (k, i) \<Longrightarrow> i \<in> set is \<and> soc_fits m inp (fst i)"
    and "p = Some (k', j) \<Longrightarrow> j \<in> set is \<and> plat_fits m inp (fst j)"
proof -
  have fs: "first_best soc_better (soc_key m inp) is s" and fp: "first_best plat_better (plat_key m inp) is p"
    using assms soc.pick_first_best plat.pick_first_best by (auto simp: selection_of_def)
  show "i \<in> set is \<and> soc_fits m inp (fst i)" if "s = Some (k, i)"
    using fs that key_fits(1) [of m inp i k] by (auto simp: first_best_def)
  show "j \<in> set is \<and> plat_fits m inp (fst j)" if "p = Some (k', j)"
    using fp that key_fits(2) [of m inp j k'] by (auto simp: first_best_def)
qed

text \<open>
  C5: on an image of valid blobs every overlay that \<open>_select_dtb_and_dtbos\<close> puts into the handle is
  a blob of the image with its size and of its type; it is for the device's chip or for any chip,
  for the device's platform type and subtype or any subtype, and not newer than the device.
\<close>

theorem selected_overlays_fit:
  assumes "alloc_fits al" and "no_fail al" and "client_ok m inp"
    and "0 < start" and "0 \<le> dtbs_image_size inp"
    and "0 < dtbs_image_size inp \<Longrightarrow> start + dtbs_image_size inp < 18446744073709551616"
    and "dtb_image (target hp) m (dtbs_image_size inp) start start is"
  shows "\<exists>d hp'. select_dtb_and_dtbos al m xs (init_handle_data start) inp hp = Some (SUCCESS, d, hp') \<and>
    (soc_dtbo_ptr d \<noteq> NULL \<longrightarrow> (\<exists>i\<in>set is. soc_fits m inp (fst i) \<and>
       blob (fst i) = soc_dtbo_ptr d \<and> snd i = soc_dtbo_size d)) \<and>
    (plat_dtbo_ptr d \<noteq> NULL \<longrightarrow> (\<exists>i\<in>set is. plat_fits m inp (fst i) \<and>
       blob (fst i) = plat_dtbo_ptr d \<and> snd i = plat_dtbo_size d))"
proof -
  obtain b s p where sel: "selection_of m inp is = (b, s, p)" by (cases "selection_of m inp is") auto
  from select_image [OF assms(1-6,7), of xs] obtain hp' where
    "select_dtb_and_dtbos al m xs (init_handle_data start) inp hp =
      Some (SUCCESS, chosen_handle (init_handle_data start) (b, s, p), hp')" unfolding sel by blast
  moreover have "\<exists>i\<in>set is. soc_fits m inp (fst i) \<and> blob (fst i) = item_ptr (map_option snd s) \<and>
      snd i = item_size (map_option snd s)" if "item_ptr (map_option snd s) \<noteq> NULL"
    using that selection_of_fits(1) [OF sel] by (cases s) (auto simp: item_ptr_def item_size_def intro!: bexI)
  moreover have "\<exists>i\<in>set is. plat_fits m inp (fst i) \<and> blob (fst i) = item_ptr (map_option snd p) \<and>
      snd i = item_size (map_option snd p)" if "item_ptr (map_option snd p) \<noteq> NULL"
    using that selection_of_fits(2) [OF sel] by (cases p) (auto simp: item_ptr_def item_size_def intro!: bexI)
  ultimately show ?thesis
    by (intro exI [of _ "chosen_handle (init_handle_data start) (b, s, p)"] exI [of _ hp'])
      (simp add: chosen_handle_def)
qed

theorem selected_overlays_fit_witness:
  "\<exists>d hp'. select_dtb_and_dtbos sample_alloc sample_mem empty_state (init_handle_data 4096) sample_input empty_heap =
      Some (SUCCESS, d, hp') \<and>
    (soc_dtbo_ptr d \<noteq> NULL \<longrightarrow> (\<exists>i\<in>set sample_items. soc_fits sample_mem sample_input (fst i) \<and>
       blob (fst i) = soc_dtbo_ptr d \<and> snd i = soc_dtbo_size d))"
proof -
  have img: "dtb_image (target empty_heap) sample_mem (dtbs_image_size sample_input) 4096 4096 sample_items"
    using sample_image by (simp add: empty_heap_def sample_input_simps)
  from selected_overlays_fit [OF sample_alloc_ok sample_client _ _ _ img, of empty_state]
  show ?thesis by (simp add: sample_input_simps) blast
qed

section \<open>Versions, ranges and strings\<close>

lemma uint_chip_version: "uint (chip_version_calc a b) = uint a * 65536 + uint b"
proof -
  have "and (push_bit 16 (ucast a)) (ucast b) = (0 :: 32 word)"
    by (rule bit_word_eqI) (auto simp: bit_simps dest: bit_imp_le_length)
  then have "(or (push_bit 16 (ucast a)) (ucast b) :: 32 word) = push_bit 16 (ucast a) + (ucast b :: 32 word)"
    by (simp add: disjunctive_add_eq_or)
  moreover have "uint a < 65536" "uint b < 65536" using uint_lt2p [of a] uint_lt2p [of b] by simp_all
  ultimately show ?thesis
    by (simp add: chip_version_calc_def push_bit_eq_mult uint_word_ariths take_bit_eq_mod unsigned_ucast_eq)
qed

lemma uint_plat_version: "uint (plat_version_calc a b) = uint a * 256 + uint b"
proof -
  have "and (push_bit 8 (ucast a)) (ucast b) = (0 :: 32 word)"
    by (rule bit_word_eqI) (auto simp: bit_simps dest: bit_imp_le_length)
  then have "(or (push_bit 8 (ucast a)) (ucast b) :: 32 word) = push_bit 8 (ucast a) + (ucast b :: 32 word)"
    by (simp add: disjunctive_add_eq_or)
  moreover have "uint a < 256" "uint b < 256" using uint_lt2p [of a] uint_lt2p [of b] by simp_all
  ultimately show ?thesis
    by (simp add: plat_version_calc_def push_bit_eq_mult uint_word_ariths take_bit_eq_mod unsigned_ucast_eq)
qed

text \<open>The packed versions compare as major and minor versions do, with no overlap of the fields.\<close>

theorem version_order:
  "(chip_version_calc a b \<le> chip_version_calc c d) = (a < c \<or> a = c \<and> b \<le> d) \<and>
   (plat_version_calc e f \<le> plat_version_calc g h) = (e < g \<or> e = g \<and> f \<le> h)"
proof -
  have "uint b < 65536" "uint d < 65536" "uint f < 256" "uint h < 256"
    using uint_lt2p [of b] uint_lt2p [of d] uint_lt2p [of f] uint_lt2p [of h] by simp_all
  then show ?thesis
    unfolding word_le_def [of "chip_version_calc a b"] word_le_def [of "plat_version_calc e f"]
      uint_chip_version uint_plat_version
    by (intro conjI uint_lex)
qed

text \<open>
  C34: for an image that ends inside the address space the range check of an address is exact;
  of an image size only the low 32 bits take part in the test for overflow, so a size that is a
  multiple of 4 GiB passes it from every start.
\<close>

theorem image_range_check:
  assumes "0 \<le> start" and "0 < isize"
  shows "(start + isize < 18446744073709551616 \<longrightarrow>
      address_within_image_range_and_pointer_overflow_check a start isize =
        (SUCCESS, start \<le> a \<and> a < start + isize)) \<and>
    (start < 18446744073709551616 \<and> isize mod 4294967296 = 0 \<longrightarrow>
      fst (address_within_image_range_and_pointer_overflow_check a start isize) = SUCCESS)"
  using range_check [OF assms]
  by (auto simp: address_within_image_range_and_pointer_overflow_check_def is_safe_to_add_pointer_def u32_def u64_id
      assms)

theorem image_range_check_witness:
  "address_within_image_range_and_pointer_overflow_check 5000 4096 960 = (SUCCESS, True) \<and>
   fst (address_within_image_range_and_pointer_overflow_check 5000 18446744073709547520 4294967296) = SUCCESS"
  using image_range_check [of 4096 960 5000] image_range_check [of 18446744073709547520 4294967296 5000] by simp

text \<open>
  The search of \<open>proc-name\<close> ends for every list of bytes with a terminator at its end, and
  answers whether the client's string is a prefix of one of the strings in it.
\<close>

theorem proc_name_search:
  assumes "0 \<notin> set s" and "0 \<le> p" and "p + int (length l) < 18446744073709551616" and "length l \<le> 2147483647"
    and "l = [] \<or> last l = 0"
  shows "compat_loop p l s = Some (SUCCESS, \<exists>t\<in>set (c_strings l). take (length s) t = s)"
  by (rule compat_loop_spec [OF assms])

theorem proc_name_search_witness:
  "compat_loop 4096 [97, 0, 115, 100, 120, 53, 0] [115, 100] = Some (SUCCESS, True) \<and>
   compat_loop 4096 [97, 0, 115, 100, 120, 53, 0] [100] = Some (SUCCESS, False)"
proof -
  have c: "c_strings [97, 0, 115, 100, 120, 53, 0] = [[97], [115, 100, 120, 53 :: byte]]" by code_simp
  show ?thesis
    using proc_name_search [of "[115, 100]" 4096 "[97, 0, 115, 100, 120, 53, 0]"]
      proc_name_search [of "[100]" 4096 "[97, 0, 115, 100, 120, 53, 0]"] by (simp add: c)
qed

section \<open>Reading and closing\<close>

text \<open>
  A selected blob is read with its size: without a buffer its address is returned, with a
  buffer its bytes are copied; any other size and any other type is an error that copies nothing.
\<close>

theorem read_selected_blob:
  assumes "selection_in m start isize d" and "mapped m start isize"
    and "blob_of_type d t = Some (p, n)" and "n \<noteq> 0"
  shows "dt_select_read_blob m (Some d) t (Some NULL) n = Some (SUCCESS, Some p, []) \<and>
    (q \<noteq> NULL \<longrightarrow> (\<exists>bs. rd_bytes m p (nat n) = Some bs \<and>
      dt_select_read_blob m (Some d) t (Some q) n = Some (SUCCESS, Some q, bs))) \<and>
    (k \<noteq> n \<longrightarrow> dt_select_read_blob m (Some d) t (Some q) k = Some (READ_BLOB_SIZE_MISMATCH, Some q, [])) \<and>
    dt_select_read_blob m (Some d) READ_BLOB_MAX (Some q) k = Some (READ_BLOB_TYPE_MISMATCH, Some q, [])"
  by (rule read_in_selection [OF assms])

definition sample_selection :: handle_data where
  "sample_selection = (init_handle_data 4096) \<lparr> soc_dtbo_ptr := sample_soc2, soc_dtbo_size := 160 \<rparr>"

theorem read_selected_blob_witness:
  "dt_select_read_blob sample_mem (Some sample_selection) SOC_DTBO (Some NULL) 160 = Some (SUCCESS, Some sample_soc2, []) \<and>
   dt_select_read_blob sample_mem (Some sample_selection) SOC_DTBO (Some NULL) 100 =
     Some (READ_BLOB_SIZE_MISMATCH, Some NULL, [])"
proof -
  have "selection_in sample_mem 4096 960 sample_selection"
    by (simp add: selection_in_def selected_in_def sample_selection_def init_handle_data_def sample_valid sample_sizes)
  moreover have "mapped sample_mem 4096 960" by (rule mapped_sub [OF sample_mapped]) simp_all
  moreover have "blob_of_type sample_selection SOC_DTBO = Some (sample_soc2, 160)"
    by (simp add: blob_of_type_def sample_selection_def)
  ultimately show ?thesis
    using read_selected_blob [of sample_mem 4096 960 sample_selection SOC_DTBO sample_soc2 160 NULL 100] by simp
qed

text \<open>
  Closing the handle releases its block, and a block that does not hold a handle is refused
  and not released.
\<close>

theorem close_releases_handle:
  assumes "MALLOC_WRAPPER al hp 64 = (p, hp1)" and "p \<noteq> NULL"
  shows "(data_guard d = DT_SELECT_LIBRARY_ID \<longrightarrow>
      (\<exists>hp2. dt_select_close hp1 p (Some d) = Some (SUCCESS, hp2) \<and> live hp2 = live hp)) \<and>
    (data_guard d \<noteq> DT_SELECT_LIBRARY_ID \<longrightarrow> dt_select_close hp1 p (Some d) = Some (INVALID_PARAMETER, hp1))"
proof -
  have "balanced (target hp) 64" by (simp add: balanced_def)
  from malloc_free [OF assms this] assms(2) show ?thesis by (auto simp: dt_select_close_def handle_check_def)
qed

theorem close_releases_handle_witness:
  "\<exists>hp2. dt_select_close (empty_heap \<lparr> requests := 1, live := [(1048576, Pool)] \<rparr>) 1048576
     (Some (init_handle_data 4096)) = Some (SUCCESS, hp2) \<and> live hp2 = []"
proof -
  have "MALLOC_WRAPPER sample_alloc empty_heap 64 = (1048576, empty_heap \<lparr> requests := 1, live := [(1048576, Pool)] \<rparr>)"
    by (simp add: MALLOC_WRAPPER_def sample_alloc_def empty_heap_def kind_of_def Let_def)
  from close_releases_handle [OF this, of "init_handle_data 4096"] show ?thesis
    by (simp add: init_handle_data_def empty_heap_def)
qed



text \<open>
  The translation of a format string fits into its buffer of \<open>n\<close> bytes, is terminated, and
  has no conversion \<open>%s\<close> left.
\<close>

theorem format_translated:
  assumes "replace_percent_s_with_percent_a src n = Some out"
  shows "length out \<le> n \<and> last out = 0 \<and> (\<nexists>xs ys. out = xs @ 37 # 115 # ys)"
proof -
  let ?t = "take (if length src \<ge> n then n - 1 else length src) src"
  from assms have n: "n \<noteq> 0" and out: "out = replace_loop ?t @ [0]"
    by (auto simp: replace_percent_s_with_percent_a_def Let_def split: if_splits)
  have "length (replace_loop ?t) \<le> length ?t" by (rule replace_loop_length)
  also have "\<dots> < n" using n by auto
  finally have "length (replace_loop ?t) < n" .
  moreover have "\<not> has_pair (replace_loop ?t @ [0])" by (rule replace_loop_no_pair)
  ultimately show ?thesis using out by (auto simp: has_pair_iff)
qed

theorem format_translated_witness:
  "length [37, 97, 37, 120, 0 :: byte] \<le> 5 \<and> last [37, 97, 37, 120, 0 :: byte] = 0 \<and>
   (\<nexists>xs ys. [37, 97, 37, 120, 0 :: byte] = xs @ 37 # 115 # ys)"
proof (rule format_translated)
  show "replace_percent_s_with_percent_a [37, 115, 37, 120, 37, 115] 5 = Some [37, 97, 37, 120, 0]" by code_simp
qed

end
