(* ===== verification/Open_Props.thy ===== *)
theory Open_Props
  imports Open_Safe Select_Props
begin

text \<open>
  The properties of opening the selection library and of what it prints.
\<close>

section \<open>Opening and closing\<close>

text \<open>
  C25: when \<open>dt_select_open\<close> fails it has released everything; when it succeeds it holds one block,
  the sizes it reports are those of the selected blobs, each of these can be read with its size,
  and closing the handle restores the heap.
\<close>

theorem open_read_close:
  assumes "dt_select_open al m xs start isize (Some info) props num True hp = Some (st, res, hp')"
    and "alloc_fits al" and "heap_ok hp"
    and "client_ok m (init_handle_input_data isize info props num)"
    and "image_mem (target hp) m start isize"
    and "\<forall>b. start \<le> b \<and> b < start + isize \<and> valid_blob m b \<longrightarrow> board_small (target hp) m b"
  shows "case res of
      None \<Rightarrow> st \<noteq> SUCCESS \<and> same_heap hp hp'
    | Some op \<Rightarrow> st = SUCCESS \<and>
        sizes op = (base_dtb_size (handle_content op), soc_dtbo_size (handle_content op),
          plat_dtbo_size (handle_content op)) \<and>
        (\<forall>t p n. blob_of_type (handle_content op) t = Some (p, n) \<and> n \<noteq> 0 \<longrightarrow>
           dt_select_read_blob m (Some (handle_content op)) t (Some NULL) n = Some (SUCCESS, Some p, [])) \<and>
        (\<exists>hp''. dt_select_close hp' (handle_ptr op) (Some (handle_content op)) = Some (SUCCESS, hp'') \<and>
           same_heap hp hp'')"
proof (cases res)
  case None
  with open_outcome [OF assms(1-5)] assms(6) show ?thesis by auto
next
  case (Some op)
  let ?d = "handle_content op"
  from open_outcome [OF assms(1-5)] assms(6) Some have o: "st = SUCCESS" "handle_ptr op \<noteq> NULL"
    "target hp' = target hp" "live hp' = (handle_ptr op, Pool) # live hp" "selection_in m start isize ?d"
    "sizes op = (base_dtb_size ?d, soc_dtbo_size ?d, plat_dtbo_size ?d)" by auto
  have "mapped m start isize" using assms(5) by (auto simp: image_mem_def intro: mapped_sub)
  note rd = read_in_selection [OF o(5) this, THEN conjunct1]
  have "FREE_WRAPPER hp' (handle_ptr op) 64 = Some (hp' \<lparr> live := live hp \<rparr>)"
    using o(4) free_balanced [of hp' 64 "handle_ptr op"] by (simp add: balanced_def release_def)
  then have "dt_select_close hp' (handle_ptr op) (Some ?d) = Some (SUCCESS, hp' \<lparr> live := live hp \<rparr>)"
    using o(2,5) by (simp add: dt_select_close_def handle_check_def selection_in_def)
  with o rd Some show ?thesis by (auto simp: same_heap_def)
qed

text \<open>An image that holds the base tree only.\<close>

lemma sample_open: "\<exists>hp'. dt_select_open sample_alloc sample_mem empty_state 4096 272 (Some sample_info) None 0 True empty_heap =
    Some (SUCCESS, Some \<lparr> handle_ptr = 1048576, handle_content = (init_handle_data 4096)
      \<lparr> base_dtb_ptr := sample_base, base_dtb_size := 272 \<rparr>, sizes = (272, 0, 0) \<rparr>, hp')"
proof -
  have "map_option (\<lambda>(st, res, hp'). (st, res))
      (dt_select_open sample_alloc sample_mem empty_state 4096 272 (Some sample_info) None 0 True empty_heap) =
    Some (SUCCESS, Some \<lparr> handle_ptr = 1048576, handle_content = (init_handle_data 4096)
      \<lparr> base_dtb_ptr := sample_base, base_dtb_size := 272 \<rparr>, sizes = (272, 0, 0) \<rparr>)"
    by code_simp
  then show ?thesis by auto
qed

lemma sample_heap_ok: "heap_ok empty_heap"
  by (simp add: heap_ok_def empty_heap_def)

lemma sample_names_size:
  "fdt_get_prop_names_size_of_node sample_mem (Some (board_id sample_base)) True = Some (NOERROR, Some 20)"
  by code_simp

theorem open_read_close_witness:
  "\<exists>op hp' hp''. dt_select_open sample_alloc sample_mem empty_state 4096 272 (Some sample_info) None 0 True empty_heap =
      Some (SUCCESS, Some op, hp') \<and>
    dt_select_read_blob sample_mem (Some (handle_content op)) BASE_DTB (Some NULL) 272 =
      Some (SUCCESS, Some sample_base, []) \<and>
    dt_select_close hp' (handle_ptr op) (Some (handle_content op)) = Some (SUCCESS, hp'') \<and> same_heap empty_heap hp''"
proof -
  have cl: "client_ok sample_mem (init_handle_input_data 272 sample_info None 0)"
    by (auto simp: client_ok_def init_handle_input_data_def Let_def dest!: sample_strings)
  have img: "image_mem (target empty_heap) sample_mem 4096 272"
    using sample_image_mem by (auto simp: image_mem_def empty_heap_def intro: mapped_sub)
  have "b = sample_base" if "4096 \<le> b" "b < 4096 + 272" "valid_blob sample_mem b" for b
    using sample_only_blobs [of b] that by auto
  moreover have "board_small XBL sample_mem sample_base"
    using sample_names_size by (auto simp: board_small_def print_small_def sample_paths)
  ultimately have small: "\<forall>b. 4096 \<le> b \<and> b < 4096 + 272 \<and> valid_blob sample_mem b \<longrightarrow>
      board_small (target empty_heap) sample_mem b"
    by (auto simp: empty_heap_def)
  from sample_open obtain hp' where o: "dt_select_open sample_alloc sample_mem empty_state 4096 272 (Some sample_info) None 0 True empty_heap =
    Some (SUCCESS, Some \<lparr> handle_ptr = 1048576, handle_content = (init_handle_data 4096)
      \<lparr> base_dtb_ptr := sample_base, base_dtb_size := 272 \<rparr>, sizes = (272, 0, 0) \<rparr>, hp')" by blast
  from open_read_close [OF o sample_alloc_ok(1) sample_heap_ok cl img small] o show ?thesis
    by (auto simp: blob_of_type_def)
qed

text \<open>
  C27: when no blob of the image fits the device, \<open>dt_select_open\<close> does not succeed with three empty
  sizes: nothing is printed, so the status is that of a wrong parameter, and the block of the
  handle is released.
\<close>

theorem open_nothing_selected:
  assumes "alloc_fits al" and "no_fail al" and "client_ok m (init_handle_input_data isize info None 0)"
    and "0 < start" and "0 \<le> isize" and "0 < isize \<Longrightarrow> start + isize < 18446744073709551616"
    and "dtb_image (target hp) m isize start start is"
    and "\<forall>i\<in>set is. candidate_spec m (init_handle_input_data isize info None 0) (fst i) = None"
  shows "\<exists>hp'. dt_select_open al m xs start isize (Some info) None 0 True hp = Some (INVALID_PARAMETER, None, hp') \<and>
    same_heap hp hp'"
proof -
  let ?inp = "init_handle_input_data isize info None 0"
  have i: "dtbs_image_size ?inp = isize" "Input_prop_list ?inp = None" "prop_num_entries ?inp = 0"
    by (simp_all add: init_handle_input_data_def Let_def)
  obtain p hp1 where mal: "MALLOC_WRAPPER al hp 64 = (p, hp1)" by (cases "MALLOC_WRAPPER al hp 64")
  note h1 = malloc_heap [OF mal]
  then have p: "p \<noteq> NULL" using assms(2) by (simp add: no_fail_def)
  from log_messages_ex [of al 11 hp1] obtain hpa where "log_messages al 11 hp1 = Some hpa" by blast
  moreover from log_message_ex [of al hpa] obtain hp2 where "log_message al hpa = Some hp2" by blast
  ultimately have 2: "print_input_parameters al m None 0 hp1 = Some (SUCCESS, hp2)"
    by (simp add: print_input_parameters_def)
  note s2 = print_input_parameters_heap [OF 2]
  have t2: "target hp2 = target hp" using s2 h1 by (simp add: same_heap_def)
  have img: "dtb_image (target hp2) m (dtbs_image_size ?inp) start start is" using assms(7) t2 i by simp
  have none: "selection_of m ?inp is = (None, None, None)"
  proof (cases "selection_of m ?inp is")
    case (fields b s q)
    have nokey: "soc_key m ?inp i = None" "plat_key m ?inp i = None" "\<not> base_ok m ?inp i" if "i \<in> set is" for i
      using assms(8) that by (simp_all add: soc_key_def plat_key_def base_ok_def)
    have "fold (pick soc_better (soc_key m ?inp)) is None = None"
      using nokey(1) by (induction "is") (simp_all add: pick_def)
    moreover have "fold (pick plat_better (plat_key m ?inp)) is None = None"
      using nokey(2) by (induction "is") (simp_all add: pick_def)
    moreover have "find (base_ok m ?inp) is = None" using nokey(3) by (simp add: find_None_iff)
    ultimately show ?thesis by (simp add: selection_of_def)
  qed
  from select_image [OF assms(1,2,3,4) _ _ img, of xs] assms(5,6) i(1) none obtain hp3 where
    3: "same_heap hp2 hp3" "select_dtb_and_dtbos al m xs (init_handle_data start) ?inp hp2 =
      Some (SUCCESS, chosen_handle (init_handle_data start) (None, None, None), hp3)" by auto
  let ?d = "chosen_handle (init_handle_data start) (None, None, None)"
  have d: "base_dtb_ptr ?d = 0" "soc_dtbo_ptr ?d = 0" "plat_dtbo_ptr ?d = 0"
    by (simp_all add: chosen_handle_def item_ptr_def)
  have "\<exists>hp4. print_selected_dtb_dtbos al m xs ?d ?inp hp3 = Some (INVALID_PARAMETER, hp4) \<and> same_heap hp3 hp4"
  proof -
    from log_messages_ex [of al 7 hp3] obtain hp4 where "log_messages al 7 hp3 = Some hp4" by blast
    with log_messages_heap [OF this] show ?thesis
      by (auto simp: print_selected_dtb_dtbos_def d eval_nat_numeral bind_eq_Some_conv)
  qed
  then obtain hp4 where 4: "print_selected_dtb_dtbos al m xs ?d ?inp hp3 = Some (INVALID_PARAMETER, hp4)" "same_heap hp3 hp4"
    by blast
  have s: "same_heap hp1 hp4" using s2 3(1) 4(2) by (blast intro: same_heap_trans)
  have bal: "balanced (target hp) 64" by (simp add: balanced_def)
  have "\<exists>hp5. FREE_WRAPPER hp4 p 64 = Some hp5"
    using s h1 p free_balanced [of hp4 64 p] by (simp add: balanced_def same_heap_def release_def kind_balanced [OF bal])
  then obtain hp5 where 5: "FREE_WRAPPER hp4 p 64 = Some hp5" by blast
  have "same_heap hp hp5" by (rule malloc_free_same [OF mal s 5 p bal])
  then show ?thesis
    using assms(4) mal p 2 3(2) 4(1) 5 i by (simp add: dt_select_open_def Let_def)
qed

theorem open_nothing_selected_witness:
  "\<exists>hp'. dt_select_open sample_alloc sample_mem empty_state 4096 272 (Some (sample_info \<lparr> chip_family := 1 \<rparr>)) None 0 True empty_heap =
      Some (INVALID_PARAMETER, None, hp') \<and> same_heap empty_heap hp'"
proof (rule open_nothing_selected [OF sample_alloc_ok])
  show "client_ok sample_mem (init_handle_input_data 272 (sample_info \<lparr> chip_family := 1 \<rparr>) None 0)"
    by (auto simp: client_ok_def init_handle_input_data_def Let_def input_compatible_string_def sample_info_def chars_def
        split: if_splits)
  have "dtb_image XBL sample_mem 272 4096 (sample_base + 272) []" by (rule dtb_image.sized_end) simp_all
  then show "dtb_image (target empty_heap) sample_mem 272 4096 4096 [(board_id sample_base, 272)]"
    using dtb_image.blob_at [OF sample_valid(1) sample_sizes(1) _ _ _ _ sample_paths(1) _ sample_tame(1), of 4096 272]
    by (simp add: empty_heap_def)
  have "chip_spec sample_mem (init_handle_input_data 272 (sample_info \<lparr> chip_family := 1 \<rparr>) None 0) (board_id sample_base) = None"
    by code_simp
  then show "\<forall>i\<in>set [(board_id sample_base, 272)].
      candidate_spec sample_mem (init_handle_input_data 272 (sample_info \<lparr> chip_family := 1 \<rparr>) None 0) (fst i) = None"
    by (simp add: candidate_spec_def)
qed simp_all

section \<open>Printing\<close>

text \<open>
  C26: the value of a property, \<open>n div es\<close> elements of \<open>es\<close> bytes (\<open>es\<close> divides \<open>n\<close>), is
  printed behind a text of \<open>len\<close> characters in a buffer of 200 bytes: an opening character,
  three characters and two digits per byte for each element, and a closing text. On UEFI
  everything is cut to the buffer. On XBL the position is advanced by the whole length of each
  piece; the function is defined exactly when the position in front of the closing text has
  not passed the end of the buffer (the closing text itself is cut to what is left), and
  otherwise a piece is written behind the buffer.
\<close>

theorem value_print_fits:
  assumes "0 < es" and "es dvd n" and "0 \<le> len" and "len < BUFFER_SIZE"
    and "fdt_getprop m (blob h) (offset h) name = Some (p, n)" and "p \<noteq> NULL" and "blob h \<noteq> NULL"
    and "mapped m p n" and "0 \<le> n" and "n \<le> INT_MAX"
  shows "case target hp of
      XBL \<Rightarrow> print_property_value al m h name len es False hp =
        (if len + 1 + (3 + 2 * es) * (n div es) \<le> BUFFER_SIZE then Some (SUCCESS, hp) else None)
    | UEFI \<Rightarrow> \<exists>hp'. print_property_value al m h name len es False hp = Some (SUCCESS, hp') \<and> same_heap hp hp'"
proof (cases "target hp")
  case XBL
  with print_property_value_xbl [OF XBL assms(1,2,3) _ assms(5-10)] assms(4) show ?thesis by simp
next
  case UEFI
  with print_property_value_uefi [OF UEFI assms] show ?thesis by simp
qed

theorem value_print_fits_witness:
  "print_property_value sample_alloc sample_mem soc_node (chars ''reg'') 177 4 False empty_heap = Some (SUCCESS, empty_heap) \<and>
   print_property_value sample_alloc sample_mem soc_node (chars ''reg'') 178 4 False empty_heap = None"
proof -
  have g: "fdt_getprop sample_mem (blob soc_node) (offset soc_node) (chars ''reg'') = Some (4240, 8)" by code_simp
  have m: "mapped sample_mem 4240 8" using sample_mapped by (rule mapped_sub) simp_all
  note w = value_print_fits [OF _ _ _ _ g _ _ m, where al = sample_alloc and hp = empty_heap and es = 4]
  from w [of 177] w [of 178] show ?thesis by (simp add: empty_heap_def)
qed

end
