(* ===== verification/Ext_Hash.thy ===== *)
theory Ext_Hash
  imports Ext_Node
begin

text \<open>
  The table of nodes and the cache of phandles of \<open>DTBExtnLib_node.c\<close>, in the build with
  \<open>ENABLE_HASH_FOR_DTB\<close> and without \<open>ENABLE_DOUBLE_HASH_FOR_DTB\<close>, on XBL.

  The linked lists of the code have one owner each and only grow at the front, so they are lists
  with the first element first. The allocator is not part of the sources: \<open>al n\<close> says whether the
  request with the number \<open>n\<close> succeeds. \<open>hs_blocks\<close> counts the blocks that are allocated and not
  released. The number of visited nodes, the time and the messages are output and left out.
\<close>

abbreviation (input) hash_table_level :: nat where "hash_table_level \<equiv> 10"
abbreviation (input) MAX_PHANDLE_CACHE_SIZE :: int where "MAX_PHANDLE_CACHE_SIZE \<equiv> 1000"
abbreviation (input) SLASH :: byte where "SLASH \<equiv> 47"

section \<open>Hashes and names\<close>

record hash_node =
  hn_node :: fdt_node_handle
  node_name_hash_value :: "64 word"

record blob_list_node =
  bl_blob :: addr
  bl_nodes :: "hash_node list"

record phandle_to_node_cache =
  pc_blob :: addr
  pc_array :: "int list"

record hash_state =
  phead_hash_node_table :: "blob_list_node list list"
  phandle_cache_root :: "phandle_to_node_cache list"
  basename :: "byte list"
  hs_requests :: nat
  hs_blocks :: int

text \<open>DJB2; a \<open>char\<close> is unsigned on the targets.\<close>

definition Hash :: "byte list \<Rightarrow> 64 word" where
  "Hash str = foldl (\<lambda>h c. (push_bit 5 h + h) + ucast c) 5381 str"

fun path_depth :: "byte list \<Rightarrow> nat" where
  "path_depth [] = 0"
| "path_depth (c # p) = (if c = SLASH then 1 else 0) + path_depth p"

fun strr_chr_from :: "byte list \<Rightarrow> byte \<Rightarrow> nat \<Rightarrow> nat option" where
  "strr_chr_from str c 0 = None"
| "strr_chr_from str c (Suc n) = (if str ! n = c then Some n else strr_chr_from str c n)"

definition strr_chr :: "byte list option \<Rightarrow> byte \<Rightarrow> nat option" where
  "strr_chr str c = (case str of None \<Rightarrow> None | Some s \<Rightarrow> strr_chr_from s c (length s))"

text \<open>A name of length 0 makes the code read in front of it.\<close>

definition fix_node_name :: "byte list \<Rightarrow> byte list option" where
  "fix_node_name name =
     (if name = [] then None else Some (if last name = SLASH then butlast name else name))"

lemma strr_chr_from_less: "strr_chr_from s c n = Some k \<Longrightarrow> k < n"
  by (induction n) (auto split: if_splits)

text \<open>The directory part of a path, and the base name when it is written.\<close>

function (sequential) dirname :: "byte list \<Rightarrow> byte list \<Rightarrow> byte list \<times> byte list" where
  "dirname path bn =
     (case strr_chr (Some path) SLASH of
        None \<Rightarrow> ([46], bn)
      | Some k \<Rightarrow>
          if k = 0 then ([SLASH], if length path > 1 then drop 1 path else bn)
          else if k = 1 \<and> path ! 0 = SLASH then ([SLASH], drop 2 path)
          else if k = length path - 1 then dirname (take k path) bn
          else (take k path, drop (k + 1) path))"
  by pat_completeness auto

termination dirname
  by (relation "measure (\<lambda>(p, b). length p)") (auto simp: strr_chr_def dest: strr_chr_from_less)

declare dirname.simps [simp del]

section \<open>Allocation\<close>

definition dtb_malloc :: "(nat \<Rightarrow> bool) \<Rightarrow> hash_state \<Rightarrow> bool \<times> hash_state" where
  "dtb_malloc al hs =
     (let ok = al (hs_requests hs)
      in (ok, hs \<lparr> hs_requests := hs_requests hs + 1, hs_blocks := hs_blocks hs + (if ok then 1 else 0) \<rparr>))"

definition dtb_free :: "hash_state \<Rightarrow> hash_state" where
  "dtb_free hs = hs \<lparr> hs_blocks := hs_blocks hs - 1 \<rparr>"

section \<open>The table\<close>

text \<open>The depth of a path is the index of the table; it is not compared with the size of the table.\<close>

definition find_node :: "hash_state \<Rightarrow> byte list \<Rightarrow> addr \<Rightarrow> hash_node option option" where
  "find_node hs name b =
     (let node_hash_value = Hash name; level = path_depth name
      in if level \<ge> hash_table_level then None
         else Some (case List.find (\<lambda>bl. bl_blob bl = b) (phead_hash_node_table hs ! level) of
             None \<Rightarrow> None
           | Some bl \<Rightarrow> List.find (\<lambda>n. node_name_hash_value n = node_hash_value) (bl_nodes bl)))"

fun insert_node :: "hash_node \<Rightarrow> blob_list_node list \<Rightarrow> blob_list_node list" where
  "insert_node n [] = []"
| "insert_node n (bl # bls) =
     (if blob (hn_node n) = bl_blob bl then bl \<lparr> bl_nodes := n # bl_nodes bl \<rparr> # bls else bl # insert_node n bls)"

definition add_hash_node :: "hash_state \<Rightarrow> hash_node \<Rightarrow> nat \<Rightarrow> hash_state option" where
  "add_hash_node hs n level =
     (if level \<ge> hash_table_level then None
      else Some (hs \<lparr> phead_hash_node_table :=
        (phead_hash_node_table hs) [level := insert_node n (phead_hash_node_table hs ! level)] \<rparr>))"

definition is_merge_dtb :: "hash_state \<Rightarrow> addr \<Rightarrow> bool" where
  "is_merge_dtb hs b \<longleftrightarrow> (\<exists>bls\<in>set (phead_hash_node_table hs). \<exists>bl\<in>set bls. bl_blob bl = b)"

definition free_hash_nodes :: "hash_node list \<Rightarrow> hash_state \<Rightarrow> hash_state" where
  "free_hash_nodes ns hs = fold (\<lambda>n. dtb_free) ns hs"

text \<open>The nodes of every list are released; the list nodes of the blobs are only cleared.\<close>

definition free_hash_tables :: "hash_state \<Rightarrow> hash_state" where
  "free_hash_tables hs =
     (fold (\<lambda>bls. fold (\<lambda>bl. free_hash_nodes (bl_nodes bl)) bls) (phead_hash_node_table hs) hs)
       \<lparr> phead_hash_node_table := replicate hash_table_level [] \<rparr>"

section \<open>The cache of phandles\<close>

definition fdt_get_max_phandle :: "mem \<Rightarrow> addr \<Rightarrow> int option" where
  "fdt_get_max_phandle m fdt = do {
     (err, phandle) \<leftarrow> fdt_find_max_phandle m fdt;
     Some (if err < 0 then 4294967295 else phandle) }"

text \<open>
  The status. The maximum is converted to an \<open>int\<close>; for a value below \<open>- 1\<close> the size of the array is
  a huge \<open>size_t\<close> of which the allocator gets the low 32 bits, and the \<open>memset\<close> leaves the block.
\<close>

definition alloc_phandle_to_node_cache_space ::
  "(nat \<Rightarrow> bool) \<Rightarrow> mem \<Rightarrow> addr \<Rightarrow> hash_state \<Rightarrow> (rc \<times> hash_state) option" where
  "alloc_phandle_to_node_cache_space al m b hs =
     (if \<exists>pc\<in>set (phandle_cache_root hs). pc_blob pc = b then Some (NOERROR, hs)
      else do {
        v \<leftarrow> fdt_get_max_phandle m b;
        let max_phandle = (if s32 v > MAX_PHANDLE_CACHE_SIZE then MAX_PHANDLE_CACHE_SIZE else s32 v);
        if max_phandle = 0 then Some (NOERROR, hs)
        else do {
          let (ok, hs) = dtb_malloc al hs;
          if \<not> ok then Some (Ret (- 1), hs)
          else do {
            let (ok, hs) = dtb_malloc al hs;
            if \<not> ok then Some (Ret (- 1), dtb_free hs)
            else if max_phandle < - 1 then None
            else Some (NOERROR, hs \<lparr> phandle_cache_root :=
              \<lparr> pc_blob = b, pc_array = replicate (nat (max_phandle + 1)) 0 \<rparr> # phandle_cache_root hs \<rparr>) } } })"

definition free_phandle_to_node_cache :: "hash_state \<Rightarrow> hash_state" where
  "free_phandle_to_node_cache hs =
     (fold (\<lambda>pc hs. dtb_free (if pc_blob pc \<noteq> NULL \<and> pc_array pc \<noteq> [] then dtb_free hs else hs))
        (phandle_cache_root hs) hs) \<lparr> phandle_cache_root := [] \<rparr>"

text \<open>The entry of a phandle in the first cache; there has to be one when the phandle is positive.\<close>

definition cache_phandle :: "int \<Rightarrow> int \<Rightarrow> hash_state \<Rightarrow> hash_state option" where
  "cache_phandle phandle_value off hs =
     (if phandle_value > 0 then
        (case phandle_cache_root hs of
           [] \<Rightarrow> None
         | pc # pcs \<Rightarrow>
             if phandle_value < int (length (pc_array pc))
             then Some (hs \<lparr> phandle_cache_root := pc \<lparr> pc_array := (pc_array pc) [nat phandle_value := off] \<rparr> # pcs \<rparr>)
             else Some hs)
      else Some hs)"

section \<open>Filling the table\<close>

definition add_hash ::
  "(nat \<Rightarrow> bool) \<Rightarrow> hash_state \<Rightarrow> int \<Rightarrow> addr \<Rightarrow> byte list option \<Rightarrow> nat \<Rightarrow> (hash_node option \<times> hash_state) option" where
  "add_hash al hs node_offset b full_name node_depth =
     (case full_name of
        None \<Rightarrow> Some (None, hs)
      | Some nm \<Rightarrow>
          if node_offset < 0 \<or> b = NULL then Some (None, hs)
          else do {
            let (ok, hs) = dtb_malloc al hs;
            if \<not> ok then Some (None, hs)
            else do {
              let sub_node = \<lparr> hn_node = \<lparr> blob = b, offset = node_offset \<rparr>, node_name_hash_value = Hash nm \<rparr>;
              hs \<leftarrow> add_hash_node hs sub_node node_depth;
              Some (Some sub_node, hs) } })"

text \<open>A list node for the blob in the levels from \<open>i\<close> on, as long as the allocation succeeds.\<close>

fun register_blob :: "(nat \<Rightarrow> bool) \<Rightarrow> addr \<Rightarrow> nat list \<Rightarrow> hash_state \<Rightarrow> bool \<times> hash_state" where
  "register_blob al b [] hs = (True, hs)"
| "register_blob al b (i # is) hs =
     (let (ok, hs) = dtb_malloc al hs
      in if \<not> ok then (False, hs)
         else register_blob al b is (hs \<lparr> phead_hash_node_table := (phead_hash_node_table hs)
           [i := \<lparr> bl_blob = b, bl_nodes = [] \<rparr> # phead_hash_node_table hs ! i] \<rparr>))"

definition init_root ::
  "(nat \<Rightarrow> bool) \<Rightarrow> mem \<Rightarrow> hash_state \<Rightarrow> addr \<Rightarrow> byte list \<Rightarrow> (hash_node option \<times> hash_state) option" where
  "init_root al m hs b root_name = do {
     offset \<leftarrow> fdt_path_offset m b root_name;
     let (ok, hs) = register_blob al b [0..<hash_table_level] hs;
     if \<not> ok then Some (None, hs)
     else if offset \<ge> 0 \<and> root_name \<noteq> [] \<and> hd root_name = SLASH then do {
       let (ok, hs) = dtb_malloc al hs;
       if \<not> ok then Some (None, hs)
       else do {
         let root_node = \<lparr> hn_node = \<lparr> blob = b, offset = offset \<rparr>, node_name_hash_value = Hash root_name \<rparr>;
         hs \<leftarrow> add_hash_node hs root_node 1;
         Some (Some root_node, hs) } }
     else Some (None, hs) }"

text \<open>\<open>snprintf\<close> into the buffer of 256 bytes.\<close>

definition full_name_of :: "byte list \<Rightarrow> byte list \<Rightarrow> byte list" where
  "full_name_of name subname =
     take 255 (if name \<noteq> [SLASH] then name @ [SLASH] @ subname else name @ subname)"

lemma first_subnode_measure:
  assumes "fdt_first_subnode m fdt off = Some r" and "0 \<le> off"
  shows "node_measure r < node_measure off \<or> r < 0"
proof (cases "r < 0")
  case False
  with assms have "node_measure r < node_measure off"
    by (auto simp: fdt_first_subnode_def bind_eq_Some_conv split: if_splits dest!: fdt_next_node_measure)
  then show ?thesis ..
qed simp

text \<open>
  The loop over the subnodes from \<open>sub_node_offset\<close> on, with the recursion into each of them; a
  name that libfdt does not return is passed on as a string.
\<close>

function (sequential) hash_subnodes ::
  "(nat \<Rightarrow> bool) \<Rightarrow> mem \<Rightarrow> addr \<Rightarrow> byte list \<Rightarrow> nat \<Rightarrow> int \<Rightarrow> hash_state \<Rightarrow> (rc \<times> hash_state) option" where
  "hash_subnodes al m b name depth sub_node_offset hs =
     (if sub_node_offset < 0 then Some (NOERROR, hs)
      else do {
        phandle \<leftarrow> fdt_get_phandle m b sub_node_offset;
        hs \<leftarrow> cache_phandle (s32 phandle) sub_node_offset hs;
        (p, len) \<leftarrow> fdt_get_name m b sub_node_offset;
        subname \<leftarrow> (if p = NULL then None else c_str m p);
        let fullname = full_name_of name subname;
        (sub_node, hs) \<leftarrow> add_hash al hs sub_node_offset b (Some fullname) (depth + 1);
        if sub_node = None then Some (QcPos MEMALLOC, hs)
        else do {
          first \<leftarrow> fdt_first_subnode m b sub_node_offset;
          (ret_value, hs) \<leftarrow> hash_subnodes al m b fullname (depth + 1) first hs;
          if ret_value \<noteq> NOERROR then Some (ret_value, hs)
          else do {
            nxt \<leftarrow> fdt_next_subnode m b sub_node_offset;
            hash_subnodes al m b name depth nxt hs } } })"
  by pat_completeness auto

termination hash_subnodes
proof (relation "measure (\<lambda>(al, m, b, nm, d, off, hs). if off < 0 then 0 else Suc (node_measure off))", goal_cases)
  case (2 al m b name depth off hs)
  then show ?case using first_subnode_measure by fastforce
next
  case (3 al m b name depth off hs)
  then show ?case using fdt_next_subnode_measure by fastforce
qed simp

declare hash_subnodes.simps [simp del]

definition Recursive_find_subnode ::
  "(nat \<Rightarrow> bool) \<Rightarrow> mem \<Rightarrow> addr \<Rightarrow> hash_node option \<Rightarrow> byte list \<Rightarrow> nat \<Rightarrow> hash_state \<Rightarrow> (rc \<times> hash_state) option" where
  "Recursive_find_subnode al m b node name depth hs =
     (case node of
        None \<Rightarrow>
          if name = [] \<or> hd name \<noteq> SLASH then Some (QcPos INPUT_ARG_ERR, hs)
          else do {
            (root_node, hs) \<leftarrow> init_root al m hs b name;
            case root_node of
              None \<Rightarrow> Some (QcPos MEMALLOC, hs)
            | Some n \<Rightarrow> do {
                first \<leftarrow> fdt_first_subnode m b (offset (hn_node n));
                hash_subnodes al m b name 0 first hs } }
      | Some n \<Rightarrow> do {
          first \<leftarrow> fdt_first_subnode m b (offset (hn_node n));
          hash_subnodes al m b name depth first hs })"

definition CreatDtbHashTable_hash ::
  "(nat \<Rightarrow> bool) \<Rightarrow> mem \<Rightarrow> addr \<Rightarrow> hash_state \<Rightarrow> (rc \<times> hash_state) option" where
  "CreatDtbHashTable_hash al m b hs =
     (if is_merge_dtb hs b then Some (NOERROR, free_phandle_to_node_cache (free_hash_tables hs))
      else do {
        (ret_value, hs) \<leftarrow> alloc_phandle_to_node_cache_space al m b hs;
        if ret_value \<noteq> NOERROR then Some (Ret (- 1), hs)
        else Recursive_find_subnode al m b None [SLASH] 0 hs })"

section \<open>Lookups\<close>

text \<open>
  The path is copied to a buffer of 256 bytes; the base name of the last lookup stays in its buffer
  when the path has none.
\<close>

definition lookup_handle ::
  "mem \<Rightarrow> hash_state \<Rightarrow> byte list \<Rightarrow> addr \<Rightarrow> (fdt_node_handle option \<times> hash_state) option" where
  "lookup_handle m hs name b = do {
     p_node \<leftarrow> find_node hs name b;
     case p_node of
       Some n \<Rightarrow> Some (Some (hn_node n), hs)
     | None \<Rightarrow>
         if length name + 1 > 256 then None
         else do {
           let (parent_path, bn) = dirname name (basename hs);
           let hs = hs \<lparr> basename := bn \<rparr>;
           p_node \<leftarrow> find_node hs parent_path b;
           case p_node of
             None \<Rightarrow> Some (None, hs)
           | Some n \<Rightarrow> do {
               subnode_offset \<leftarrow> fdt_subnode_offset m (blob (hn_node n)) (offset (hn_node n)) bn;
               Some (if subnode_offset \<ge> 0 then Some (\<lparr> blob = blob (hn_node n), offset = subnode_offset \<rparr>) else None, hs) } } }"

definition fdt_get_node_handle_hash ::
  "mem \<Rightarrow> ext_state \<Rightarrow> hash_state \<Rightarrow> fdt_node_handle option \<Rightarrow> addr \<Rightarrow> byte list option \<Rightarrow>
     (rc \<times> fdt_node_handle option \<times> hash_state) option" where
  "fdt_get_node_handle_hash m st hs node b name =
     (case (node, name) of
        (Some h, Some nm) \<Rightarrow>
          (case (if b = NULL then fdt_get_blob_handle st True (default_blob_id st) else (NOERROR, Some b)) of
             (r, None) \<Rightarrow> Some (r, Some h, hs)
           | (r, Some b') \<Rightarrow> do {
               (found, hs) \<leftarrow> lookup_handle m hs nm b';
               case found of
                 Some h' \<Rightarrow> Some (r, Some h', hs)
               | None \<Rightarrow> do {
                   off \<leftarrow> fdt_path_offset m b' nm;
                   if off \<ge> 0 then Some (NOERROR, Some \<lparr> blob = b', offset = off \<rparr>, hs)
                   else Some (Ret off, Some (h \<lparr> blob := b' \<rparr>), hs) } })
      | _ \<Rightarrow> Some (Qc NULLPTR, node, hs))"

text \<open>The entry of the first cache of the blob that is large enough, if there is one.\<close>

definition cached_offset :: "hash_state \<Rightarrow> addr \<Rightarrow> int \<Rightarrow> int option" where
  "cached_offset hs b phandle =
     map_option (\<lambda>pc. pc_array pc ! nat phandle)
       (List.find (\<lambda>pc. pc_blob pc = b \<and> int (length (pc_array pc)) > phandle) (phandle_cache_root hs))"

definition fdt_get_phandle_node_hash ::
  "mem \<Rightarrow> hash_state \<Rightarrow> fdt_node_handle option \<Rightarrow> int \<Rightarrow> fdt_node_handle option \<Rightarrow>
     (rc \<times> fdt_node_handle option) option" where
  "fdt_get_phandle_node_hash m hs node phandle pnode =
     (case (node, pnode) of
        (Some h, Some p) \<Rightarrow>
          (case cached_offset hs (blob h) phandle of
             Some off \<Rightarrow>
               if off > 0 then Some (NOERROR, Some \<lparr> blob = blob h, offset = off \<rparr>)
               else do {
                 off' \<leftarrow> fdt_node_offset_by_phandle m (blob h) phandle;
                 if off' < 0 then Some (Ret off', Some \<lparr> blob = blob h, offset = off \<rparr>)
                 else Some (NOERROR, Some \<lparr> blob = blob h, offset = off' \<rparr>) }
           | None \<Rightarrow> do {
               off' \<leftarrow> fdt_node_offset_by_phandle m (blob h) phandle;
               if off' < 0 then Some (Ret off', Some p)
               else Some (NOERROR, Some \<lparr> blob = blob h, offset = off' \<rparr>) })
      | _ \<Rightarrow> Some (Qc NULLPTR, pnode))"

end
