(* ===== verification/Hash_Props.thy ===== *)
theory Hash_Props
  imports Ext_Hash Driver_Props
begin

text \<open>
  What the table of nodes holds after its creation: the nodes of the tree with their full names, one
  list per depth; and what the lookups return.
\<close>

section \<open>The nodes of a tree\<close>

text \<open>
  The nodes from \<open>off\<close> on among its siblings, with their subtrees, in the order of the blob: the
  offset, the full name and the depth of each of them.
\<close>

function (sequential) tree_nodes :: "mem \<Rightarrow> addr \<Rightarrow> byte list \<Rightarrow> nat \<Rightarrow> int \<Rightarrow> (int \<times> byte list \<times> nat) list option" where
  "tree_nodes m b name depth off =
     (if off < 0 then Some []
      else do {
        (p, len) \<leftarrow> fdt_get_name m b off;
        subname \<leftarrow> (if p = NULL then None else c_str m p);
        let full = full_name_of name subname;
        first \<leftarrow> fdt_first_subnode m b off;
        below \<leftarrow> tree_nodes m b full (depth + 1) first;
        nxt \<leftarrow> fdt_next_subnode m b off;
        behind \<leftarrow> tree_nodes m b name depth nxt;
        Some ((off, full, depth + 1) # below @ behind) })"
  by pat_completeness auto

termination tree_nodes
proof (relation "measure (\<lambda>(m, b, nm, d, off). if off < 0 then 0 else Suc (node_measure off))", goal_cases)
  case (2 m b name depth off)
  then show ?case using first_subnode_measure by fastforce
next
  case (3 m b name depth off)
  then show ?case using fdt_next_subnode_measure by fastforce
qed simp

declare tree_nodes.simps [simp del]

definition hash_step ::
  "(nat \<Rightarrow> bool) \<Rightarrow> mem \<Rightarrow> addr \<Rightarrow> int \<times> byte list \<times> nat \<Rightarrow> hash_state \<Rightarrow> (bool \<times> hash_state) option" where
  "hash_step al m b x hs = (case x of (off, full, d) \<Rightarrow> do {
     phandle \<leftarrow> fdt_get_phandle m b off;
     hs \<leftarrow> cache_phandle (s32 phandle) off hs;
     (n, hs) \<leftarrow> add_hash al hs off b (Some full) d;
     Some (n \<noteq> None, hs) })"

fun hash_all ::
  "(nat \<Rightarrow> bool) \<Rightarrow> mem \<Rightarrow> addr \<Rightarrow> (int \<times> byte list \<times> nat) list \<Rightarrow> hash_state \<Rightarrow> (rc \<times> hash_state) option" where
  "hash_all al m b [] hs = Some (NOERROR, hs)"
| "hash_all al m b (x # xs) hs = do {
     (ok, hs) \<leftarrow> hash_step al m b x hs;
     if ok then hash_all al m b xs hs else Some (QcPos MEMALLOC, hs) }"

lemma hash_all_append:
  "hash_all al m b (xs @ ys) hs = do {
     (r, hs) \<leftarrow> hash_all al m b xs hs;
     if r \<noteq> NOERROR then Some (r, hs) else hash_all al m b ys hs }"
  by (induction xs arbitrary: hs) (auto split: bind_splits)

text \<open>The recursion of the code is one loop over the nodes of the tree.\<close>

lemma hash_subnodes_all:
  "tree_nodes m b name depth off = Some xs \<Longrightarrow> hash_subnodes al m b name depth off hs = hash_all al m b xs hs"
proof (induction m b name depth off arbitrary: xs hs rule: tree_nodes.induct)
  case (1 m b name depth off)
  show ?case
  proof (cases "off < 0")
    case True
    with "1.prems" show ?thesis by (simp add: tree_nodes.simps hash_subnodes.simps)
  next
    case False
    with "1.prems" [unfolded tree_nodes.simps [of m b name depth off]] obtain p len sub first below nxt behind where
      t: "fdt_get_name m b off = Some (p, len)" "p \<noteq> NULL" "c_str m p = Some sub"
        "fdt_first_subnode m b off = Some first" "tree_nodes m b (full_name_of name sub) (depth + 1) first = Some below"
        "fdt_next_subnode m b off = Some nxt" "tree_nodes m b name depth nxt = Some behind"
        "xs = (off, full_name_of name sub, depth + 1) # below @ behind"
      by (auto simp: bind_eq_Some_conv Let_def split: if_splits)
    have below: "hash_subnodes al m b (full_name_of name sub) (depth + 1) first hs = hash_all al m b below hs" for hs
      by (rule "1.IH"(1) [OF False t(1) refl _ refl t(4,5)]) (use t(2,3) in simp)
    have behind: "hash_subnodes al m b name depth nxt hs = hash_all al m b behind hs" for hs
      by (rule "1.IH"(2) [OF False t(1) refl _ refl t(4,5,6,7)]) (use t(2,3) in simp)
    show ?thesis
      using False t by (subst hash_subnodes.simps)
        (auto simp: hash_step_def hash_all_append below [simplified] behind Let_def split_def intro!: Option.bind_cong)
  qed
qed

section \<open>The levels of the table\<close>

text \<open>Every level starts with the list of the blob \<open>b\<close>; \<open>f i\<close> are its nodes in level \<open>i\<close>.\<close>

definition table_of :: "hash_state \<Rightarrow> addr \<Rightarrow> (nat \<Rightarrow> hash_node list) \<Rightarrow> bool" where
  "table_of hs b f \<longleftrightarrow> length (phead_hash_node_table hs) = hash_table_level \<and>
     (\<forall>i<hash_table_level. \<exists>bls. phead_hash_node_table hs ! i = \<lparr> bl_blob = b, bl_nodes = f i \<rparr> # bls)"

definition node_entry :: "addr \<Rightarrow> int \<times> byte list \<times> nat \<Rightarrow> hash_node" where
  "node_entry b x = \<lparr> hn_node = \<lparr> blob = b, offset = fst x \<rparr>, node_name_hash_value = Hash (fst (snd x)) \<rparr>"

definition level_nodes :: "addr \<Rightarrow> (int \<times> byte list \<times> nat) list \<Rightarrow> nat \<Rightarrow> hash_node list" where
  "level_nodes b xs i = rev (map (node_entry b) (filter (\<lambda>x. snd (snd x) = i) xs))"

lemma level_nodes_Cons:
  "level_nodes b (x # xs) i @ ns = level_nodes b xs i @ (if snd (snd x) = i then node_entry b x # ns else ns)"
  by (simp add: level_nodes_def)

lemma table_of_add:
  assumes "table_of hs b f" and "blob (hn_node n) = b" and "d < hash_table_level"
  shows "\<exists>hs'. add_hash_node hs n d = Some hs' \<and> table_of hs' b (\<lambda>i. if d = i then n # f i else f i) \<and>
    phandle_cache_root hs' = phandle_cache_root hs \<and> basename hs' = basename hs"
  using assms unfolding table_of_def add_hash_node_def
  by (auto simp: nth_list_update)

lemma table_of_find:
  assumes "table_of hs b f" and "path_depth name < hash_table_level"
  shows "find_node hs name b = Some (List.find (\<lambda>n. node_name_hash_value n = Hash name) (f (path_depth name)))"
  using assms unfolding table_of_def find_node_def by (auto simp: Let_def)

section \<open>The cache of phandles\<close>

text \<open>
  The cache of the blob after the nodes at \<open>offs\<close>: the entry of a phandle is the offset of the last
  of these nodes that has it, 0 when there is none. A cache of size 0 was not allocated.
\<close>

definition last_with :: "mem \<Rightarrow> addr \<Rightarrow> int list \<Rightarrow> int \<Rightarrow> int option" where
  "last_with m b offs p = List.find (\<lambda>off. fdt_get_phandle m b off = Some p) (rev offs)"

lemma last_with_snoc:
  "last_with m b (offs @ [off]) p = (if fdt_get_phandle m b off = Some p then Some off else last_with m b offs p)"
  by (simp add: last_with_def)

lemma last_with_Some: "last_with m b offs p = Some off \<Longrightarrow> off \<in> set offs \<and> fdt_get_phandle m b off = Some p"
  by (auto simp: last_with_def find_Some_iff) (metis nth_mem set_rev length_rev)

lemma last_with_None: "last_with m b offs p = None \<longleftrightarrow> (\<forall>off\<in>set offs. fdt_get_phandle m b off \<noteq> Some p)"
  by (auto simp: last_with_def find_None_iff)

definition cache_entry :: "mem \<Rightarrow> addr \<Rightarrow> int list \<Rightarrow> nat \<Rightarrow> int" where
  "cache_entry m b offs k =
     (if k = 0 then 0 else case last_with m b offs (int k) of None \<Rightarrow> 0 | Some off \<Rightarrow> off)"

definition cache_ok :: "mem \<Rightarrow> addr \<Rightarrow> nat \<Rightarrow> int list \<Rightarrow> hash_state \<Rightarrow> bool" where
  "cache_ok m b n offs hs \<longleftrightarrow> (\<exists>pcs. (\<forall>pc\<in>set pcs. pc_blob pc \<noteq> b) \<and>
     phandle_cache_root hs = (if n = 0 then [] else [\<lparr> pc_blob = b, pc_array = map (cache_entry m b offs) [0..<n] \<rparr>]) @ pcs)"

lemma cache_ok_cong: "phandle_cache_root hs' = phandle_cache_root hs \<Longrightarrow> cache_ok m b n offs hs \<Longrightarrow> cache_ok m b n offs hs'"
  unfolding cache_ok_def by (simp only:)

lemma cache_entry_snoc:
  assumes "fdt_get_phandle m b off = Some v" and "0 \<le> v"
  shows "cache_entry m b (offs @ [off]) k = (if 0 < k \<and> int k = v then off else cache_entry m b offs k)"
  using assms by (auto simp: cache_entry_def last_with_snoc)

lemma cache_phandle_ok:
  assumes c: "cache_ok m b n offs hs" and g: "fdt_get_phandle m b off = Some v" and v: "0 \<le> v" "v < 4294967296"
    and n: "n = 0 \<longrightarrow> v = 0" "int n \<le> 1001"
  shows "\<exists>hs'. cache_phandle (s32 v) off hs = Some hs' \<and> cache_ok m b n (offs @ [off]) hs' \<and>
    phead_hash_node_table hs' = phead_hash_node_table hs \<and> basename hs' = basename hs"
proof -
  from c obtain pcs where pcs: "\<forall>pc\<in>set pcs. pc_blob pc \<noteq> b"
    "phandle_cache_root hs = (if n = 0 then [] else [\<lparr> pc_blob = b, pc_array = map (cache_entry m b offs) [0..<n] \<rparr>]) @ pcs"
    unfolding cache_ok_def by blast
  have keep: "cache_ok m b n (offs @ [off]) hs" if "\<not> (0 < v \<and> v < int n)"
  proof -
    have "map (cache_entry m b (offs @ [off])) [0..<n] = map (cache_entry m b offs) [0..<n]"
      using that by (auto simp: cache_entry_snoc [OF g v(1)])
    with pcs show ?thesis unfolding cache_ok_def by auto
  qed
  show ?thesis
  proof (cases "0 < v \<and> v < int n")
    case True
    then have k: "s32 v = v" "n \<noteq> 0" "nat v < n" "int (nat v) = v" "0 < nat v" using n(2) by (auto intro: s32_id)
    have upd: "(map (cache_entry m b offs) [0..<n]) [nat v := off] = map (cache_entry m b (offs @ [off])) [0..<n]"
      using k by (intro nth_equalityI) (auto simp: cache_entry_snoc [OF g v(1)] nth_list_update)
    let ?hs = "hs \<lparr> phandle_cache_root := \<lparr> pc_blob = b, pc_array = map (cache_entry m b (offs @ [off])) [0..<n] \<rparr> # pcs \<rparr>"
    have "cache_phandle (s32 v) off hs = Some ?hs" using True pcs(2) k upd by (simp add: cache_phandle_def)
    moreover have "cache_ok m b n (offs @ [off]) ?hs" using pcs(1) k(2) unfolding cache_ok_def by (intro exI [of _ pcs]) simp
    ultimately show ?thesis by auto
  next
    case False
    show ?thesis
    proof (cases "0 < s32 v")
      case True
      then have vs: "s32 v = v" using s32_over [of v] s32_id [of v] v by (cases "v \<le> INT_MAX") auto
      with True have "0 < v" by simp
      with False n(1) have "n \<noteq> 0" "\<not> v < int n" by auto
      with True pcs(2) vs keep False show ?thesis by (simp add: cache_phandle_def)
    next
      case np: False
      with keep False show ?thesis by (simp add: cache_phandle_def)
    qed
  qed
qed

lemma fdt_get_phandle_range: "fdt_get_phandle m b off = Some v \<Longrightarrow> 0 \<le> v \<and> v < 4294967296"
  by (auto simp: fdt_get_phandle_def bind_eq_Some_conv split: if_splits dest: fdt32_ld_range)

section \<open>Filling the table\<close>

lemma add_hash_ok:
  assumes t: "table_of hs b f" and off: "0 \<le> off" and b: "b \<noteq> NULL" and d: "d < hash_table_level"
  shows "\<exists>hs'. add_hash (\<lambda>_. True) hs off b (Some full) d = Some (Some (node_entry b (off, full, d)), hs') \<and>
    table_of hs' b (\<lambda>i. if d = i then node_entry b (off, full, d) # f i else f i) \<and>
    phandle_cache_root hs' = phandle_cache_root hs \<and> basename hs' = basename hs"
proof -
  let ?hs = "hs \<lparr> hs_requests := hs_requests hs + 1, hs_blocks := hs_blocks hs + 1 \<rparr>"
  have "table_of ?hs b f" using t by (simp add: table_of_def)
  from table_of_add [OF this, of "node_entry b (off, full, d)" d] d obtain hs' where
    "add_hash_node ?hs (node_entry b (off, full, d)) d = Some hs'"
    "table_of hs' b (\<lambda>i. if d = i then node_entry b (off, full, d) # f i else f i)"
    "phandle_cache_root hs' = phandle_cache_root hs" "basename hs' = basename hs" by (auto simp: node_entry_def)
  with off b show ?thesis by (simp add: add_hash_def dtb_malloc_def node_entry_def Let_def)
qed

lemma hash_all_ok:
  assumes b: "b \<noteq> NULL"
    and n: "int n \<le> 1001"
  shows "table_of hs b f \<Longrightarrow> cache_ok m b n offs hs \<Longrightarrow>
    (\<forall>(off, full, d)\<in>set xs. 0 \<le> off \<and> d < hash_table_level \<and> (\<exists>v. fdt_get_phandle m b off = Some v \<and> (n = 0 \<longrightarrow> v = 0))) \<Longrightarrow>
    \<exists>hs'. hash_all (\<lambda>_. True) m b xs hs = Some (NOERROR, hs') \<and> table_of hs' b (\<lambda>i. level_nodes b xs i @ f i) \<and>
      cache_ok m b n (offs @ map fst xs) hs'"
proof (induction xs arbitrary: hs f offs)
  case Nil
  then show ?case by (simp add: level_nodes_def)
next
  case (Cons x xs)
  obtain off full d where x: "x = (off, full, d)" by (cases x)
  from Cons.prems(3) x obtain v where v: "0 \<le> off" "d < hash_table_level" "fdt_get_phandle m b off = Some v" "n = 0 \<longrightarrow> v = 0" by auto
  from cache_phandle_ok [OF Cons.prems(2) v(3) _ _ v(4) n] fdt_get_phandle_range [OF v(3)] obtain hs1 where
    h1: "cache_phandle (s32 v) off hs = Some hs1" "cache_ok m b n (offs @ [off]) hs1"
      "phead_hash_node_table hs1 = phead_hash_node_table hs" by auto
  have "table_of hs1 b f" using Cons.prems(1) h1(3) by (simp add: table_of_def)
  from add_hash_ok [OF this v(1) b v(2), of full] obtain hs2 where
    h2: "add_hash (\<lambda>_. True) hs1 off b (Some full) d = Some (Some (node_entry b x), hs2)"
      "table_of hs2 b (\<lambda>i. if d = i then node_entry b x # f i else f i)" "phandle_cache_root hs2 = phandle_cache_root hs1"
    unfolding x by blast
  note c2 = cache_ok_cong [OF h2(3) h1(2)]
  have "\<forall>(off, full, d)\<in>set xs. 0 \<le> off \<and> d < hash_table_level \<and> (\<exists>v. fdt_get_phandle m b off = Some v \<and> (n = 0 \<longrightarrow> v = 0))"
    using Cons.prems(3) by simp
  then obtain hs3 where
    "hash_all (\<lambda>_. True) m b xs hs2 = Some (NOERROR, hs3)" "cache_ok m b n ((offs @ [off]) @ map fst xs) hs3"
    "table_of hs3 b (\<lambda>i. level_nodes b xs i @ (if d = i then node_entry b x # f i else f i))"
    using Cons.IH [OF h2(2) c2] by blast
  with v(3) h1(1) h2(1) show ?case unfolding level_nodes_Cons x by (simp add: hash_step_def)
qed

lemma register_blob_ok:
  shows "length (phead_hash_node_table hs) = hash_table_level \<Longrightarrow> set is \<subseteq> {..<hash_table_level} \<Longrightarrow> distinct is \<Longrightarrow>
    \<exists>hs'. register_blob (\<lambda>_. True) b is hs = (True, hs') \<and> length (phead_hash_node_table hs') = hash_table_level \<and>
      phandle_cache_root hs' = phandle_cache_root hs \<and>
      (\<forall>i<hash_table_level. phead_hash_node_table hs' ! i =
         (if i \<in> set is then [\<lparr> bl_blob = b, bl_nodes = [] \<rparr>] else []) @ phead_hash_node_table hs ! i)"
proof (induction "is" arbitrary: hs)
  case (Cons i "is")
  let ?hs = "hs \<lparr> hs_requests := hs_requests hs + 1, hs_blocks := hs_blocks hs + 1,
    phead_hash_node_table := (phead_hash_node_table hs) [i := \<lparr> bl_blob = b, bl_nodes = [] \<rparr> # phead_hash_node_table hs ! i] \<rparr>"
  from Cons.IH [of ?hs] Cons.prems obtain hs' where
    "register_blob (\<lambda>_. True) b is ?hs = (True, hs')" "length (phead_hash_node_table hs') = hash_table_level"
    "phandle_cache_root hs' = phandle_cache_root hs"
    "\<forall>j<hash_table_level. phead_hash_node_table hs' ! j =
       (if j \<in> set is then [\<lparr> bl_blob = b, bl_nodes = [] \<rparr>] else []) @ phead_hash_node_table ?hs ! j" by auto
  with Cons.prems show ?case by (auto simp: dtb_malloc_def Let_def nth_list_update)
qed simp

section \<open>After the creation\<close>

definition slash_entry :: "addr \<Rightarrow> hash_node" where
  "slash_entry b = \<lparr> hn_node = \<lparr> blob = b, offset = 0 \<rparr>, node_name_hash_value = Hash [SLASH] \<rparr>"

text \<open>
  The creation for a blob that is not in the table: its nodes \<open>xs\<close> below the root, at most nine
  levels deep, and its largest phandle \<open>mx\<close>.
\<close>

definition fresh_tree :: "mem \<Rightarrow> addr \<Rightarrow> hash_state \<Rightarrow> (int \<times> byte list \<times> nat) list \<Rightarrow> int \<Rightarrow> bool" where
  "fresh_tree m b hs xs mx \<longleftrightarrow> b \<noteq> NULL \<and> length (phead_hash_node_table hs) = hash_table_level \<and>
     \<not> is_merge_dtb hs b \<and> (\<forall>pc\<in>set (phandle_cache_root hs). pc_blob pc \<noteq> b) \<and>
     fdt_find_max_phandle m b = Some (0, mx) \<and> 0 \<le> mx \<and> mx \<le> INT_MAX \<and>
     fdt_path_offset m b [SLASH] = Some 0 \<and>
     (\<exists>first. fdt_first_subnode m b 0 = Some first \<and> tree_nodes m b [SLASH] 0 first = Some xs) \<and>
     (\<forall>(off, full, d)\<in>set xs. 0 \<le> off \<and> d < hash_table_level \<and> (\<exists>v. fdt_get_phandle m b off = Some v \<and> v \<le> mx))"

lemma alloc_cache_ok:
  assumes "\<not> (\<exists>pc\<in>set (phandle_cache_root hs). pc_blob pc = b)" and "fdt_find_max_phandle m b = Some (0, mx)"
    and "0 \<le> mx" "mx \<le> INT_MAX"
  shows "\<exists>hs'. alloc_phandle_to_node_cache_space (\<lambda>_. True) m b hs = Some (NOERROR, hs') \<and>
    cache_ok m b (nat (if mx = 0 then 0 else if mx > 1000 then 1001 else mx + 1)) [] hs' \<and>
    phead_hash_node_table hs' = phead_hash_node_table hs"
proof -
  have "cache_entry m b [] = (\<lambda>k. 0)" by (simp add: fun_eq_iff cache_entry_def last_with_def)
  then have e: "replicate n 0 = map (cache_entry m b []) [0..<n]" for n by (simp add: map_replicate_const)
  have mx: "s32 mx = mx" using assms(3,4) by (intro s32_id) auto
  note d = alloc_phandle_to_node_cache_space_def fdt_get_max_phandle_def dtb_malloc_def cache_ok_def e
  consider "mx = 0" | "mx > 1000" | "0 < mx" "mx \<le> 1000" using assms(3) by linarith
  then show ?thesis
  proof cases
    case 1
    with assms(1,2) mx show ?thesis by (simp add: d)
  next
    case 2
    with assms(1,2) mx show ?thesis by (simp add: d)
  next
    case 3
    then have "nat (mx + 1) \<noteq> 0" by simp
    with 3 assms(1,2) mx show ?thesis by (simp add: d)
  qed
qed

lemma creation_ok:
  assumes "fresh_tree m b hs xs mx"
  shows "\<exists>hs'. CreatDtbHashTable_hash (\<lambda>_. True) m b hs = Some (NOERROR, hs') \<and>
    table_of hs' b (\<lambda>i. level_nodes b xs i @ (if 1 = i then [slash_entry b] else [])) \<and>
    cache_ok m b (nat (if mx = 0 then 0 else if mx > 1000 then 1001 else mx + 1)) (map fst xs) hs'"
proof -
  let ?al = "\<lambda>_ :: nat. True" and ?n = "nat (if mx = 0 then 0 else if mx > 1000 then 1001 else mx + 1)"
  from assms obtain first where a: "b \<noteq> NULL" "length (phead_hash_node_table hs) = hash_table_level" "\<not> is_merge_dtb hs b"
    "\<not> (\<exists>pc\<in>set (phandle_cache_root hs). pc_blob pc = b)" "fdt_find_max_phandle m b = Some (0, mx)" "0 \<le> mx" "mx \<le> INT_MAX"
    "fdt_path_offset m b [SLASH] = Some 0" "fdt_first_subnode m b 0 = Some first" "tree_nodes m b [SLASH] 0 first = Some xs"
    "\<forall>(off, full, d)\<in>set xs. 0 \<le> off \<and> d < hash_table_level \<and> (\<exists>v. fdt_get_phandle m b off = Some v \<and> v \<le> mx)"
    unfolding fresh_tree_def by blast
  from alloc_cache_ok [OF a(4-7)] obtain hs1 where h1: "alloc_phandle_to_node_cache_space ?al m b hs = Some (NOERROR, hs1)" "cache_ok m b ?n [] hs1"
    "phead_hash_node_table hs1 = phead_hash_node_table hs" by blast
  from register_blob_ok [of hs1 "[0..<hash_table_level]" b] a(2) h1(3) obtain hs2 where
    h2: "register_blob ?al b [0..<hash_table_level] hs1 = (True, hs2)" "length (phead_hash_node_table hs2) = hash_table_level"
      "phandle_cache_root hs2 = phandle_cache_root hs1"
      "\<forall>i<hash_table_level. phead_hash_node_table hs2 ! i = \<lparr> bl_blob = b, bl_nodes = [] \<rparr> # phead_hash_node_table hs1 ! i"
    by (auto simp: subset_eq)
  let ?hs2 = "hs2 \<lparr> hs_requests := hs_requests hs2 + 1, hs_blocks := hs_blocks hs2 + 1 \<rparr>"
  have "table_of ?hs2 b (\<lambda>i. [])" using h2(2,4) by (simp add: table_of_def)
  from table_of_add [OF this, of "slash_entry b" 1] obtain hs3 where
    h3: "add_hash_node ?hs2 (slash_entry b) 1 = Some hs3"
      "table_of hs3 b (\<lambda>i. if 1 = i then [slash_entry b] else [])" "phandle_cache_root hs3 = phandle_cache_root hs2"
    by (auto simp: slash_entry_def)
  have ini: "init_root ?al m hs1 b [SLASH] = Some (Some (slash_entry b), hs3)"
    using a(8) h2(1) h3(1) by (simp add: init_root_def dtb_malloc_def Let_def slash_entry_def)
  have c3: "cache_ok m b ?n [] hs3" by (rule cache_ok_cong [OF _ h1(2)]) (simp add: h2(3) h3(3))
  moreover have "\<forall>(off, full, d)\<in>set xs. 0 \<le> off \<and> d < hash_table_level \<and> (\<exists>v. fdt_get_phandle m b off = Some v \<and> (?n = 0 \<longrightarrow> v = 0))"
    using a(6,11) fdt_get_phandle_range by (force split: if_splits)
  moreover have n: "int ?n \<le> 1001" by simp
  ultimately obtain hs4 where
    h4: "hash_all ?al m b xs hs3 = Some (NOERROR, hs4)" "cache_ok m b ?n ([] @ map fst xs) hs4"
      "table_of hs4 b (\<lambda>i. level_nodes b xs i @ (if 1 = i then [slash_entry b] else []))" using hash_all_ok [OF a(1) _ h3(2)] n by blast
  have "CreatDtbHashTable_hash ?al m b hs = Some (NOERROR, hs4)"
    using a(3,9) h1(1) ini hash_subnodes_all [OF a(10)] h4(1)
    by (simp add: CreatDtbHashTable_hash_def Recursive_find_subnode_def slash_entry_def)
  with h4(2,3) show ?thesis by auto
qed

lemma find_unique:
  assumes "x \<in> set xs" and "P x" and "\<And>y. y \<in> set xs \<Longrightarrow> P y \<Longrightarrow> f y = f x"
  shows "\<exists>y. List.find P xs = Some y \<and> f y = f x"
proof -
  from assms(1,2) obtain y where y: "List.find P xs = Some y" by (cases "List.find P xs") (auto simp: find_None_iff)
  then have "P y" "y \<in> set xs" by (auto simp: find_Some_iff)
  with assms(3) y show ?thesis by blast
qed

lemma lookup_after_creation:
  assumes t: "table_of hs b (\<lambda>i. level_nodes b xs i @ (if 1 = i then [slash_entry b] else []))"
    and x: "(off, full, d) \<in> set xs" and d: "path_depth full = d" "d < hash_table_level"
    and u: "\<forall>(off', full', d')\<in>set xs. d' = d \<and> Hash full' = Hash full \<longrightarrow> off' = off"
    and r: "d = 1 \<longrightarrow> Hash full \<noteq> Hash [SLASH]" and b: "b \<noteq> NULL"
  shows "fdt_get_node_handle_hash m st hs (Some h) b (Some full) = Some (NOERROR, Some \<lparr> blob = b, offset = off \<rparr>, hs)"
proof -
  let ?ns = "level_nodes b xs d @ (if 1 = d then [slash_entry b] else [])"
  have "\<exists>n. List.find (\<lambda>n. node_name_hash_value n = Hash full) ?ns = Some n \<and> hn_node n = hn_node (node_entry b (off, full, d))"
  proof (rule find_unique)
    show "node_entry b (off, full, d) \<in> set ?ns" using x by (force simp: level_nodes_def)
    show "node_name_hash_value (node_entry b (off, full, d)) = Hash full" by (simp add: node_entry_def)
    show "hn_node y = hn_node (node_entry b (off, full, d))" if "y \<in> set ?ns" "node_name_hash_value y = Hash full" for y
      using that u r by (fastforce simp: level_nodes_def node_entry_def slash_entry_def split: if_splits)
  qed
  then have "\<exists>n. find_node hs full b = Some (Some n) \<and> hn_node n = \<lparr> blob = b, offset = off \<rparr>"
    using table_of_find [OF t, of full] d by (simp add: node_entry_def)
  then show ?thesis using b by (auto simp: fdt_get_node_handle_hash_def lookup_handle_def)
qed

lemma cached_offset_ok:
  assumes c: "cache_ok m b n offs hs" and p: "0 \<le> p"
  shows "cached_offset hs b p = (if p < int n then Some (cache_entry m b offs (nat p)) else None)"
proof -
  from c obtain pcs where pcs: "\<forall>pc\<in>set pcs. pc_blob pc \<noteq> b"
    "phandle_cache_root hs = (if n = 0 then [] else [\<lparr> pc_blob = b, pc_array = map (cache_entry m b offs) [0..<n] \<rparr>]) @ pcs"
    unfolding cache_ok_def by blast
  have none: "List.find (\<lambda>pc. pc_blob pc = b \<and> int (length (pc_array pc)) > p) pcs = None"
    using pcs(1) by (auto simp: find_None_iff)
  show ?thesis
  proof (cases "p < int n")
    case True
    then have "nat p < n" "n \<noteq> 0" using p by auto
    with True pcs(2) show ?thesis by (simp add: cached_offset_def)
  next
    case False
    with pcs(2) none show ?thesis by (simp add: cached_offset_def)
  qed
qed

text \<open>The nodes below the root have positive offsets.\<close>

lemma tree_nodes_pos:
  "tree_nodes m b name depth off = Some xs \<Longrightarrow> off \<noteq> 0 \<Longrightarrow> \<forall>o'\<in>set (map fst xs). 0 < o'"
proof (induction m b name depth off arbitrary: xs rule: tree_nodes.induct)
  case (1 m b name depth off)
  show ?case
  proof (cases "off < 0")
    case True
    with "1.prems" show ?thesis by (simp add: tree_nodes.simps)
  next
    case False
    with "1.prems"(1) [unfolded tree_nodes.simps [of m b name depth off]] obtain p len sub first below nxt behind where
      t: "fdt_get_name m b off = Some (p, len)" "p \<noteq> NULL" "c_str m p = Some sub"
        "fdt_first_subnode m b off = Some first" "tree_nodes m b (full_name_of name sub) (depth + 1) first = Some below"
        "fdt_next_subnode m b off = Some nxt" "tree_nodes m b name depth nxt = Some behind"
        "xs = (off, full_name_of name sub, depth + 1) # below @ behind"
      by (auto simp: bind_eq_Some_conv Let_def split: if_splits)
    have f: "first \<noteq> 0"
      using t(4) False by (auto simp: fdt_first_subnode_def bind_eq_Some_conv dest: fdt_next_node_forward split: if_splits)
    have x: "nxt \<noteq> 0" using t(6) False next_subnode_loop_forward [of m b off "Some 1" nxt] by (auto simp: fdt_next_subnode_def)
    have "\<forall>o'\<in>set (map fst below). 0 < o'"
      by (rule "1.IH"(1) [OF False t(1) refl _ refl t(4,5) f]) (use t(2,3) in simp)
    moreover have "\<forall>o'\<in>set (map fst behind). 0 < o'"
      by (rule "1.IH"(2) [OF False t(1) refl _ refl t(4,5,6,7) x]) (use t(2,3) in simp)
    ultimately show ?thesis using t(8) False "1.prems"(2) by auto
  qed
qed

lemma fresh_tree_pos: "fresh_tree m b hs xs mx \<Longrightarrow> \<forall>off\<in>set (map fst xs). 0 < off"
proof -
  assume "fresh_tree m b hs xs mx"
  then obtain first where f: "fdt_first_subnode m b 0 = Some first" "tree_nodes m b [SLASH] 0 first = Some xs"
    unfolding fresh_tree_def by blast
  from f(1) have "first \<noteq> 0"
    by (auto simp: fdt_first_subnode_def bind_eq_Some_conv dest: fdt_next_node_forward split: if_splits)
  with f(2) show ?thesis by (rule tree_nodes_pos)
qed

section \<open>Properties\<close>

text \<open>
  C18: after the table of nodes has been created for a tree of at most nine levels whose blob was
  not in it, looking up the full name of a node gives the handle of this node, provided that no
  other node of the same depth has a name with the same 64 bit hash.
\<close>

theorem hash_lookup_finds_node:
  assumes "fresh_tree m b hs xs mx" and "(off, full, d) \<in> set xs" and "path_depth full = d"
    and "\<forall>(off', full', d')\<in>set xs. d' = d \<and> Hash full' = Hash full \<longrightarrow> off' = off"
    and "d = 1 \<longrightarrow> Hash full \<noteq> Hash [SLASH]"
  shows "\<exists>hs'. CreatDtbHashTable_hash (\<lambda>_. True) m b hs = Some (NOERROR, hs') \<and>
    fdt_get_node_handle_hash m st hs' (Some h) b (Some full) = Some (NOERROR, Some \<lparr> blob = b, offset = off \<rparr>, hs')"
proof -
  from assms(1,2) have "b \<noteq> NULL" "d < hash_table_level" unfolding fresh_tree_def by auto
  with creation_ok [OF assms(1)] lookup_after_creation [OF _ assms(2,3) _ assms(4,5), of _ b m st h] show ?thesis by blast
qed

definition empty_hash :: hash_state where
  "empty_hash = \<lparr> phead_hash_node_table = replicate hash_table_level [], phandle_cache_root = [], basename = [],
     hs_requests = 0, hs_blocks = 0 \<rparr>"

definition no_blobs :: ext_state where
  "no_blobs = \<lparr> dtb_blob = [], dtb_config = \<lparr> client = 0, trace = 0, verbose = 0 \<rparr>, default_blob_id = 0 \<rparr>"

definition driver_nodes :: "(int \<times> byte list \<times> nat) list" where
  "driver_nodes = [(8, chars ''/mem'', 1), (40, chars ''/uart'', 1)]"

lemma driver_fresh: "fresh_tree driver_mem driver_blob empty_hash driver_nodes 0"
proof -
  have "fdt_find_max_phandle driver_mem driver_blob = Some (0, 0)" "fdt_path_offset driver_mem driver_blob [SLASH] = Some 0"
    "fdt_first_subnode driver_mem driver_blob 0 = Some 8"
    "tree_nodes driver_mem driver_blob [SLASH] 0 8 = Some driver_nodes"
    "fdt_get_phandle driver_mem driver_blob 8 = Some 0" "fdt_get_phandle driver_mem driver_blob 40 = Some 0" by code_simp+
  then show ?thesis by (simp add: fresh_tree_def driver_nodes_def empty_hash_def is_merge_dtb_def)
qed

theorem hash_lookup_finds_node_witness:
  "\<exists>hs'. CreatDtbHashTable_hash (\<lambda>_. True) driver_mem driver_blob empty_hash = Some (NOERROR, hs') \<and>
    fdt_get_node_handle_hash driver_mem no_blobs hs' (Some uart_node) driver_blob (Some (chars ''/uart'')) = Some (NOERROR, Some uart_node, hs')"
proof -
  have h: "Hash (chars ''/uart'') \<noteq> Hash [SLASH]" "Hash (chars ''/mem'') \<noteq> Hash (chars ''/uart'')"
    "path_depth (chars ''/uart'') = 1" by code_simp+
  have "\<forall>(off', full', d')\<in>set driver_nodes. d' = 1 \<and> Hash full' = Hash (chars ''/uart'') \<longrightarrow> off' = 40"
    using h(2) by (simp add: driver_nodes_def)
  with h show ?thesis
    by (intro hash_lookup_finds_node [OF driver_fresh, of _ _ 1]) (simp_all add: driver_nodes_def)
qed

text \<open>The search by libfdt; \<open>e\<close> is what is left in \<open>*pnode\<close> when it fails.\<close>

definition libfdt_search :: "mem \<Rightarrow> addr \<Rightarrow> int \<Rightarrow> fdt_node_handle \<Rightarrow> (rc \<times> fdt_node_handle option) option" where
  "libfdt_search m b p e = do {
     off \<leftarrow> fdt_node_offset_by_phandle m b p;
     Some (if off < 0 then (Ret off, Some e) else (NOERROR, Some \<lparr> blob = b, offset = off \<rparr>)) }"

text \<open>
  C19: after the creation of the table, with memory, for a tree that was not in it (\<open>xs\<close> are
  its nodes, at most nine levels deep, and its phandles are at most \<open>INT_MAX\<close>), the search for
  a phandle from 1 to 1000 that some node below the root has returns the handle of the last
  such node, in the order of the blob, from the cache. For every other phandle the result is
  that of the search by libfdt, the handle included; when that search fails, \<open>*pnode\<close> is left
  as it was, or holds the blob with offset 0 when the cache has a place for the phandle.
\<close>

theorem phandle_cache_sound:
  assumes "fresh_tree m b hs xs mx" and "0 \<le> p" and "blob h = b"
  shows "\<exists>hs'. CreatDtbHashTable_hash (\<lambda>_. True) m b hs = Some (NOERROR, hs') \<and>
    (case if 0 < p \<and> p \<le> 1000 then last_with m b (map fst xs) p else None of
       Some off \<Rightarrow> off \<in> set (map fst xs) \<and> fdt_get_phandle m b off = Some p \<and>
         fdt_get_phandle_node_hash m hs' (Some h) p (Some q) = Some (NOERROR, Some \<lparr> blob = b, offset = off \<rparr>)
     | None \<Rightarrow> fdt_get_phandle_node_hash m hs' (Some h) p (Some q) =
         libfdt_search m b p (if 0 < mx \<and> p \<le> min mx 1000 then \<lparr> blob = b, offset = 0 \<rparr> else q))"
proof -
  let ?n = "nat (if mx = 0 then 0 else if mx > 1000 then 1001 else mx + 1)" and ?offs = "map fst xs"
  from assms(1) have mx: "0 \<le> mx" and le: "\<forall>off\<in>set ?offs. \<exists>v. fdt_get_phandle m b off = Some v \<and> v \<le> mx"
    unfolding fresh_tree_def by auto
  from creation_ok [OF assms(1)] obtain hs' where hs': "CreatDtbHashTable_hash (\<lambda>_. True) m b hs = Some (NOERROR, hs')"
    "cache_ok m b ?n ?offs hs'" by blast
  have inn: "p < int ?n \<longleftrightarrow> 0 < mx \<and> p \<le> min mx 1000" using mx assms(2) by auto
  note co = cached_offset_ok [OF hs'(2) assms(2), unfolded inn]
  show ?thesis
  proof (cases "if 0 < p \<and> p \<le> 1000 then last_with m b ?offs p else None")
    case (Some off)
    then have p: "0 < p" "p \<le> 1000" "last_with m b ?offs p = Some off" by (auto split: if_splits)
    note w = last_with_Some [OF p(3)]
    with le have "p \<le> mx" by force
    with p mx have "cached_offset hs' b p = Some off" unfolding co by (simp add: cache_entry_def)
    moreover have "0 < off" using w fresh_tree_pos [OF assms(1)] by blast
    ultimately show ?thesis using hs'(1) Some w assms(3) by (simp add: fdt_get_phandle_node_hash_def)
  next
    case None
    then have "cached_offset hs' b p = (if 0 < mx \<and> p \<le> min mx 1000 then Some 0 else None)"
      using assms(2) unfolding co by (auto simp: cache_entry_def split: if_splits)
    then show ?thesis using hs'(1) None assms(3)
      by (auto simp: fdt_get_phandle_node_hash_def libfdt_search_def intro!: Option.bind_cong)
  qed
qed

definition base_nodes :: "(int \<times> byte list \<times> nat) list" where
  "base_nodes = [(8, chars ''/board-id'', 1), (68, chars ''/soc'', 1), (128, chars ''/soc/cpu0'', 2), (144, chars ''/soc/cpu1'', 2)]"

lemma base_fresh: "fresh_tree sample_mem sample_base empty_hash base_nodes 3"
proof -
  have "fdt_find_max_phandle sample_mem sample_base = Some (0, 3)" "fdt_path_offset sample_mem sample_base [SLASH] = Some 0"
    "fdt_first_subnode sample_mem sample_base 0 = Some 8"
    "tree_nodes sample_mem sample_base [SLASH] 0 8 = Some base_nodes"
    "fdt_get_phandle sample_mem sample_base 8 = Some 0" "fdt_get_phandle sample_mem sample_base 68 = Some 3"
    "fdt_get_phandle sample_mem sample_base 128 = Some 0" "fdt_get_phandle sample_mem sample_base 144 = Some 0" by code_simp+
  then show ?thesis by (simp add: fresh_tree_def base_nodes_def empty_hash_def is_merge_dtb_def)
qed

text \<open>The node \<open>/soc\<close> has the phandle 3, which is cached; 2 is in the range of the cache and 7 is not.\<close>

theorem phandle_cache_sound_witness:
  "(\<exists>hs'. CreatDtbHashTable_hash (\<lambda>_. True) sample_mem sample_base empty_hash = Some (NOERROR, hs') \<and>
     fdt_get_phandle_node_hash sample_mem hs' (Some soc_node) 3 (Some uart_node) =
       Some (NOERROR, Some \<lparr> blob = sample_base, offset = 68 \<rparr>)) \<and>
   (\<exists>hs'. CreatDtbHashTable_hash (\<lambda>_. True) sample_mem sample_base empty_hash = Some (NOERROR, hs') \<and>
     fdt_get_phandle_node_hash sample_mem hs' (Some soc_node) 2 (Some uart_node) =
       Some (Ret (- FDT_ERR_NOTFOUND), Some \<lparr> blob = sample_base, offset = 0 \<rparr>)) \<and>
   (\<exists>hs'. CreatDtbHashTable_hash (\<lambda>_. True) sample_mem sample_base empty_hash = Some (NOERROR, hs') \<and>
     fdt_get_phandle_node_hash sample_mem hs' (Some soc_node) 7 (Some uart_node) =
       Some (Ret (- FDT_ERR_NOTFOUND), Some uart_node))"
proof -
  have g: "fdt_get_phandle sample_mem sample_base 8 = Some 0" "fdt_get_phandle sample_mem sample_base 68 = Some 3"
    "fdt_get_phandle sample_mem sample_base 128 = Some 0" "fdt_get_phandle sample_mem sample_base 144 = Some 0" by code_simp+
  have l: "last_with sample_mem sample_base (map fst base_nodes) 3 = Some 68"
    "last_with sample_mem sample_base (map fst base_nodes) 2 = None"
    "last_with sample_mem sample_base (map fst base_nodes) 7 = None"
    using g by (simp_all add: last_with_def base_nodes_def)
  have o: "fdt_node_offset_by_phandle sample_mem sample_base 2 = Some (- FDT_ERR_NOTFOUND)"
    "fdt_node_offset_by_phandle sample_mem sample_base 7 = Some (- FDT_ERR_NOTFOUND)" by code_simp+
  note w = phandle_cache_sound [OF base_fresh, of _ soc_node uart_node]
  from w [of 3] w [of 2] w [of 7] l o show ?thesis by (auto simp: libfdt_search_def)
qed

lemma path_depth_append [simp]: "path_depth (p @ q) = path_depth p + path_depth q"
  by (induction p) auto

lemma path_depth_take: "path_depth (take k p) \<le> path_depth p"
  using path_depth_append [of "take k p" "drop k p"] by simp

lemma strr_chr_from_at: "strr_chr_from s c n = Some k \<Longrightarrow> s ! k = c"
  by (induction n) (auto split: if_splits)

lemma path_depth_dirname: "path_depth (fst (dirname path bn)) \<le> path_depth path"
proof (induction path bn rule: dirname.induct)
  case (1 path bn)
  show ?case
  proof (cases "strr_chr (Some path) SLASH")
    case None
    then show ?thesis by (simp add: dirname.simps)
  next
    case (Some k)
    then have k: "k < length path" "path ! k = SLASH"
      by (auto simp: strr_chr_def dest: strr_chr_from_less strr_chr_from_at)
    then have "path = take k path @ SLASH # drop (k + 1) path" using id_take_nth_drop [of k path] by simp
    then have "path_depth path = path_depth (take k path) + path_depth (SLASH # drop (k + 1) path)"
      using path_depth_append by metis
    then have d: "1 \<le> path_depth path" by simp
    note step = dirname.simps [of path bn, unfolded Some option.case]
    consider "k = 0 \<or> k = 1 \<and> path ! 0 = SLASH"
      | "k \<noteq> 0" "\<not> (k = 1 \<and> path ! 0 = SLASH)" "k = length path - 1"
      | "k \<noteq> 0" "\<not> (k = 1 \<and> path ! 0 = SLASH)" "k \<noteq> length path - 1" by blast
    then show ?thesis
    proof cases
      case 1
      with d show ?thesis unfolding step by auto
    next
      case 2
      with "1.IH" [OF Some 2] path_depth_take [of k path] d show ?thesis unfolding step by simp
    next
      case 3
      with path_depth_take [of k path] d show ?thesis unfolding step by simp
    qed
  qed
qed

lemma free_phandle_table [simp]: "phead_hash_node_table (free_phandle_to_node_cache hs) = phead_hash_node_table hs"
proof -
  have "phead_hash_node_table (fold (\<lambda>pc hs. dtb_free (if pc_blob pc \<noteq> NULL \<and> pc_array pc \<noteq> [] then dtb_free hs else hs)) pcs hs') =
      phead_hash_node_table hs'" for pcs hs'
    by (induction pcs arbitrary: hs') (simp_all add: dtb_free_def)
  then show ?thesis by (simp add: free_phandle_to_node_cache_def)
qed

lemma find_node_empty:
  assumes "phead_hash_node_table hs = replicate hash_table_level []" and "path_depth name < hash_table_level"
  shows "find_node hs name b = Some None"
  using assms by (simp add: find_node_def Let_def)

text \<open>
  C20: creating the table for a blob that is already in it empties the table; from then on a lookup
  of a path that is not NULL, has fewer than ten levels (\<open>hash_table_level\<close>) and fewer than 256
  characters, in any blob, gives what the build without the table gives. For a deeper path the index leaves the table,
  and for a longer one the copy of the path leaves its buffer, also when the table is empty.
\<close>

theorem second_creation_disables:
  assumes "is_merge_dtb hs b" and "path_depth name < hash_table_level" and "length name < 256"
  shows "\<exists>hs'. CreatDtbHashTable_hash al m b hs = Some (NOERROR, hs') \<and>
    map_option (\<lambda>(r, h, _). (r, h)) (fdt_get_node_handle_hash m st hs' node b' (Some name)) =
      fdt_get_node_handle m st node b' (Some name)"
proof -
  let ?hs = "free_phandle_to_node_cache (free_hash_tables hs)"
  have t: "phead_hash_node_table ?hs = replicate hash_table_level []"
    by (simp add: free_hash_tables_def)
  have l: "\<exists>hs''. lookup_handle m ?hs name b' = Some (None, hs'')" for b'
  proof -
    obtain pp bn where d: "dirname name (basename ?hs) = (pp, bn)" by fastforce
    have "find_node ?hs name b' = Some None" "find_node (?hs \<lparr> basename := bn \<rparr>) pp b' = Some None"
      using t assms(2) path_depth_dirname [of name "basename ?hs"] d by (auto intro!: find_node_empty)
    with d assms(3) show ?thesis by (simp add: lookup_handle_def)
  qed
  have "CreatDtbHashTable_hash al m b hs = Some (NOERROR, ?hs)" using assms(1) by (simp add: CreatDtbHashTable_hash_def)
  moreover have "map_option (\<lambda>(r, h, _). (r, h)) (fdt_get_node_handle_hash m st ?hs node b' (Some name)) =
      fdt_get_node_handle m st node b' (Some name)"
  proof -
    obtain r ob where g: "(if b' = NULL then fdt_get_blob_handle st True (default_blob_id st) else (NOERROR, Some b')) = (r, ob)" by fastforce
    obtain hs'' where "lookup_handle m ?hs name (the ob) = Some (None, hs'')" using l by blast
    with g show ?thesis
      by (cases node; cases ob) (auto simp: fdt_get_node_handle_hash_def fdt_get_node_handle_def split: bind_splits)
  qed
  ultimately show ?thesis by blast
qed

theorem second_creation_disables_witness:
  "\<exists>hs'. CreatDtbHashTable_hash (\<lambda>_. True) driver_mem driver_blob
      (empty_hash \<lparr> phead_hash_node_table := [\<lparr> bl_blob = driver_blob, bl_nodes = [] \<rparr>] # replicate 9 [] \<rparr>) = Some (NOERROR, hs') \<and>
    map_option (\<lambda>(r, h, _). (r, h)) (fdt_get_node_handle_hash driver_mem no_blobs hs' (Some uart_node) driver_blob (Some (chars ''/mem''))) =
      fdt_get_node_handle driver_mem no_blobs (Some uart_node) driver_blob (Some (chars ''/mem''))"
proof -
  have "path_depth (chars ''/mem'') < hash_table_level" "length (chars ''/mem'') < 256" by code_simp+
  then show ?thesis by (intro second_creation_disables) (simp_all add: is_merge_dtb_def)
qed

end
