(* ===== verification/Fdt_Overlay.thy ===== *)
theory Fdt_Overlay
  imports Fdt_Rw
begin

text \<open>
  Applying an overlay to a tree (\<open>fdt_overlay.c\<close>). Base tree and overlay lie in one memory, which
  every step returns with its status. The loops evaluate the iterators of libfdt in the memory as it
  is at that moment. The name and the value that \<open>overlay_apply_node\<close> and \<open>overlay_symbol_update\<close>
  pass on are read before the base tree is changed, the code copies them in the course of the
  change: the same as long as the two blobs do not overlap.
\<close>

abbreviation (input) FDT_ERR_BADOVERLAY :: int where "FDT_ERR_BADOVERLAY \<equiv> 16"

section \<open>Loops that write\<close>

function (sequential) props_do :: "addr \<Rightarrow> (mem \<Rightarrow> int \<Rightarrow> (int \<times> mem) option) \<Rightarrow> mem \<Rightarrow> int \<Rightarrow> (int \<times> mem) option" where
  "props_do fdt body m property =
     (if property < 0 then Some (0, m)
      else do {
        (ret, m) \<leftarrow> body m property;
        if ret \<noteq> 0 then Some (ret, m)
        else do {
          nxt \<leftarrow> fdt_next_property_offset m fdt property;
          if nxt < 0 then Some (0, m) else props_do fdt body m nxt } })"
  by pat_completeness auto

termination props_do
  by (relation "measure (\<lambda>(fdt, b, m, p). walk_measure p)")
    (auto dest!: fdt_next_property_step simp del: in_measure simp: in_measure)

function (sequential) subnodes_do :: "addr \<Rightarrow> (mem \<Rightarrow> int \<Rightarrow> (int \<times> mem) option) \<Rightarrow> mem \<Rightarrow> int \<Rightarrow> (int \<times> mem) option" where
  "subnodes_do fdt body m node =
     (if node < 0 then Some (0, m)
      else do {
        (ret, m) \<leftarrow> body m node;
        if ret \<noteq> 0 then Some (ret, m)
        else do {
          nxt \<leftarrow> fdt_next_subnode m fdt node;
          if nxt < 0 then Some (0, m) else subnodes_do fdt body m nxt } })"
  by pat_completeness auto

termination subnodes_do
  by (relation "measure (\<lambda>(fdt, b, m, p). node_measure p)")
    (auto dest!: fdt_next_subnode_measure simp del: in_measure simp: in_measure)

declare props_do.simps [simp del] subnodes_do.simps [simp del]

definition for_each_property :: "addr \<Rightarrow> int \<Rightarrow> (mem \<Rightarrow> int \<Rightarrow> (int \<times> mem) option) \<Rightarrow> mem \<Rightarrow> (int \<times> mem) option" where
  "for_each_property fdt node body m = do {
     property \<leftarrow> fdt_first_property_offset m fdt node;
     props_do fdt body m property }"

definition for_each_subnode :: "addr \<Rightarrow> int \<Rightarrow> (mem \<Rightarrow> int \<Rightarrow> (int \<times> mem) option) \<Rightarrow> mem \<Rightarrow> (int \<times> mem) option" where
  "for_each_subnode fdt parent body m = do {
     node \<leftarrow> fdt_first_subnode m fdt parent;
     subnodes_do fdt body m node }"

text \<open>
  The depth-first walk of the recursive functions: \<open>body\<close> on a node before its subnodes. The
  argument is the first of the siblings.
\<close>

lemma first_subnode_less:
  assumes "fdt_first_subnode m fdt off = Some r" and "0 \<le> off"
  shows "(if r < 0 then 0 else Suc (node_measure r)) < Suc (node_measure off)"
proof (cases "r < 0")
  case False
  with assms have "node_measure r < node_measure off"
    by (auto simp: fdt_first_subnode_def bind_eq_Some_conv split: if_splits dest!: fdt_next_node_measure)
  with False show ?thesis by simp
qed simp

lemma next_subnode_less:
  "fdt_next_subnode m fdt off = Some r \<Longrightarrow> (if r < 0 then 0 else Suc (node_measure r)) < Suc (node_measure off)"
  using fdt_next_subnode_measure [of m fdt off r] by auto

section \<open>Targets\<close>

definition overlay_get_target_phandle :: "mem \<Rightarrow> addr \<Rightarrow> int \<Rightarrow> int option" where
  "overlay_get_target_phandle m fdto fragment = do {
     (val, len) \<leftarrow> fdt_getprop m fdto fragment (chars ''target'');
     if val = NULL then Some 0
     else if len \<noteq> 4 then Some 4294967295
     else fdt32_ld m val }"

text \<open>The offset of the target or an error, and \<open>*pathp\<close>, the path that led to it or NULL.\<close>

definition fdt_overlay_target_offset :: "mem \<Rightarrow> addr \<Rightarrow> addr \<Rightarrow> int \<Rightarrow> (int \<times> addr) option" where
  "fdt_overlay_target_offset m fdt fdto fragment_offset = do {
     phandle \<leftarrow> overlay_get_target_phandle m fdto fragment_offset;
     if phandle = 4294967295 then Some (- FDT_ERR_BADPHANDLE, NULL)
     else do {
       (ret, path, path_len) \<leftarrow>
         (if phandle = 0 then do {
            (path, path_len) \<leftarrow> fdt_getprop m fdto fragment_offset (chars ''target-path'');
            if path \<noteq> NULL then do {
              s \<leftarrow> c_str m path;
              ret \<leftarrow> fdt_path_offset m fdt s;
              Some (ret, path, path_len) }
            else Some (path_len, path, path_len) }
          else do {
            ret \<leftarrow> fdt_node_offset_by_phandle m fdt phandle;
            Some (ret, NULL, 0) });
       let ret = (if ret < 0 \<and> path_len = - FDT_ERR_NOTFOUND then - FDT_ERR_BADOVERLAY else ret);
       Some (ret, if ret < 0 then NULL else path) } }"

section \<open>Phandles of the overlay\<close>

definition overlay_phandle_add_offset :: "mem \<Rightarrow> addr \<Rightarrow> int \<Rightarrow> byte list \<Rightarrow> int \<Rightarrow> (int \<times> mem) option" where
  "overlay_phandle_add_offset m fdt node name delta = do {
     (valp, len) \<leftarrow> fdt_getprop m fdt node name;
     if valp = NULL then Some (len, m)
     else if len \<noteq> 4 then Some (- FDT_ERR_BADPHANDLE, m)
     else do {
       val \<leftarrow> fdt32_ld m valp;
       if u32 (val + delta) < val \<or> u32 (val + delta) = 4294967295 then Some (- FDT_ERR_NOPHANDLES, m)
       else do {
         m \<leftarrow> fdt32_st m valp (u32 (val + delta));
         Some (0, m) } } }"

text \<open>The part of \<open>overlay_adjust_node_phandles\<close> on the node itself.\<close>

definition adjust_phandles :: "mem \<Rightarrow> addr \<Rightarrow> int \<Rightarrow> int \<Rightarrow> (int \<times> mem) option" where
  "adjust_phandles m fdto node delta = do {
     (ret, m) \<leftarrow> overlay_phandle_add_offset m fdto node (chars ''phandle'') delta;
     if ret \<noteq> 0 \<and> ret \<noteq> - FDT_ERR_NOTFOUND then Some (ret, m)
     else do {
       (ret, m) \<leftarrow> overlay_phandle_add_offset m fdto node (chars ''linux,phandle'') delta;
       if ret \<noteq> 0 \<and> ret \<noteq> - FDT_ERR_NOTFOUND then Some (ret, m) else Some (0, m) } }"

function (sequential) adjust_children :: "mem \<Rightarrow> addr \<Rightarrow> int \<Rightarrow> int \<Rightarrow> (int \<times> mem) option" where
  "adjust_children m fdto child delta =
     (if child < 0 then Some (0, m)
      else do {
        (ret, m) \<leftarrow> adjust_phandles m fdto child delta;
        if ret \<noteq> 0 then Some (ret, m)
        else do {
          first \<leftarrow> fdt_first_subnode m fdto child;
          (ret, m) \<leftarrow> adjust_children m fdto first delta;
          if ret \<noteq> 0 then Some (ret, m)
          else do {
            nxt \<leftarrow> fdt_next_subnode m fdto child;
            adjust_children m fdto nxt delta } } })"
  by pat_completeness auto

termination adjust_children
  by (relation "measure (\<lambda>(m, fdto, x, d). if x < 0 then 0 else Suc (node_measure x))")
    (auto dest!: first_subnode_less next_subnode_less simp del: in_measure simp: in_measure split: if_splits)

declare adjust_children.simps [simp del]

definition overlay_adjust_node_phandles :: "mem \<Rightarrow> addr \<Rightarrow> int \<Rightarrow> int \<Rightarrow> (int \<times> mem) option" where
  "overlay_adjust_node_phandles m fdto node delta = do {
     (ret, m) \<leftarrow> adjust_phandles m fdto node delta;
     if ret \<noteq> 0 then Some (ret, m)
     else do {
       first \<leftarrow> fdt_first_subnode m fdto node;
       adjust_children m fdto first delta } }"

definition overlay_adjust_local_phandles :: "mem \<Rightarrow> addr \<Rightarrow> int \<Rightarrow> (int \<times> mem) option" where
  "overlay_adjust_local_phandles m fdto delta = overlay_adjust_node_phandles m fdto 0 delta"

section \<open>References in the overlay\<close>

text \<open>
  The loop over the offsets of the references of one property; an offset is not compared with the
  length of the property it points into. \<open>upd\<close> gives the new value of a reference that is written.
\<close>

fun each_reference :: "(int \<Rightarrow> int option) \<Rightarrow> addr \<Rightarrow> addr \<Rightarrow> nat \<Rightarrow> mem \<Rightarrow> mem option" where
  "each_reference upd tree_val fixup_val 0 m = Some m"
| "each_reference upd tree_val fixup_val (Suc n) m = do {
     off \<leftarrow> fdt32_ld m fixup_val;
     v \<leftarrow> fdt32_ld m (tree_val + off);
     m \<leftarrow> (case upd v of None \<Rightarrow> Some m | Some v' \<Rightarrow> fdt32_st m (tree_val + off) v');
     each_reference upd tree_val (fixup_val + 4) n m }"

text \<open>The body of the loop over the properties of a node of the local fixups.\<close>

definition update_property :: "(int \<Rightarrow> int option) \<Rightarrow> addr \<Rightarrow> int \<Rightarrow> mem \<Rightarrow> int \<Rightarrow> (int \<times> mem) option" where
  "update_property upd fdto tree_node m fixup_prop = do {
     (fixup_val, name, fixup_len) \<leftarrow> fdt_getprop_by_offset m fdto fixup_prop;
     if fixup_val = NULL then Some (fixup_len, m)
     else if fixup_len mod 4 \<noteq> 0 then Some (- FDT_ERR_BADOVERLAY, m)
     else do {
       s \<leftarrow> c_str m name;
       (tree_val, tree_len) \<leftarrow> fdt_getprop m fdto tree_node s;
       if tree_val = NULL
       then Some (if tree_len = - FDT_ERR_NOTFOUND then - FDT_ERR_BADOVERLAY else tree_len, m)
       else do {
         m \<leftarrow> each_reference upd tree_val fixup_val (nat (fixup_len div 4)) m;
         Some (0, m) } } }"

text \<open>The subnode of \<open>tree_node\<close> with the name of a node of the fixups.\<close>

definition matching_child :: "mem \<Rightarrow> addr \<Rightarrow> int \<Rightarrow> int \<Rightarrow> int option" where
  "matching_child m fdto tree_node fixup_child = do {
     (p, len) \<leftarrow> fdt_get_name m fdto fixup_child;
     name \<leftarrow> (if p = NULL then None else c_str m p);
     tree_child \<leftarrow> fdt_subnode_offset m fdto tree_node name;
     Some (if tree_child = - FDT_ERR_NOTFOUND then - FDT_ERR_BADOVERLAY else tree_child) }"

function (sequential) update_children :: "(int \<Rightarrow> int option) \<Rightarrow> mem \<Rightarrow> addr \<Rightarrow> int \<Rightarrow> int \<Rightarrow> (int \<times> mem) option" where
  "update_children upd m fdto tree_node fixup_child =
     (if fixup_child < 0 then Some (0, m)
      else do {
        tree_child \<leftarrow> matching_child m fdto tree_node fixup_child;
        if tree_child < 0 then Some (tree_child, m)
        else do {
          (ret, m) \<leftarrow> for_each_property fdto fixup_child (update_property upd fdto tree_child) m;
          if ret \<noteq> 0 then Some (ret, m)
          else do {
            first \<leftarrow> fdt_first_subnode m fdto fixup_child;
            (ret, m) \<leftarrow> update_children upd m fdto tree_child first;
            if ret \<noteq> 0 then Some (ret, m)
            else do {
              nxt \<leftarrow> fdt_next_subnode m fdto fixup_child;
              update_children upd m fdto tree_node nxt } } } })"
  by pat_completeness auto

termination update_children
  by (relation "measure (\<lambda>(u, m, fdto, t, x). if x < 0 then 0 else Suc (node_measure x))")
    (auto dest!: first_subnode_less next_subnode_less simp del: in_measure simp: in_measure split: if_splits)

declare update_children.simps [simp del]

definition update_node :: "(int \<Rightarrow> int option) \<Rightarrow> mem \<Rightarrow> addr \<Rightarrow> int \<Rightarrow> int \<Rightarrow> (int \<times> mem) option" where
  "update_node upd m fdto tree_node fixup_node = do {
     (ret, m) \<leftarrow> for_each_property fdto fixup_node (update_property upd fdto tree_node) m;
     if ret \<noteq> 0 then Some (ret, m)
     else do {
       first \<leftarrow> fdt_first_subnode m fdto fixup_node;
       update_children upd m fdto tree_node first } }"

definition overlay_update_local_node_references :: "mem \<Rightarrow> addr \<Rightarrow> int \<Rightarrow> int \<Rightarrow> int \<Rightarrow> (int \<times> mem) option" where
  "overlay_update_local_node_references m fdto tree_node fixup_node delta =
     update_node (\<lambda>v. Some (u32 (v + delta))) m fdto tree_node fixup_node"

definition overlay_update_local_references :: "mem \<Rightarrow> addr \<Rightarrow> int \<Rightarrow> (int \<times> mem) option" where
  "overlay_update_local_references m fdto delta = do {
     fixups \<leftarrow> fdt_path_offset m fdto (chars ''/__local_fixups__'');
     if fixups < 0 then Some (if fixups = - FDT_ERR_NOTFOUND then 0 else fixups, m)
     else overlay_update_local_node_references m fdto 0 fixups delta }"

definition overlay_update_node_conflicting_references ::
  "mem \<Rightarrow> addr \<Rightarrow> int \<Rightarrow> int \<Rightarrow> int \<Rightarrow> int \<Rightarrow> (int \<times> mem) option" where
  "overlay_update_node_conflicting_references m fdto tree_node fixup_node fdt_phandle fdto_phandle =
     update_node (\<lambda>v. if v = fdto_phandle then Some fdt_phandle else None) m fdto tree_node fixup_node"

definition overlay_update_local_conflicting_references :: "mem \<Rightarrow> addr \<Rightarrow> int \<Rightarrow> int \<Rightarrow> (int \<times> mem) option" where
  "overlay_update_local_conflicting_references m fdto fdt_phandle fdto_phandle = do {
     fixups \<leftarrow> fdt_path_offset m fdto (chars ''/__local_fixups__'');
     if fixups = - FDT_ERR_NOTFOUND then Some (0, m)
     else if fixups < 0 then Some (fixups, m)
     else overlay_update_node_conflicting_references m fdto 0 fixups fdt_phandle fdto_phandle }"

section \<open>References to the base tree\<close>

text \<open>
  \<open>strtoul (s, &endptr, 10)\<close>: the value, and the length of the part that was read, 0 when there is
  no number.
\<close>

definition is_space :: "byte \<Rightarrow> bool" where
  "is_space c \<longleftrightarrow> c = 32 \<or> (9 \<le> c \<and> c \<le> 13)"

definition strtoul :: "byte list \<Rightarrow> int \<times> nat" where
  "strtoul s =
     (let ws = takeWhile is_space s;
          s1 = drop (length ws) s;
          sign = (case s1 of c # _ \<Rightarrow> if c = 43 \<or> c = 45 then [c] else [] | [] \<Rightarrow> []);
          ds = takeWhile (\<lambda>c. 48 \<le> c \<and> c \<le> 57) (drop (length sign) s1);
          v = foldl (\<lambda>n c. n * 10 + (uint c - 48)) 0 ds
      in if ds = [] then (0, 0)
         else (if v > 18446744073709551615 then 18446744073709551615
               else if sign = [45] then u64 (- v) else v,
               length ws + length sign + length ds))"

definition overlay_fixup_one_phandle ::
  "mem \<Rightarrow> addr \<Rightarrow> int \<Rightarrow> byte list \<Rightarrow> byte list \<Rightarrow> int \<Rightarrow> int \<Rightarrow> (int \<times> mem) option" where
  "overlay_fixup_one_phandle m fdto symbols_off path name poffset phandle =
     (if symbols_off < 0 then Some (symbols_off, m)
      else do {
        fixup_off \<leftarrow> fdt_path_offset m fdto path;
        if fixup_off = - FDT_ERR_NOTFOUND then Some (- FDT_ERR_BADOVERLAY, m)
        else if fixup_off < 0 then Some (fixup_off, m)
        else fdt_setprop_inplace_namelen_partial m fdto fixup_off name (u32 poffset) (be32 phandle) 4 })"

text \<open>A fixup \<open>path:name:offset\<close>: its parts, or None when it does not have this form.\<close>

definition split_fixup :: "byte list \<Rightarrow> (byte list \<times> byte list \<times> int) option" where
  "split_fixup fix =
     (let path = takeWhile (\<lambda>c. c \<noteq> 58) fix
      in if length path = length fix \<or> length path = length fix - 1 then None
         else
           let rest = drop (length path + 1) fix;
               name = takeWhile (\<lambda>c. c \<noteq> 58) rest
           in if length name = length rest \<or> name = [] then None
              else
                let number = drop (length name + 1) rest;
                    (v, n) = strtoul number
                in if n \<noteq> length number \<or> n = 0 then None else Some (path, name, s32 v))"

text \<open>The loop over the fixups of one property, the strings of a list of \<open>len\<close> bytes.\<close>

function (sequential) fixup_strings :: "mem \<Rightarrow> addr \<Rightarrow> int \<Rightarrow> addr \<Rightarrow> int \<Rightarrow> int \<Rightarrow> (int \<times> mem) option" where
  "fixup_strings m fdto symbols_off val len phandle = do {
     fixup_end \<leftarrow> c_memchr m val 0 (nat len);
     if fixup_end = NULL then Some (- FDT_ERR_BADOVERLAY, m)
     else do {
       fix \<leftarrow> rd_bytes m val (nat (fixup_end - val));
       case split_fixup fix of
         None \<Rightarrow> Some (- FDT_ERR_BADOVERLAY, m)
       | Some (path, name, poffset) \<Rightarrow> do {
           (ret, m) \<leftarrow> overlay_fixup_one_phandle m fdto symbols_off path name poffset phandle;
           if ret \<noteq> 0 then Some (ret, m)
           else do {
             let len' = len - (fixup_end - val + 1);
             if len' > 0 then fixup_strings m fdto symbols_off (fixup_end + 1) len' phandle else Some (0, m) } } } }"
  by pat_completeness auto

termination fixup_strings
  by (relation "measure (\<lambda>(m, f, s, v, len, p). nat len)") (auto dest!: c_memchr_range)

declare fixup_strings.simps [simp del]

definition overlay_fixup_phandle :: "addr \<Rightarrow> addr \<Rightarrow> int \<Rightarrow> mem \<Rightarrow> int \<Rightarrow> (int \<times> mem) option" where
  "overlay_fixup_phandle fdt fdto symbols_off m property = do {
     (val, label, len) \<leftarrow> fdt_getprop_by_offset m fdto property;
     if val = NULL then Some (if len = - FDT_ERR_NOTFOUND then - FDT_ERR_INTERNAL else len, m)
     else do {
       s \<leftarrow> c_str m label;
       (symbol_path, prop_len) \<leftarrow> fdt_getprop m fdt symbols_off s;
       if symbol_path = NULL then Some (prop_len, m)
       else do {
         path \<leftarrow> c_str m symbol_path;
         symbol_off \<leftarrow> fdt_path_offset m fdt path;
         if symbol_off < 0 then Some (symbol_off, m)
         else do {
           phandle \<leftarrow> fdt_get_phandle m fdt symbol_off;
           if phandle = 0 then Some (- FDT_ERR_NOTFOUND, m)
           else fixup_strings m fdto symbols_off val len phandle } } } }"

definition overlay_fixup_phandles :: "mem \<Rightarrow> addr \<Rightarrow> addr \<Rightarrow> (int \<times> mem) option" where
  "overlay_fixup_phandles m fdt fdto = do {
     fixups_off \<leftarrow> fdt_path_offset m fdto (chars ''/__fixups__'');
     if fixups_off = - FDT_ERR_NOTFOUND then Some (0, m)
     else if fixups_off < 0 then Some (fixups_off, m)
     else do {
       symbols_off \<leftarrow> fdt_path_offset m fdt (chars ''/__symbols__'');
       if symbols_off < 0 \<and> symbols_off \<noteq> - FDT_ERR_NOTFOUND then Some (symbols_off, m)
       else for_each_property fdto fixups_off (overlay_fixup_phandle fdt fdto symbols_off) m } }"

section \<open>Conflicting phandles\<close>

definition fdt_setprop_inplace_u32 :: "mem \<Rightarrow> addr \<Rightarrow> int \<Rightarrow> byte list \<Rightarrow> int \<Rightarrow> (int \<times> mem) option" where
  "fdt_setprop_inplace_u32 m fdt nodeoffset name val = fdt_setprop_inplace m fdt nodeoffset name (be32 val) 4"

text \<open>The property is set when it has the size of a phandle.\<close>

definition replace_phandle :: "mem \<Rightarrow> addr \<Rightarrow> int \<Rightarrow> byte list \<Rightarrow> int \<Rightarrow> (int \<times> mem) option" where
  "replace_phandle m fdto node name fdt_phandle = do {
     (php, len) \<leftarrow> fdt_getprop m fdto node name;
     if php \<noteq> NULL \<and> len = 4 then fdt_setprop_inplace_u32 m fdto node name fdt_phandle else Some (0, m) }"

definition overlay_adjust_local_conflicting_phandle :: "mem \<Rightarrow> addr \<Rightarrow> int \<Rightarrow> int \<Rightarrow> (int \<times> mem) option" where
  "overlay_adjust_local_conflicting_phandle m fdto node fdt_phandle = do {
     (ret, m) \<leftarrow> replace_phandle m fdto node (chars ''phandle'') fdt_phandle;
     if ret \<noteq> 0 then Some (ret, m)
     else replace_phandle m fdto node (chars ''linux,phandle'') fdt_phandle }"

text \<open>The part of \<open>overlay_prevent_phandle_overwrite_node\<close> on the node itself.\<close>

definition prevent_overwrite :: "mem \<Rightarrow> addr \<Rightarrow> int \<Rightarrow> addr \<Rightarrow> int \<Rightarrow> (int \<times> mem) option" where
  "prevent_overwrite m fdt fdtnode fdto fdtonode = do {
     fdt_phandle \<leftarrow> fdt_get_phandle m fdt fdtnode;
     fdto_phandle \<leftarrow> fdt_get_phandle m fdto fdtonode;
     if fdt_phandle \<noteq> 0 \<and> fdto_phandle \<noteq> 0 then do {
       (ret, m) \<leftarrow> overlay_adjust_local_conflicting_phandle m fdto fdtonode fdt_phandle;
       if ret \<noteq> 0 then Some (ret, m)
       else overlay_update_local_conflicting_references m fdto fdt_phandle fdto_phandle }
     else Some (0, m) }"

text \<open>An error other than \<open>FDT_ERR_NOTFOUND\<close> of the search goes down with the recursion.\<close>

function (sequential) prevent_children :: "mem \<Rightarrow> addr \<Rightarrow> int \<Rightarrow> addr \<Rightarrow> int \<Rightarrow> (int \<times> mem) option" where
  "prevent_children m fdt fdtnode fdto fdtochild =
     (if fdtochild < 0 then Some (0, m)
      else do {
        (p, len) \<leftarrow> fdt_get_name m fdto fdtochild;
        name \<leftarrow> (if p = NULL then None else c_str m p);
        fdtchild \<leftarrow> fdt_subnode_offset m fdt fdtnode name;
        if fdtchild = - FDT_ERR_NOTFOUND then do {
          nxt \<leftarrow> fdt_next_subnode m fdto fdtochild;
          prevent_children m fdt fdtnode fdto nxt }
        else do {
          (ret, m) \<leftarrow> prevent_overwrite m fdt fdtchild fdto fdtochild;
          if ret \<noteq> 0 then Some (ret, m)
          else do {
            first \<leftarrow> fdt_first_subnode m fdto fdtochild;
            (ret, m) \<leftarrow> prevent_children m fdt fdtchild fdto first;
            if ret \<noteq> 0 then Some (ret, m)
            else do {
              nxt \<leftarrow> fdt_next_subnode m fdto fdtochild;
              prevent_children m fdt fdtnode fdto nxt } } } })"
  by pat_completeness auto

termination prevent_children
  by (relation "measure (\<lambda>(m, fdt, n, fdto, x). if x < 0 then 0 else Suc (node_measure x))")
    (auto dest!: first_subnode_less next_subnode_less simp del: in_measure simp: in_measure split: if_splits)

declare prevent_children.simps [simp del]

definition overlay_prevent_phandle_overwrite_node :: "mem \<Rightarrow> addr \<Rightarrow> int \<Rightarrow> addr \<Rightarrow> int \<Rightarrow> (int \<times> mem) option" where
  "overlay_prevent_phandle_overwrite_node m fdt fdtnode fdto fdtonode = do {
     (ret, m) \<leftarrow> prevent_overwrite m fdt fdtnode fdto fdtonode;
     if ret \<noteq> 0 then Some (ret, m)
     else do {
       first \<leftarrow> fdt_first_subnode m fdto fdtonode;
       prevent_children m fdt fdtnode fdto first } }"

definition overlay_prevent_phandle_overwrite :: "mem \<Rightarrow> addr \<Rightarrow> addr \<Rightarrow> (int \<times> mem) option" where
  "overlay_prevent_phandle_overwrite m fdt fdto = for_each_subnode fdto 0 (\<lambda>m fragment. do {
     overlay \<leftarrow> fdt_subnode_offset m fdto fragment (chars ''__overlay__'');
     if overlay = - FDT_ERR_NOTFOUND then Some (0, m)
     else if overlay < 0 then Some (overlay, m)
     else do {
       (target, path) \<leftarrow> fdt_overlay_target_offset m fdt fdto fragment;
       if target = - FDT_ERR_NOTFOUND then Some (0, m)
       else if target < 0 then Some (target, m)
       else overlay_prevent_phandle_overwrite_node m fdt target fdto overlay } }) m"

section \<open>Merging\<close>

text \<open>The loop over the properties of \<open>overlay_apply_node\<close>.\<close>

definition apply_property :: "addr \<Rightarrow> int \<Rightarrow> addr \<Rightarrow> mem \<Rightarrow> int \<Rightarrow> (int \<times> mem) option" where
  "apply_property fdt target fdto m property = do {
     (prop, name, prop_len) \<leftarrow> fdt_getprop_by_offset m fdto property;
     if prop_len = - FDT_ERR_NOTFOUND then Some (- FDT_ERR_INTERNAL, m)
     else if prop_len < 0 then Some (prop_len, m)
     else do {
       s \<leftarrow> c_str m name;
       val \<leftarrow> rd_bytes m prop (nat prop_len);
       fdt_setprop m fdt target s val prop_len } }"

definition apply_properties :: "mem \<Rightarrow> addr \<Rightarrow> int \<Rightarrow> addr \<Rightarrow> int \<Rightarrow> (int \<times> mem) option" where
  "apply_properties m fdt target fdto node = for_each_property fdto node (apply_property fdt target fdto) m"

text \<open>The node of the base tree for a subnode of the overlay, a new one or one that exists.\<close>

definition target_child :: "mem \<Rightarrow> addr \<Rightarrow> int \<Rightarrow> addr \<Rightarrow> int \<Rightarrow> (int \<times> mem) option" where
  "target_child m fdt target fdto subnode = do {
     (p, len) \<leftarrow> fdt_get_name m fdto subnode;
     name \<leftarrow> (if p = NULL then None else c_str m p);
     (nnode, m) \<leftarrow> fdt_add_subnode m fdt target name;
     if nnode = - FDT_ERR_EXISTS then do {
       nnode \<leftarrow> fdt_subnode_offset m fdt target name;
       Some (if nnode = - FDT_ERR_NOTFOUND then - FDT_ERR_INTERNAL else nnode, m) }
     else Some (nnode, m) }"

function (sequential) apply_children :: "mem \<Rightarrow> addr \<Rightarrow> int \<Rightarrow> addr \<Rightarrow> int \<Rightarrow> (int \<times> mem) option" where
  "apply_children m fdt target fdto subnode =
     (if subnode < 0 then Some (0, m)
      else do {
        (nnode, m) \<leftarrow> target_child m fdt target fdto subnode;
        if nnode < 0 then Some (nnode, m)
        else do {
          (ret, m) \<leftarrow> apply_properties m fdt nnode fdto subnode;
          if ret \<noteq> 0 then Some (ret, m)
          else do {
            first \<leftarrow> fdt_first_subnode m fdto subnode;
            (ret, m) \<leftarrow> apply_children m fdt nnode fdto first;
            if ret \<noteq> 0 then Some (ret, m)
            else do {
              nxt \<leftarrow> fdt_next_subnode m fdto subnode;
              apply_children m fdt target fdto nxt } } } })"
  by pat_completeness auto

termination apply_children
  by (relation "measure (\<lambda>(m, fdt, n, fdto, x). if x < 0 then 0 else Suc (node_measure x))")
    (auto dest!: first_subnode_less next_subnode_less simp del: in_measure simp: in_measure split: if_splits)

declare apply_children.simps [simp del]

definition overlay_apply_node :: "mem \<Rightarrow> addr \<Rightarrow> int \<Rightarrow> addr \<Rightarrow> int \<Rightarrow> (int \<times> mem) option" where
  "overlay_apply_node m fdt target fdto node = do {
     (ret, m) \<leftarrow> apply_properties m fdt target fdto node;
     if ret \<noteq> 0 then Some (ret, m)
     else do {
       first \<leftarrow> fdt_first_subnode m fdto node;
       apply_children m fdt target fdto first } }"

definition overlay_merge :: "mem \<Rightarrow> addr \<Rightarrow> addr \<Rightarrow> (int \<times> mem) option" where
  "overlay_merge m fdt fdto = for_each_subnode fdto 0 (\<lambda>m fragment. do {
     overlay \<leftarrow> fdt_subnode_offset m fdto fragment (chars ''__overlay__'');
     if overlay = - FDT_ERR_NOTFOUND then Some (0, m)
     else if overlay < 0 then Some (overlay, m)
     else do {
       (target, path) \<leftarrow> fdt_overlay_target_offset m fdt fdto fragment;
       if target < 0 then Some (target, m)
       else overlay_apply_node m fdt target fdto overlay } }) m"

section \<open>Symbols\<close>

text \<open>The loop of \<open>get_path_len\<close> from a node up to the root.\<close>

partial_function (option) path_len_loop :: "mem \<Rightarrow> addr \<Rightarrow> int \<Rightarrow> int \<Rightarrow> int option" where
  "path_len_loop m fdt nodeoffset len = do {
     (name, namelen) \<leftarrow> fdt_get_name m fdt nodeoffset;
     if name = NULL then Some namelen
     else if namelen = 0 then Some (if len = 0 then 1 else len)
     else do {
       nodeoffset' \<leftarrow> fdt_parent_offset m fdt nodeoffset;
       if nodeoffset' < 0 then Some nodeoffset' else path_len_loop m fdt nodeoffset' (len + namelen + 1) } }"

declare path_len_loop.simps [code]

definition get_path_len :: "mem \<Rightarrow> addr \<Rightarrow> int \<Rightarrow> int option" where
  "get_path_len m fdt nodeoffset = do {
     err \<leftarrow> fdt_ro_probe m fdt;
     if err < 0 then Some err else path_len_loop m fdt nodeoffset 0 }"

definition fdt_setprop_placeholder :: "mem \<Rightarrow> addr \<Rightarrow> int \<Rightarrow> byte list \<Rightarrow> int \<Rightarrow> (int \<times> addr \<times> mem) option" where
  "fdt_setprop_placeholder m fdt nodeoffset name len =
     fdt_setprop_placeholder_namelen m fdt nodeoffset name (length name) len"

text \<open>
  A symbol \<open>/fragment/__overlay__\<close> or \<open>/fragment/__overlay__/path\<close>: the name of the fragment and
  the path below the overlay; None for a symbol that does not end up in the base tree.
\<close>

definition split_symbol :: "byte list \<Rightarrow> (byte list \<times> byte list) option" where
  "split_symbol path =
     (let frag = takeWhile (\<lambda>c. c \<noteq> 47) (drop 1 path);
          s = dropWhile (\<lambda>c. c \<noteq> 47) (drop 1 path)
      in if s = [] then None
         else if length s + 1 > 13 \<and> take 13 s = chars ''/__overlay__/'' then Some (frag, drop 13 s)
         else if length s + 1 = 13 \<and> take 12 s = chars ''/__overlay__'' then Some (frag, [])
         else None)"

text \<open>
  The text of the new symbol in the property at \<open>buf\<close>: the path of the target, unless it is the
  root, a slash and the path below the overlay. What \<open>fdt_get_path\<close> leaves in the buffer when it
  fails is not modelled.
\<close>

definition write_symbol :: "mem \<Rightarrow> addr \<Rightarrow> addr \<Rightarrow> int \<Rightarrow> byte list option \<Rightarrow> int \<Rightarrow> byte list \<Rightarrow> (int \<times> mem) option" where
  "write_symbol m buf fdt target target_path len rel_path = do {
     (ret, m) \<leftarrow> (if len > 1 then
         (case target_path of
            None \<Rightarrow> do {
              (ret, text) \<leftarrow> fdt_get_path m fdt target (len + 1);
              if ret < 0 then Some (ret, m)
              else do { m \<leftarrow> wr m buf (text @ [0]); Some (0, m) } }
          | Some text \<Rightarrow> do { m \<leftarrow> copy_in m buf (text @ [0]) (len + 1); Some (0, m) })
       else Some (0, m));
     if ret < 0 then Some (ret, m)
     else do {
       let len = (if len > 1 then len else len - 1);
       m \<leftarrow> wr m (buf + len) [47];
       m \<leftarrow> wr m (buf + len + 1) rel_path;
       m \<leftarrow> wr m (buf + len + 1 + int (length rel_path)) [0];
       Some (0, m) } }"

text \<open>The symbol of a path below the target of a fragment.\<close>

definition add_symbol ::
  "mem \<Rightarrow> addr \<Rightarrow> addr \<Rightarrow> int \<Rightarrow> byte list \<Rightarrow> int \<Rightarrow> byte list \<Rightarrow> (int \<times> mem) option" where
  "add_symbol m fdt fdto root_sym name fragment rel_path = do {
     (target, path) \<leftarrow> fdt_overlay_target_offset m fdt fdto fragment;
     if target < 0 then Some (target, m)
     else do {
       target_path \<leftarrow> (if path = NULL then Some None else map_option Some (c_str m path));
       len \<leftarrow> (case target_path of
           None \<Rightarrow> get_path_len m fdt target
         | Some text \<Rightarrow> Some (s32 (int (length text))));
       if target_path = None \<and> len < 0 then Some (len, m)
       else do {
         (ret, p, m) \<leftarrow> fdt_setprop_placeholder m fdt root_sym name
           (len + (if len > 1 then 1 else 0) + int (length rel_path) + 1);
         if ret < 0 then Some (ret, m)
         else case target_path of
             Some text \<Rightarrow> write_symbol m p fdt target (Some text) len rel_path
           | None \<Rightarrow> do {
               (target, path) \<leftarrow> fdt_overlay_target_offset m fdt fdto fragment;
               if target < 0 then Some (target, m)
               else do {
                 target_path \<leftarrow> (if path = NULL then Some None else map_option Some (c_str m path));
                 write_symbol m p fdt target target_path len rel_path } } } } }"

text \<open>The body of the loop over the symbols of the overlay.\<close>

definition update_symbol :: "addr \<Rightarrow> addr \<Rightarrow> int \<Rightarrow> mem \<Rightarrow> int \<Rightarrow> (int \<times> mem) option" where
  "update_symbol fdt fdto root_sym m prop = do {
     (path, name, path_len) \<leftarrow> fdt_getprop_by_offset m fdto prop;
     if path = NULL then Some (path_len, m)
     else if path_len < 1 then Some (- FDT_ERR_BADVALUE, m)
     else do {
       e \<leftarrow> c_memchr m path 0 (nat path_len);
       if e \<noteq> path + path_len - 1 then Some (- FDT_ERR_BADVALUE, m)
       else do {
         text \<leftarrow> rd_bytes m path (nat (path_len - 1));
         if text = [] \<or> hd text \<noteq> 47 then Some (- FDT_ERR_BADVALUE, m)
         else case split_symbol text of
             None \<Rightarrow> Some (0, m)
           | Some (frag_name, rel_path) \<Rightarrow> do {
               fragment \<leftarrow> fdt_subnode_offset_namelen m fdto 0 frag_name;
               if fragment < 0 then Some (- FDT_ERR_BADOVERLAY, m)
               else do {
                 ret \<leftarrow> fdt_subnode_offset m fdto fragment (chars ''__overlay__'');
                 if ret < 0 then Some (- FDT_ERR_BADOVERLAY, m)
                 else do {
                   s \<leftarrow> c_str m name;
                   add_symbol m fdt fdto root_sym s fragment rel_path } } } } } }"

definition overlay_symbol_update :: "mem \<Rightarrow> addr \<Rightarrow> addr \<Rightarrow> (int \<times> mem) option" where
  "overlay_symbol_update m fdt fdto = do {
     ov_sym \<leftarrow> fdt_subnode_offset m fdto 0 (chars ''__symbols__'');
     if ov_sym < 0 then Some (0, m)
     else do {
       root_sym \<leftarrow> fdt_subnode_offset m fdt 0 (chars ''__symbols__'');
       (root_sym, m) \<leftarrow> (if root_sym = - FDT_ERR_NOTFOUND
          then fdt_add_subnode m fdt 0 (chars ''__symbols__'') else Some (root_sym, m));
       if root_sym < 0 then Some (root_sym, m)
       else for_each_property fdto ov_sym (update_symbol fdt fdto root_sym) m } }"

section \<open>Applying an overlay\<close>

text \<open>The steps behind the probes, each of them after the success of the one before.\<close>

definition overlay_steps :: "mem \<Rightarrow> addr \<Rightarrow> addr \<Rightarrow> (int \<times> mem) option" where
  "overlay_steps m fdt fdto = do {
     (ret, delta) \<leftarrow> fdt_find_max_phandle m fdt;
     if ret \<noteq> 0 then Some (ret, m)
     else do {
       (ret, m) \<leftarrow> overlay_adjust_local_phandles m fdto delta;
       if ret \<noteq> 0 then Some (ret, m)
       else do {
         (ret, m) \<leftarrow> overlay_update_local_references m fdto delta;
         if ret \<noteq> 0 then Some (ret, m)
         else do {
           (ret, m) \<leftarrow> overlay_fixup_phandles m fdt fdto;
           if ret \<noteq> 0 then Some (ret, m)
           else do {
             (ret, m) \<leftarrow> overlay_prevent_phandle_overwrite m fdt fdto;
             if ret \<noteq> 0 then Some (ret, m)
             else do {
               (ret, m) \<leftarrow> overlay_merge m fdt fdto;
               if ret \<noteq> 0 then Some (ret, m)
               else overlay_symbol_update m fdt fdto } } } } } }"

definition fdt_overlay_apply :: "mem \<Rightarrow> addr \<Rightarrow> addr \<Rightarrow> (int \<times> mem) option" where
  "fdt_overlay_apply m fdt fdto = do {
     err \<leftarrow> fdt_ro_probe m fdt;
     if err < 0 then Some (err, m)
     else do {
       err \<leftarrow> fdt_ro_probe m fdto;
       if err < 0 then Some (err, m)
       else do {
         (ret, m) \<leftarrow> overlay_steps m fdt fdto;
         m \<leftarrow> fdt_set_magic m fdto 4294967295;
         if ret = 0 then Some (0, m)
         else do {
           m \<leftarrow> fdt_set_magic m fdt 4294967295;
           Some (ret, m) } } } }"

end
