(* ===== verification/Overlay_Props.thy ===== *)
theory Overlay_Props
  imports Fdt_Overlay Fdt_Store
begin

text \<open>
  What the overlays do to a tree: the properties of a node of the overlay are merged into the
  properties of the target, and a failure marks both trees.
\<close>

section \<open>The properties of a node, one after the other\<close>

lemma layout_cong:
  assumes l: "layout m fdt ts os ot S T" and eq: "\<And>x. fdt \<le> x \<Longrightarrow> x < fdt + ts \<Longrightarrow> m' x = m x"
  shows "layout m' fdt ts os ot S T"
proof -
  note l' = layout_fields [OF l]
  have w: "fdt32_ld m' (fdt + k) = fdt32_ld m (fdt + k)" if "0 \<le> k" "k \<le> 36" for k
    using that l' by (intro fdt32_ld_cong eq) auto
  have "fdt32_ld m' fdt = fdt32_ld m fdt" using w [of 0] by simp
  moreover have "rd_bytes m' (fdt + os) (length S) = Some S" "rd_bytes m' (fdt + ot) (length T) = Some T"
    using l'(14,15) l' eq unfolding rd_bytes_iff by auto
  moreover have "mapped m' fdt ts" using l'(13) eq unfolding mapped_def by auto
  ultimately show ?thesis using l w unfolding layout_def
    by (simp add: fdt_magic_def fdt_version_def fdt_totalsize_def fdt_last_comp_version_def fdt_off_dt_struct_def
      fdt_off_dt_strings_def fdt_off_mem_rsvmap_def fdt_size_dt_strings_def fdt_size_dt_struct_def)
qed

lemma nextprop_layout:
  assumes l: "layout m fdt ts os ot S T" and pre: "length pre mod 4 = 0"
  shows "S = pre @ post \<Longrightarrow> props_end post \<Longrightarrow> nextprop m fdt (int (length pre)) = Some (- FDT_ERR_NOTFOUND)"
    "S = pre @ be32 FDT_NOP @ post \<Longrightarrow> nextprop m fdt (int (length pre)) = nextprop m fdt (int (length (pre @ be32 FDT_NOP)))"
    "S = pre @ b @ post \<Longrightarrow> prop_enc T n v b \<Longrightarrow> nextprop m fdt (int (length pre)) = Some (int (length pre))"
proof -
  assume S: "S = pre @ post" and e: "props_end post"
  from e consider r where "post = be32 FDT_END_NODE @ r"
    | nm r where "post = be32 FDT_BEGIN_NODE @ nm @ [0] @ r" "0 \<notin> set nm" unfolding props_end_def by blast
  then show "nextprop m fdt (int (length pre)) = Some (- FDT_ERR_NOTFOUND)"
  proof cases
    case 1
    with next_tag_simple [OF l, of pre FDT_END_NODE r] S pre show ?thesis by (subst nextprop.simps) simp
  next
    case 2
    with next_tag_begin [OF l, of pre nm r] S show ?thesis by (subst nextprop.simps) simp
  qed
next
  assume S: "S = pre @ be32 FDT_NOP @ post"
  with next_tag_simple [OF l S _ pre] show
    "nextprop m fdt (int (length pre)) = nextprop m fdt (int (length (pre @ be32 FDT_NOP)))"
    by (subst nextprop.simps) (simp add: ac_simps)
next
  assume S: "S = pre @ b @ post" and b: "prop_enc T n v b"
  from next_tag_prop_enc(1) [OF l S b pre] show "nextprop m fdt (int (length pre)) = Some (int (length pre))"
    by (subst nextprop.simps) simp
qed

lemma prop_at_layout:
  assumes l: "layout m fdt ts os ot S T" and S: "S = pre @ b @ post" and b: "prop_enc T n v b" and pre: "length pre mod 4 = 0"
  shows "fdt_next_property_offset m fdt (int (length pre)) = nextprop m fdt (int (length (pre @ b)))"
    "\<exists>p np. fdt_getprop_by_offset m fdt (int (length pre)) = Some (p, np, int (length v)) \<and>
       rd_bytes m p (length v) = Some v \<and> c_str m np = Some n"
proof -
  note l' = layout_fields [OF l] and t = next_tag_prop_enc [OF l S b pre]
  have c: "fdt_check_prop_offset m fdt (int (length pre)) = Some (int (length (pre @ b)))"
  proof -
    have "int (length pre) mod 4 = 0" using pre by presburger
    with t(1) show ?thesis by (simp add: fdt_check_prop_offset_def)
  qed
  then show "fdt_next_property_offset m fdt (int (length pre)) = nextprop m fdt (int (length (pre @ b)))"
    by (simp add: fdt_next_property_offset_def)
  from t(3) obtain k where k: "fdt32_ld m (fdt + os + int (length pre) + 8) = Some (int k)" "int k \<le> INT_MAX"
    "name_at T k n" by blast
  have s: "s32 (int k) = int k" using k(2) by (intro s32_id) auto
  have ne: "fdt + os + int (length pre) \<noteq> 0" using l' by linarith
  from b obtain k' pad where e: "b = be32 3 @ be32 (int (length v)) @ be32 (int k') @ v @ pad"
    unfolding prop_enc_def by auto
  have len: "fdt32_ld m (fdt + os + int (length pre) + 4) = Some (u32 (int (length v)))"
    using layout_word [OF l, of "pre @ be32 3" "int (length v)"] S e by (simp add: ac_simps)
  note g = layout_get_string [OF l k(3)]
  have c: "c_str m (fdt + (int k + ot)) = Some n" using g(2,3) by (simp add: c_str_def c_strlen_str_end)
  have "fdt_getprop_by_offset m fdt (int (length pre)) =
      Some (fdt + os + int (length pre) + 12, fdt + (int k + ot), int (length v))"
    unfolding fdt_getprop_by_offset_def t(2) Option.bind.simps using k(1) s ne len g(1,4) l'(3)
    by (simp add: prop_data_def)
  with c prop_enc_value [OF l S b]
  show "\<exists>p np. fdt_getprop_by_offset m fdt (int (length pre)) = Some (p, np, int (length v)) \<and>
       rd_bytes m p (length v) = Some v \<and> c_str m np = Some n" by blast
qed

text \<open>The properties of the target after those of the overlay have been set, one after the other.\<close>

definition merge_props :: "(byte list \<times> byte list) list \<Rightarrow> (byte list \<times> byte list) list \<Rightarrow> (byte list \<times> byte list) list" where
  "merge_props ps qs = foldl (\<lambda>ps (n, v). set_prop n v ps) ps qs"

lemma merge_props_simps [simp]: "merge_props ps [] = ps" "merge_props ps ((n, v) # qs) = merge_props (set_prop n v ps) qs"
  by (simp_all add: merge_props_def)

lemma map_of_merge_props: "distinct (map fst qs) \<Longrightarrow> map_of (merge_props ps qs) = map_of ps ++ map_of qs"
  by (induction qs arbitrary: ps) (auto simp: map_of_set_prop map_add_def fun_eq_iff split: option.splits dest: map_of_SomeD intro: rev_image_eqI)

definition apart :: "addr \<Rightarrow> int \<Rightarrow> addr \<Rightarrow> int \<Rightarrow> bool" where
  "apart a n b k \<longleftrightarrow> a + n \<le> b \<or> b + k \<le> a"

lemma kept_layout:
  assumes "layout m fdto ts' os' ot' S T" and "kept m m' fdt os ts" and "apart fdt ts fdto ts'"
  shows "layout m' fdto ts' os' ot' S T"
  using assms(2,3) by (intro layout_cong [OF assms(1)]) (auto simp: kept_def apart_def)

lemma kept_node_at:
  assumes "node_at fdto ts' os' off m ps" and "kept m m' fdt os ts" and "apart fdt ts fdto ts'"
  shows "node_at fdto ts' os' off m' ps"
proof -
  from assms(1) obtain ot pre he post T where v: "node_view m fdto ts' os' ot pre he ps post T"
    and off: "off = int (length pre)" "ts' \<le> 1000000000" unfolding node_at_def by (elim exE conjE) (rule that)
  from v kept_layout [OF _ assms(2,3)] have "node_view m' fdto ts' os' ot pre he ps post T"
    unfolding node_view_def by (elim exE conjE) (intro exI conjI, assumption+)
  with off show ?thesis by (intro node_atI)
qed

lemma apply_property_ok:
  assumes at: "node_at fdt ts os target m ps" and l: "layout m fdto ts' os' ot' S T" and S: "S = pre @ b @ post"
    and b: "prop_enc T n v b" and pre: "length pre mod 4 = 0" and ts: "ts' \<le> 1000000000"
  shows "\<exists>c m'. apply_property fdt target fdto m (int (length pre)) = Some (c, m') \<and> kept m m' fdt os ts \<and>
    (c = 0 \<and> node_at fdt ts os target m' (set_prop n v ps) \<or> c = - FDT_ERR_NOSPACE \<and> node_at fdt ts os target m' ps)"
proof -
  note l' = layout_fields [OF l]
  from prop_at_layout(2) [OF l S b pre] obtain p np where
    g: "fdt_getprop_by_offset m fdto (int (length pre)) = Some (p, np, int (length v))"
      "rd_bytes m p (length v) = Some v" "c_str m np = Some n" by blast
  have a: "apply_property fdt target fdto m (int (length pre)) = fdt_setprop m fdt target n v (int (length v))"
    using g by (simp add: apply_property_def)
  from b have n: "0 \<notin> set n" "int (length n) < INT_MAX" using l' by (auto simp: prop_enc_def name_at_def)
  from prop_enc_length [OF b] S talign_bounds(1) [of "length v"] have "int (length v) \<le> 1000000000" using l' ts by auto
  then have len: "int (length v) \<le> 2147483600" by simp
  from at obtain ot pre2 he post2 T2 where v': "node_view m fdt ts os ot pre2 he ps post2 T2"
    and off: "target = int (length pre2)" and ts2: "ts \<le> 1000000000" unfolding node_at_def by (elim exE conjE) (rule that)
  from node_view_setprop [OF v' n len] obtain c m' ot3 T3 where
    "fdt_setprop m fdt target n v (int (length v)) = Some (c, m')" "kept m m' fdt os ts"
    "c = 0 \<and> node_view m' fdt ts os ot3 pre2 he (set_prop n v ps) post2 (T2 @ T3) \<or>
     c = - FDT_ERR_NOSPACE \<and> node_view m' fdt ts os ot pre2 he ps post2 T2"
    unfolding off [symmetric] by (elim exE conjE) (rule that)
  with node_atI [OF _ off ts2] show ?thesis unfolding a by blast
qed

text \<open>The loop over the properties, started behind \<open>pre\<close>.\<close>

definition props_from :: "addr \<Rightarrow> (mem \<Rightarrow> int \<Rightarrow> (int \<times> mem) option) \<Rightarrow> mem \<Rightarrow> int \<Rightarrow> (int \<times> mem) option" where
  "props_from fdt body m offset = do { first \<leftarrow> nextprop m fdt offset; props_do fdt body m first }"

lemma props_from_next:
  assumes l: "layout m fdto ts os ot S T" and S: "S = pre @ b @ post" and b: "prop_enc T n v b" and pre: "length pre mod 4 = 0"
    and body: "body m (int (length pre)) = Some (c, m')" and l2: "layout m' fdto ts os ot S T"
  shows "props_from fdto body m (int (length pre)) =
    (if c = 0 then props_from fdto body m' (int (length (pre @ b))) else Some (c, m'))"
proof -
  have "nextprop m fdto (int (length pre)) = Some (int (length pre))"
    by (rule nextprop_layout(3) [OF l pre S b])
  moreover have "props_do fdto body m' y = Some (0, m')" if "y < 0" for y using that by (simp add: props_do.simps)
  ultimately show ?thesis using body prop_at_layout(1) [OF l2 S b pre]
    by (cases "nextprop m' fdto (int (length (pre @ b)))") (simp_all add: props_from_def props_do.simps [of fdto body m])
qed

lemma props_merged:
  assumes "props_enc T qs bs" and "props_end post" and "length pre mod 4 = 0"
    and "layout m fdto ts' os' ot' (pre @ bs @ post) T" and "ts' \<le> 1000000000" and "apart fdt ts fdto ts'"
    and "node_at fdt ts os target m ps"
  shows "\<exists>c m'. props_from fdto (apply_property fdt target fdto) m (int (length pre)) = Some (c, m') \<and> kept m m' fdt os ts \<and>
    (c = 0 \<and> node_at fdt ts os target m' (merge_props ps qs) \<or>
     c = - FDT_ERR_NOSPACE \<and> (\<exists>qs1 q qs2. qs = qs1 @ q # qs2 \<and> node_at fdt ts os target m' (merge_props ps qs1)))"
  using assms
proof (induction arbitrary: pre m ps rule: props_enc.induct)
  case none
  then have "nextprop m fdto (int (length pre)) = Some (- FDT_ERR_NOTFOUND)"
    by (intro nextprop_layout(1)) auto
  with none show ?case by (auto simp: props_from_def props_do.simps)
next
  case (prop_first n v b qs bs)
  from prop_first.prems have l: "layout m fdto ts' os' ot' (pre @ (b @ bs) @ post) T" by simp
  then have l1: "layout m fdto ts' os' ot' (pre @ b @ bs @ post) T" by simp
  from apply_property_ok [OF prop_first.prems(6) l1 refl prop_first.hyps(1) prop_first.prems(2,4)]
  obtain c m1 where m1: "apply_property fdt target fdto m (int (length pre)) = Some (c, m1)" "kept m m1 fdt os ts"
    "c = 0 \<and> node_at fdt ts os target m1 (set_prop n v ps) \<or> c = - FDT_ERR_NOSPACE \<and> node_at fdt ts os target m1 ps" by blast
  note l2 = kept_layout [OF l1 m1(2) prop_first.prems(5)]
  note step = props_from_next [where body = "apply_property fdt target fdto" and m = m,
      OF l1 refl prop_first.hyps(1) prop_first.prems(2) m1(1) l2]
  from m1(3) show ?case
  proof (elim disjE conjE)
    assume c: "c = 0" and at: "node_at fdt ts os target m1 (set_prop n v ps)"
    have lb: "length (pre @ b) mod 4 = 0"
      using prop_first.prems(2) prop_enc_length [OF prop_first.hyps(1)] by (simp add: mod_add_eq [symmetric])
    from l2 have l3: "layout m1 fdto ts' os' ot' ((pre @ b) @ bs @ post) T" by simp
    from prop_first.IH [OF prop_first.prems(1) lb l3 prop_first.prems(4,5) at] obtain c' m2 where
      "props_from fdto (apply_property fdt target fdto) m1 (int (length (pre @ b))) = Some (c', m2)" and k: "kept m1 m2 fdt os ts" and
      d: "c' = 0 \<and> node_at fdt ts os target m2 (merge_props (set_prop n v ps) qs) \<or>
       c' = - FDT_ERR_NOSPACE \<and> (\<exists>qs1 q qs2. qs = qs1 @ q # qs2 \<and> node_at fdt ts os target m2 (merge_props (set_prop n v ps) qs1))"
      by (elim exE conjE) (rule that)
    with step c have f: "props_from fdto (apply_property fdt target fdto) m (int (length pre)) = Some (c', m2)" by simp
    note k2 = kept_trans [OF m1(2) k]
    from d show ?thesis
    proof (elim disjE conjE exE)
      fix qs1 q qs2
      assume "c' = - FDT_ERR_NOSPACE" "qs = qs1 @ q # qs2" "node_at fdt ts os target m2 (merge_props (set_prop n v ps) qs1)"
      then have "(n, v) # qs = ((n, v) # qs1) @ q # qs2" "node_at fdt ts os target m2 (merge_props ps ((n, v) # qs1))" by simp_all
      with f k2 \<open>c' = - FDT_ERR_NOSPACE\<close> show ?thesis by blast
    qed (use f k2 in auto)
  next
    assume c: "c = - FDT_ERR_NOSPACE" and at: "node_at fdt ts os target m1 ps"
    have "(n, v) # qs = [] @ (n, v) # qs" by simp
    then have "\<exists>qs1 q qs2. (n, v) # qs = qs1 @ q # qs2 \<and> node_at fdt ts os target m1 (merge_props ps qs1)"
      using at by (intro exI [of _ "[]"]) simp
    moreover from step c have "props_from fdto (apply_property fdt target fdto) m (int (length pre)) = Some (c, m1)" by simp
    ultimately show ?thesis using c m1(2) by blast
  qed
next
  case (nop_first qs bs)
  from nop_first.prems have l: "layout m fdto ts' os' ot' (pre @ be32 FDT_NOP @ bs @ post) T" by simp
  have p: "props_from fdto body m (int (length pre)) = props_from fdto body m (int (length (pre @ be32 FDT_NOP)))" for body
    using nextprop_layout(2) [OF l nop_first.prems(2) refl] by (simp add: props_from_def)
  have "length (pre @ be32 FDT_NOP) mod 4 = 0" using nop_first.prems(2) by simp
  moreover from l have "layout m fdto ts' os' ot' ((pre @ be32 FDT_NOP) @ bs @ post) T" by simp
  ultimately show ?case unfolding p by (rule nop_first.IH [OF nop_first.prems(1) _ _ nop_first.prems(4-6)])
qed

lemma apply_properties_merge:
  assumes at: "node_at fdt ts os target m ps" and ov: "node_at fdto ts' os' off m qs" and d: "apart fdt ts fdto ts'"
  shows "\<exists>c m'. apply_properties m fdt target fdto off = Some (c, m') \<and> kept m m' fdt os ts \<and>
    (c = 0 \<and> node_at fdt ts os target m' (merge_props ps qs) \<or>
     c = - FDT_ERR_NOSPACE \<and> (\<exists>qs1 q qs2. qs = qs1 @ q # qs2 \<and> node_at fdt ts os target m' (merge_props ps qs1)))"
proof -
  from ov obtain ot' pre he post T where v: "node_view m fdto ts' os' ot' pre he qs post T"
    and off: "off = int (length pre)" and ts: "ts' \<le> 1000000000" unfolding node_at_def by (elim exE conjE) (rule that)
  then obtain bs nm where w: "layout m fdto ts' os' ot' (pre @ he @ bs @ post) T" "length pre mod 4 = 0" "node_head nm he"
    "props_enc T qs bs" "props_end post" unfolding node_view_def by (elim exE conjE) (rule that)
  have p: "apply_properties m fdt target fdto off = props_from fdto (apply_property fdt target fdto) m (int (length (pre @ he)))"
    using node_check_offset(1) [OF w(1) refl w(3,2)]
    by (simp add: apply_properties_def for_each_property_def props_from_def fdt_first_property_offset_def off)
  from w(1) have l: "layout m fdto ts' os' ot' ((pre @ he) @ bs @ post) T" by simp
  have "length (pre @ he) mod 4 = 0" using w(2) node_head_length [OF w(3)] by (simp add: mod_add_eq [symmetric])
  then show ?thesis unfolding p by (rule props_merged [OF w(4,5) _ l ts d at])
qed

end
