(* ===== verification/Ext_Merge.thy ===== *)
theory Ext_Merge
  imports Fdt_Overlay Ext_Core
begin

text \<open>
  \<open>fdt_merge_overlay\<close> (\<open>DTBExtnLib_overlay.c\<close>): a base tree and an overlay are checked, the base is
  opened in the buffer of the result, and the overlay is applied there. The sizes are \<open>size_t\<close>.
\<close>

definition fdt_merge_overlay ::
  "mem \<Rightarrow> addr \<Rightarrow> int \<Rightarrow> addr \<Rightarrow> int \<Rightarrow> addr \<Rightarrow> int \<Rightarrow> (rc \<times> mem) option" where
  "fdt_merge_overlay m primary_blob pb_size overlay_blob ob_size merge_blob mb_size =
     (if primary_blob = NULL \<or> overlay_blob = NULL \<or> merge_blob = NULL then Some (Qc NULLPTR, m)
      else do {
        r \<leftarrow> fdt_check_for_valid_blob m primary_blob pb_size;
        if r \<noteq> NOERROR then Some (r, m)
        else do {
          r \<leftarrow> fdt_check_for_valid_blob m overlay_blob ob_size;
          if r \<noteq> NOERROR then Some (r, m)
          else do {
            otot \<leftarrow> fdt_totalsize m overlay_blob;
            ptot \<leftarrow> fdt_totalsize m primary_blob;
            if mb_size \<le> otot \<or> mb_size \<le> ptot then Some (Qc BUF2SMALL, m)
            else if ptot > u64 (mb_size - otot) then Some (Qc BUF2SMALL, m)
            else do {
              (ret, m) \<leftarrow> fdt_open_into m primary_blob merge_blob (s32 mb_size);
              if ret \<noteq> 0 then Some (Ret ret, m)
              else do {
                (ret, m) \<leftarrow> fdt_overlay_apply m merge_blob overlay_blob;
                if ret \<noteq> 0 then Some (Ret ret, m)
                else do {
                  ret \<leftarrow> fdt_check_header m merge_blob;
                  Some (if ret \<noteq> 0 then Ret (- FDT_ERR_BADMAGIC) else NOERROR, m) } } } } } })"

end
