(* ===== verification/Merge_Props.thy ===== *)
theory Merge_Props
  imports Overlay_Props Ext_Merge Write_Props
begin

text \<open>
  The properties of the overlays: merging the properties of a node, the marks that an application
  leaves in both trees, and the results of \<open>fdt_merge_overlay\<close>.
\<close>

section \<open>A memory with two trees\<close>

text \<open>The tree of the driver queries at 8192 and a copy of it, the overlay, at 16384.\<close>

definition overlay_mem :: mem where
  "overlay_mem a = (if 16384 \<le> a then edit_mem (a - 8192) else edit_mem a)"

lemma layout_shift:
  assumes l: "layout m fdt ts os ot S T" and eq: "\<And>x. fdt \<le> x \<Longrightarrow> x < fdt + ts \<Longrightarrow> m' (x + d) = m x"
    and d: "0 \<le> d" "d mod 8 = 0"
  shows "layout m' (fdt + d) ts os ot S T"
proof -
  note l' = layout_fields [OF l]
  have e: "m' (fdt + (d + j)) = m (fdt + j)" if "0 \<le> j" "j < ts" for j
    using eq [of "fdt + j"] that by (simp add: add.commute add.left_commute)
  have w: "fdt32_ld m' (fdt + d + k) = fdt32_ld m (fdt + k)" if "0 \<le> k" "k \<le> 36" for k
    using that l' by (simp add: fdt32_ld_def rd_def add.assoc e)
  have "fdt32_ld m' (fdt + d) = fdt32_ld m fdt" using w [of 0] by simp
  moreover have "rd_bytes m' (fdt + d + os) (length S) = Some S" "rd_bytes m' (fdt + d + ot) (length T) = Some T"
    using l'(14,15) l'(9-11) unfolding rd_bytes_iff by (simp_all add: add.assoc e)
  moreover have "mapped m' (fdt + d) ts"
  proof -
    have "m' x \<noteq> None" if "fdt + d \<le> x" "x < fdt + d + ts" for x
      using eq [of "x - d"] l'(13) that by (auto simp: mapped_def)
    then show ?thesis by (auto simp: mapped_def)
  qed
  moreover have "fdt mod 8 = 0" using l unfolding layout_def by blast
  with d(2) have "(fdt + d) mod 8 = 0" by presburger
  ultimately show ?thesis using l d(1) w unfolding layout_def
    by (simp add: fdt_magic_def fdt_version_def fdt_totalsize_def fdt_last_comp_version_def fdt_off_dt_struct_def
      fdt_off_dt_strings_def fdt_off_mem_rsvmap_def fdt_size_dt_strings_def fdt_size_dt_struct_def)
qed

lemma overlay_mem_low: "x < 16384 \<Longrightarrow> overlay_mem x = edit_mem x"
  by (simp add: overlay_mem_def)

lemma overlay_base: "layout overlay_mem driver_blob 272 56 204 (uart_before @ uart_head @ uart_enc @ uart_after) edit_strings"
  by (rule layout_cong [OF edit_layout]) (simp add: overlay_mem_low)

lemma overlay_copy: "layout overlay_mem 16384 272 56 204 (uart_before @ uart_head @ uart_enc @ uart_after) edit_strings"
  using layout_shift [OF edit_layout, of overlay_mem 8192] by (simp add: overlay_mem_def)

lemma node_viewI:
  "\<lbrakk>layout m fdt ts os ot (pre @ he @ bs @ post) T; length pre mod 4 = 0; node_head nm he; props_enc T ps bs; props_end post\<rbrakk>
    \<Longrightarrow> node_view m fdt ts os ot pre he ps post T"
  unfolding node_view_def by (intro exI conjI)

lemma overlay_uart_at: "node_at 16384 272 56 40 overlay_mem uart_props"
proof -
  from uart_view obtain bs nm where v: "length uart_before mod 4 = 0" "node_head nm uart_head" "props_end uart_after"
    unfolding node_view_def by (elim exE conjE) (rule that)
  have "node_view overlay_mem 16384 272 56 204 uart_before uart_head uart_props uart_after edit_strings"
    by (rule node_viewI [OF overlay_copy v(1,2) uart_props_enc v(3)])
  moreover have "(40 :: int) = int (length uart_before)" by code_simp
  ultimately show ?thesis by (rule node_atI) simp
qed

text \<open>The node \<open>mem\<close> of the base tree, at offset 8.\<close>

definition mem_props :: "(byte list \<times> byte list) list" where
  "mem_props = [(chars ''reg'', be32 1 @ be32 0)]"

lemma base_mem_at: "node_at driver_blob 272 56 8 overlay_mem mem_props"
proof -
  let ?pre = "be32 FDT_BEGIN_NODE @ [0, 0, 0, 0]" and ?he = "be32 FDT_BEGIN_NODE @ chars ''mem'' @ [0]"
  let ?bs = "encoded 0 (be32 1 @ be32 0) @ []" and ?post = "be32 FDT_END_NODE @ uart_head @ uart_enc @ uart_after"
  have "uart_before @ uart_head @ uart_enc @ uart_after = ?pre @ ?he @ ?bs @ ?post" by code_simp
  with overlay_base have l: "layout overlay_mem driver_blob 272 56 204 (?pre @ ?he @ ?bs @ ?post) edit_strings" by (simp only:)
  have he: "node_head (chars ''mem'') ?he" unfolding node_head_def by (rule exI [of _ "[]"]) code_simp
  have "prop_enc edit_strings (chars ''reg'') (be32 1 @ be32 0) (encoded 0 (be32 1 @ be32 0))"
    by (rule encoded_enc) code_simp
  then have bs: "props_enc edit_strings mem_props ?bs"
    unfolding mem_props_def by (rule props_enc.prop_first) (rule props_enc.none)
  have post: "props_end ?post" unfolding props_end_def by blast
  have "node_view overlay_mem driver_blob 272 56 204 ?pre ?he mem_props ?post edit_strings"
    by (rule node_viewI [OF l _ he bs post]) simp
  then show ?thesis by (rule node_atI) simp_all
qed

section \<open>Properties of a node of the overlay\<close>

text \<open>
  C13: Applying the properties of a node of the overlay to a node of the base tree, the two blobs
  apart. On success a lookup in the target finds the value of the overlay for each of its
  properties and the old value for every other name; without space the same holds for some first
  part of the properties of the overlay. The overlay and everything else in memory stay as they are.
\<close>

theorem overlay_properties_merged:
  assumes "node_at fdt ts os target m ps" and "node_at fdto ts' os' off m qs"
    and "distinct (map fst qs)" and "apart fdt ts fdto ts'"
  shows "\<exists>c m' qs1 qs2. apply_properties m fdt target fdto off = Some (c, m') \<and> kept m m' fdt os ts \<and>
    qs = qs1 @ qs2 \<and> (c = 0 \<and> qs2 = [] \<or> c = - FDT_ERR_NOSPACE \<and> qs2 \<noteq> []) \<and>
    (\<forall>name. fdt_lookup fdt target m' name = Some ((map_of ps ++ map_of qs1) name)) \<and>
    node_at fdto ts' os' off m' qs"
proof -
  from apply_properties_merge [OF assms(1,2,4)] obtain c m' where
    m': "apply_properties m fdt target fdto off = Some (c, m')" "kept m m' fdt os ts" and
    r: "c = 0 \<and> node_at fdt ts os target m' (merge_props ps qs) \<or>
     c = - FDT_ERR_NOSPACE \<and> (\<exists>qs1 q qs2. qs = qs1 @ q # qs2 \<and> node_at fdt ts os target m' (merge_props ps qs1))"
    by (elim exE conjE) (rule that)
  have "\<exists>qs1 qs2. qs = qs1 @ qs2 \<and> (c = 0 \<and> qs2 = [] \<or> c = - FDT_ERR_NOSPACE \<and> qs2 \<noteq> []) \<and>
     node_at fdt ts os target m' (merge_props ps qs1)"
    using r by (elim disjE exE conjE) (rule exI [of _ qs], rule exI [of _ "[]"], simp, blast)
  then obtain qs1 qs2 where q: "qs = qs1 @ qs2" "c = 0 \<and> qs2 = [] \<or> c = - FDT_ERR_NOSPACE \<and> qs2 \<noteq> []"
     "node_at fdt ts os target m' (merge_props ps qs1)" by blast
  from assms(3) q(1) have "distinct (map fst qs1)" by simp
  with node_at_lookup [OF q(3)] have "fdt_lookup fdt target m' name = Some ((map_of ps ++ map_of qs1) name)" for name
    by (simp add: map_of_merge_props)
  with m' q(1,2) kept_node_at [OF assms(2) m'(2) assms(4)] show ?thesis by blast
qed

text \<open>The properties of \<open>uart\<close> in the copy go into \<open>mem\<close>.\<close>

theorem overlay_properties_merged_witness:
  "\<exists>c m' qs1 qs2. apply_properties overlay_mem driver_blob 8 16384 40 = Some (c, m') \<and> uart_props = qs1 @ qs2 \<and>
    (c = 0 \<and> qs2 = [] \<or> c = - FDT_ERR_NOSPACE \<and> qs2 \<noteq> []) \<and>
    (\<forall>name. fdt_lookup driver_blob 8 m' name = Some ((map_of mem_props ++ map_of qs1) name))"
proof -
  have "distinct (map fst uart_props)" by code_simp
  from overlay_properties_merged [OF base_mem_at overlay_uart_at this] show ?thesis
    unfolding apart_def by (elim meta_impE exE conjE) (simp, blast)
qed

section \<open>The marks of an application\<close>

lemma magic_kept:
  assumes "fdt_magic m a = v" and "\<And>x. a \<le> x \<Longrightarrow> x < a + 4 \<Longrightarrow> m' x = m x"
  shows "fdt_magic m' a = v"
  using assms unfolding fdt_magic_def by (subst fdt32_ld_cong [of m' a m]) auto

definition spoiled :: "mem \<Rightarrow> addr \<Rightarrow> bool" where
  "spoiled m fdt \<longleftrightarrow> fdt_magic m fdt = Some 4294967295"

lemma spoiled_probe: "spoiled m fdt \<Longrightarrow> fdt_ro_probe m fdt = Some n \<Longrightarrow> n < 0"
  by (auto simp: spoiled_def fdt_ro_probe_def bind_eq_Some_conv split: if_splits)

lemma set_spoiled: "fdt_set_magic m fdt 4294967295 = Some m' \<Longrightarrow> spoiled m' fdt"
  using u32_id [of 4294967295]
  by (auto simp: spoiled_def fdt_set_magic_def fdt32_st_def wr_def fdt_magic_def fdt32_ld_put split: if_splits)

lemma set_magic_other: "fdt_set_magic m fdt v = Some m' \<Longrightarrow> x < fdt \<or> fdt + 4 \<le> x \<Longrightarrow> m' x = m x"
  by (auto simp: fdt_set_magic_def fdt32_st_def wr_def put_bytes_other split: if_splits)

lemma overlay_apply_marks:
  assumes "fdt_overlay_apply m fdt fdto = Some (ret, m')" and "apart fdt 4 fdto 4"
    and "fdt_ro_probe m fdt = Some a" "0 \<le> a" "fdt_ro_probe m fdto = Some b" "0 \<le> b"
  shows "spoiled m' fdto \<and> (ret \<noteq> 0 \<longrightarrow> spoiled m' fdt)"
proof -
  from assms obtain m1 m2 where m1: "overlay_steps m fdt fdto = Some (ret, m1)"
    "fdt_set_magic m1 fdto 4294967295 = Some m2" "ret = 0 \<and> m' = m2 \<or> ret \<noteq> 0 \<and> fdt_set_magic m2 fdt 4294967295 = Some m'"
    by (auto simp: fdt_overlay_apply_def bind_eq_Some_conv split: if_splits)
  note s = set_spoiled [OF m1(2)]
  from m1(3) show ?thesis
  proof (elim disjE conjE)
    assume r: "ret \<noteq> 0" "fdt_set_magic m2 fdt 4294967295 = Some m'"
    have "m' x = m2 x" if "fdto \<le> x" "x < fdto + 4" for x
      using set_magic_other [OF r(2), of x] assms(2) that unfolding apart_def by linarith
    with s have "spoiled m' fdto" unfolding spoiled_def by (rule magic_kept)
    with set_spoiled [OF r(2)] show ?thesis by simp
  qed (use s in simp)
qed

text \<open>
  C14: An application to two trees that pass the probe, with headers that do not overlap. Whatever
  happens, the overlay cannot be used again; after an error the base tree cannot be used either: the
  magic number is overwritten and every later probe fails.
\<close>

theorem overlay_apply_spoils:
  assumes "fdt_overlay_apply m fdt fdto = Some (ret, m')" and "apart fdt 4 fdto 4"
    and "fdt_ro_probe m fdt = Some a" "0 \<le> a" "fdt_ro_probe m fdto = Some b" "0 \<le> b"
  shows "spoiled m' fdto \<and> (ret \<noteq> 0 \<longrightarrow> spoiled m' fdt) \<and>
    (\<forall>n. fdt_ro_probe m' fdto = Some n \<longrightarrow> n < 0) \<and> (ret \<noteq> 0 \<longrightarrow> (\<forall>n. fdt_ro_probe m' fdt = Some n \<longrightarrow> n < 0))"
  using overlay_apply_marks [OF assms] spoiled_probe by blast

text \<open>With a broken structure block of the overlay both are lost.\<close>

theorem overlay_apply_spoils_witness:
  "\<exists>m'. fdt_overlay_apply (overlay_mem(16451 := Some 9)) driver_blob 16384 = Some (- FDT_ERR_BADSTRUCTURE, m') \<and>
     spoiled m' 16384 \<and> spoiled m' driver_blob"
proof -
  let ?m = "overlay_mem(16451 := Some 9)"
  have "map_option fst (fdt_overlay_apply ?m driver_blob 16384) = Some (- FDT_ERR_BADSTRUCTURE)" by code_simp
  then obtain m' where m': "fdt_overlay_apply ?m driver_blob 16384 = Some (- FDT_ERR_BADSTRUCTURE, m')" by auto
  moreover have "fdt_ro_probe ?m driver_blob = Some 272" "fdt_ro_probe ?m 16384 = Some 272" by code_simp+
  ultimately show ?thesis using overlay_apply_spoils [OF m'] by (simp add: apart_def)
qed

section \<open>Merging two trees into a buffer\<close>

lemma overlay_apply_ok: "fdt_overlay_apply m fdt fdto = Some (0, m') \<Longrightarrow> spoiled m' fdto"
  by (auto simp: fdt_overlay_apply_def bind_eq_Some_conv set_spoiled split: if_splits)

text \<open>
  C15: \<open>fdt_merge_overlay\<close> of two trees that are valid for their buffers. A buffer smaller than both
  trees together is refused and nothing is written. A result of \<open>FDT_ERR_QC_NOERROR\<close> says that the
  buffer was large enough, that it holds a tree with a valid header, and that the overlay is used up.
\<close>

theorem merge_overlay_result:
  assumes "fdt_check_for_valid_blob m primary pb = Some NOERROR" and "fdt_check_for_valid_blob m overlay ob = Some NOERROR"
    and "primary \<noteq> NULL" and "overlay \<noteq> NULL" and "merge \<noteq> NULL"
    and "fdt_totalsize m primary = Some p" and "fdt_totalsize m overlay = Some n" and "0 < p" and "0 < n"
    and "0 \<le> mb" and "mb < 2 ^ 64"
    and "fdt_merge_overlay m primary pb overlay ob merge mb = Some (r, m')"
  shows "(mb < p + n \<longrightarrow> r = Qc BUF2SMALL \<and> m' = m) \<and>
    (r = NOERROR \<longrightarrow> p + n \<le> mb \<and> fdt_check_header m' merge = Some 0 \<and> spoiled m' overlay)"
proof -
  have u: "u64 (mb - n) = mb - n" if "n < mb" using that assms(9,11) by (intro u64_id) simp_all
  have small: "r = Qc BUF2SMALL \<and> m' = m" if "mb < p + n"
    using assms that u by (auto simp: fdt_merge_overlay_def split: if_splits)
  have "fdt_check_header m' merge = Some 0 \<and> spoiled m' overlay" if "r = NOERROR"
    using assms(1-7,12) that
    by (auto simp: fdt_merge_overlay_def bind_eq_Some_conv intro: overlay_apply_ok split: if_splits)
  with small show ?thesis by force
qed

text \<open>A buffer of 500 bytes is too small for the two trees.\<close>

theorem merge_overlay_result_witness:
  "\<exists>r m'. fdt_merge_overlay overlay_mem driver_blob 272 16384 272 32768 500 = Some (r, m') \<and>
    r = Qc BUF2SMALL \<and> m' = overlay_mem"
proof -
  have v: "fdt_check_for_valid_blob overlay_mem driver_blob 272 = Some NOERROR"
    "fdt_check_for_valid_blob overlay_mem 16384 272 = Some NOERROR"
    "fdt_totalsize overlay_mem driver_blob = Some 272" "fdt_totalsize overlay_mem 16384 = Some 272" by code_simp+
  have "map_option fst (fdt_merge_overlay overlay_mem driver_blob 272 16384 272 32768 500) = Some (Qc BUF2SMALL)" by code_simp
  then obtain r m' where f: "fdt_merge_overlay overlay_mem driver_blob 272 16384 272 32768 500 = Some (r, m')" by auto
  from merge_overlay_result [OF v(1,2) _ _ _ v(3,4) _ _ _ _ f] f show ?thesis by simp
qed

end
