(* ===== verification/DT_Get.thy ===== *)
theory DT_Get
  imports DT_Print Ext_Merge
begin

text \<open>
  \<open>get_dt\<close> (\<open>get_dt.c\<close>): the selected blobs are opened and read, the overlays are applied to the
  base tree in a buffer for all three, and the handle is closed. There is a version for each
  target; on XBL the base tree can also stay in the image (\<open>PRE\<close>). The steps are the pieces of
  the functions; a status other than 0 leaves for the label \<open>exit\<close> with the local variables as
  they are.
\<close>

abbreviation (input) GET_DT_ERR_INVALID_PARAMETER :: rc where "GET_DT_ERR_INVALID_PARAMETER \<equiv> Ret 1"
abbreviation (input) GET_DT_ERR_HANDLE_RETURN_ERROR :: rc where "GET_DT_ERR_HANDLE_RETURN_ERROR \<equiv> Ret 2"
abbreviation (input) GET_DT_ERR_INVALID_BASE_DTB_SIZE :: rc where "GET_DT_ERR_INVALID_BASE_DTB_SIZE \<equiv> Ret 3"
abbreviation (input) GET_DT_ERR_MALLOC_FAIL :: rc where "GET_DT_ERR_MALLOC_FAIL \<equiv> Ret 4"
abbreviation (input) GET_DT_ERR_SIZE_OVERFLOW :: rc where "GET_DT_ERR_SIZE_OVERFLOW \<equiv> Ret 5"
abbreviation (input) GET_DT_ERR_INVALID_BASE_DTB_PTR :: rc where "GET_DT_ERR_INVALID_BASE_DTB_PTR \<equiv> Ret 6"

text \<open>\<open>pre_or_post\<close>: \<open>PRE\<close> is 0, \<open>POST\<close> is 1.\<close>

datatype pre_or_post = PRE | POST

section \<open>The local variables\<close>

record dt_locals =
  g_base :: addr
  g_soc :: addr
  g_plat :: addr
  g_base_size :: int
  g_soc_size :: int
  g_plat_size :: int
  g_total :: int

type_synonym dt_run = "rc \<times> dt_locals \<times> mem \<times> heap"

definition no_locals :: dt_locals where
  "no_locals = \<lparr> g_base = NULL, g_soc = NULL, g_plat = NULL, g_base_size = 0, g_soc_size = 0, g_plat_size = 0, g_total = 0 \<rparr>"

text \<open>The next step, unless the status says to leave.\<close>

definition if_ok :: "dt_run option \<Rightarrow> (dt_locals \<Rightarrow> mem \<Rightarrow> heap \<Rightarrow> dt_run option) \<Rightarrow> dt_run option" where
  "if_ok r f = do {
     (st, l, m, hp) \<leftarrow> r;
     if st \<noteq> SUCCESS then Some (st, l, m, hp) else f l m hp }"

section \<open>Reading the blobs\<close>

text \<open>\<open>dt_select_read_blob\<close> with the bytes it copies stored in memory.\<close>

definition read_blob_into :: "mem \<Rightarrow> handle_data \<Rightarrow> blob_type \<Rightarrow> addr \<Rightarrow> int \<Rightarrow> (rc \<times> addr \<times> mem) option" where
  "read_blob_into m d t p n = do {
     (r, q, bs) \<leftarrow> dt_select_read_blob m (Some d) t (Some p) n;
     q \<leftarrow> q;
     m \<leftarrow> (if bs = [] then Some m else wr m q bs);
     Some (r, q, m) }"

text \<open>The sizes and the base tree; without an allocation the base tree stays in the image.\<close>

definition get_base :: "(nat \<Rightarrow> int \<Rightarrow> addr) \<Rightarrow> handle_data \<Rightarrow> bool \<Rightarrow> dt_locals \<Rightarrow> mem \<Rightarrow> heap \<Rightarrow> dt_run option" where
  "get_base al d alloc l m hp =
     (if g_base_size l = 0 then Some (GET_DT_ERR_INVALID_BASE_DTB_SIZE, l, m, hp)
      else let l = l \<lparr> g_total := u64 (g_base_size l + g_soc_size l) \<rparr>
      in if g_total l < g_soc_size l \<or> u64 (g_total l + g_plat_size l) < g_plat_size l
         then Some (GET_DT_ERR_SIZE_OVERFLOW, l, m, hp)
         else
           let l = l \<lparr> g_total := u64 (g_total l + g_plat_size l) \<rparr>;
               (p, hp) = (if alloc then MALLOC_WRAPPER al hp (g_total l) else (NULL, hp));
               l = l \<lparr> g_base := p \<rparr>
           in if alloc \<and> p = NULL then Some (GET_DT_ERR_MALLOC_FAIL, l, m, hp)
              else do {
                (r, q, m) \<leftarrow> read_blob_into m d BASE_DTB p (g_base_size l);
                Some (r, l \<lparr> g_base := q \<rparr>, m, hp) })"

definition get_soc :: "(nat \<Rightarrow> int \<Rightarrow> addr) \<Rightarrow> handle_data \<Rightarrow> dt_locals \<Rightarrow> mem \<Rightarrow> heap \<Rightarrow> dt_run option" where
  "get_soc al d l m hp =
     (if g_soc_size l = 0 then Some (SUCCESS, l, m, hp)
      else let (p, hp) = MALLOC_WRAPPER al hp (g_soc_size l)
      in if p = NULL then Some (GET_DT_ERR_MALLOC_FAIL, l \<lparr> g_soc := p \<rparr>, m, hp)
         else do {
           (r, q, m) \<leftarrow> read_blob_into m d SOC_DTBO p (g_soc_size l);
           Some (r, l \<lparr> g_soc := q \<rparr>, m, hp) })"

definition get_plat :: "(nat \<Rightarrow> int \<Rightarrow> addr) \<Rightarrow> handle_data \<Rightarrow> dt_locals \<Rightarrow> mem \<Rightarrow> heap \<Rightarrow> dt_run option" where
  "get_plat al d l m hp =
     (if g_plat_size l = 0 then Some (SUCCESS, l, m, hp)
      else let (p, hp) = MALLOC_WRAPPER al hp (g_plat_size l)
      in if p = NULL then Some (GET_DT_ERR_MALLOC_FAIL, l \<lparr> g_plat := p \<rparr>, m, hp)
         else do {
           (r, q, m) \<leftarrow> read_blob_into m d PLATFORM_DTBO p (g_plat_size l);
           Some (r, l \<lparr> g_plat := q \<rparr>, m, hp) })"

section \<open>Applying the overlays\<close>

text \<open>\<open>fdt_get_blob_size\<close> writes the low half of the \<open>size_t\<close> that holds the size of the base tree.\<close>

definition merge_soc :: "dt_locals \<Rightarrow> mem \<Rightarrow> heap \<Rightarrow> dt_run option" where
  "merge_soc l m hp =
     (if g_soc_size l = 0 then Some (SUCCESS, l, m, hp)
      else do {
        (r, m) \<leftarrow> fdt_merge_overlay m (g_base l) (g_base_size l) (g_soc l) (g_soc_size l)
          (g_base l) (u64 (g_base_size l + g_soc_size l));
        if r \<noteq> SUCCESS then Some (r, l, m, hp)
        else do {
          (r, n) \<leftarrow> fdt_get_blob_size m (Some \<lparr> blob = g_base l, offset = 0 \<rparr>) True;
          if r \<noteq> SUCCESS then Some (r, l, m, hp)
          else do {
            low \<leftarrow> n;
            hp \<leftarrow> FREE_WRAPPER hp (g_soc l) (g_soc_size l);
            Some (SUCCESS, l \<lparr> g_base_size := (g_base_size l div 4294967296) * 4294967296 + low, g_soc := NULL \<rparr>, m, hp) } } })"

definition merge_plat :: "dt_locals \<Rightarrow> mem \<Rightarrow> heap \<Rightarrow> dt_run option" where
  "merge_plat l m hp =
     (if g_plat_size l = 0 then Some (SUCCESS, l, m, hp)
      else do {
        (r, m) \<leftarrow> fdt_merge_overlay m (g_base l) (g_base_size l) (g_plat l) (g_plat_size l) (g_base l) (g_total l);
        if r \<noteq> SUCCESS then Some (r, l, m, hp)
        else do {
          hp \<leftarrow> FREE_WRAPPER hp (g_plat l) (g_plat_size l);
          Some (SUCCESS, l \<lparr> g_plat := NULL \<rparr>, m, hp) } })"

text \<open>
  \<open>PRE\<close>: the base tree is copied to the start of the image, with \<open>memcpy\<close>, so the two must not
  overlap; \<open>base_dtb_ptr\<close> stays where it is.
\<close>

definition copy_to_start :: "addr \<Rightarrow> int \<Rightarrow> dt_locals \<Rightarrow> mem \<Rightarrow> heap \<Rightarrow> dt_run option" where
  "copy_to_start start image_size l m hp =
     (if start = g_base l then Some (SUCCESS, l, m, hp)
      else if g_base l < start then Some (GET_DT_ERR_INVALID_BASE_DTB_PTR, l, m, hp)
      else do {
        (n, bs) \<leftarrow> MEMCPY_WRAPPER m image_size (g_base l) (g_base_size l);
        if g_base l < start + n then None
        else do {
          m \<leftarrow> wr m start bs;
          Some (SUCCESS, l \<lparr> g_base_size := n \<rparr>, m, hp) } })"

section \<open>The two versions\<close>

definition run_xbl ::
  "(nat \<Rightarrow> int \<Rightarrow> addr) \<Rightarrow> handle_data \<Rightarrow> addr \<Rightarrow> int \<Rightarrow> pre_or_post \<Rightarrow> dt_locals \<Rightarrow> mem \<Rightarrow> heap \<Rightarrow> dt_run option" where
  "run_xbl al d start image_size pp l m hp =
     if_ok (if_ok (if_ok (if_ok (if_ok (get_base al d (pp = POST) l m hp)
       (get_soc al d)) (get_plat al d))
       (\<lambda>l m hp. if pp = PRE then copy_to_start start image_size l m hp else Some (SUCCESS, l, m, hp)))
       merge_soc) merge_plat"

definition run_uefi ::
  "(nat \<Rightarrow> int \<Rightarrow> addr) \<Rightarrow> handle_data \<Rightarrow> dt_locals \<Rightarrow> mem \<Rightarrow> heap \<Rightarrow> dt_run option" where
  "run_uefi al d l m hp =
     if_ok (if_ok (if_ok (if_ok (get_base al d True l m hp) (get_soc al d)) merge_soc) (get_plat al d)) merge_plat"

definition free_unless_null :: "addr \<Rightarrow> int \<Rightarrow> heap \<Rightarrow> heap option" where
  "free_unless_null p n hp = (if p \<noteq> NULL then FREE_WRAPPER hp p n else Some hp)"

text \<open>The label \<open>exit\<close>: the status, \<open>*dtb_addr\<close> and \<open>*dtb_size\<close> when they are written, memory and heap.\<close>

definition get_dt_exit :: "opened option \<Rightarrow> dt_run \<Rightarrow> (rc \<times> (addr \<times> int) option \<times> mem \<times> heap) option" where
  "get_dt_exit op r = (case r of (st, l, m, hp) \<Rightarrow> do {
     hp \<leftarrow> (if st \<noteq> SUCCESS then do {
         hp \<leftarrow> free_unless_null (g_base l) (g_total l) hp;
         hp \<leftarrow> free_unless_null (g_soc l) (g_soc_size l) hp;
         free_unless_null (g_plat l) (g_plat_size l) hp }
       else Some hp);
     (r, hp) \<leftarrow> (case op of
         None \<Rightarrow> dt_select_close hp NULL None
       | Some h \<Rightarrow> dt_select_close hp (handle_ptr h) (Some (handle_content h)));
     Some (st, if st \<noteq> SUCCESS then None else Some (g_base l, g_total l), m, hp) })"

definition open_locals :: "opened \<Rightarrow> dt_locals" where
  "open_locals h = (case sizes h of (b, s, p) \<Rightarrow> no_locals \<lparr> g_base_size := b, g_soc_size := s, g_plat_size := p \<rparr>)"

definition get_dt ::
  "(nat \<Rightarrow> int \<Rightarrow> addr) \<Rightarrow> mem \<Rightarrow> ext_state \<Rightarrow> addr \<Rightarrow> int \<Rightarrow> chip_plat_info_property option \<Rightarrow>
     property_list list option \<Rightarrow> nat \<Rightarrow> bool \<Rightarrow> pre_or_post \<Rightarrow> heap \<Rightarrow> (rc \<times> (addr \<times> int) option \<times> mem \<times> heap) option" where
  "get_dt al m xs start image_size info props num out_ok pp hp =
     (if start = 0 \<or> info = None \<or> \<not> out_ok \<or> props = None \<and> num \<noteq> 0
      then get_dt_exit None (GET_DT_ERR_INVALID_PARAMETER, no_locals, m, hp)
      else do {
        (st, op, hp) \<leftarrow> dt_select_open al m xs start image_size info props num True hp;
        if st \<noteq> SUCCESS then get_dt_exit op (st, no_locals, m, hp)
        else case op of
            None \<Rightarrow> get_dt_exit None (GET_DT_ERR_HANDLE_RETURN_ERROR, no_locals, m, hp)
          | Some h \<Rightarrow> do {
              r \<leftarrow> (case target hp of
                  XBL \<Rightarrow> run_xbl al (handle_content h) start image_size pp (open_locals h) m hp
                | UEFI \<Rightarrow> run_uefi al (handle_content h) (open_locals h) m hp);
              get_dt_exit op r } })"

definition get_dt_free :: "heap \<Rightarrow> addr \<Rightarrow> int \<Rightarrow> heap option" where
  "get_dt_free hp dtb_address dtb_size =
     (if dtb_address \<noteq> 0 \<and> dtb_size \<noteq> 0 then FREE_WRAPPER hp dtb_address dtb_size else Some hp)"

end
