(* ===== verification/Get_Props.thy ===== *)
theory Get_Props
  imports DT_Get Open_Props Fdt_Layout "HOL-Library.Multiset"
begin

text \<open>
  The properties of \<open>get_dt\<close>: the heap after it, its result without overlays, and the release of
  memory of the image.
\<close>

section \<open>Blocks held by the local variables\<close>

definition block_of :: "addr \<Rightarrow> (addr \<times> mem_kind) multiset" where
  "block_of p = (if p = NULL then {#} else {#(p, Pool)#})"

lemma block_of_simps [simp]: "block_of 0 = {#}" "p \<noteq> 0 \<Longrightarrow> block_of p = {#(p, Pool)#}"
  by (simp_all add: block_of_def)

text \<open>On XBL, the live blocks are those of \<open>B\<close> and those of the three buffers.\<close>

definition holds :: "(addr \<times> mem_kind) multiset \<Rightarrow> dt_locals \<Rightarrow> heap \<Rightarrow> bool" where
  "holds B l hp \<longleftrightarrow> target hp = XBL \<and> NULL \<notin> fst ` set (live hp) \<and>
     (g_soc_size l = 0 \<longrightarrow> g_soc l = NULL) \<and> (g_plat_size l = 0 \<longrightarrow> g_plat l = NULL) \<and>
     mset (live hp) = B + block_of (g_base l) + block_of (g_soc l) + block_of (g_plat l)"

lemma malloc_xbl:
  "MALLOC_WRAPPER al hp n = (p, hp') \<Longrightarrow> target hp = XBL \<Longrightarrow>
    target hp' = XBL \<and> mset (live hp') = mset (live hp) + block_of p \<and>
    (NULL \<notin> fst ` set (live hp) \<longrightarrow> NULL \<notin> fst ` set (live hp'))"
  by (auto dest!: malloc_heap simp: kind_of_def block_of_def)

lemma free_xbl:
  assumes "FREE_WRAPPER hp p n = Some hp'" and "target hp = XBL" and "NULL \<notin> fst ` set (live hp)"
  shows "target hp' = XBL" "p \<noteq> NULL" "mset (live hp) = mset (live hp') + block_of p" "NULL \<notin> fst ` set (live hp')"
proof -
  from assms have r: "(p, Pool) \<in> set (live hp)" "hp' = hp \<lparr> live := remove1 (p, Pool) (live hp) \<rparr>"
    by (auto simp: FREE_WRAPPER_def release_def split: if_splits)
  then show p: "p \<noteq> NULL" using assms(3) by force
  show "target hp' = XBL" using r(2) assms(2) by simp
  show "mset (live hp) = mset (live hp') + block_of p" using r p by simp
  show "NULL \<notin> fst ` set (live hp')" using r(2) assms(3) set_remove1_subset [of "(p, Pool)" "live hp"] by auto
qed

lemma read_keeps_ptr:
  assumes "read_blob_into m d t p n = Some (r, q, m')" and "p \<noteq> NULL"
  shows "q = p"
proof -
  from assms(1) obtain bs where "dt_select_read_blob m (Some d) t (Some p) n = Some (r, Some q, bs)"
    by (auto simp: read_blob_into_def bind_eq_Some_conv)
  with assms(2) show ?thesis
    by (auto simp: dt_select_read_blob_def bind_eq_Some_conv Let_def split: if_splits option.splits)
qed

lemma read_result:
  assumes "do { (r, q, m) \<leftarrow> read_blob_into m d t p n; Some (r, f q, m, hp) } = Some (st, l', m', hp')" and "p \<noteq> NULL"
  shows "l' = f p \<and> hp' = hp"
  using assms by (auto simp: bind_eq_Some_conv dest!: read_keeps_ptr)

lemma get_base_holds:
  assumes g: "get_base al d True l m hp = Some (st, l', m', hp')" and h: "holds B l hp" and n: "g_base l = NULL"
  shows "holds B l' hp'" "g_soc l' = g_soc l" "g_plat l' = g_plat l" "st = SUCCESS \<Longrightarrow> g_base l' \<noteq> NULL"
proof -
  let ?t = "u64 (u64 (g_base_size l + g_soc_size l) + g_plat_size l)"
  obtain p hp1 where mal: "MALLOC_WRAPPER al hp ?t = (p, hp1)" by (cases "MALLOC_WRAPPER al hp ?t")
  have "st \<noteq> SUCCESS \<and> ((\<exists>t. l' = l \<lparr> g_total := t \<rparr>) \<or> l' = l) \<and> hp' = hp \<or>
      l' = l \<lparr> g_total := ?t, g_base := p \<rparr> \<and> hp' = hp1 \<and> (st = SUCCESS \<longrightarrow> p \<noteq> NULL)"
    using g mal by (auto simp: get_base_def Let_def split: if_splits
      dest!: read_result [where f = "\<lambda>q. l \<lparr> g_total := ?t, g_base := q \<rparr>"])
  then show "holds B l' hp'" "g_soc l' = g_soc l" "g_plat l' = g_plat l" "st = SUCCESS \<Longrightarrow> g_base l' \<noteq> NULL"
    using h n malloc_xbl [OF mal] by (auto simp: holds_def)
qed

lemma get_soc_holds:
  assumes g: "get_soc al d l m hp = Some (st, l', m', hp')" and h: "holds B l hp" and n: "g_soc l = NULL"
  shows "holds B l' hp'" "g_plat l' = g_plat l" "g_base l' = g_base l"
proof -
  obtain p hp1 where mal: "MALLOC_WRAPPER al hp (g_soc_size l) = (p, hp1)" by (cases "MALLOC_WRAPPER al hp (g_soc_size l)")
  have "l' = l \<and> hp' = hp \<or> g_soc_size l \<noteq> 0 \<and> l' = l \<lparr> g_soc := p \<rparr> \<and> hp' = hp1"
    using g mal by (auto simp: get_soc_def split: if_splits dest!: read_result [where f = "\<lambda>q. l \<lparr> g_soc := q \<rparr>"])
  then show "holds B l' hp'" "g_plat l' = g_plat l" "g_base l' = g_base l"
    using h n malloc_xbl [OF mal] by (auto simp: holds_def)
qed

lemma get_plat_holds:
  assumes g: "get_plat al d l m hp = Some (st, l', m', hp')" and h: "holds B l hp" and n: "g_plat l = NULL"
  shows "holds B l' hp'" "g_base l' = g_base l"
proof -
  obtain p hp1 where mal: "MALLOC_WRAPPER al hp (g_plat_size l) = (p, hp1)" by (cases "MALLOC_WRAPPER al hp (g_plat_size l)")
  have "l' = l \<and> hp' = hp \<or> g_plat_size l \<noteq> 0 \<and> l' = l \<lparr> g_plat := p \<rparr> \<and> hp' = hp1"
    using g mal by (auto simp: get_plat_def split: if_splits dest!: read_result [where f = "\<lambda>q. l \<lparr> g_plat := q \<rparr>"])
  then show "holds B l' hp'" "g_base l' = g_base l" using h n malloc_xbl [OF mal] by (auto simp: holds_def)
qed

lemma merge_soc_holds:
  assumes g: "merge_soc l m hp = Some (st, l', m', hp')" and h: "holds B l hp"
  shows "holds B l' hp'" "st = SUCCESS \<Longrightarrow> g_soc l' = NULL" "g_base l' = g_base l"
proof -
  have "l' = l \<and> hp' = hp \<and> (st = SUCCESS \<longrightarrow> g_soc_size l = 0)" if "\<not> (st = SUCCESS \<and> g_soc_size l \<noteq> 0)"
    using g that by (auto simp: merge_soc_def bind_eq_Some_conv split: if_splits)
  moreover have "g_base l' = g_base l \<and> g_soc l' = NULL \<and> g_plat l' = g_plat l \<and> g_plat_size l' = g_plat_size l \<and>
      FREE_WRAPPER hp (g_soc l) (g_soc_size l) = Some hp'" if "st = SUCCESS \<and> g_soc_size l \<noteq> 0"
  proof -
    from g that obtain r1 m1 where 1: "(if r1 \<noteq> SUCCESS then Some (r1, l, m1, hp)
        else do {
          (r, n) \<leftarrow> fdt_get_blob_size m1 (Some \<lparr> blob = g_base l, offset = 0 \<rparr>) True;
          if r \<noteq> SUCCESS then Some (r, l, m1, hp)
          else do {
            low \<leftarrow> n;
            hp \<leftarrow> FREE_WRAPPER hp (g_soc l) (g_soc_size l);
            Some (SUCCESS, l \<lparr> g_base_size := (g_base_size l div 4294967296) * 4294967296 + low, g_soc := NULL \<rparr>, m1, hp) } }) =
        Some (st, l', m', hp')"
      unfolding merge_soc_def by (auto elim: bind_pairE)
    then have "r1 = SUCCESS" using that by (cases "r1 = SUCCESS") simp_all
    with 1 obtain r2 n where 2: "(if r2 \<noteq> SUCCESS then Some (r2, l, m1, hp)
          else do {
            low \<leftarrow> n;
            hp \<leftarrow> FREE_WRAPPER hp (g_soc l) (g_soc_size l);
            Some (SUCCESS, l \<lparr> g_base_size := (g_base_size l div 4294967296) * 4294967296 + low, g_soc := NULL \<rparr>, m1, hp) }) =
        Some (st, l', m', hp')" by (auto elim: bind_pairE)
    then have "r2 = SUCCESS" using that by (cases "r2 = SUCCESS") simp_all
    with 2 show ?thesis by (auto simp: bind_eq_Some_conv)
  qed
  ultimately have c: "l' = l \<and> hp' = hp \<and> (st = SUCCESS \<longrightarrow> g_soc_size l = 0) \<or>
      g_base l' = g_base l \<and> g_soc l' = NULL \<and> g_plat l' = g_plat l \<and> g_plat_size l' = g_plat_size l \<and>
        FREE_WRAPPER hp (g_soc l) (g_soc_size l) = Some hp'" by blast
  then show "holds B l' hp'"
  proof (elim disjE conjE)
    assume f: "g_base l' = g_base l" "g_soc l' = NULL" "g_plat l' = g_plat l" "g_plat_size l' = g_plat_size l"
      "FREE_WRAPPER hp (g_soc l) (g_soc_size l) = Some hp'"
    with free_xbl [OF f(5)] h show ?thesis by (auto simp: holds_def)
  qed (use h in simp)
  from c h show "st = SUCCESS \<Longrightarrow> g_soc l' = NULL" "g_base l' = g_base l" by (auto simp: holds_def)
qed

lemma merge_plat_holds:
  assumes g: "merge_plat l m hp = Some (st, l', m', hp')" and h: "holds B l hp"
  shows "holds B l' hp'" "st = SUCCESS \<Longrightarrow> g_plat l' = NULL" "g_soc l' = g_soc l" "g_base l' = g_base l"
proof -
  have "l' = l \<and> hp' = hp \<and> (st = SUCCESS \<longrightarrow> g_plat_size l = 0)" if "\<not> (st = SUCCESS \<and> g_plat_size l \<noteq> 0)"
    using g that by (auto simp: merge_plat_def bind_eq_Some_conv split: if_splits)
  moreover have "l' = l \<lparr> g_plat := NULL \<rparr> \<and> FREE_WRAPPER hp (g_plat l) (g_plat_size l) = Some hp'"
    if "st = SUCCESS \<and> g_plat_size l \<noteq> 0"
    using g that by (auto simp: merge_plat_def bind_eq_Some_conv split: if_splits)
  ultimately have c: "l' = l \<and> hp' = hp \<and> (st = SUCCESS \<longrightarrow> g_plat_size l = 0) \<or>
      l' = l \<lparr> g_plat := NULL \<rparr> \<and> FREE_WRAPPER hp (g_plat l) (g_plat_size l) = Some hp'" by blast
  then show "holds B l' hp'"
  proof (elim disjE conjE)
    assume "l' = l \<lparr> g_plat := NULL \<rparr>" "FREE_WRAPPER hp (g_plat l) (g_plat_size l) = Some hp'"
    with free_xbl [OF this(2)] h show ?thesis by (auto simp: holds_def)
  qed (use h in simp)
  from c h show "st = SUCCESS \<Longrightarrow> g_plat l' = NULL" "g_soc l' = g_soc l" "g_base l' = g_base l" by (auto simp: holds_def)
qed

lemma run_xbl_holds:
  assumes r: "run_xbl al d start isize POST l m hp = Some (st, l', m', hp')" and h: "holds B l hp"
    and n: "g_base l = NULL" "g_soc l = NULL" "g_plat l = NULL"
  shows "holds B l' hp' \<and> (st = SUCCESS \<longrightarrow> g_soc l' = NULL \<and> g_plat l' = NULL \<and> g_base l' \<noteq> NULL)"
proof -
  from r obtain s1 l1 m1 h1 where 1: "get_base al d True l m hp = Some (s1, l1, m1, h1)"
    by (cases "get_base al d True l m hp") (auto simp: run_xbl_def if_ok_def)
  note i1 = get_base_holds [OF 1 h n(1)]
  show ?thesis
  proof (cases "s1 = SUCCESS")
    case False
    with r 1 i1 show ?thesis by (simp add: run_xbl_def if_ok_def)
  next
    case s1: True
    from r 1 s1 obtain s2 l2 m2 h2 where 2: "get_soc al d l1 m1 h1 = Some (s2, l2, m2, h2)"
      by (cases "get_soc al d l1 m1 h1") (auto simp: run_xbl_def if_ok_def)
    have "g_soc l1 = NULL" using i1 n by simp
    note i2 = get_soc_holds [OF 2 i1(1) this]
    show ?thesis
    proof (cases "s2 = SUCCESS")
      case False
      with r 1 s1 2 i1 i2 n show ?thesis by (simp add: run_xbl_def if_ok_def)
    next
      case s2: True
      from r 1 s1 2 s2 obtain s3 l3 m3 h3 where 3: "get_plat al d l2 m2 h2 = Some (s3, l3, m3, h3)"
        by (cases "get_plat al d l2 m2 h2") (auto simp: run_xbl_def if_ok_def)
      have "g_plat l2 = NULL" using i1 i2 n by simp
      note i3 = get_plat_holds [OF 3 i2(1) this]
      show ?thesis
      proof (cases "s3 = SUCCESS")
        case False
        with r 1 s1 2 s2 3 i3 show ?thesis by (simp add: run_xbl_def if_ok_def)
      next
        case s3: True
        from r 1 s1 2 s2 3 s3 obtain s4 l4 m4 h4 where 4: "merge_soc l3 m3 h3 = Some (s4, l4, m4, h4)"
          by (cases "merge_soc l3 m3 h3") (auto simp: run_xbl_def if_ok_def)
        note i4 = merge_soc_holds [OF 4 i3(1)]
        show ?thesis
        proof (cases "s4 = SUCCESS")
          case False
          with r 1 s1 2 s2 3 s3 4 i4 show ?thesis by (simp add: run_xbl_def if_ok_def)
        next
          case s4: True
          with r 1 s1 2 s2 3 s3 4 have 5: "merge_plat l4 m4 h4 = Some (st, l', m', hp')"
            by (simp add: run_xbl_def if_ok_def)
          have "g_base l4 \<noteq> NULL"
            using i1(4) [OF s1] i2(3) i3(2) i4(3) by simp
          with merge_plat_holds [OF 5 i4(1)] i4(2) [OF s4] show ?thesis by simp
        qed
      qed
    qed
  qed
qed

section \<open>A base tree alone\<close>

text \<open>The image of the samples up to the end of its base tree, with an allocator whose blocks are mapped.\<close>

definition low_alloc :: "nat \<Rightarrow> int \<Rightarrow> addr" where
  "low_alloc k n = 4400"

lemma low_alloc_ok: "alloc_fits low_alloc"
  by (simp add: alloc_fits_def low_alloc_def)

lemma base_image:
  "client_ok sample_mem (init_handle_input_data 272 sample_info None 0)"
  "image_mem XBL sample_mem 4096 272"
  "\<forall>b. 4096 \<le> b \<and> b < 4096 + 272 \<and> valid_blob sample_mem b \<longrightarrow> board_small XBL sample_mem b"
proof -
  show "client_ok sample_mem (init_handle_input_data 272 sample_info None 0)"
    by (auto simp: client_ok_def init_handle_input_data_def Let_def dest!: sample_strings)
  show "image_mem XBL sample_mem 4096 272"
    using sample_image_mem by (auto simp: image_mem_def intro: mapped_sub)
  have "b = sample_base" if "4096 \<le> b" "b < 4096 + 272" "valid_blob sample_mem b" for b
    using sample_only_blobs [of b] that by auto
  moreover have "board_small XBL sample_mem sample_base"
    using sample_names_size by (auto simp: board_small_def print_small_def sample_paths)
  ultimately show "\<forall>b. 4096 \<le> b \<and> b < 4096 + 272 \<and> valid_blob sample_mem b \<longrightarrow> board_small XBL sample_mem b" by auto
qed

lemma low_open: "\<exists>hp'. dt_select_open low_alloc sample_mem empty_state 4096 272 (Some sample_info) None 0 True empty_heap =
    Some (SUCCESS, Some \<lparr> handle_ptr = 4400, handle_content = (init_handle_data 4096)
      \<lparr> base_dtb_ptr := sample_base, base_dtb_size := 272 \<rparr>, sizes = (272, 0, 0) \<rparr>, hp')"
proof -
  have "map_option (\<lambda>(st, res, hp'). (st, res))
      (dt_select_open low_alloc sample_mem empty_state 4096 272 (Some sample_info) None 0 True empty_heap) =
    Some (SUCCESS, Some \<lparr> handle_ptr = 4400, handle_content = (init_handle_data 4096)
      \<lparr> base_dtb_ptr := sample_base, base_dtb_size := 272 \<rparr>, sizes = (272, 0, 0) \<rparr>)"
    by code_simp
  then show ?thesis by auto
qed

section \<open>The heap after \<open>get_dt\<close>\<close>

lemma free_unless_xbl:
  assumes "free_unless_null p n hp = Some hp'" and "target hp = XBL" and "NULL \<notin> fst ` set (live hp)"
  shows "target hp' = XBL" "mset (live hp) = mset (live hp') + block_of p" "NULL \<notin> fst ` set (live hp')"
  using assms free_xbl [of hp p n hp'] by (auto simp: free_unless_null_def split: if_splits)

text \<open>After a failure the blocks of \<open>B\<close> are left, after a success also the buffer that is returned.\<close>

lemma exit_xbl:
  assumes e: "get_dt_exit (Some op) (st, l, m, hp) = Some (r, out, m', hp')"
    and h: "holds ({#(handle_ptr op, Pool)#} + B) l hp" and op: "handle_ptr op \<noteq> NULL" "handle_check (Some (handle_content op)) = SUCCESS"
    and ok: "st = SUCCESS \<longrightarrow> g_soc l = NULL \<and> g_plat l = NULL"
  shows "r = st \<and> m' = m \<and> target hp' = XBL \<and> (case out of
      None \<Rightarrow> st \<noteq> SUCCESS \<and> mset (live hp') = B
    | Some (p, n) \<Rightarrow> st = SUCCESS \<and> p = g_base l \<and> n = g_total l \<and> mset (live hp') = B + block_of p)"
proof -
  from e obtain h1 where f: "(if st \<noteq> SUCCESS then do {
         hp \<leftarrow> free_unless_null (g_base l) (g_total l) hp;
         hp \<leftarrow> free_unless_null (g_soc l) (g_soc_size l) hp;
         free_unless_null (g_plat l) (g_plat_size l) hp }
       else Some hp) = Some h1"
    and c: "FREE_WRAPPER h1 (handle_ptr op) 64 = Some hp'"
    and o: "r = st" "m' = m" "out = (if st \<noteq> SUCCESS then None else Some (g_base l, g_total l))"
    using op by (auto simp: get_dt_exit_def dt_select_close_def bind_eq_Some_conv split: if_splits)
  have h1: "target h1 = XBL \<and> NULL \<notin> fst ` set (live h1) \<and>
      mset (live h1) = {#(handle_ptr op, Pool)#} + B + (if st = SUCCESS then block_of (g_base l) else {#})"
  proof (cases "st = SUCCESS")
    case True
    with f h ok show ?thesis by (simp add: holds_def)
  next
    case False
    with f obtain a b where fr: "free_unless_null (g_base l) (g_total l) hp = Some a" "free_unless_null (g_soc l) (g_soc_size l) a = Some b"
      "free_unless_null (g_plat l) (g_plat_size l) b = Some h1" by (auto simp: bind_eq_Some_conv)
    from h have "target hp = XBL" "NULL \<notin> fst ` set (live hp)" by (simp_all add: holds_def)
    note x = free_unless_xbl [OF fr(1) this]
    note y = free_unless_xbl [OF fr(2) x(1,3)]
    note z = free_unless_xbl [OF fr(3) y(1,3)]
    from False h x(2) y(2) z show ?thesis by (simp add: holds_def)
  qed
  then have "target h1 = XBL" "NULL \<notin> fst ` set (live h1)" by auto
  from free_xbl [OF c this] h1 o op(1) show ?thesis by auto
qed

text \<open>
  C16: \<open>get_dt\<close> on XBL with the base tree in a buffer of its own. Whenever it returns, the handle is
  closed and the buffers of the overlays are released; a failure leaves the heap as it was, a
  success leaves exactly the buffer that it returns.
\<close>

theorem get_dt_no_leak:
  assumes "get_dt al m xs start isize (Some info) props num True POST hp = Some (r, out, m', hp')"
    and "target hp = XBL" and "alloc_fits al" and "heap_ok hp"
    and "client_ok m (init_handle_input_data isize info props num)"
    and "image_mem XBL m start isize"
    and "\<forall>b. start \<le> b \<and> b < start + isize \<and> valid_blob m b \<longrightarrow> board_small XBL m b"
  shows "case out of
      None \<Rightarrow> r \<noteq> SUCCESS \<and> mset (live hp') = mset (live hp)
    | Some (p, n) \<Rightarrow> r = SUCCESS \<and> p \<noteq> NULL \<and> mset (live hp') = mset (live hp) + {#(p, Pool)#}"
proof (cases "start = 0 \<or> props = None \<and> num \<noteq> 0")
  case True
  with assms(1) show ?thesis
    by (auto simp: get_dt_def get_dt_exit_def no_locals_def free_unless_null_def dt_select_close_def)
next
  case False
  with assms(1) obtain st op h1 where o: "dt_select_open al m xs start isize (Some info) props num True hp = Some (st, op, h1)"
    and g: "(if st \<noteq> SUCCESS then get_dt_exit op (st, no_locals, m, h1)
        else case op of
            None \<Rightarrow> get_dt_exit None (GET_DT_ERR_HANDLE_RETURN_ERROR, no_locals, m, h1)
          | Some h \<Rightarrow> do {
              r \<leftarrow> (case target h1 of
                  XBL \<Rightarrow> run_xbl al (handle_content h) start isize POST (open_locals h) m h1
                | UEFI \<Rightarrow> run_uefi al (handle_content h) (open_locals h) m h1);
              get_dt_exit op r }) = Some (r, out, m', hp')"
    by (auto simp: get_dt_def elim!: bind_pairE)
  from open_outcome [OF o assms(3-5)] assms(2,6,7) have oc: "case op of
      None \<Rightarrow> st \<noteq> SUCCESS \<and> same_heap hp h1
    | Some op \<Rightarrow> st = SUCCESS \<and> handle_ptr op \<noteq> NULL \<and> target h1 = target hp \<and>
        live h1 = (handle_ptr op, Pool) # live hp \<and> selection_in m start isize (handle_content op) \<and>
        sizes op = (base_dtb_size (handle_content op), soc_dtbo_size (handle_content op),
          plat_dtbo_size (handle_content op))" by simp
  show ?thesis
  proof (cases op)
    case None
    with oc g show ?thesis
      by (auto simp: get_dt_exit_def no_locals_def free_unless_null_def dt_select_close_def same_heap_def)
  next
    case (Some h)
    with oc assms(2) have t: "st = SUCCESS" "handle_ptr h \<noteq> NULL" "target h1 = XBL" "live h1 = (handle_ptr h, Pool) # live hp"
      "handle_check (Some (handle_content h)) = SUCCESS" by (auto simp: selection_in_def handle_check_def)
    with g Some obtain st' l' m1 h2 where rx: "run_xbl al (handle_content h) start isize POST (open_locals h) m h1 = Some (st', l', m1, h2)"
      and e: "get_dt_exit (Some h) (st', l', m1, h2) = Some (r, out, m', hp')" by (auto simp: bind_eq_Some_conv)
    have n: "g_base (open_locals h) = NULL" "g_soc (open_locals h) = NULL" "g_plat (open_locals h) = NULL"
      by (simp_all add: open_locals_def no_locals_def split: prod.splits)
    have "holds ({#(handle_ptr h, Pool)#} + mset (live hp)) (open_locals h) h1"
      using t assms(4) n by (auto simp: holds_def heap_ok_def)
    from run_xbl_holds [OF rx this n] have hl: "holds ({#(handle_ptr h, Pool)#} + mset (live hp)) l' h2"
      and nu: "st' = SUCCESS \<longrightarrow> g_soc l' = NULL \<and> g_plat l' = NULL" and b: "st' = SUCCESS \<longrightarrow> g_base l' \<noteq> NULL" by auto
    from exit_xbl [OF e hl t(2,5) nu] b show ?thesis by (auto split: option.splits)
  qed
qed

text \<open>The image of the base tree alone: only the buffer is left.\<close>

theorem get_dt_no_leak_witness:
  "\<exists>r out m' hp'. get_dt low_alloc sample_mem empty_state 4096 272 (Some sample_info) None 0 True POST empty_heap = Some (r, out, m', hp') \<and>
    (case out of None \<Rightarrow> r \<noteq> SUCCESS \<and> mset (live hp') = {#}
     | Some (p, n) \<Rightarrow> r = SUCCESS \<and> p \<noteq> NULL \<and> mset (live hp') = {#(p, Pool)#})"
proof -
  have "map_option (\<lambda>(r, out, m', hp'). (r, out)) (get_dt low_alloc sample_mem empty_state 4096 272 (Some sample_info) None 0 True POST empty_heap) =
    Some (SUCCESS, Some (4400, 272))" by code_simp
  then obtain r out m' hp' where g: "get_dt low_alloc sample_mem empty_state 4096 272 (Some sample_info) None 0 True POST empty_heap = Some (r, out, m', hp')"
    by auto
  have t: "target empty_heap = XBL" "live empty_heap = []" by (simp_all add: empty_heap_def)
  have "case out of None \<Rightarrow> r \<noteq> SUCCESS \<and> mset (live hp') = {#}
     | Some (p, n) \<Rightarrow> r = SUCCESS \<and> p \<noteq> NULL \<and> mset (live hp') = {#(p, Pool)#}"
    using get_dt_no_leak [OF g t(1) low_alloc_ok sample_heap_ok base_image] unfolding t(2) by (cases out) (simp_all split: prod.splits)
  with g show ?thesis by blast
qed

section \<open>No overlays\<close>

text \<open>
  C17: When only a base tree has been selected, and the buffer can be allocated, \<open>get_dt\<close> succeeds
  (on UEFI, and on XBL with a buffer of its own): the buffer holds the bytes of the selected tree,
  nothing else is written, and only the buffer is left on the heap.
\<close>

theorem get_dt_base_only:
  assumes "dt_select_open al m xs start isize (Some info) props num True hp = Some (SUCCESS, Some op, hp1)"
    and "props = None \<longrightarrow> num = 0" and "start \<noteq> 0" and "sizes op = (n, 0, 0)" and "n \<noteq> 0"
    and "alloc_fits al" and "heap_ok hp" and "client_ok m (init_handle_input_data isize info props num)"
    and "image_mem (target hp) m start isize"
    and "\<forall>b. start \<le> b \<and> b < start + isize \<and> valid_blob m b \<longrightarrow> board_small (target hp) m b"
    and "al (requests hp1) n = p" and "p \<noteq> NULL" and "mapped m p n"
  shows "\<exists>hp' bs. get_dt al m xs start isize (Some info) props num True POST hp =
      Some (SUCCESS, Some (p, n), put_bytes m p bs, hp') \<and>
    rd_bytes m (base_dtb_ptr (handle_content op)) (nat n) = Some bs \<and>
    live hp' = (p, kind_of (target hp) n) # live hp"
proof -
  from open_outcome [OF assms(1,6-9)] assms(10) have o: "handle_ptr op \<noteq> NULL" "target hp1 = target hp"
    "live hp1 = (handle_ptr op, Pool) # live hp" "selection_in m start isize (handle_content op)"
    "sizes op = (base_dtb_size (handle_content op), soc_dtbo_size (handle_content op), plat_dtbo_size (handle_content op))"
    by auto
  let ?d = "handle_content op"
  from o(5) assms(4) have sz: "base_dtb_size ?d = n" "soc_dtbo_size ?d = 0" "plat_dtbo_size ?d = 0" by simp_all
  have img: "mapped m start isize" using assms(9) by (auto simp: image_mem_def intro: mapped_sub)
  from o(4) sz(1) assms(5) have "valid_blob m (base_dtb_ptr ?d)" "fdt_totalsize m (base_dtb_ptr ?d) = Some n"
    by (auto simp: selection_in_def selected_in_def)
  from valid_blob_size [OF this] have n: "0 < n" "n \<le> 4294967295" by auto
  then have u: "u64 n = n" by (intro u64_id) simp_all
  have "blob_of_type ?d BASE_DTB = Some (base_dtb_ptr ?d, n)" using sz by (simp add: blob_of_type_def)
  from read_in_selection [OF o(4) img this assms(5), of p] assms(12) obtain bs where
    bs: "rd_bytes m (base_dtb_ptr ?d) (nat n) = Some bs" "dt_select_read_blob m (Some ?d) BASE_DTB (Some p) n = Some (SUCCESS, Some p, bs)"
    by blast
  have lb: "length bs = nat n" using bs(1) by (simp add: rd_bytes_iff)
  then have "wr m p bs = Some (put_bytes m p bs)" using assms(13) n by (intro wr_ok) simp
  moreover have "bs \<noteq> []" using lb n by auto
  ultimately have rd: "read_blob_into m ?d BASE_DTB p n = Some (SUCCESS, p, put_bytes m p bs)"
    using bs(2) by (simp add: read_blob_into_def)
  obtain hp2 where mal: "MALLOC_WRAPPER al hp1 n = (p, hp2)" "live hp2 = (p, kind_of (target hp) n) # live hp1" "target hp2 = target hp"
    using assms(11,12) o(2) by (simp add: MALLOC_WRAPPER_def Let_def)
  let ?l = "open_locals op"
  have l: "?l = no_locals \<lparr> g_base_size := n \<rparr>" using assms(4) by (simp add: open_locals_def no_locals_def)
  let ?r = "(SUCCESS, ?l \<lparr> g_total := n, g_base := p \<rparr>, put_bytes m p bs, hp2)"
  have base: "get_base al ?d True ?l m hp1 = Some ?r"
    using rd mal(1) u n assms(12) by (simp add: get_base_def Let_def l no_locals_def)
  have run: "run_xbl al ?d start isize POST ?l m hp1 = Some ?r" "run_uefi al ?d ?l m hp1 = Some ?r"
    using base by (simp_all add: run_xbl_def run_uefi_def if_ok_def get_soc_def get_plat_def merge_soc_def merge_plat_def l no_locals_def)
  have "(handle_ptr op, Pool) \<in> set (live hp2)" using mal(2) o(3) by simp
  moreover have "remove1 (handle_ptr op, Pool) (live hp2) = (p, kind_of (target hp) n) # live hp" using mal(2) o(3) by auto
  ultimately have "FREE_WRAPPER hp2 (handle_ptr op) 64 = Some (hp2 \<lparr> live := (p, kind_of (target hp) n) # live hp \<rparr>)"
    using free_balanced [of hp2 64 "handle_ptr op"] by (simp add: balanced_def release_def)
  then have cl: "dt_select_close hp2 (handle_ptr op) (Some ?d) = Some (SUCCESS, hp2 \<lparr> live := (p, kind_of (target hp) n) # live hp \<rparr>)"
    using o(1,4) by (simp add: dt_select_close_def handle_check_def selection_in_def)
  have guard: "(start = 0 \<or> Some info = None \<or> \<not> True \<or> props = None \<and> num \<noteq> 0) = False" using assms(2,3) by auto
  have "get_dt al m xs start isize (Some info) props num True POST hp =
      Some (SUCCESS, Some (p, n), put_bytes m p bs, hp2 \<lparr> live := (p, kind_of (target hp) n) # live hp \<rparr>)"
    unfolding get_dt_def guard if_False using assms(1) run cl by (cases "target hp1") (simp_all add: get_dt_exit_def)
  with bs(1) show ?thesis by auto
qed

theorem get_dt_base_only_witness:
  "\<exists>hp' bs. get_dt low_alloc sample_mem empty_state 4096 272 (Some sample_info) None 0 True POST empty_heap =
      Some (SUCCESS, Some (4400, 272), put_bytes sample_mem 4400 bs, hp') \<and>
    rd_bytes sample_mem sample_base 272 = Some bs \<and> live hp' = [(4400, Pool)]"
proof -
  from low_open obtain hp1 where o: "dt_select_open low_alloc sample_mem empty_state 4096 272 (Some sample_info) None 0 True empty_heap =
    Some (SUCCESS, Some \<lparr> handle_ptr = 4400, handle_content = (init_handle_data 4096)
      \<lparr> base_dtb_ptr := sample_base, base_dtb_size := 272 \<rparr>, sizes = (272, 0, 0) \<rparr>, hp1)" by blast
  have m: "mapped sample_mem 4400 272" using sample_image_mem by (auto simp: image_mem_def intro: mapped_sub)
  have t: "target empty_heap = XBL" "live empty_heap = []" by (simp_all add: empty_heap_def)
  from get_dt_base_only [OF o _ _ _ _ low_alloc_ok sample_heap_ok base_image(1), of 272 4400] base_image(2,3) m t show ?thesis
    by (simp add: low_alloc_def kind_of_def)
qed

end
