(* ===== verification/Spec2Isabelle.thy ===== *)
theory Spec2Isabelle
  imports Write_Props Open_Props Hash_Props Merge_Props Get_Props
begin

text \<open>
  \<^bold>\<open>DTFramework: reading device trees and selecting the blobs of a device\<close>

  The framework has four libraries under \<open>src/libs\<close>. \<open>libfdt\<close> reads flattened device trees;
  \<open>DTBExtnLib\<close> puts handles, a table of registered blobs and typed property readers on top of
  it; \<open>DTSelectLib\<close> walks over an image of concatenated blobs and selects one base tree, one SOC
  overlay and one platform overlay for the chip and the platform of the device; \<open>libufdt\<close>
  applies overlays.

  \<^bold>\<open>Memory.\<close> A blob is bytes at an address. A memory is a partial function from addresses to
  bytes, and every read of the model is in the \<open>option\<close> monad: \<open>None\<close> is undefined behaviour of
  C (an access outside the mapped memory, a division by zero, a shift out of range), so a lemma
  that an operation gives \<open>Some\<close> is a memory safety statement. Errors of the code are values. C
  integers are HOL integers with \<open>u32\<close>, \<open>u64\<close>, \<open>s32\<close> where a conversion wraps; fields that the
  code compares or packs bitwise are words. An output parameter is a component of the result, a
  pointer that is only tested against NULL is a Boolean, a pointer to a string or a buffer is an
  option.

  \<^bold>\<open>Theories\<close>

  \<^item> \<open>DT_Prelude\<close>: C integers, memory, byte order, C strings; the collections shared by all.
  \<^item> \<open>Fdt_Core\<close> (\<open>libfdt/fdt.c\<close>): header, offsets, the tag reader, the walks over nodes, with
    their termination proofs (offsets grow, and a structure block ends below \<open>INT_MAX\<close>).
  \<^item> \<open>Fdt_Ro\<close> (\<open>libfdt/fdt_ro.c\<close>): names, properties, paths, aliases, phandles, parents.
  \<^item> \<open>Fdt_Safe\<close>: in a valid blob (mapped, header accepted) all of these are defined, and the
    pointers they return lie in the blob.
  \<^item> \<open>Fdt_List\<close> (\<open>fdt_ro.c\<close>, \<open>fdt_addresses.c\<close>): memory reservations, paths of nodes, lists of
    strings and what a search in a list decides, compatible nodes, cell counts.
  \<^item> \<open>Fdt_Check\<close> (\<open>fdt_check.c\<close>): the full check, and the grammar of the structure blocks it accepts.
  \<^item> \<open>Fdt_Write\<close> (\<open>fdt_wip.c\<close>, the setters of \<open>libfdt.h\<close>), \<open>Fdt_Rw\<close> (\<open>fdt_rw.c\<close>), \<open>Fdt_Sw\<close>
    (\<open>fdt_sw.c\<close>, \<open>fdt_empty_tree.c\<close>): the operations that write; they return the new memory.
  \<^item> \<open>Fdt_Layout\<close>: a tree as a structure block and a strings block (\<open>layout\<close>), and what the splices
    and stores do to them; \<open>Fdt_Encode\<close>: the encoding of a node and its properties (\<open>node_view\<close>), on
    which \<open>fdt_getprop\<close> is a lookup; \<open>Fdt_Edit\<close>, \<open>Fdt_Node_Edit\<close>: the edits of properties, new nodes,
    and the move to a larger buffer refine operations on lists; \<open>Fdt_Open\<close>: opening a tree whose
    blocks are in any order packs them (\<open>fdt_packblocks\<close>).
  \<^item> \<open>Fdt_Store\<close>: the locale \<open>value_store\<close> of an editable list of named values, with the lemmas on
    sequences of edits, interpreted on the properties of a node.
  \<^item> \<open>Sample\<close>: a concrete image of five blobs, on which the witnesses evaluate.
  \<^item> \<open>Ext_Core\<close>, \<open>Ext_Blob\<close> (\<open>DTBExtnLib_blob.c\<close>): the check of a blob, the table of blobs.
  \<^item> \<open>Ext_Prop\<close> (\<open>DTBExtnLib_prop.c\<close>): the typed readers and their specification.
  \<^item> \<open>Ext_Node\<close> (\<open>DTBExtnLib_node.c\<close>): handles and the loops over properties and subnodes. The
    locale \<open>offset_walk\<close> is the contract of an iterator over offsets; it is interpreted on the
    two iterators of \<open>libfdt.h\<close>.
  \<^item> \<open>Ext_Props\<close>: the properties of the extension library.
  \<^item> \<open>Ext_Driver\<close> (\<open>DTBExtnLib_driver.c\<close>): the queries for drivers; \<open>Driver_Props\<close>: their
    properties and that of the full check.
  \<^item> \<open>Ext_Create\<close> (\<open>DTBExtnLib_create-dtb.c\<close>): new trees and nodes, lists of numbers;
    \<open>Write_Props\<close>: the properties of the write access and of the creation of trees.
  \<^item> \<open>Ext_Hash\<close> (\<open>DTBExtnLib_node.c\<close> with \<open>ENABLE_HASH_FOR_DTB\<close>): the table of nodes, the cache of
    phandles and the two lookups that use them; \<open>Hash_Props\<close>: the table that is created holds the
    nodes of the tree, and the lookups agree with those of libfdt. \<open>Ext_Node\<close> and \<open>Ext_Blob\<close> are the
    build without the table.
  \<^item> \<open>Fdt_Overlay\<close> (\<open>fdt_overlay.c\<close>), \<open>Ext_Merge\<close> (\<open>DTBExtnLib_overlay.c\<close>): the application of an
    overlay; \<open>Overlay_Props\<close>: the properties of a node of an overlay are merged into the target;
    \<open>Merge_Props\<close>: the properties of the overlays.
  \<^item> \<open>DT_Env\<close> (\<open>Environment/dt_select_env.c\<close>): the heap and the wrappers.
  \<^item> \<open>DT_Select\<close> (\<open>dt_select.c\<close>): the checks on a blob and the selection loop.
  \<^item> \<open>DT_Check\<close>: what the checks decide, on the bytes of the properties.
  \<^item> \<open>DT_Best\<close>: the selection of the first best item, as the locale \<open>selection\<close> of an order on
    keys, interpreted on the orders of the SOC and the platform overlays.
  \<^item> \<open>DT_Loop\<close>: the loop over an image of valid blobs (an inductive relation) selects the first
    best blobs; \<open>DT_Safe\<close>: on an image of any bytes whose blobs have tame properties the loop is
    defined and stays in the image; \<open>DT_Bytes\<close>: without that assumption, what returns has restored
    the heap and selected blobs of the image, and only a wild blob makes the loop undefined.
  \<^item> \<open>Select_Props\<close>: the properties of the selection.
  \<^item> \<open>DT_Print\<close> (\<open>dt_select.c\<close>): the printing functions, as the positions they reach in their
    buffer, and \<open>dt_select_open\<close>; \<open>Open_Safe\<close>: they leave the heap as it was, and where a text
    leaves its buffer; \<open>Open_Props\<close>: the properties of opening and printing.
  \<^item> \<open>DT_Get\<close> (\<open>get_dt.c\<close>): the selected blobs read and merged; \<open>Get_Props\<close>: its properties.

  \<^bold>\<open>Bounds.\<close> No operation runs on fuel: a loop is a function with a measure, and a loop that may
  not end (\<open>strlen\<close> of memory without a terminator) is a partial function. Addresses are below
  2^64, offsets are C integers.

  \<^bold>\<open>Parameters.\<close> The allocators behind the wrappers are a function from the number of the request
  and its size to an address; NULL is a failure. \<open>DTBDefs.h\<close> is not part of the sources, so the
  codes it defines are the constructors of \<open>qc_err\<close>, and the size of the table of blobs is the
  length of a list.

  \<^bold>\<open>Not modelled.\<close> Debug output and profiling; \<open>FDT_ASSUME_MASK\<close> other than 0; \<open>libufdt\<close>, which
  applies overlays to a tree of nodes of its own instead of the flat blob and which the other three
  libraries do not call; tests, tools and system dependencies.
\<close>

end
